(* ===== verification/Ipc_Prelude.thy ===== *)
theory Ipc_Prelude
  imports Main "HOL-Library.Word" "HOL-Library.Monad_Syntax"
begin

text \<open>
  Prelude of the development: the machine types of the 32-bit Windows build
  (\<open>int\<close>, \<open>long\<close>, \<open>size_t\<close> and pointers have 32 bits, \<open>wchar_t\<close> has 16), bytes in memory,
  little-endian loads and stores, and the generic lemmas the components share.

  Conventions used by every theory of the development:
  \<^item> a C++ \<open>int\<close> and a \<open>size_t\<close> are both \<^typ>\<open>32 word\<close>; \<open>sint\<close> reads the first, \<open>unat\<close> the second;
  \<^item> an operation whose C++ code can fault (null dereference, access outside a buffer, failed
    \<open>CHECK\<close>) returns an option, and \<open>None\<close> is the fault; a C++ result such as a \<open>bool\<close> or a
    possibly null pointer is a value inside the option;
  \<^item> \<open>DCHECK\<close> and \<open>NOTREACHED\<close> are compiled out, as in the release build.
\<close>

section \<open>Machine types and collections of facts\<close>

type_synonym u8 = "8 word"
type_synonym u16 = "16 word"
type_synonym u32 = "32 word"
type_synonym i32 = "32 word"
type_synonym u64 = "64 word"
type_synonym bytes = "u8 list"

named_theorems mem_simps "loads, stores and copies in a byte buffer"
named_theorems inv_intros "introduction rules for the invariants"

section \<open>Little-endian numbers\<close>

fun le_bytes :: "nat \<Rightarrow> nat \<Rightarrow> bytes" where
  "le_bytes 0 v = []"
| "le_bytes (Suc n) v = of_nat (v mod 256) # le_bytes n (v div 256)"

fun le_val :: "bytes \<Rightarrow> nat" where
  "le_val [] = 0"
| "le_val (b # bs) = unat b + 256 * le_val bs"

lemma length_le_bytes [simp]: "length (le_bytes n v) = n"
  by (induction n arbitrary: v) auto

lemma unat_of_nat_byte: "unat (of_nat (v mod 256) :: u8) = v mod 256"
  by (simp add: unat_of_nat)

lemma le_val_bytes: "le_val (le_bytes n v) = v mod 256 ^ n"
proof (induction n arbitrary: v)
  case 0
  then show ?case by simp
next
  case (Suc n)
  have "v mod (256 * 256 ^ n) = 256 * (v div 256 mod 256 ^ n) + v mod 256"
    by (rule mod_mult2_eq)
  then show ?case by (simp add: Suc.IH unat_of_nat)
qed

lemma le_val_bound: "le_val bs < 256 ^ length bs"
proof (induction bs)
  case Nil
  then show ?case by simp
next
  case (Cons b bs)
  have "unat b < 256" using unsigned_less [of b] by simp
  moreover have "le_val bs + 1 \<le> 256 ^ length bs" using Cons.IH by simp
  then have "256 * (le_val bs + 1) \<le> 256 * 256 ^ length bs" by (rule mult_le_mono2)
  ultimately show ?case by simp
qed

lemma le_bytes_val: "le_bytes (length bs) (le_val bs) = bs"
proof (induction bs)
  case Nil
  then show ?case by simp
next
  case (Cons b bs)
  have lt: "unat b < 256" using unsigned_less [of b] by simp
  then have "(unat b + 256 * le_val bs) mod 256 = unat b" by simp
  moreover have "(unat b + 256 * le_val bs) div 256 = le_val bs" using lt by simp
  ultimately show ?case using Cons.IH by simp
qed

text \<open>Machine words as bytes in memory: two, four and eight bytes.\<close>

definition bytes16 :: "u16 \<Rightarrow> bytes" where "bytes16 w = le_bytes 2 (unat w)"
definition bytes32 :: "u32 \<Rightarrow> bytes" where "bytes32 w = le_bytes 4 (unat w)"
definition bytes64 :: "u64 \<Rightarrow> bytes" where "bytes64 w = le_bytes 8 (unat w)"
definition word16 :: "bytes \<Rightarrow> u16" where "word16 bs = of_nat (le_val bs)"
definition word32 :: "bytes \<Rightarrow> u32" where "word32 bs = of_nat (le_val bs)"
definition word64 :: "bytes \<Rightarrow> u64" where "word64 bs = of_nat (le_val bs)"

lemma length_bytes_words [simp]:
  "length (bytes16 a) = 2" "length (bytes32 b) = 4" "length (bytes64 c) = 8"
  by (simp_all add: bytes16_def bytes32_def bytes64_def)

lemma bytes_words_neq_Nil [simp]:
  "bytes16 a \<noteq> []" "bytes32 b \<noteq> []" "bytes64 c \<noteq> []"
  by (metis length_0_conv length_bytes_words(1) zero_neq_numeral,
      metis length_0_conv length_bytes_words(2) zero_neq_numeral,
      metis length_0_conv length_bytes_words(3) zero_neq_numeral)

lemma word_bytes [simp]:
  "word16 (bytes16 a) = a" "word32 (bytes32 b) = b" "word64 (bytes64 c) = c"
proof -
  have "unat a < 256 ^ 2" "unat b < 256 ^ 4" "unat c < 256 ^ 8"
    using unsigned_less [of a] unsigned_less [of b] unsigned_less [of c] by simp_all
  then show "word16 (bytes16 a) = a" "word32 (bytes32 b) = b" "word64 (bytes64 c) = c"
    by (simp_all add: word16_def bytes16_def word32_def bytes32_def word64_def bytes64_def
        le_val_bytes)
qed

lemma bytes_word32: "length bs = 4 \<Longrightarrow> bytes32 (word32 bs) = bs"
proof -
  assume l: "length bs = 4"
  have "le_val bs < 2 ^ 32" using le_val_bound [of bs] l by simp
  then have "unat (word32 bs) = le_val bs" by (simp add: word32_def unat_of_nat)
  then show "bytes32 (word32 bs) = bs" using le_bytes_val [of bs] l by (simp add: bytes32_def)
qed

section \<open>Buffers\<close>

text \<open>\<open>blit off src buf\<close> is \<open>memcpy(buf + off, src, src.size())\<close>; it faults outside the buffer.\<close>

definition blit :: "nat \<Rightarrow> bytes \<Rightarrow> bytes \<Rightarrow> bytes option" where
  "blit off src buf =
     (if off + length src \<le> length buf
      then Some (take off buf @ src @ drop (off + length src) buf) else None)"

definition load32 :: "bytes \<Rightarrow> nat \<Rightarrow> u32 option" where
  "load32 buf off =
     (if off + 4 \<le> length buf then Some (word32 (take 4 (drop off buf))) else None)"

definition store32 :: "nat \<Rightarrow> u32 \<Rightarrow> bytes \<Rightarrow> bytes option" where
  "store32 off w buf = blit off (bytes32 w) buf"

lemma blit_Some:
  "off + length src \<le> length buf \<Longrightarrow>
   blit off src buf = Some (take off buf @ src @ drop (off + length src) buf)"
  by (simp add: blit_def)

lemma blit_length: "blit off src buf = Some b \<Longrightarrow> length b = length buf"
  by (auto simp: blit_def split: if_splits)

lemma blit_before:
  "blit off src buf = Some b \<Longrightarrow> n \<le> off \<Longrightarrow> take n b = take n buf"
  by (auto simp: blit_def min_def split: if_splits)

lemma blit_at:
  "blit off src buf = Some b \<Longrightarrow> take (length src) (drop off b) = src"
  by (auto simp: blit_def min_def split: if_splits)

lemma blit_after:
  "blit off src buf = Some b \<Longrightarrow> off + length src \<le> n \<Longrightarrow> drop n b = drop n buf"
proof -
  assume b: "blit off src buf = Some b" and n: "off + length src \<le> n"
  from b have le: "off + length src \<le> length buf"
    and beq: "b = take off buf @ src @ drop (off + length src) buf"
    by (auto simp: blit_def split: if_splits)
  have "drop n b = drop (n - (off + length src)) (drop (off + length src) b)"
    using n by simp
  also have "drop (off + length src) b = drop (off + length src) buf"
    using le by (simp add: beq)
  finally show ?thesis using n by simp
qed

lemma blit_take_drop:
  assumes "blit off src buf = Some b" "n + m \<le> off"
  shows "take m (drop n b) = take m (drop n buf)"
proof -
  have "take m (drop n b) = drop n (take (n + m) b)" by (simp add: take_drop add.commute)
  also have "\<dots> = drop n (take (n + m) buf)" using blit_before [OF assms(1) assms(2)] by simp
  finally show ?thesis by (simp add: take_drop add.commute)
qed

lemma load32_blit_other:
  assumes "blit off src buf = Some b" "n + 4 \<le> off \<or> off + length src \<le> n"
  shows "load32 b n = load32 buf n"
  using assms(2)
proof
  assume "n + 4 \<le> off"
  then show ?thesis
    using blit_take_drop [OF assms(1)] blit_length [OF assms(1)] by (simp add: load32_def)
next
  assume "off + length src \<le> n"
  then show ?thesis
    using blit_after [OF assms(1)] blit_length [OF assms(1)] by (simp add: load32_def)
qed

lemma store32_Some: "off + 4 \<le> length buf \<Longrightarrow> \<exists>b. store32 off w buf = Some b"
  by (simp add: store32_def blit_def)

lemma load32_Some: "off + 4 \<le> length buf \<Longrightarrow> \<exists>w. load32 buf off = Some w"
  by (simp add: load32_def)

lemma load32_store32_same: "store32 off w buf = Some b \<Longrightarrow> load32 b off = Some w"
  using blit_at [of off "bytes32 w" buf b] blit_length [of off "bytes32 w" buf b]
  by (auto simp: store32_def load32_def blit_def split: if_splits)

lemma load32_store32_other:
  "store32 off w buf = Some b \<Longrightarrow> n + 4 \<le> off \<or> off + 4 \<le> n \<Longrightarrow> load32 b n = load32 buf n"
  using load32_blit_other [of off "bytes32 w" buf b n] by (simp add: store32_def)

lemma store32_length: "store32 off w buf = Some b \<Longrightarrow> length b = length buf"
  by (simp add: store32_def blit_length)

lemma store32_after: "store32 off w buf = Some b \<Longrightarrow> off + 4 \<le> n \<Longrightarrow> drop n b = drop n buf"
  using blit_after [of off "bytes32 w" buf b n] by (simp add: store32_def)

lemmas load_store_simps [mem_simps] =
  load32_store32_same store32_length blit_length

section \<open>Alignment of byte counts\<close>

text \<open>The mathematical rounding of a count to a multiple of four, and a block padded to it.\<close>

definition align4 :: "nat \<Rightarrow> nat" where "align4 n = n + (4 - n mod 4) mod 4"

definition pad4 :: "bytes \<Rightarrow> bytes" where
  "pad4 bs = bs @ replicate ((4 - length bs mod 4) mod 4) 0"

text \<open>The same rounding by division, which the arithmetic methods handle better.\<close>

lemma align4_eq: "align4 n = 4 * ((n + 3) div 4)"
proof -
  have n: "n = 4 * (n div 4) + n mod 4" by simp
  have "n mod 4 = 0 \<or> n mod 4 = 1 \<or> n mod 4 = 2 \<or> n mod 4 = 3" by arith
  then show ?thesis
  proof (elim disjE)
    assume m: "n mod 4 = 0"
    then have "(n + 3) div 4 = n div 4" by arith
    with m n show ?thesis by (simp add: align4_def)
  next
    assume m: "n mod 4 = 1"
    then have "(n + 3) div 4 = n div 4 + 1" by arith
    with m n show ?thesis by (simp add: align4_def)
  next
    assume m: "n mod 4 = 2"
    then have "(n + 3) div 4 = n div 4 + 1" by arith
    with m n show ?thesis by (simp add: align4_def)
  next
    assume m: "n mod 4 = 3"
    then have "(n + 3) div 4 = n div 4 + 1" by arith
    with m n show ?thesis by (simp add: align4_def)
  qed
qed

lemma align4_dvd [simp]: "4 dvd align4 n"
  by (simp add: align4_eq)

lemma align4_ge: "n \<le> align4 n" and align4_lt: "align4 n < n + 4"
  by (simp_all add: align4_def)

lemma align4_id [simp]: "4 dvd n \<Longrightarrow> align4 n = n"
  by (auto simp: align4_def)

lemma align4_add: "4 dvd n \<Longrightarrow> align4 (n + m) = n + align4 m"
proof -
  assume "4 dvd n"
  then obtain k where k: "n = 4 * k" by (elim dvdE)
  have "(4 * k + (m + 3)) div 4 = k + (m + 3) div 4" by simp
  then show ?thesis by (simp add: align4_eq k add.assoc)
qed

lemma align4_le_mono: "n \<le> m \<Longrightarrow> 4 dvd m \<Longrightarrow> align4 n \<le> m"
proof -
  assume "n \<le> m" "4 dvd m"
  moreover have "4 dvd align4 n" "align4 n < n + 4" by (simp_all add: align4_lt)
  ultimately show ?thesis by presburger
qed

lemma length_pad4 [simp]: "length (pad4 bs) = align4 (length bs)"
  by (simp add: pad4_def align4_def)

lemma pad4_id [simp]: "4 dvd length bs \<Longrightarrow> pad4 bs = bs"
  by (auto simp: pad4_def)

lemma take_pad4 [simp]: "take (length bs) (pad4 bs) = bs"
  by (simp add: pad4_def)

section \<open>Small facts on words\<close>

lemma unat_add_small:
  "unat (a :: u32) + unat b < 2 ^ 32 \<Longrightarrow> unat (a + b) = unat a + unat b"
  by (simp add: unat_word_ariths)

lemma unat_add_wraps:
  "2 ^ 32 \<le> unat (a :: u32) + unat b \<Longrightarrow> a + b < a"
proof -
  assume w: "2 ^ 32 \<le> unat (a :: u32) + unat b"
  have ab: "unat a < 2 ^ 32" "unat b < 2 ^ 32"
    using unsigned_less [of a] unsigned_less [of b] by simp_all
  have "unat (a + b) = (unat a + unat b) mod 2 ^ 32" by (simp add: unat_word_ariths)
  also have "\<dots> = (unat a + unat b - 2 ^ 32) mod 2 ^ 32" using w by (rule le_mod_geq)
  also have "\<dots> = unat a + unat b - 2 ^ 32" using ab by (intro mod_less) linarith
  finally show ?thesis using w ab(2) unfolding word_less_nat_alt by linarith
qed

lemma unat_sub_wraps: "unat (a :: u32) < unat b \<Longrightarrow> a < a - b"
proof -
  assume lt: "unat (a :: u32) < unat b"
  have "2 ^ 32 \<le> unat (a - b) + unat b"
  proof (rule ccontr)
    assume "\<not> 2 ^ 32 \<le> unat (a - b) + unat b"
    then have "unat (a - b + b) = unat (a - b) + unat b" by (intro unat_add_small) simp
    then show False using lt by simp
  qed
  then have "a - b + b < a - b" by (rule unat_add_wraps)
  then show "a < a - b" by simp
qed

lemma unat_lt32 [simp]: "unat (w :: u32) < 4294967296"
  using unsigned_less [of w] by simp

lemma sint_small: "unat (w :: i32) < 2 ^ 31 \<Longrightarrow> sint w = int (unat w)"
proof -
  assume "unat (w :: i32) < 2 ^ 31"
  then have "uint w < 2 ^ 31" by (metis of_nat_less_iff of_nat_numeral of_nat_power of_nat_unat)
  then have "signed_take_bit 31 (uint w) = uint w"
    by (intro signed_take_bit_int_eq_self) (auto intro: order_trans [OF _ uint_ge_0])
  then show "sint w = int (unat w)" by (simp add: sint_uint)
qed

lemma sint_neg: "2 ^ 31 \<le> unat (w :: i32) \<Longrightarrow> sint w < 0"
proof -
  assume a: "2 ^ 31 \<le> unat (w :: i32)"
  then have lo: "2 ^ 31 \<le> uint w" by (metis of_nat_le_iff of_nat_numeral of_nat_power of_nat_unat)
  have hi: "uint w < 2 ^ 32" using unsigned_less [of w] by simp
  have "signed_take_bit 31 (uint w - 2 ^ 32) = uint w - 2 ^ 32"
    using lo hi by (intro signed_take_bit_int_eq_self) simp_all
  moreover have "signed_take_bit 31 (uint w - 2 ^ 32) = signed_take_bit 31 (uint w)"
    by (simp add: signed_take_bit_eq_iff_take_bit_eq take_bit_eq_mod)
  ultimately have "sint w = uint w - 2 ^ 32" by (simp add: sint_uint)
  then show ?thesis using hi by simp
qed

end
