(* ===== verification/Pickle_Model.thy ===== *)
theory Pickle_Model
  imports Ipc_Prelude
begin

text \<open>
  \<open>base/pickle.h\<close> and \<open>base/pickle.cc\<close>: the buffer that every IPC message is.  A \<open>pickle\<close> is the
  object (its heap block is the byte list), \<open>PickleIterator\<close> the reader.  The C allocator is the
  parameter \<open>ra\<close>: \<open>ra h n\<close> is \<open>realloc(h, n)\<close>, which may fail and whose fresh bytes are arbitrary;
  \<open>realloc_ok\<close> is its documented contract.  Pointers into the block are offsets.
\<close>

section \<open>The object\<close>

type_synonym realloc_fn = "bytes option \<Rightarrow> nat \<Rightarrow> bytes option"

record pickle =
  pk_header :: "bytes option"
  pk_header_size :: u32
  pk_capacity :: u32
  pk_var_off :: u32

definition kPayloadUnit :: u32 where "kPayloadUnit = 64"
definition kCapacityReadOnly :: u32 where "kCapacityReadOnly = - 1"
definition sizeof_Header :: u32 where "sizeof_Header = 4"

definition AlignInt :: "u32 \<Rightarrow> u32 \<Rightarrow> u32" where
  "AlignInt i alignment = i + (alignment - (i mod alignment)) mod alignment"

definition payload_size :: "pickle \<Rightarrow> u32 option" where
  "payload_size p = (case pk_header p of None \<Rightarrow> None | Some b \<Rightarrow> load32 b 0)"

definition set_payload_size :: "u32 \<Rightarrow> pickle \<Rightarrow> pickle option" where
  "set_payload_size n p =
     (case pk_header p of None \<Rightarrow> None
      | Some b \<Rightarrow> map_option (\<lambda>b'. p\<lparr>pk_header := Some b'\<rparr>) (store32 0 n b))"

definition pickle_size :: "pickle \<Rightarrow> u32 option" where
  "pickle_size p = map_option (\<lambda>ps. pk_header_size p + ps) (payload_size p)"

text \<open>The \<open>size()\<close> bytes at \<open>data()\<close>: reading beyond the block fails.\<close>

definition pickle_data :: "pickle \<Rightarrow> bytes option" where
  "pickle_data p = do {
     n \<leftarrow> pickle_size p; b \<leftarrow> pk_header p;
     if length b < unat n then None else Some (take (unat n) b) }"

section \<open>Construction\<close>

definition Resize :: "realloc_fn \<Rightarrow> u32 \<Rightarrow> pickle \<Rightarrow> (bool \<times> pickle) option" where
  "Resize ra new_capacity p =
     (let n = AlignInt new_capacity kPayloadUnit
      in if pk_capacity p = kCapacityReadOnly then None
         else case ra (pk_header p) (unat n) of
                None \<Rightarrow> Some (False, p)
              | Some b \<Rightarrow> Some (True, p\<lparr>pk_header := Some b, pk_capacity := n\<rparr>))"

definition Pickle_default :: "realloc_fn \<Rightarrow> pickle option" where
  "Pickle_default ra = do {
     r \<leftarrow> Resize ra kPayloadUnit
            \<lparr>pk_header = None, pk_header_size = sizeof_Header, pk_capacity = 0, pk_var_off = 0\<rparr>;
     set_payload_size 0 (snd r) }"

definition Pickle_header_size :: "realloc_fn \<Rightarrow> u32 \<Rightarrow> pickle option" where
  "Pickle_header_size ra header_size = do {
     r \<leftarrow> Resize ra kPayloadUnit
            \<lparr>pk_header = None, pk_header_size = AlignInt header_size 4, pk_capacity = 0,
             pk_var_off = 0\<rparr>;
     set_payload_size 0 (snd r) }"

text \<open>\<open>Pickle(const char* data, int data_len)\<close>; the last argument is \<open>data_len\<close>.\<close>

definition Pickle_from_data :: "bytes \<Rightarrow> i32 \<Rightarrow> pickle option" where
  "Pickle_from_data data data_len = do {
     hs0 \<leftarrow> (if 4 \<le> sint data_len
             then map_option (\<lambda>ps. data_len - ps) (load32 data 0) else Some 0);
     let hs1 = (if hs0 > data_len then 0 else hs0);
     let hs2 = (if hs1 \<noteq> AlignInt hs1 4 then 0 else hs1);
     Some \<lparr>pk_header = (if hs2 = 0 then None else Some data), pk_header_size = hs2,
           pk_capacity = kCapacityReadOnly, pk_var_off = 0\<rparr> }"

definition Pickle_copy :: "realloc_fn \<Rightarrow> pickle \<Rightarrow> pickle option" where
  "Pickle_copy ra other = do {
     n \<leftarrow> pickle_size other;
     r \<leftarrow> Resize ra n
            \<lparr>pk_header = None, pk_header_size = pk_header_size other, pk_capacity = 0,
             pk_var_off = pk_var_off other\<rparr>;
     src \<leftarrow> pickle_data other;
     (if \<not> fst r then None
      else do { b \<leftarrow> pk_header (snd r); b' \<leftarrow> blit 0 src b;
                Some ((snd r)\<lparr>pk_header := Some b'\<rparr>) }) }"

text \<open>\<open>operator=\<close> for two different objects (for \<open>this == &other\<close> it returns at once).\<close>

definition Pickle_assign :: "realloc_fn \<Rightarrow> pickle \<Rightarrow> pickle \<Rightarrow> pickle option" where
  "Pickle_assign ra p other =
     (let p1 = (if pk_capacity p = kCapacityReadOnly
                then p\<lparr>pk_header := None, pk_capacity := 0\<rparr> else p);
          p2 = (if pk_header_size p1 \<noteq> pk_header_size other
                then p1\<lparr>pk_header := None, pk_header_size := pk_header_size other\<rparr> else p1)
      in do {
           n \<leftarrow> pickle_size other;
           r \<leftarrow> Resize ra n p2;
           src \<leftarrow> pickle_data other;
           (if \<not> fst r then None
            else do { b \<leftarrow> pk_header (snd r); b' \<leftarrow> blit 0 src b;
                      Some ((snd r)\<lparr>pk_header := Some b', pk_var_off := pk_var_off other\<rparr>) }) })"

section \<open>Writing\<close>

text \<open>\<open>BeginWrite\<close> returns the destination (an offset into the block) or null.\<close>

definition BeginWrite :: "realloc_fn \<Rightarrow> u32 \<Rightarrow> pickle \<Rightarrow> (u32 option \<times> pickle) option" where
  "BeginWrite ra len p = do {
     ps \<leftarrow> payload_size p;
     let offset = AlignInt ps 4;
     let new_size = offset + len;
     let needed_size = pk_header_size p + new_size;
     r \<leftarrow> (if needed_size > pk_capacity p
            then Resize ra (max (pk_capacity p * 2) needed_size) p else Some (True, p));
     (if \<not> fst r then Some (None, snd r)
      else do { p' \<leftarrow> set_payload_size new_size (snd r);
                Some (Some (pk_header_size p' + offset), p') }) }"

text \<open>\<open>EndWrite\<close>: the tail of the last word is zeroed; a store outside the block faults.\<close>

definition EndWrite :: "u32 \<Rightarrow> i32 \<Rightarrow> pickle \<Rightarrow> pickle option" where
  "EndWrite dest len p =
     (if len mod 4 \<noteq> 0
      then let pos = int (unat dest) + sint len
           in if pos < 0 then None
              else do { b \<leftarrow> pk_header p;
                        b' \<leftarrow> blit (nat pos) (replicate (unat (4 - len mod 4)) 0) b;
                        Some (p\<lparr>pk_header := Some b'\<rparr>) }
      else Some p)"

definition WriteBytes :: "realloc_fn \<Rightarrow> bytes \<Rightarrow> i32 \<Rightarrow> pickle \<Rightarrow> (bool \<times> pickle) option" where
  "WriteBytes ra data data_len p = do {
     r \<leftarrow> BeginWrite ra data_len p;
     (case fst r of
        None \<Rightarrow> Some (False, snd r)
      | Some dest \<Rightarrow>
          if length data < unat data_len then None
          else do { b \<leftarrow> pk_header (snd r);
                    b' \<leftarrow> blit (unat dest) (take (unat data_len) data) b;
                    p' \<leftarrow> EndWrite dest data_len ((snd r)\<lparr>pk_header := Some b'\<rparr>);
                    Some (True, p') }) }"

text \<open>The C idiom \<open>if (!a) return false; return b;\<close> over a state.\<close>

definition and_then ::
    "(pickle \<Rightarrow> (bool \<times> pickle) option) \<Rightarrow> (pickle \<Rightarrow> (bool \<times> pickle) option)
      \<Rightarrow> pickle \<Rightarrow> (bool \<times> pickle) option" where
  "and_then f g p = do { r \<leftarrow> f p; (if fst r then g (snd r) else Some (False, snd r)) }"

definition WriteInt :: "realloc_fn \<Rightarrow> i32 \<Rightarrow> pickle \<Rightarrow> (bool \<times> pickle) option" where
  "WriteInt ra value = WriteBytes ra (bytes32 value) 4"

definition WriteBool :: "realloc_fn \<Rightarrow> bool \<Rightarrow> pickle \<Rightarrow> (bool \<times> pickle) option" where
  "WriteBool ra value = WriteInt ra (if value then 1 else 0)"

definition WriteLong :: "realloc_fn \<Rightarrow> i32 \<Rightarrow> pickle \<Rightarrow> (bool \<times> pickle) option" where
  "WriteLong ra value = WriteBytes ra (bytes32 value) 4"

definition WriteUInt16 :: "realloc_fn \<Rightarrow> u16 \<Rightarrow> pickle \<Rightarrow> (bool \<times> pickle) option" where
  "WriteUInt16 ra value = WriteBytes ra (bytes16 value) 2"

definition WriteUInt32 :: "realloc_fn \<Rightarrow> u32 \<Rightarrow> pickle \<Rightarrow> (bool \<times> pickle) option" where
  "WriteUInt32 ra value = WriteBytes ra (bytes32 value) 4"

definition WriteInt64 :: "realloc_fn \<Rightarrow> u64 \<Rightarrow> pickle \<Rightarrow> (bool \<times> pickle) option" where
  "WriteInt64 ra value = WriteBytes ra (bytes64 value) 8"

definition WriteUInt64 :: "realloc_fn \<Rightarrow> u64 \<Rightarrow> pickle \<Rightarrow> (bool \<times> pickle) option" where
  "WriteUInt64 ra value = WriteBytes ra (bytes64 value) 8"

text \<open>A \<open>float\<close> is its 32-bit pattern.\<close>

definition WriteFloat :: "realloc_fn \<Rightarrow> u32 \<Rightarrow> pickle \<Rightarrow> (bool \<times> pickle) option" where
  "WriteFloat ra value = WriteBytes ra (bytes32 value) 4"

definition WriteString :: "realloc_fn \<Rightarrow> bytes \<Rightarrow> pickle \<Rightarrow> (bool \<times> pickle) option" where
  "WriteString ra value =
     and_then (WriteInt ra (of_nat (length value)))
              (WriteBytes ra value (of_nat (length value)))"

text \<open>\<open>wchar_t\<close> and \<open>char16\<close> are both 16-bit units on Windows.\<close>

definition units_bytes :: "u16 list \<Rightarrow> bytes" where "units_bytes us = concat (map bytes16 us)"

definition WriteWString :: "realloc_fn \<Rightarrow> u16 list \<Rightarrow> pickle \<Rightarrow> (bool \<times> pickle) option" where
  "WriteWString ra value =
     and_then (WriteInt ra (of_nat (length value)))
              (WriteBytes ra (units_bytes value) (of_nat (length value * 2)))"

definition WriteString16 :: "realloc_fn \<Rightarrow> u16 list \<Rightarrow> pickle \<Rightarrow> (bool \<times> pickle) option" where
  "WriteString16 ra value =
     and_then (WriteInt ra (of_nat (length value)))
              (WriteBytes ra (units_bytes value) (of_nat (length value) * 2))"

definition WriteData :: "realloc_fn \<Rightarrow> bytes \<Rightarrow> i32 \<Rightarrow> pickle \<Rightarrow> (bool \<times> pickle) option" where
  "WriteData ra data len =
     (if 0 \<le> sint len then and_then (WriteInt ra len) (WriteBytes ra data len)
      else (\<lambda>p. Some (False, p)))"

definition BeginWriteData :: "realloc_fn \<Rightarrow> i32 \<Rightarrow> pickle \<Rightarrow> (u32 option \<times> pickle) option" where
  "BeginWriteData ra len p =
     (if sint len < 0 then Some (None, p)
      else do {
        r \<leftarrow> WriteInt ra len p;
        (if \<not> fst r then Some (None, snd r)
         else do {
           q \<leftarrow> BeginWrite ra len (snd r);
           (case fst q of
              None \<Rightarrow> Some (None, snd q)
            | Some dest \<Rightarrow> do {
                p' \<leftarrow> EndWrite dest len ((snd q)\<lparr>pk_var_off := dest - 4\<rparr>);
                Some (Some dest, p') }) }) })"

definition TrimWriteData :: "i32 \<Rightarrow> pickle \<Rightarrow> pickle option" where
  "TrimWriteData new_length p = do {
     b \<leftarrow> pk_header p;
     cur_length \<leftarrow> load32 b (unat (pk_var_off p));
     (if sint new_length < 0 \<or> sint new_length > sint cur_length then Some p
      else do {
        ps \<leftarrow> payload_size p;
        p' \<leftarrow> set_payload_size (ps - (cur_length - new_length)) p;
        b' \<leftarrow> pk_header p';
        b'' \<leftarrow> store32 (unat (pk_var_off p)) new_length b';
        Some (p'\<lparr>pk_header := Some b''\<rparr>) }) }"

section \<open>Finding the end of a pickle in a stream\<close>

text \<open>
  \<open>FindNext(header_size, start, end)\<close> on the bytes \<open>[start, end)\<close> at address \<open>start\<close>; addresses
  are 32-bit and \<open>payload_base + payload_size\<close> may wrap.
\<close>

definition FindNext :: "u32 \<Rightarrow> u32 \<Rightarrow> bytes \<Rightarrow> u32 option" where
  "FindNext header_size start data =
     (let stop = start + of_nat (length data)
      in if stop - start < sizeof_Header then None
         else case load32 data 0 of
                None \<Rightarrow> None
              | Some ps \<Rightarrow>
                  let payload_base = start + header_size;
                      payload_end = payload_base + ps
                  in if payload_end < payload_base then None
                     else if payload_end > stop then None else Some payload_end)"

section \<open>Reading: \<open>PickleIterator\<close>\<close>

record iter =
  it_mem :: bytes
  it_ptr :: nat
  it_end :: nat
  it_null :: bool

text \<open>\<open>it_null\<close> marks the iterator whose pointers are null; what it returns is a null pointer.\<close>

definition PickleIterator_null :: iter where
  "PickleIterator_null = \<lparr>it_mem = [], it_ptr = 0, it_end = 0, it_null = True\<rparr>"

definition PickleIterator :: "pickle \<Rightarrow> iter option" where
  "PickleIterator p =
     (case pk_header p of
        None \<Rightarrow> Some PickleIterator_null
      | Some b \<Rightarrow> do { ps \<leftarrow> payload_size p;
                      Some \<lparr>it_mem = drop (unat (pk_header_size p)) b, it_ptr = 0,
                            it_end = unat ps, it_null = False\<rparr> })"

text \<open>A reader returns its result (\<open>None\<close> is the C++ \<open>false\<close>) and the moved iterator.\<close>

type_synonym 'a reader = "iter \<Rightarrow> 'a option \<times> iter"

definition rret :: "'a \<Rightarrow> 'a reader" where "rret x it = (Some x, it)"

definition rfail :: "'a reader" where "rfail it = (None, it)"

definition rbind :: "'a reader \<Rightarrow> ('a \<Rightarrow> 'b reader) \<Rightarrow> 'b reader" where
  "rbind r f it = (case r it of (None, it') \<Rightarrow> (None, it') | (Some x, it') \<Rightarrow> f x it')"

text \<open>\<open>GetReadPointerAndAdvance<Type>()\<close> for a type of \<open>sz\<close> bytes, and the value read there.\<close>

definition GetReadPointer_type :: "nat \<Rightarrow> nat reader" where
  "GetReadPointer_type sz it =
     (if it_ptr it + sz > it_end it then (None, it)
      else (Some (it_ptr it),
            it\<lparr>it_ptr := it_ptr it + (if sz < 4 then unat (AlignInt (of_nat sz) 4) else sz)\<rparr>))"

definition GetReadPointer :: "i32 \<Rightarrow> nat reader" where
  "GetReadPointer num_bytes it =
     (if sint num_bytes < 0 \<or> int (it_end it) - int (it_ptr it) < sint num_bytes then (None, it)
      else (if it_null it then None else Some (it_ptr it),
            it\<lparr>it_ptr := it_ptr it + unat (AlignInt num_bytes 4)\<rparr>))"

definition GetReadPointer_elems :: "i32 \<Rightarrow> nat \<Rightarrow> nat reader" where
  "GetReadPointer_elems num_elements size_element it =
     (let num_bytes = sint num_elements * int size_element;
          num_bytes32 = (word_of_int num_bytes :: i32)
      in if num_bytes \<noteq> sint num_bytes32 then (None, it) else GetReadPointer num_bytes32 it)"

definition mem_at :: "iter \<Rightarrow> nat \<Rightarrow> nat \<Rightarrow> bytes" where
  "mem_at it off n = take n (drop off (it_mem it))"

definition ReadBuiltinType :: "nat \<Rightarrow> bytes reader" where
  "ReadBuiltinType sz it =
     rbind (GetReadPointer_type sz) (\<lambda>from. rret (mem_at it from sz)) it"

definition ReadBool :: "bool reader" where
  "ReadBool = rbind (ReadBuiltinType 1) (\<lambda>bs. rret (bs \<noteq> [0]))"

definition ReadInt :: "i32 reader" where
  "ReadInt = rbind (ReadBuiltinType 4) (\<lambda>bs. rret (word32 bs))"

definition ReadLong :: "i32 reader" where
  "ReadLong = rbind (ReadBuiltinType 4) (\<lambda>bs. rret (word32 bs))"

definition ReadUInt16 :: "u16 reader" where
  "ReadUInt16 = rbind (ReadBuiltinType 2) (\<lambda>bs. rret (word16 bs))"

definition ReadUInt32 :: "u32 reader" where
  "ReadUInt32 = rbind (ReadBuiltinType 4) (\<lambda>bs. rret (word32 bs))"

definition ReadInt64 :: "u64 reader" where
  "ReadInt64 = rbind (ReadBuiltinType 8) (\<lambda>bs. rret (word64 bs))"

definition ReadUInt64 :: "u64 reader" where
  "ReadUInt64 = rbind (ReadBuiltinType 8) (\<lambda>bs. rret (word64 bs))"

definition ReadFloat :: "u32 reader" where
  "ReadFloat = rbind (ReadBuiltinType 4) (\<lambda>bs. rret (word32 bs))"

definition ReadLength :: "i32 reader" where
  "ReadLength = rbind ReadInt (\<lambda>n. if 0 \<le> sint n then rret n else rfail)"

definition SkipBytes :: "i32 \<Rightarrow> unit reader" where
  "SkipBytes n = rbind (GetReadPointer n) (\<lambda>_. rret ())"

definition ReadBytes :: "i32 \<Rightarrow> bytes reader" where
  "ReadBytes len it = rbind (GetReadPointer len) (\<lambda>from. rret (mem_at it from (unat len))) it"

definition ReadString :: "bytes reader" where
  "ReadString = rbind ReadInt (\<lambda>len. ReadBytes len)"

fun bytes_units :: "bytes \<Rightarrow> u16 list" where
  "bytes_units (a # b # bs) = word16 [a, b] # bytes_units bs"
| "bytes_units _ = []"

definition ReadElems16 :: "i32 \<Rightarrow> u16 list reader" where
  "ReadElems16 len it =
     rbind (GetReadPointer_elems len 2)
           (\<lambda>from. rret (bytes_units (mem_at it from (2 * unat len)))) it"

definition ReadWString :: "u16 list reader" where
  "ReadWString = rbind ReadInt (\<lambda>len. ReadElems16 len)"

definition ReadString16 :: "u16 list reader" where
  "ReadString16 = rbind ReadInt (\<lambda>len. ReadElems16 len)"

definition ReadData :: "bytes reader" where
  "ReadData = rbind ReadInt (\<lambda>len. ReadBytes len)"

end
