(* ===== verification/Message_Model.thy ===== *)
theory Message_Model
  imports Pickle_Model
begin

text \<open>
  \<open>ipc/ipc_message.{h,cc}\<close> and \<open>ipc/ipc_sync_message.{h,cc}\<close>: a message is a pickle whose header
  has sixteen bytes (payload size, routing id, type, flags at the offsets 0, 4, 8 and 12); a
  synchronous message carries its id in front of the payload, and its reply repeats it.

  The global counters are passed and returned: \<open>g_ref_num\<close> of \<open>ipc_message.cc\<close> and \<open>g_next_id\<close> of
  \<open>ipc_sync_message.cc\<close>.  \<open>pid\<close> is \<open>TraceLog::process_id()\<close>, \<open>None\<close> when there is no trace log.
  The release build on Windows has no logging members in a message, so a message is its pickle;
  \<open>set_sent_time\<close> and \<open>sent_time\<close>, which the debug build adds, work on the pickle alone.
\<close>

unbundle bit_operations_syntax

section \<open>The header\<close>

type_synonym message = pickle

definition sizeof_MessageHeader :: u32 where "sizeof_MessageHeader = 16"

definition PRIORITY_LOW :: u32 where "PRIORITY_LOW = 1"
definition PRIORITY_NORMAL :: u32 where "PRIORITY_NORMAL = 2"
definition PRIORITY_HIGH :: u32 where "PRIORITY_HIGH = 3"

definition PRIORITY_MASK :: u32 where "PRIORITY_MASK = 0x03"
definition SYNC_BIT :: u32 where "SYNC_BIT = 0x04"
definition REPLY_BIT :: u32 where "REPLY_BIT = 0x08"
definition REPLY_ERROR_BIT :: u32 where "REPLY_ERROR_BIT = 0x10"
definition UNBLOCK_BIT :: u32 where "UNBLOCK_BIT = 0x20"
definition PUMPING_MSGS_BIT :: u32 where "PUMPING_MSGS_BIT = 0x40"
definition HAS_SENT_TIME_BIT :: u32 where "HAS_SENT_TIME_BIT = 0x80"

definition MSG_ROUTING_NONE :: i32 where "MSG_ROUTING_NONE = - 2"
definition MSG_ROUTING_CONTROL :: i32 where "MSG_ROUTING_CONTROL = 0x7FFFFFFF"
definition IPC_REPLY_ID :: u32 where "IPC_REPLY_ID = 0xFFFFFFF0"
definition IPC_LOGGING_ID :: u32 where "IPC_LOGGING_ID = 0xFFFFFFF1"

definition hdr_get :: "nat \<Rightarrow> message \<Rightarrow> u32 option" where
  "hdr_get off m = (case pk_header m of None \<Rightarrow> None | Some b \<Rightarrow> load32 b off)"

definition hdr_set :: "nat \<Rightarrow> u32 \<Rightarrow> message \<Rightarrow> message option" where
  "hdr_set off w m =
     (case pk_header m of None \<Rightarrow> None
      | Some b \<Rightarrow> map_option (\<lambda>b'. m\<lparr>pk_header := Some b'\<rparr>) (store32 off w b))"

definition routing_id :: "message \<Rightarrow> i32 option" where "routing_id = hdr_get 4"
definition msg_type :: "message \<Rightarrow> u32 option" where "msg_type = hdr_get 8"
definition flags :: "message \<Rightarrow> u32 option" where "flags = hdr_get 12"

definition set_routing_id :: "i32 \<Rightarrow> message \<Rightarrow> message option" where
  "set_routing_id new_id = hdr_set 4 new_id"

definition priority :: "message \<Rightarrow> u32 option" where
  "priority m = map_option (\<lambda>f. f AND PRIORITY_MASK) (flags m)"

definition flag_on :: "u32 \<Rightarrow> message \<Rightarrow> message option" where
  "flag_on fb m = do { f \<leftarrow> flags m; hdr_set 12 (f OR fb) m }"

definition flag_off :: "u32 \<Rightarrow> message \<Rightarrow> message option" where
  "flag_off fb m = do { f \<leftarrow> flags m; hdr_set 12 (f AND NOT fb) m }"

definition has_flag :: "u32 \<Rightarrow> message \<Rightarrow> bool option" where
  "has_flag fb m = map_option (\<lambda>f. f AND fb \<noteq> 0) (flags m)"

definition set_sync :: "message \<Rightarrow> message option" where "set_sync = flag_on SYNC_BIT"
definition is_sync :: "message \<Rightarrow> bool option" where "is_sync = has_flag SYNC_BIT"
definition set_reply :: "message \<Rightarrow> message option" where "set_reply = flag_on REPLY_BIT"
definition is_reply :: "message \<Rightarrow> bool option" where "is_reply = has_flag REPLY_BIT"
definition set_reply_error :: "message \<Rightarrow> message option" where
  "set_reply_error = flag_on REPLY_ERROR_BIT"
definition is_reply_error :: "message \<Rightarrow> bool option" where
  "is_reply_error = has_flag REPLY_ERROR_BIT"
definition set_unblock :: "bool \<Rightarrow> message \<Rightarrow> message option" where
  "set_unblock unblock = (if unblock then flag_on UNBLOCK_BIT else flag_off UNBLOCK_BIT)"
definition should_unblock :: "message \<Rightarrow> bool option" where
  "should_unblock = has_flag UNBLOCK_BIT"
definition is_caller_pumping_messages :: "message \<Rightarrow> bool option" where
  "is_caller_pumping_messages = has_flag PUMPING_MSGS_BIT"

section \<open>Construction\<close>

text \<open>\<open>NoBarrier_AtomicIncrement\<close> returns the value after the increment.\<close>

definition GetRefNumUpper24 :: "u32 option \<Rightarrow> u32 \<Rightarrow> u32 \<times> u32" where
  "GetRefNumUpper24 pid g_ref_num =
     (let p = (case pid of None \<Rightarrow> 0 | Some i \<Rightarrow> i);
          count = g_ref_num + 1
      in (push_bit 8 (push_bit 14 p OR (count AND 0x3fff)), count))"

definition Message_default :: "realloc_fn \<Rightarrow> u32 option \<Rightarrow> u32 \<Rightarrow> (message \<times> u32) option" where
  "Message_default ra pid g = do {
     m0 \<leftarrow> Pickle_header_size ra sizeof_MessageHeader;
     m1 \<leftarrow> hdr_set 8 0 m0;
     m2 \<leftarrow> hdr_set 4 0 m1;
     let r = GetRefNumUpper24 pid g;
     m3 \<leftarrow> hdr_set 12 (fst r) m2;
     Some (m3, snd r) }"

definition Message_new ::
    "realloc_fn \<Rightarrow> u32 option \<Rightarrow> i32 \<Rightarrow> u32 \<Rightarrow> u32 \<Rightarrow> u32 \<Rightarrow> (message \<times> u32) option" where
  "Message_new ra pid routing type prio g = do {
     m0 \<leftarrow> Pickle_header_size ra sizeof_MessageHeader;
     m1 \<leftarrow> hdr_set 4 routing m0;
     m2 \<leftarrow> hdr_set 8 type m1;
     let r = GetRefNumUpper24 pid g;
     m3 \<leftarrow> hdr_set 12 (prio OR fst r) m2;
     Some (m3, snd r) }"

definition Message_from_data :: "bytes \<Rightarrow> i32 \<Rightarrow> message option" where
  "Message_from_data data data_len = Pickle_from_data data data_len"

definition Message_copy :: "realloc_fn \<Rightarrow> message \<Rightarrow> message option" where
  "Message_copy ra other = Pickle_copy ra other"

definition Message_assign :: "realloc_fn \<Rightarrow> message \<Rightarrow> message \<Rightarrow> message option" where
  "Message_assign ra m other = Pickle_assign ra m other"

definition SetHeaderValues :: "i32 \<Rightarrow> u32 \<Rightarrow> u32 \<Rightarrow> message \<Rightarrow> message option" where
  "SetHeaderValues routing type fl m = do {
     m1 \<leftarrow> hdr_set 4 routing m;
     m2 \<leftarrow> hdr_set 8 type m1;
     hdr_set 12 fl m2 }"

definition Message_FindNext :: "u32 \<Rightarrow> bytes \<Rightarrow> u32 option" where
  "Message_FindNext range_start data = FindNext sizeof_MessageHeader range_start data"

definition set_sent_time :: "realloc_fn \<Rightarrow> u64 \<Rightarrow> message \<Rightarrow> message option" where
  "set_sent_time ra time m = do {
     m1 \<leftarrow> flag_on HAS_SENT_TIME_BIT m;
     r \<leftarrow> WriteInt64 ra time m1;
     Some (snd r) }"

text \<open>\<open>sent_time\<close> reads the eight bytes before \<open>end_of_payload()\<close>, wherever they are.\<close>

definition sent_time :: "message \<Rightarrow> u64 option" where
  "sent_time m = do {
     f \<leftarrow> flags m;
     (if f AND HAS_SENT_TIME_BIT = 0 then Some 0
      else do {
        b \<leftarrow> pk_header m;
        n \<leftarrow> pickle_size m;
        (if unat n < 8 \<or> length b < unat n then None
         else Some (word64 (take 8 (drop (unat n - 8) b)))) }) }"

section \<open>Synchronous messages\<close>

text \<open>\<open>'d\<close> is the deserializer object, \<open>'e\<close> the waitable event.\<close>

record ('d, 'e) sync_message =
  sm_msg :: message
  sm_deserializer :: "'d option"
  sm_pump_event :: "'e option"

definition kSyncMessageHeaderSize :: i32 where "kSyncMessageHeaderSize = 4"

definition GetNext :: "u32 \<Rightarrow> i32 \<times> u32" where
  "GetNext seq = (seq + 1 - 1, seq + 1)"

definition WriteSyncHeader :: "realloc_fn \<Rightarrow> i32 \<Rightarrow> message \<Rightarrow> (bool \<times> message) option" where
  "WriteSyncHeader ra message_id m = WriteInt ra message_id m"

definition ReadSyncHeader :: "message \<Rightarrow> i32 option option" where
  "ReadSyncHeader m = do { it \<leftarrow> PickleIterator m; Some (fst (ReadInt it)) }"

definition SyncMessage_new ::
    "realloc_fn \<Rightarrow> u32 option \<Rightarrow> i32 \<Rightarrow> u32 \<Rightarrow> u32 \<Rightarrow> 'd option \<Rightarrow> u32 \<Rightarrow> u32
      \<Rightarrow> (('d, 'e) sync_message \<times> u32 \<times> u32) option" where
  "SyncMessage_new ra pid routing type prio deserializer g_ref g_next_id = do {
     (m0, g_ref') \<leftarrow> Message_new ra pid routing type prio g_ref;
     m1 \<leftarrow> set_sync m0;
     m2 \<leftarrow> set_unblock True m1;
     let (i, g_next_id') = GetNext g_next_id;
     r \<leftarrow> WriteSyncHeader ra i m2;
     Some (\<lparr>sm_msg = snd r, sm_deserializer = deserializer, sm_pump_event = None\<rparr>,
           g_ref', g_next_id') }"

definition GetReplyDeserializer ::
    "('d, 'e) sync_message \<Rightarrow> 'd option \<times> ('d, 'e) sync_message" where
  "GetReplyDeserializer s = (sm_deserializer s, s\<lparr>sm_deserializer := None\<rparr>)"

definition set_pump_messages_event ::
    "'e option \<Rightarrow> ('d, 'e) sync_message \<Rightarrow> ('d, 'e) sync_message option" where
  "set_pump_messages_event event s =
     map_option (\<lambda>m. s\<lparr>sm_pump_event := event, sm_msg := m\<rparr>)
       (if event \<noteq> None then flag_on PUMPING_MSGS_BIT (sm_msg s)
        else flag_off PUMPING_MSGS_BIT (sm_msg s))"

definition EnableMessagePumping ::
    "'e \<Rightarrow> ('d, 'e) sync_message \<Rightarrow> ('d, 'e) sync_message option" where
  "EnableMessagePumping dummy_event = set_pump_messages_event (Some dummy_event)"

definition GetMessageId :: "message \<Rightarrow> i32 option" where
  "GetMessageId m = do {
     s \<leftarrow> is_sync m;
     r \<leftarrow> is_reply m;
     (if \<not> s \<and> \<not> r then Some 0
      else do {
        h \<leftarrow> ReadSyncHeader m;
        Some (case h of None \<Rightarrow> 0 | Some i \<Rightarrow> i) }) }"

definition IsMessageReplyTo :: "message \<Rightarrow> i32 \<Rightarrow> bool option" where
  "IsMessageReplyTo m request_id = do {
     r \<leftarrow> is_reply m;
     (if \<not> r then Some False else do { i \<leftarrow> GetMessageId m; Some (i = request_id) }) }"

definition GetDataIterator :: "message \<Rightarrow> iter option" where
  "GetDataIterator m = do {
     it \<leftarrow> PickleIterator m;
     Some (case SkipBytes kSyncMessageHeaderSize it of
             (None, _) \<Rightarrow> PickleIterator_null
           | (Some _, it') \<Rightarrow> it') }"

definition GenerateReply ::
    "realloc_fn \<Rightarrow> u32 option \<Rightarrow> message \<Rightarrow> u32 \<Rightarrow> (message \<times> u32) option" where
  "GenerateReply ra pid m g = do {
     rt \<leftarrow> routing_id m;
     pr \<leftarrow> priority m;
     (reply0, g') \<leftarrow> Message_new ra pid rt IPC_REPLY_ID pr g;
     reply1 \<leftarrow> set_reply reply0;
     i \<leftarrow> GetMessageId m;
     r \<leftarrow> WriteSyncHeader ra i reply1;
     Some (snd r, g') }"

text \<open>\<open>MessageReplyDeserializer::SerializeOutputParameters(msg)\<close> runs the derived class's reader on
  the data after the header.\<close>

definition SerializeOutputParameters :: "(iter \<Rightarrow> 'r) \<Rightarrow> message \<Rightarrow> 'r option" where
  "SerializeOutputParameters derived m = do { it \<leftarrow> GetDataIterator m; Some (derived it) }"

end
