(* ===== verification/Pickle_Facts.thy ===== *)
theory Pickle_Facts
  imports Pickle_Model
begin

text \<open>
  What \<open>base/pickle.cc\<close> guarantees: the buffer invariant, the appending behaviour of every write,
  what the iterator can and cannot reach, and the chunk view of a payload on which the round trips
  of all higher layers rest.
\<close>

section \<open>Abstract view of a pickle\<close>

definition realloc_ok :: "realloc_fn \<Rightarrow> bool" where
  "realloc_ok ra \<longleftrightarrow> (\<forall>h n b. ra h n = Some b \<longrightarrow>
     length b = n \<and> (\<forall>old. h = Some old \<longrightarrow>
       take (min n (length old)) b = take (min n (length old)) old))"

definition alloc_total :: "realloc_fn \<Rightarrow> bool" where
  "alloc_total ra \<longleftrightarrow> (\<forall>h n. n < 2 ^ 32 \<longrightarrow> ra h n \<noteq> None)"

definition pbuf :: "pickle \<Rightarrow> bytes" where
  "pbuf p = (case pk_header p of None \<Rightarrow> [] | Some b \<Rightarrow> b)"

definition psize :: "pickle \<Rightarrow> nat" where
  "psize p = (case payload_size p of None \<Rightarrow> 0 | Some w \<Rightarrow> unat w)"

definition hsize :: "pickle \<Rightarrow> nat" where "hsize p = unat (pk_header_size p)"

definition payload :: "pickle \<Rightarrow> bytes" where
  "payload p = take (psize p) (drop (hsize p) (pbuf p))"

definition padded :: "pickle \<Rightarrow> bytes" where
  "padded p = take (align4 (psize p)) (drop (hsize p) (pbuf p))"

definition hdr_tail :: "pickle \<Rightarrow> bytes" where
  "hdr_tail p = take (hsize p - 4) (drop 4 (pbuf p))"

text \<open>A pickle that owns its block and can be written to.\<close>

definition pickle_inv :: "pickle \<Rightarrow> bool" where
  "pickle_inv p \<longleftrightarrow> (\<exists>b. pk_header p = Some b \<and> length b = unat (pk_capacity p) \<and>
     64 dvd unat (pk_capacity p) \<and> 4 dvd hsize p \<and> 4 \<le> hsize p \<and>
     hsize p + psize p \<le> unat (pk_capacity p))"

text \<open>What one successful write of \<open>data\<close> does to the abstract view.\<close>

definition appended :: "bytes \<Rightarrow> pickle \<Rightarrow> pickle \<Rightarrow> bool" where
  "appended data p p' \<longleftrightarrow> hsize p' = hsize p \<and> pk_var_off p' = pk_var_off p \<and>
     hdr_tail p' = hdr_tail p \<and> psize p' = align4 (psize p) + length data \<and>
     padded p' = padded p @ pad4 data"

section \<open>Alignment of machine words\<close>

lemma unat_word_mod4: "unat ((x :: u32) mod 4) = unat x mod 4"
  by (simp add: unat_mod_distrib)

lemma unat_AlignInt4:
  assumes "align4 (unat x) < 2 ^ 32" shows "unat (AlignInt x 4) = align4 (unat x)"
proof -
  have m: "unat (x mod 4) < 4" by (simp add: unat_word_mod4)
  have s: "unat (4 - x mod 4) = 4 - unat x mod 4"
    using m by (simp add: unat_sub word_le_nat_alt unat_word_mod4)
  then have "unat ((4 - x mod 4) mod 4) = (4 - unat x mod 4) mod 4" by (simp add: unat_word_mod4)
  then show ?thesis using assms
    by (simp add: AlignInt_def align4_def unat_add_small)
qed

lemma dvd_round64: "64 dvd n + (64 - n mod 64) mod (64 :: nat)"
proof -
  obtain q r where qr: "n = 64 * q + r" "r < 64" by (metis mod_less_divisor mult_div_mod_eq zero_less_numeral)
  then have r: "n mod 64 = r" by simp
  show ?thesis
  proof (cases "r = 0")
    case True
    then show ?thesis using qr(1) by simp
  next
    case False
    then have "(64 - r) mod 64 = 64 - r" using qr(2) by simp
    then have "n + (64 - n mod 64) mod 64 = 64 * (q + 1)" using qr r by simp
    then show ?thesis by (metis dvd_triv_left)
  qed
qed

lemma dvd_64_4: "64 dvd n \<Longrightarrow> 4 dvd (n :: nat)"
  by (rule dvd_trans [of 4 64]) simp_all

lemma AlignInt64:
  assumes "unat x \<le> 2 ^ 32 - 64"
  shows "unat x \<le> unat (AlignInt x 64)" "64 dvd unat (AlignInt x 64)"
proof -
  let ?r = "unat x mod 64"
  have s: "unat (64 - x mod 64) = 64 - ?r"
    by (simp add: unat_sub word_le_nat_alt unat_mod_distrib)
  then have t: "unat ((64 - x mod 64) mod 64) = (64 - ?r) mod 64" by (simp add: unat_mod_distrib)
  have le: "(64 - ?r) mod 64 \<le> 63" by simp
  have lt: "unat x + (64 - ?r) mod 64 < 2 ^ 32"
  proof (cases "unat x = 2 ^ 32 - 64")
    case True
    then have "?r = 0" by simp
    then show ?thesis using True by simp
  next
    case False
    then have "unat x \<le> 2 ^ 32 - 65" using assms by simp
    then show ?thesis using le by simp
  qed
  then have e: "unat (AlignInt x 64) = unat x + (64 - ?r) mod 64"
    using t by (simp add: AlignInt_def unat_add_small)
  show "unat x \<le> unat (AlignInt x 64)" by (simp add: e)
  show "64 dvd unat (AlignInt x 64)"
    unfolding e by (rule dvd_round64)
qed

lemma double_cap_aligned:
  assumes "64 dvd unat (c :: u32)" shows "unat (c * 2) \<le> 2 ^ 32 - 64"
proof -
  obtain k where k: "unat c = 64 * k" using assms by (elim dvdE)
  have "unat (c * 2) = (unat c * 2) mod 2 ^ 32" by (simp add: unat_word_ariths)
  also have "\<dots> = (128 * k) mod (128 * 2 ^ 25)" by (simp add: k)
  also have "\<dots> = 128 * (k mod 2 ^ 25)" by (rule mult_mod_right [symmetric])
  finally have e: "unat (c * 2) = 128 * (k mod 2 ^ 25)" .
  have "k mod 2 ^ 25 < 2 ^ 25" by simp
  then show ?thesis unfolding e by simp
qed

lemma blit_append:
  assumes "blit off a buf = Some b1" "off + length a + length c \<le> length buf"
  shows "blit (off + length a) c b1 = blit off (a @ c) buf"
proof -
  have b1: "b1 = take off buf @ a @ drop (off + length a) buf"
    using assms by (simp add: blit_def split: if_splits)
  have "off \<le> length buf" "length b1 = length buf" using assms by (auto simp: blit_length)
  then show ?thesis using assms(2) by (simp add: blit_def b1 add.assoc add.commute add.left_commute)
qed

section \<open>Resizing\<close>

lemma Resize_cases:
  assumes "realloc_ok ra" "pk_capacity p \<noteq> kCapacityReadOnly" "unat n \<le> 2 ^ 32 - 64"
  obtains (Fails) "Resize ra n p = Some (False, p)" "\<not> alloc_total ra"
  | (Works) b c where
      "Resize ra n p = Some (True, p\<lparr>pk_header := Some b, pk_capacity := c\<rparr>)"
      "length b = unat c" "64 dvd unat c" "unat n \<le> unat c"
      "\<And>old. pk_header p = Some old \<Longrightarrow>
         take (min (unat c) (length old)) b = take (min (unat c) (length old)) old"
proof (cases "ra (pk_header p) (unat (AlignInt n 64))")
  case None
  moreover have "unat (AlignInt n 64) < 2 ^ 32" by simp
  ultimately have "\<not> alloc_total ra" unfolding alloc_total_def by blast
  then show thesis using None assms(2)
    by (intro Fails) (simp_all add: Resize_def kPayloadUnit_def Let_def)
next
  case (Some b)
  then have "Resize ra n p = Some (True, p\<lparr>pk_header := Some b, pk_capacity := AlignInt n 64\<rparr>)"
    using assms(2) by (simp add: Resize_def kPayloadUnit_def Let_def)
  moreover have "length b = unat (AlignInt n 64)"
    "\<And>old. pk_header p = Some old \<Longrightarrow> take (min (unat (AlignInt n 64)) (length old)) b =
       take (min (unat (AlignInt n 64)) (length old)) old"
    using assms(1) Some by (simp_all add: realloc_ok_def)
  ultimately show thesis using AlignInt64 [OF assms(3)] by (intro Works) auto
qed

lemma not_readonly: "64 dvd unat c \<Longrightarrow> c \<noteq> kCapacityReadOnly"
  by (auto simp: kCapacityReadOnly_def unsigned_minus_1_eq_mask mask_eq_exp_minus_1)


section \<open>The effect of one write\<close>

lemma pickle_invE:
  assumes "pickle_inv p"
  obtains b where "pk_header p = Some b" "pbuf p = b" "length b = unat (pk_capacity p)"
    "64 dvd length b" "4 dvd hsize p" "4 \<le> hsize p" "hsize p + align4 (psize p) \<le> length b"
    "payload_size p = Some (of_nat (psize p))" "load32 b 0 = Some (of_nat (psize p))"
proof -
  from assms obtain b where b: "pk_header p = Some b" "length b = unat (pk_capacity p)"
    "64 dvd unat (pk_capacity p)" "4 dvd hsize p" "4 \<le> hsize p"
    "hsize p + psize p \<le> unat (pk_capacity p)"
    unfolding pickle_inv_def by blast
  have len4: "0 + 4 \<le> length b" using b(2,5,6) by simp
  obtain w where w: "load32 b 0 = Some w" using load32_Some [OF len4] by blast
  then have ps: "psize p = unat w" "payload_size p = Some w"
    using b(1) by (simp_all add: psize_def payload_size_def)
  have "4 dvd length b" using b(2,3) by (metis dvd_64_4)
  then have "align4 (hsize p + psize p) \<le> length b"
    using b(2,6) by (intro align4_le_mono) simp_all
  then have "hsize p + align4 (psize p) \<le> length b" using b(4) by (simp add: align4_add)
  then show thesis using that b w ps by (simp add: pbuf_def)
qed

lemma length_padded: "pickle_inv p \<Longrightarrow> length (padded p) = align4 (psize p)"
  by (erule pickle_invE) (simp add: padded_def)

lemma BeginWrite_cases:
  assumes "pickle_inv p" "realloc_ok ra"
    and small: "hsize p + align4 (psize p) + unat len \<le> 2 ^ 31"
  obtains (Null) "BeginWrite ra len p = Some (None, p)" "\<not> alloc_total ra"
  | (Dest) dest b' p' where
      "BeginWrite ra len p = Some (Some dest, p')"
      "unat dest = hsize p + align4 (psize p)" "pk_header p' = Some b'"
      "pk_header_size p' = pk_header_size p" "pk_var_off p' = pk_var_off p"
      "length b' = unat (pk_capacity p')" "64 dvd length b'"
      "hsize p + align4 (psize p) + unat len \<le> length b'"
      "load32 b' 0 = Some (of_nat (align4 (psize p) + unat len))"
      "take (hsize p + align4 (psize p) - 4) (drop 4 b') =
       take (hsize p + align4 (psize p) - 4) (drop 4 (pbuf p))"
proof -
  from assms(1) obtain b where b: "pk_header p = Some b" "pbuf p = b"
    "length b = unat (pk_capacity p)" "64 dvd length b" "4 dvd hsize p" "4 \<le> hsize p"
    "hsize p + align4 (psize p) \<le> length b" "payload_size p = Some (of_nat (psize p))"
    by (rule pickle_invE)
  let ?A = "align4 (psize p)"
  have ps: "psize p < 2 ^ 32" using small align4_ge [of "psize p"] by simp
  have off: "unat (AlignInt (of_nat (psize p)) 4) = ?A"
    using small ps by (subst unat_AlignInt4) (simp_all add: unat_of_nat)
  define off where "off = AlignInt (of_nat (psize p)) 4"
  have ns: "unat (off + len) = ?A + unat len"
    using small off unfolding off_def by (subst unat_add_small) simp_all
  then have nd: "unat (pk_header_size p + (off + len)) = hsize p + ?A + unat len"
    using small by (subst unat_add_small) (simp_all add: hsize_def)
  have nseq: "off + len = of_nat (?A + unat len)" by (simp flip: ns)
  have dst: "unat (pk_header_size p + off) = hsize p + ?A"
    using small off unfolding off_def by (subst unat_add_small) (simp_all add: hsize_def)
  show thesis
  proof (cases "pk_header_size p + (off + len) > pk_capacity p")
    case False
    then have fit: "hsize p + ?A + unat len \<le> length b"
      using nd b(3) by (simp add: word_less_nat_alt)
    obtain b' where b': "store32 0 (off + len) b = Some b'"
      using store32_Some [of 0 b "off + len"] b(6,7) by auto
    have "BeginWrite ra len p = Some (Some (pk_header_size p + off), p\<lparr>pk_header := Some b'\<rparr>)"
      using False b b' by (simp add: BeginWrite_def off_def set_payload_size_def Let_def)
    moreover have "load32 b' 0 = Some (of_nat (?A + unat len))" "length b' = length b"
      "drop 4 b' = drop 4 b"
      using load32_store32_same [OF b'] store32_length [OF b'] store32_after [OF b', of 4] nseq
      by simp_all
    ultimately show thesis
      using b(2,3,4) fit dst
      by (intro Dest [of "pk_header_size p + off" "p\<lparr>pk_header := Some b'\<rparr>" b']) simp_all
  next
    case True
    let ?n = "max (pk_capacity p * 2) (pk_header_size p + (off + len))"
    have big: "unat ?n \<le> 2 ^ 32 - 64"
      using double_cap_aligned [of "pk_capacity p"] b(3,4) nd small by (auto simp: max_def)
    have notro: "pk_capacity p \<noteq> kCapacityReadOnly" using b(3,4) by (intro not_readonly) simp
    show thesis
    proof (rule Resize_cases [OF assms(2) notro big])
      assume R: "Resize ra ?n p = Some (False, p)" and nt: "\<not> alloc_total ra"
      have "BeginWrite ra len p = Some (None, p)"
        using True b R by (simp add: BeginWrite_def off_def Let_def)
      then show thesis using nt by (rule Null)
    next
      fix b1 c
      assume R: "Resize ra ?n p = Some (True, p\<lparr>pk_header := Some b1, pk_capacity := c\<rparr>)"
        and l1: "length b1 = unat c" and d1: "64 dvd unat c" and n1: "unat ?n \<le> unat c"
        and old: "\<And>old. pk_header p = Some old \<Longrightarrow>
          take (min (unat c) (length old)) b1 = take (min (unat c) (length old)) old"
      have "pk_header_size p + (off + len) \<le> ?n" by simp
      then have "unat (pk_header_size p + (off + len)) \<le> unat ?n" by (simp only: word_le_nat_alt)
      then have fit: "hsize p + ?A + unat len \<le> length b1" using n1 nd l1 by linarith
      obtain b' where b': "store32 0 (off + len) b1 = Some b'"
        using store32_Some [of 0 b1 "off + len"] b(6) fit by auto
      have mle: "hsize p + ?A \<le> min (unat c) (length b)" using fit b(7) l1 by simp
      have "take (hsize p + ?A) b1 = take (hsize p + ?A) (take (min (unat c) (length b)) b1)"
        using mle by simp
      also have "\<dots> = take (hsize p + ?A) b" using mle by (simp add: old [OF b(1)])
      finally have tk: "take (hsize p + ?A - 4) (drop 4 b1) = take (hsize p + ?A - 4) (drop 4 b)"
        by (metis drop_take)
      have "BeginWrite ra len p =
          Some (Some (pk_header_size p + off), p\<lparr>pk_header := Some b', pk_capacity := c\<rparr>)"
        using True b b' R by (simp add: BeginWrite_def off_def set_payload_size_def Let_def)
      moreover have "load32 b' 0 = Some (of_nat (?A + unat len))" "length b' = length b1"
        "drop 4 b' = drop 4 b1"
        using load32_store32_same [OF b'] store32_length [OF b'] store32_after [OF b', of 4] nseq
        by simp_all
      ultimately show thesis
        using b(2) fit dst l1 d1 tk
        by (intro Dest [of "pk_header_size p + off"
              "p\<lparr>pk_header := Some b', pk_capacity := c\<rparr>" b']) simp_all
    qed
  qed
qed


lemma EndWrite_fits:
  assumes p: "pk_header p = Some b0" and b: "blit d data b0 = Some b" and d: "unat dest = d"
    and len: "unat len = length data" "length data < 2 ^ 31"
    and d4: "4 dvd d" "4 dvd length b0" "d + length data < 2 ^ 32"
  shows "\<exists>b'. EndWrite dest len (p\<lparr>pk_header := Some b\<rparr>) = Some (p\<lparr>pk_header := Some b'\<rparr>)
              \<and> blit d (pad4 data) b0 = Some b'"
proof -
  have fit: "d + length data \<le> length b0" using b by (auto simp: blit_def split: if_splits)
  then have "align4 (d + length data) \<le> length b0" using d4(2) by (rule align4_le_mono)
  then have fit4: "d + align4 (length data) \<le> length b0" using d4(1) by (simp add: align4_add)
  have m: "len mod 4 = 0 \<longleftrightarrow> length data mod 4 = 0"
    using unat_word_mod4 [of len] len(1) by (metis unat_eq_zero)
  show ?thesis
  proof (cases "len mod 4 = 0")
    case True
    then have "pad4 data = data" using m by (intro pad4_id) auto
    then show ?thesis using True b by (simp add: EndWrite_def)
  next
    case False
    have "unat (len mod 4) = length data mod 4" using len(1) by (simp add: unat_word_mod4)
    then have r: "unat (4 - len mod 4) = 4 - length data mod 4"
      by (simp add: unat_sub word_le_nat_alt)
    have ne: "length data mod 4 \<noteq> 0" using False m by simp
    then have z: "pad4 data = data @ replicate (4 - length data mod 4) 0"
      by (simp add: pad4_def)
    have al: "align4 (length data) = length data + (4 - length data mod 4)"
      using ne by (simp add: align4_def)
    have pos: "int (unat dest) + sint len = int (d + length data)"
      using d len sint_small [of len] by simp
    have "blit (d + length data) (replicate (4 - length data mod 4) 0) b =
          blit d (data @ replicate (4 - length data mod 4) 0) b0"
      using b fit4 al by (intro blit_append) simp_all
    moreover obtain b' where "blit d (pad4 data) b0 = Some b'"
      using fit4 blit_Some [of d "pad4 data" b0] by auto
    ultimately show ?thesis
      using False p pos r z by (simp add: EndWrite_def Let_def nat_add_distrib flip: of_nat_add)
  qed
qed

theorem WriteBytes_appends:
  assumes inv: "pickle_inv p" and ra: "realloc_ok ra"
    and len: "unat len = length data"
    and small: "hsize p + align4 (psize p) + length data < 2 ^ 31"
  shows "(WriteBytes ra data len p = Some (False, p) \<and> \<not> alloc_total ra) \<or>
         (\<exists>p'. WriteBytes ra data len p = Some (True, p') \<and> pickle_inv p' \<and> appended data p p')"
proof (rule BeginWrite_cases [OF inv ra, of len])
  show "hsize p + align4 (psize p) + unat len \<le> 2 ^ 31" using small len by simp
next
  assume "BeginWrite ra len p = Some (None, p)" "\<not> alloc_total ra"
  then show ?thesis by (simp add: WriteBytes_def)
next
  let ?A = "align4 (psize p)"
  fix dest b1 p1
  assume B: "BeginWrite ra len p = Some (Some dest, p1)" and dst: "unat dest = hsize p + ?A"
    and p1: "pk_header p1 = Some b1" "pk_header_size p1 = pk_header_size p"
      "pk_var_off p1 = pk_var_off p"
    and l1: "length b1 = unat (pk_capacity p1)" "64 dvd length b1"
    and fit: "hsize p + ?A + unat len \<le> length b1"
    and ld: "load32 b1 0 = Some (of_nat (?A + unat len))"
    and keep: "take (hsize p + ?A - 4) (drop 4 b1) = take (hsize p + ?A - 4) (drop 4 (pbuf p))"
  from inv have h: "4 dvd hsize p" "4 \<le> hsize p" by (auto elim: pickle_invE)
  obtain b2 where b2: "blit (hsize p + ?A) data b1 = Some b2"
    using fit len blit_Some by force
  have "4 dvd length b1" using l1(2) by (rule dvd_64_4)
  then obtain b3 where E: "EndWrite dest len (p1\<lparr>pk_header := Some b2\<rparr>) = Some (p1\<lparr>pk_header := Some b3\<rparr>)"
    and b3: "blit (hsize p + ?A) (pad4 data) b1 = Some b3"
    using EndWrite_fits [OF p1(1) b2 dst len] small h(1) by auto
  let ?p' = "p1\<lparr>pk_header := Some b3\<rparr>"
  have W: "WriteBytes ra data len p = Some (True, ?p')"
    using B p1(1) len b2 dst E by (simp add: WriteBytes_def)
  have hs: "hsize ?p' = hsize p" using p1(2) by (simp add: hsize_def)
  have "load32 b3 0 = Some (of_nat (?A + length data))"
    using load32_blit_other [OF b3, of 0] h(2) ld len by simp
  then have pw: "payload_size ?p' = Some (of_nat (?A + length data))"
    by (simp add: payload_size_def)
  have "unat (of_nat (?A + length data) :: u32) = ?A + length data"
    unfolding unat_of_nat using small by simp
  then have ps: "psize ?p' = ?A + length data" using pw by (simp only: psize_def option.case)
  have len3: "length b3 = length b1" using b3 by (rule blit_length)
  have al: "align4 (?A + length data) = ?A + align4 (length data)" by (simp add: align4_add)
  have tk: "take n (drop 4 b3) = take n (drop 4 b1)" if "4 + n \<le> hsize p + ?A" for n
    by (rule blit_take_drop [OF b3 that])
  have ht: "hdr_tail ?p' = hdr_tail p"
  proof -
    have "take (hsize p - 4) (take (hsize p + ?A - 4) (drop 4 b1)) =
          take (hsize p - 4) (take (hsize p + ?A - 4) (drop 4 (pbuf p)))" by (simp only: keep)
    then show ?thesis using tk [of "hsize p - 4"] h(2) hs
      by (simp add: hdr_tail_def pbuf_def min_def split: if_splits)
  qed
  have pd: "padded ?p' = padded p @ pad4 data"
  proof -
    have "take ?A (drop (hsize p) b3) = drop (hsize p - 4) (take (hsize p + ?A - 4) (drop 4 b3))"
      using h(2) by (simp add: take_drop add.commute)
    also have "\<dots> = drop (hsize p - 4) (take (hsize p + ?A - 4) (drop 4 (pbuf p)))"
      using tk [of "hsize p + ?A - 4"] h(2) keep by simp
    also have "\<dots> = padded p" using h(2) by (simp add: padded_def take_drop add.commute)
    finally have 1: "take ?A (drop (hsize p) b3) = padded p" .
    have 2: "take (align4 (length data)) (drop (hsize p + ?A) b3) = pad4 data"
      using blit_at [OF b3] by simp
    have "padded ?p' = take (?A + align4 (length data)) (drop (hsize p) b3)"
      using hs ps(1) al by (simp add: padded_def pbuf_def)
    also have "\<dots> = take ?A (drop (hsize p) b3) @ take (align4 (length data)) (drop (hsize p + ?A) b3)"
      by (simp only: take_add drop_drop add.commute [of ?A "hsize p"])
    finally show ?thesis by (simp only: 1 2)
  qed
  have "pickle_inv ?p'"
    using l1 len3 h hs ps fit len by (simp add: pickle_inv_def)
  moreover have "appended data p ?p'"
    using hs ht ps(1) pd p1(3) by (simp add: appended_def)
  ultimately show ?thesis using W by blast
qed

end
