(* ===== verification/Pickle_Chunks.thy ===== *)
theory Pickle_Chunks
  imports Pickle_Facts
begin

text \<open>
  The chunk view of a payload.  A payload is a sequence of chunks, each written by one
  \<open>WriteBytes\<close> and padded to four bytes when the next one is written.  \<open>writes w cs\<close> says that the
  writer \<open>w\<close> appends the chunks \<open>cs\<close>; \<open>reads r cs v ds\<close> says that the reader \<open>r\<close>, standing before
  \<open>cs\<close>, returns \<open>v\<close> and stands before \<open>ds\<close>.  Both compose, and every codec of the development is
  proved through them.  The primitive reads and writes of \<open>base/pickle.h\<close> are the base cases.
\<close>

section \<open>Chunks\<close>

fun wire0 :: "bytes list \<Rightarrow> bytes" where
  "wire0 [] = []"
| "wire0 [c] = c"
| "wire0 (c # d # cs) = pad4 c @ wire0 (d # cs)"

definition wire :: "bytes list \<Rightarrow> bytes" where "wire cs = concat (map pad4 cs)"

lemma wire_simps [simp]:
  "wire [] = []" "wire (c # cs) = pad4 c @ wire cs" "wire (cs @ ds) = wire cs @ wire ds"
  by (simp_all add: wire_def)

lemma dvd_length_wire [simp]: "4 dvd length (wire cs)"
  by (induction cs) auto

lemma align4_wire0: "align4 (length (wire0 cs)) = length (wire cs)"
  by (induction cs rule: wire0.induct) (simp_all add: align4_add)

lemma wire0_Cons: "cs \<noteq> [] \<Longrightarrow> wire0 (c # cs) = pad4 c @ wire0 cs"
  by (cases cs) auto

lemma wire0_append: "ds \<noteq> [] \<Longrightarrow> wire0 (cs @ ds) = wire cs @ wire0 ds"
  by (induction cs) (simp_all add: wire0_Cons)

lemma pad4_wire0: "pad4 (wire0 cs) = wire cs"
proof (induction cs rule: wire0.induct)
  case (3 c d cs)
  have "length (pad4 c @ wire0 (d # cs)) mod 4 = length (wire0 (d # cs)) mod 4"
    using dvd_eq_mod_eq_0 [of 4 "align4 (length c)"] by (simp add: mod_add_eq [symmetric])
  then show ?case using 3 by (simp add: pad4_def)
qed (simp_all add: pad4_def)

section \<open>Writers\<close>

definition appends :: "bytes list \<Rightarrow> pickle \<Rightarrow> pickle \<Rightarrow> bool" where
  "appends cs p p' \<longleftrightarrow> hsize p' = hsize p \<and> pk_var_off p' = pk_var_off p \<and>
     hdr_tail p' = hdr_tail p \<and> padded p' = padded p @ wire cs \<and>
     psize p' = (if cs = [] then psize p else align4 (psize p) + length (wire0 cs))"

definition room :: "bytes list \<Rightarrow> pickle \<Rightarrow> bool" where
  "room cs p \<longleftrightarrow> hsize p + align4 (psize p) + length (wire cs) < 2 ^ 31"

definition writes :: "(realloc_fn \<Rightarrow> pickle \<Rightarrow> (bool \<times> pickle) option) \<Rightarrow> bytes list \<Rightarrow> bool" where
  "writes w cs \<longleftrightarrow> (\<forall>ra p. realloc_ok ra \<longrightarrow> alloc_total ra \<longrightarrow> pickle_inv p \<longrightarrow> room cs p \<longrightarrow>
     (\<exists>p'. w ra p = Some (True, p') \<and> pickle_inv p' \<and> appends cs p p'))"

text \<open>The same for a writer whose results are ignored, as every \<open>ParamTraits::Write\<close>.\<close>

definition wrote :: "(realloc_fn \<Rightarrow> pickle \<Rightarrow> pickle option) \<Rightarrow> bytes list \<Rightarrow> bool" where
  "wrote w cs \<longleftrightarrow> (\<forall>ra p. realloc_ok ra \<longrightarrow> alloc_total ra \<longrightarrow> pickle_inv p \<longrightarrow> room cs p \<longrightarrow>
     (\<exists>p'. w ra p = Some p' \<and> pickle_inv p' \<and> appends cs p p'))"

lemma appends_Nil: "appends [] p p"
  by (simp add: appends_def)

lemma appends_psize: "appends cs p p' \<Longrightarrow> align4 (psize p') = align4 (psize p) + length (wire cs)"
  by (auto simp: appends_def align4_add align4_wire0 split: if_splits)

lemma appends_trans:
  assumes 1: "appends cs p q" and 2: "appends ds q r" shows "appends (cs @ ds) p r"
proof (cases "ds = []")
  case True
  then show ?thesis using assms by (simp add: appends_def)
next
  case False
  then have "psize r = align4 (psize p) + (length (wire cs) + length (wire0 ds))"
    using 2 appends_psize [OF 1] by (simp add: appends_def)
  moreover have "length (wire0 (cs @ ds)) = length (wire cs) + length (wire0 ds)"
    using False by (simp add: wire0_append)
  ultimately show ?thesis using False assms by (simp add: appends_def)
qed

lemma room_appends: "room (cs @ ds) p \<Longrightarrow> appends cs p q \<Longrightarrow> room ds q"
  using appends_psize [of cs p q] by (simp add: room_def appends_def add.assoc)

lemma room_prefix: "room (cs @ ds) p \<Longrightarrow> room cs p"
  by (simp add: room_def)

lemma WriteBytes_writes:
  assumes "length data < 2 ^ 31"
  shows "writes (\<lambda>ra. WriteBytes ra data (of_nat (length data))) [data]"
  unfolding writes_def
proof (intro allI impI)
  fix ra p
  assume a: "realloc_ok ra" "alloc_total ra" "pickle_inv p" "room [data] p"
  have l: "unat (of_nat (length data) :: u32) = length data"
    unfolding unat_of_nat using assms by simp
  have "hsize p + align4 (psize p) + length data < 2 ^ 31"
    using a(4) align4_ge [of "length data"] by (simp add: room_def)
  from WriteBytes_appends [OF a(3,1) l this] a(2)
  show "\<exists>p'. WriteBytes ra data (of_nat (length data)) p = Some (True, p') \<and> pickle_inv p' \<and>
      appends [data] p p'"
    by (auto simp: appended_def appends_def)
qed

lemma writesD:
  "writes w cs \<Longrightarrow> realloc_ok ra \<Longrightarrow> alloc_total ra \<Longrightarrow> pickle_inv p \<Longrightarrow> room cs p \<Longrightarrow>
   \<exists>p'. w ra p = Some (True, p') \<and> pickle_inv p' \<and> appends cs p p'"
  by (simp add: writes_def)

lemma wroteD:
  "wrote w cs \<Longrightarrow> realloc_ok ra \<Longrightarrow> alloc_total ra \<Longrightarrow> pickle_inv p \<Longrightarrow> room cs p \<Longrightarrow>
   \<exists>p'. w ra p = Some p' \<and> pickle_inv p' \<and> appends cs p p'"
  by (simp add: wrote_def)

lemma and_then_writes:
  assumes f: "writes f cs" and g: "writes g ds"
  shows "writes (\<lambda>ra. and_then (f ra) (g ra)) (cs @ ds)"
  unfolding writes_def
proof (intro allI impI)
  fix ra p
  assume a: "realloc_ok ra" "alloc_total ra" "pickle_inv p" "room (cs @ ds) p"
  obtain q where q: "f ra p = Some (True, q)" "pickle_inv q" "appends cs p q"
    using writesD [OF f a(1-3) room_prefix [OF a(4)]] by blast
  obtain r where r: "g ra q = Some (True, r)" "pickle_inv r" "appends ds q r"
    using writesD [OF g a(1,2) q(2) room_appends [OF a(4) q(3)]] by blast
  show "\<exists>p'. and_then (f ra) (g ra) p = Some (True, p') \<and> pickle_inv p' \<and> appends (cs @ ds) p p'"
    using q r appends_trans [OF q(3) r(3)] by (simp add: and_then_def)
qed

text \<open>A \<open>bool\<close>-returning write whose result the caller drops.\<close>

definition drop_result :: "(pickle \<Rightarrow> (bool \<times> pickle) option) \<Rightarrow> pickle \<Rightarrow> pickle option" where
  "drop_result w p = map_option snd (w p)"

lemma drop_result_wrote: "writes w cs \<Longrightarrow> wrote (\<lambda>ra. drop_result (w ra)) cs"
  unfolding writes_def wrote_def drop_result_def by fastforce

lemma bind_wrote:
  assumes f: "wrote f cs" and g: "wrote g ds"
  shows "wrote (\<lambda>ra p. Option.bind (f ra p) (g ra)) (cs @ ds)"
  unfolding wrote_def
proof (intro allI impI)
  fix ra p
  assume a: "realloc_ok ra" "alloc_total ra" "pickle_inv p" "room (cs @ ds) p"
  obtain q where q: "f ra p = Some q" "pickle_inv q" "appends cs p q"
    using wroteD [OF f a(1-3) room_prefix [OF a(4)]] by blast
  obtain r where r: "g ra q = Some r" "pickle_inv r" "appends ds q r"
    using wroteD [OF g a(1,2) q(2) room_appends [OF a(4) q(3)]] by blast
  show "\<exists>p'. Option.bind (f ra p) (g ra) = Some p' \<and> pickle_inv p' \<and> appends (cs @ ds) p p'"
    using q r appends_trans [OF q(3) r(3)] by simp
qed

lemma Some_wrote: "wrote (\<lambda>ra. Some) []"
  by (auto simp: wrote_def appends_Nil)

section \<open>Readers\<close>

definition positioned :: "iter \<Rightarrow> bytes list \<Rightarrow> bool" where
  "positioned it cs \<longleftrightarrow> \<not> it_null it \<and> 4 dvd it_ptr it \<and> it_end it \<le> length (it_mem it) \<and>
     (cs \<noteq> [] \<longrightarrow> it_ptr it \<le> it_end it \<and>
        take (it_end it - it_ptr it) (drop (it_ptr it) (it_mem it)) = wire0 cs)"

definition reads :: "'a reader \<Rightarrow> bytes list \<Rightarrow> 'a \<Rightarrow> bytes list \<Rightarrow> bool" where
  "reads r cs v ds \<longleftrightarrow>
     (\<forall>it. positioned it cs \<longrightarrow> (\<exists>it'. r it = (Some v, it') \<and> positioned it' ds))"

lemma readsI: "(\<And>it. positioned it cs \<Longrightarrow> \<exists>it'. r it = (Some v, it') \<and> positioned it' ds) \<Longrightarrow> reads r cs v ds"
  by (simp add: reads_def)

lemma rbind_Some: "r it = (Some x, it') \<Longrightarrow> rbind r f it = f x it'"
  by (simp add: rbind_def)

lemma rbind_None: "r it = (None, it') \<Longrightarrow> rbind r f it = (None, it')"
  by (simp add: rbind_def)

lemma rbind_reads: "reads r cs v ds \<Longrightarrow> reads (f v) ds w es \<Longrightarrow> reads (rbind r f) cs w es"
  unfolding reads_def by (metis rbind_Some)

lemma rret_reads: "reads (rret v) cs v cs"
  by (simp add: reads_def rret_def)

lemma positioned_bounds:
  assumes "positioned it (c # cs)" shows "it_ptr it + length c \<le> it_end it"
proof -
  let ?d = "take (it_end it - it_ptr it) (drop (it_ptr it) (it_mem it))"
  have e: "it_end it \<le> length (it_mem it)" "it_ptr it \<le> it_end it"
    and d: "?d = wire0 (c # cs)"
    using assms by (simp_all add: positioned_def)
  have "length ?d = it_end it - it_ptr it" using e by simp
  then have "length (wire0 (c # cs)) = it_end it - it_ptr it" by (simp only: d)
  moreover have "length c \<le> length (wire0 (c # cs))"
    using align4_ge [of "length c"] by (cases cs) auto
  ultimately show ?thesis using e by linarith
qed

lemma positioned_next:
  assumes p: "positioned it (c # cs)"
  shows "positioned (it\<lparr>it_ptr := it_ptr it + align4 (length c)\<rparr>) cs"
proof (cases "cs = []")
  case True
  then show ?thesis using p by (simp add: positioned_def)
next
  case False
  let ?d = "take (it_end it - it_ptr it) (drop (it_ptr it) (it_mem it))"
  have d: "?d = pad4 c @ wire0 cs" and le: "it_ptr it \<le> it_end it" "it_end it \<le> length (it_mem it)"
    using p False by (simp_all add: positioned_def wire0_Cons)
  have "length ?d = it_end it - it_ptr it" using le by simp
  then have le2: "it_ptr it + align4 (length c) \<le> it_end it" using d le by simp
  have "drop (align4 (length c)) ?d = wire0 cs" by (simp add: d)
  then have "take (it_end it - (it_ptr it + align4 (length c)))
      (drop (it_ptr it + align4 (length c)) (it_mem it)) = wire0 cs"
    by (simp add: drop_take add.commute)
  then show ?thesis using p le2 by (simp add: positioned_def)
qed

lemma positioned_mem:
  assumes p: "positioned it (c # cs)" and n: "n \<le> length c"
  shows "mem_at it (it_ptr it) n = take n c"
proof -
  let ?d = "take (it_end it - it_ptr it) (drop (it_ptr it) (it_mem it))"
  have d: "?d = wire0 (c # cs)" using p by (simp add: positioned_def)
  have "take n ?d = mem_at it (it_ptr it) n"
    using positioned_bounds [OF p] n by (simp add: mem_at_def min_def)
  moreover have "take n (wire0 (c # cs)) = take n c"
    using n by (cases cs) (simp_all add: pad4_def)
  ultimately show ?thesis using d by simp
qed


lemma ReadBuiltinType_reads:
  assumes "sz = length c" "0 < sz" "4 dvd sz \<or> sz < 4"
  shows "reads (ReadBuiltinType sz) (c # cs) c cs"
proof (rule readsI)
  fix it assume p: "positioned it (c # cs)"
  have "(if sz < 4 then unat (AlignInt (of_nat sz) 4) else sz) = align4 (length c)"
  proof (cases "sz < 4")
    case True
    then have "sz = 1 \<or> sz = 2 \<or> sz = 3" using assms(2) by linarith
    then show ?thesis using True assms(1) by (auto simp: AlignInt_def align4_def)
  next
    case False
    then have "4 dvd length c" using assms(1,3) by blast
    then show ?thesis using False assms(1) by simp
  qed
  moreover have "\<not> it_ptr it + sz > it_end it" using positioned_bounds [OF p] assms(1) by simp
  ultimately have "GetReadPointer_type sz it =
      (Some (it_ptr it), it\<lparr>it_ptr := it_ptr it + align4 (length c)\<rparr>)"
    by (simp add: GetReadPointer_type_def)
  moreover have "mem_at it (it_ptr it) sz = c" using positioned_mem [OF p, of sz] assms(1) by simp
  ultimately have "ReadBuiltinType sz it = (Some c, it\<lparr>it_ptr := it_ptr it + align4 (length c)\<rparr>)"
    by (simp add: ReadBuiltinType_def rbind_def rret_def)
  then show "\<exists>it'. ReadBuiltinType sz it = (Some c, it') \<and> positioned it' cs"
    using positioned_next [OF p] by blast
qed

lemma GetReadPointer_positioned:
  assumes p: "positioned it (c # cs)" and l: "unat len = length c" "length c < 2 ^ 31"
  shows "GetReadPointer len it = (Some (it_ptr it), it\<lparr>it_ptr := it_ptr it + align4 (length c)\<rparr>)"
proof -
  have s: "sint len = int (length c)" using sint_small [of len] l by simp
  have "align4 (unat len) < 2 ^ 32" using align4_lt [of "length c"] l by simp
  then have "unat (AlignInt len 4) = align4 (length c)" using l(1) by (simp add: unat_AlignInt4)
  moreover have "it_ptr it + length c \<le> it_end it" by (rule positioned_bounds [OF p])
  moreover have "\<not> it_null it" using p by (simp add: positioned_def)
  ultimately show ?thesis using s by (simp add: GetReadPointer_def)
qed

lemma ReadBytes_reads:
  assumes l: "length c < 2 ^ 31" shows "reads (ReadBytes (of_nat (length c))) (c # cs) c cs"
proof (rule readsI)
  fix it assume p: "positioned it (c # cs)"
  have u: "unat (of_nat (length c) :: u32) = length c" unfolding unat_of_nat using l by simp
  have "mem_at it (it_ptr it) (length c) = c" using positioned_mem [OF p] by simp
  then have "ReadBytes (of_nat (length c)) it =
      (Some c, it\<lparr>it_ptr := it_ptr it + align4 (length c)\<rparr>)"
    using GetReadPointer_positioned [OF p u l] u by (simp add: ReadBytes_def rbind_def rret_def)
  then show "\<exists>it'. ReadBytes (of_nat (length c)) it = (Some c, it') \<and> positioned it' cs"
    using positioned_next [OF p] by blast
qed

lemma SkipBytes_reads:
  assumes "unat n = length c" "length c < 2 ^ 31" shows "reads (SkipBytes n) (c # cs) () cs"
proof (rule readsI)
  fix it assume p: "positioned it (c # cs)"
  then show "\<exists>it'. SkipBytes n it = (Some (), it') \<and> positioned it' cs"
    using GetReadPointer_positioned [OF p assms] positioned_next [OF p]
    by (auto simp: SkipBytes_def rbind_def rret_def)
qed

section \<open>The primitive types\<close>

lemma unat_small_nat: "n < 2 ^ 31 \<Longrightarrow> unat (of_nat n :: u32) = n"
  unfolding unat_of_nat by simp

lemma sint_small_nat: "n < 2 ^ 31 \<Longrightarrow> sint (of_nat n :: u32) = int n"
  using sint_small [of "of_nat n"] by (simp only: unat_small_nat)

lemma fixed_writes:
  assumes "length data = n" "n < 2 ^ 31" "len = of_nat n"
  shows "writes (\<lambda>ra. WriteBytes ra data len) [data]"
  using WriteBytes_writes [of data] assms by simp

lemma prim_writes:
  "writes (\<lambda>ra. WriteInt ra i) [bytes32 i]"
  "writes (\<lambda>ra. WriteLong ra i) [bytes32 i]"
  "writes (\<lambda>ra. WriteUInt32 ra i) [bytes32 i]"
  "writes (\<lambda>ra. WriteFloat ra i) [bytes32 i]"
  "writes (\<lambda>ra. WriteUInt16 ra s) [bytes16 s]"
  "writes (\<lambda>ra. WriteInt64 ra l) [bytes64 l]"
  "writes (\<lambda>ra. WriteUInt64 ra l) [bytes64 l]"
  unfolding WriteInt_def WriteLong_def WriteUInt32_def WriteFloat_def WriteUInt16_def
    WriteInt64_def WriteUInt64_def
  by (rule fixed_writes [of _ 4] fixed_writes [of _ 2] fixed_writes [of _ 8]; simp; fail)+

lemma WriteBool_writes: "writes (\<lambda>ra. WriteBool ra b) [bytes32 (if b then 1 else 0)]"
  unfolding WriteBool_def by (rule prim_writes)

lemma word_read:
  assumes "reads r (c # cs) c cs" "g c = v"
  shows "reads (rbind r (\<lambda>bs. rret (g bs))) (c # cs) v cs"
  using rbind_reads [OF assms(1), of "\<lambda>bs. rret (g bs)" v cs] rret_reads [of v cs] assms(2) by simp

lemma prim_reads:
  "reads ReadInt (bytes32 i # cs) i cs"
  "reads ReadLong (bytes32 i # cs) i cs"
  "reads ReadUInt32 (bytes32 i # cs) i cs"
  "reads ReadFloat (bytes32 i # cs) i cs"
  "reads ReadUInt16 (bytes16 s # cs) s cs"
  "reads ReadInt64 (bytes64 l # cs) l cs"
  "reads ReadUInt64 (bytes64 l # cs) l cs"
  unfolding ReadInt_def ReadLong_def ReadUInt32_def ReadFloat_def ReadUInt16_def
    ReadInt64_def ReadUInt64_def
  by (rule word_read, rule ReadBuiltinType_reads, simp_all)+

text \<open>\<open>WriteBool\<close> writes an \<open>int\<close> and \<open>ReadBool\<close> looks at its first byte only.\<close>

lemma le_bytes_4: "le_bytes 4 v = of_nat (v mod 256) # le_bytes 3 (v div 256)"
  using le_bytes.simps(2) [of 3 v] by simp

lemma ReadBool_reads: "reads ReadBool (bytes32 (if b then 1 else 0) # cs) b cs"
proof (rule readsI)
  fix it assume p: "positioned it (bytes32 (if b then 1 else 0) # cs)"
  have one: "unat (AlignInt (of_nat 1) 4) = 4" by (simp add: AlignInt_def)
  have "mem_at it (it_ptr it) 1 = take 1 (bytes32 (if b then 1 else 0))"
    using positioned_mem [OF p, of 1] by simp
  also have "\<dots> = [if b then 1 else 0]" by (simp add: bytes32_def le_bytes_4)
  finally have m: "mem_at it (it_ptr it) 1 = [if b then 1 else 0]" .
  have "\<not> it_ptr it + 1 > it_end it" using positioned_bounds [OF p] by simp
  then have "ReadBool it = (Some b, it\<lparr>it_ptr := it_ptr it + 4\<rparr>)"
    using m one by (simp add: ReadBool_def ReadBuiltinType_def rbind_def rret_def GetReadPointer_type_def)
  then show "\<exists>it'. ReadBool it = (Some b, it') \<and> positioned it' cs"
    using positioned_next [OF p] by auto
qed

lemma ReadLength_reads:
  assumes "n < 2 ^ 31" shows "reads ReadLength (bytes32 (of_nat n) # cs) (of_nat n) cs"
  unfolding ReadLength_def
  by (rule rbind_reads [OF prim_reads(1)]) (simp add: sint_small_nat [OF assms] rret_reads)

lemma WriteString_writes:
  "length s < 2 ^ 31 \<Longrightarrow> writes (\<lambda>ra. WriteString ra s) [bytes32 (of_nat (length s)), s]"
  unfolding WriteString_def
  using and_then_writes [OF prim_writes(1) WriteBytes_writes [of s]] by simp

lemma ReadString_reads:
  assumes "length s < 2 ^ 31"
  shows "reads ReadString (bytes32 (of_nat (length s)) # s # cs) s cs"
  unfolding ReadString_def by (rule rbind_reads, rule prim_reads(1), rule ReadBytes_reads [OF assms])

lemma WriteData_writes:
  "length s < 2 ^ 31 \<Longrightarrow>
   writes (\<lambda>ra. WriteData ra s (of_nat (length s))) [bytes32 (of_nat (length s)), s]"
  using and_then_writes [OF prim_writes(1) WriteBytes_writes [of s]]
  by (simp add: WriteData_def sint_small_nat)

lemma ReadData_reads:
  assumes "length s < 2 ^ 31"
  shows "reads ReadData (bytes32 (of_nat (length s)) # s # cs) s cs"
  unfolding ReadData_def by (rule rbind_reads, rule prim_reads(1), rule ReadBytes_reads [OF assms])

lemma length_units_bytes [simp]: "length (units_bytes us) = 2 * length us"
  by (induction us) (simp_all add: units_bytes_def)

lemma bytes16_split: "bytes16 u = [le_bytes 2 (unat u) ! 0, le_bytes 2 (unat u) ! 1]"
proof -
  have "\<exists>a b. le_bytes (Suc (Suc 0)) v = [a, b]" for v by simp
  then obtain a b where "le_bytes 2 (unat u) = [a, b]" by (metis numeral_2_eq_2)
  then show ?thesis by (simp add: bytes16_def)
qed

lemma bytes_units_append16: "bytes_units (bytes16 u @ bs) = u # bytes_units bs"
proof -
  obtain a b where ab: "bytes16 u = [a, b]" using bytes16_split by blast
  have "word16 [a, b] = u" by (simp flip: ab)
  then show ?thesis by (simp add: ab)
qed

lemma bytes_units_units: "bytes_units (units_bytes us) = us"
  by (induction us) (simp_all add: units_bytes_def bytes_units_append16)

lemma ReadElems16_reads:
  assumes l: "length us < 2 ^ 30"
  shows "reads (ReadElems16 (of_nat (length us))) (units_bytes us # cs) us cs"
proof (rule readsI)
  fix it assume p: "positioned it (units_bytes us # cs)"
  let ?n = "of_nat (length us) :: u32"
  have n: "unat ?n = length us" "sint ?n = int (length us)"
    using unat_small_nat [of "length us"] sint_small_nat [of "length us"] l by simp_all
  have w: "word_of_int (int (length us) * 2) = (of_nat (2 * length us) :: u32)" by simp
  have sw: "sint (of_nat (2 * length us) :: u32) = int (2 * length us)"
    using l by (intro sint_small_nat) simp
  have uw: "unat (of_nat (2 * length us) :: u32) = length (units_bytes us)"
    using l by (simp only: length_units_bytes) (intro unat_small_nat, simp)
  have g: "GetReadPointer (of_nat (2 * length us)) it =
      (Some (it_ptr it), it\<lparr>it_ptr := it_ptr it + align4 (length (units_bytes us))\<rparr>)"
    using GetReadPointer_positioned [OF p uw] l by simp
  have "GetReadPointer_elems ?n 2 it =
      (Some (it_ptr it), it\<lparr>it_ptr := it_ptr it + align4 (length (units_bytes us))\<rparr>)"
    unfolding GetReadPointer_elems_def Let_def n(2) of_nat_numeral w sw g by simp
  moreover have "mem_at it (it_ptr it) (2 * length us) = units_bytes us"
    using positioned_mem [OF p, of "2 * length us"] by simp
  ultimately have "ReadElems16 ?n it =
      (Some us, it\<lparr>it_ptr := it_ptr it + align4 (length (units_bytes us))\<rparr>)"
    by (simp add: ReadElems16_def rbind_def rret_def n bytes_units_units del: length_units_bytes)
  then show "\<exists>it'. ReadElems16 ?n it = (Some us, it') \<and> positioned it' cs"
    using positioned_next [OF p] by auto
qed

lemma String16_codec:
  assumes "length us < 2 ^ 30"
  shows "writes (\<lambda>ra. WriteString16 ra us) [bytes32 (of_nat (length us)), units_bytes us]"
    "reads ReadString16 (bytes32 (of_nat (length us)) # units_bytes us # cs) us cs"
    "writes (\<lambda>ra. WriteWString ra us) [bytes32 (of_nat (length us)), units_bytes us]"
    "reads ReadWString (bytes32 (of_nat (length us)) # units_bytes us # cs) us cs"
proof -
  have b: "writes (\<lambda>ra. WriteBytes ra (units_bytes us) (of_nat (length us * 2))) [units_bytes us]"
    using WriteBytes_writes [of "units_bytes us"] assms by (simp add: mult.commute)
  show "writes (\<lambda>ra. WriteString16 ra us) [bytes32 (of_nat (length us)), units_bytes us]"
    "writes (\<lambda>ra. WriteWString ra us) [bytes32 (of_nat (length us)), units_bytes us]"
    using and_then_writes [OF prim_writes(1) b] by (simp_all add: WriteString16_def WriteWString_def)
  show "reads ReadString16 (bytes32 (of_nat (length us)) # units_bytes us # cs) us cs"
    "reads ReadWString (bytes32 (of_nat (length us)) # units_bytes us # cs) us cs"
    unfolding ReadString16_def ReadWString_def
    by (rule rbind_reads, rule prim_reads(1), rule ReadElems16_reads [OF assms])+
qed

end
