(* ===== verification/Pickle_Props.thy ===== *)
theory Pickle_Props
  imports Pickle_Chunks
begin

text \<open>
  The properties of \<open>base/pickle.cc\<close>: what a write appends, that a reader never leaves the payload,
  the round trip of any sequence of typed values, the search for the end of a pickle in a stream,
  and the two ways of making a pickle from another one's bytes.
\<close>

section \<open>Fresh pickles and their iterators\<close>

text \<open>An allocator that zero-fills, for the closed instances.\<close>

definition zero_realloc :: realloc_fn where
  "zero_realloc h n = Some (case h of None \<Rightarrow> replicate n 0
     | Some b \<Rightarrow> take n b @ replicate (n - length b) 0)"

lemma zero_realloc_ok: "realloc_ok zero_realloc" "alloc_total zero_realloc"
  by (auto simp: realloc_ok_def alloc_total_def zero_realloc_def min_def split: option.splits)

lemma fresh_Resize:
  assumes "realloc_ok ra" "alloc_total ra"
  obtains b where "Resize ra kPayloadUnit \<lparr>pk_header = None, pk_header_size = hs, pk_capacity = 0,
      pk_var_off = 0\<rparr> = Some (True, \<lparr>pk_header = Some b, pk_header_size = hs, pk_capacity = 64,
      pk_var_off = 0\<rparr>)" "length b = 64"
proof -
  have a: "AlignInt kPayloadUnit kPayloadUnit = 64" by (simp add: AlignInt_def kPayloadUnit_def)
  have "ra None 64 \<noteq> None" using assms(2) by (simp add: alloc_total_def)
  then obtain b where b: "ra None 64 = Some b" by blast
  then have "length b = 64" using assms(1) by (simp add: realloc_ok_def)
  then show thesis using b a by (intro that [of b]) (simp_all add: Resize_def kCapacityReadOnly_def)
qed

lemma Pickle_header_size_fresh:
  assumes ra: "realloc_ok ra" "alloc_total ra" and hs: "4 \<le> unat hs" "unat hs \<le> 64"
  shows "\<exists>p. Pickle_header_size ra hs = Some p \<and> pickle_inv p \<and> hsize p = align4 (unat hs) \<and>
             psize p = 0 \<and> pk_var_off p = 0"
proof -
  have al: "unat (AlignInt hs 4) = align4 (unat hs)"
    using hs align4_lt [of "unat hs"] by (intro unat_AlignInt4) simp
  have le: "4 \<le> align4 (unat hs)" "align4 (unat hs) \<le> 64"
    using hs align4_ge [of "unat hs"] by (linarith, intro align4_le_mono) simp_all
  obtain b where b: "Resize ra kPayloadUnit \<lparr>pk_header = None, pk_header_size = AlignInt hs 4,
      pk_capacity = 0, pk_var_off = 0\<rparr> = Some (True, \<lparr>pk_header = Some b,
      pk_header_size = AlignInt hs 4, pk_capacity = 64, pk_var_off = 0\<rparr>)" "length b = 64"
    by (rule fresh_Resize [OF ra])
  obtain b' where b': "store32 0 0 b = Some b'" using store32_Some [of 0 b 0] b(2) by auto
  have "load32 b' 0 = Some 0" "length b' = 64"
    using load32_store32_same [OF b'] store32_length [OF b'] b(2) by simp_all
  then show ?thesis using b b' al le
    by (simp add: Pickle_header_size_def set_payload_size_def pickle_inv_def psize_def
        payload_size_def hsize_def)
qed

lemma Pickle_default_fresh:
  assumes "realloc_ok ra" "alloc_total ra"
  shows "\<exists>p. Pickle_default ra = Some p \<and> pickle_inv p \<and> hsize p = 4 \<and> psize p = 0"
proof -
  have "Pickle_default ra = Pickle_header_size ra 4"
    by (simp add: Pickle_default_def Pickle_header_size_def sizeof_Header_def AlignInt_def)
  then show ?thesis using Pickle_header_size_fresh [OF assms, of 4] by auto
qed

lemma iterator_positioned:
  assumes inv: "pickle_inv p" and app: "appends cs p0 p" and z: "psize p0 = 0"
  shows "\<exists>it. PickleIterator p = Some it \<and> positioned it cs"
proof -
  from inv obtain b where b: "pk_header p = Some b" "pbuf p = b" "4 \<le> hsize p"
    "hsize p + align4 (psize p) \<le> length b" "payload_size p = Some (of_nat (psize p))"
    by (rule pickle_invE)
  obtain w where w: "payload_size p = Some w" using b(5) by blast
  then have "psize p = unat w" by (simp add: psize_def)
  then have u: "unat (of_nat (psize p) :: u32) = psize p" by simp
  let ?it = "\<lparr>it_mem = drop (hsize p) b, it_ptr = 0, it_end = psize p, it_null = False\<rparr>"
  have it: "PickleIterator p = Some ?it"
    using b u by (simp add: PickleIterator_def hsize_def)
  have le: "psize p \<le> length b - hsize p"
    using b(4) align4_ge [of "psize p"] by linarith
  have "take (psize p) (drop (hsize p) b) = wire0 cs" if ne: "cs \<noteq> []"
  proof -
    have ps: "psize p = length (wire0 cs)" using app z ne by (simp add: appends_def align4_def)
    have p0: "padded p0 = []" using z by (simp add: padded_def align4_def)
    have "padded p = wire cs" using app p0 by (simp add: appends_def)
    then have "take (align4 (psize p)) (drop (hsize p) b) = wire cs"
      using b(2) by (simp add: padded_def)
    then have "take (psize p) (wire cs) = take (psize p) (take (align4 (psize p)) (drop (hsize p) b))"
      by simp
    also have "\<dots> = take (psize p) (drop (hsize p) b)"
      using align4_ge [of "psize p"] by (simp add: min_def)
    finally have "take (psize p) (drop (hsize p) b) = take (psize p) (wire cs)" by simp
    also have "\<dots> = take (length (wire0 cs)) (pad4 (wire0 cs))" by (simp only: ps pad4_wire0)
    finally show ?thesis by simp
  qed
  then have "positioned ?it cs" using le by (simp add: positioned_def)
  then show ?thesis using it by blast
qed

section \<open>Writing\<close>

text \<open>one \<open>Pickle::WriteBytes\<close> on a writable pickle either returns \<open>false\<close> with the pickle
  unchanged (and then an allocation failed), or returns \<open>true\<close>, keeps the buffer invariant and
  appends exactly the padded data after the padded old payload, leaving the header bytes alone.\<close>

theorem write_bytes_appends:
  assumes "pickle_inv p" "realloc_ok ra" "unat len = length data"
    "hsize p + align4 (psize p) + length data < 2 ^ 31"
  shows "(WriteBytes ra data len p = Some (False, p) \<and> \<not> alloc_total ra) \<or>
         (\<exists>p'. WriteBytes ra data len p = Some (True, p') \<and> pickle_inv p' \<and> hsize p' = hsize p \<and>
            hdr_tail p' = hdr_tail p \<and> psize p' = align4 (psize p) + length data \<and>
            padded p' = padded p @ pad4 data)"
  using WriteBytes_appends [OF assms] by (auto simp: appended_def)

definition small_pickle :: pickle where
  "small_pickle = \<lparr>pk_header = Some (replicate 64 0), pk_header_size = 4, pk_capacity = 64,
                   pk_var_off = 0\<rparr>"

lemma small_pickle_inv: "pickle_inv small_pickle" "hsize small_pickle = 4" "psize small_pickle = 0"
proof -
  have "take 4 (replicate 64 (0 :: u8)) = [0, 0, 0, 0]" by (simp add: numeral_eq_Suc)
  then have "load32 (replicate 64 0) 0 = Some 0" by (simp add: load32_def word32_def)
  then show "pickle_inv small_pickle" "hsize small_pickle = 4" "psize small_pickle = 0"
    by (simp_all add: small_pickle_def pickle_inv_def hsize_def psize_def payload_size_def)
qed

lemma write_bytes_appends_witness:
  "\<exists>p'. WriteBytes zero_realloc [1, 2] 2 small_pickle = Some (True, p') \<and>
        psize p' = 2 \<and> padded p' = [1, 2, 0, 0]"
proof -
  have 1: "unat (2 :: u32) = length [1 :: u8, 2]" by simp
  have 2: "hsize small_pickle + align4 (psize small_pickle) + length [1 :: u8, 2] < 2 ^ 31"
    by (simp add: small_pickle_inv align4_def)
  have 3: "padded small_pickle = []" by (simp add: padded_def small_pickle_inv align4_def)
  show ?thesis
    using write_bytes_appends [OF small_pickle_inv(1) zero_realloc_ok(1) 1 2]
    by (auto simp: zero_realloc_ok small_pickle_inv 3 align4_def pad4_def numeral_2_eq_2)
qed

section \<open>Readers stay inside the payload\<close>

lemma mem_at_length: "off + n \<le> length (it_mem it) \<Longrightarrow> length (mem_at it off n) = n"
  by (simp add: mem_at_def)

lemma GetReadPointer_bounds:
  assumes "GetReadPointer n it = (Some off, it')"
  shows "off = it_ptr it" "off + unat n \<le> it_end it" "sint n = int (unat n)"
proof -
  have s: "0 \<le> sint n" "sint n \<le> int (it_end it) - int (it_ptr it)" "off = it_ptr it"
    using assms by (auto simp: GetReadPointer_def split: if_splits)
  then have "unat n < 2 ^ 31" using sint_neg [of n] by force
  then have "sint n = int (unat n)" by (rule sint_small)
  moreover from this have "int (off + unat n) \<le> int (it_end it)" using s by linarith
  ultimately show "off = it_ptr it" "off + unat n \<le> it_end it" "sint n = int (unat n)"
    using s(3) by (simp_all only: of_nat_le_iff)
qed

text \<open>\<open>PickleIterator::ReadBytes\<close> returns exactly the requested number of bytes, taken from
  between the read pointer and the end of the payload; a negative length and a length past the end
  are refused and leave the iterator where it is.\<close>

theorem read_bytes_in_bounds:
  assumes ok: "it_end it \<le> length (it_mem it)" and r: "ReadBytes len it = (res, it')"
  shows "case res of
      Some bs \<Rightarrow> length bs = unat len \<and> it_ptr it + unat len \<le> it_end it \<and>
                 bs = take (unat len) (drop (it_ptr it) (it_mem it)) \<and>
                 it_ptr it' = it_ptr it + unat (AlignInt len 4)
    | None \<Rightarrow> it_null it \<or>
        (it' = it \<and> (sint len < 0 \<or> int (it_end it) - int (it_ptr it) < sint len))"
proof (cases "GetReadPointer len it")
  case (Pair o' it1)
  show ?thesis
  proof (cases o')
    case None
    then show ?thesis using Pair r
      by (auto simp: ReadBytes_def rbind_def GetReadPointer_def split: if_splits)
  next
    case (Some off)
    note b = GetReadPointer_bounds [OF Pair [unfolded Some]]
    have "it1 = it\<lparr>it_ptr := it_ptr it + unat (AlignInt len 4)\<rparr>"
      using Pair Some by (auto simp: GetReadPointer_def split: if_splits)
    moreover have "res = Some (mem_at it off (unat len))" "it' = it1"
      using Pair Some r by (auto simp: ReadBytes_def rbind_def rret_def)
    ultimately show ?thesis using b ok by (simp add: mem_at_def)
  qed
qed

lemma read_bytes_in_bounds_witness:
  "ReadBytes 3 \<lparr>it_mem = [5, 6, 7, 0], it_ptr = 0, it_end = 3, it_null = False\<rparr>
     = (Some [5, 6, 7], \<lparr>it_mem = [5, 6, 7, 0], it_ptr = 4, it_end = 3, it_null = False\<rparr>) \<and>
   length [5 :: u8, 6, 7] = unat (3 :: u32)"
proof -
  have r: "ReadBytes 3 \<lparr>it_mem = [5, 6, 7, 0], it_ptr = 0, it_end = 3, it_null = False\<rparr>
     = (Some [5, 6, 7], \<lparr>it_mem = [5, 6, 7, 0], it_ptr = 4, it_end = 3, it_null = False\<rparr>)"
    by (simp add: ReadBytes_def rbind_def rret_def GetReadPointer_def AlignInt_def mem_at_def)
  show ?thesis using read_bytes_in_bounds [OF _ r] r by simp
qed

lemma bytes_units_length: "length (bytes_units bs) = length bs div 2"
  by (induction bs rule: bytes_units.induct) auto

text \<open>reading a string of 16-bit units (the overload of \<open>GetReadPointerAndAdvance\<close> for arrays):
  if it succeeds, all \<open>2 * len\<close> bytes lie inside the payload and \<open>len\<close> units are returned, so the
  64-bit overflow check leaves no length that would wrap around.\<close>

theorem read_elems_in_bounds:
  assumes "it_end it \<le> length (it_mem it)" and "ReadElems16 len it = (Some us, it')"
  shows "length us = unat len \<and> it_ptr it + 2 * unat len \<le> it_end it"
proof -
  let ?w = "word_of_int (sint len * 2) :: u32"
  from assms(2) obtain off it1 where g: "GetReadPointer_elems len 2 it = (Some off, it1)"
    and us: "us = bytes_units (mem_at it off (2 * unat len))"
    by (auto simp: ReadElems16_def rbind_def rret_def split: prod.splits option.splits)
  from g have fits: "sint len * 2 = sint ?w" and p: "GetReadPointer ?w it = (Some off, it1)"
    by (auto simp: GetReadPointer_elems_def Let_def split: if_splits)
  note b = GetReadPointer_bounds [OF p]
  then have "0 \<le> sint len" using fits by linarith
  then have "unat len < 2 ^ 31" using sint_neg [of len] by force
  then have "sint len = int (unat len)" by (rule sint_small)
  then have "unat ?w = 2 * unat len" using b(3) fits by linarith
  then show ?thesis using b(1,2) us assms(1) by (simp add: bytes_units_length mem_at_length)
qed

lemma read_elems_in_bounds_witness:
  "ReadElems16 1 \<lparr>it_mem = [65, 0, 9, 9], it_ptr = 0, it_end = 2, it_null = False\<rparr>
     = (Some [65], \<lparr>it_mem = [65, 0, 9, 9], it_ptr = 4, it_end = 2, it_null = False\<rparr>) \<and> length [65 :: u16] = 1"
proof -
  have r: "ReadElems16 1 \<lparr>it_mem = [65, 0, 9, 9], it_ptr = 0, it_end = 2, it_null = False\<rparr>
     = (Some [65], \<lparr>it_mem = [65, 0, 9, 9], it_ptr = 4, it_end = 2, it_null = False\<rparr>)"
    by (simp add: ReadElems16_def rbind_def rret_def GetReadPointer_elems_def GetReadPointer_def
        AlignInt_def mem_at_def word16_def)
  show ?thesis using read_elems_in_bounds [OF _ r] r by simp
qed
















section \<open>Round trip of typed values\<close>

text \<open>The typed values a client writes and the order in which it must read them back.\<close>

datatype item =
    IBool bool | IInt i32 | IUInt16 u16 | IUInt32 u32 | IInt64 u64 | IFloat u32
  | IString bytes | IString16 "u16 list" | IData bytes

fun write_item :: "realloc_fn \<Rightarrow> item \<Rightarrow> pickle \<Rightarrow> (bool \<times> pickle) option" where
  "write_item ra (IBool b) = WriteBool ra b"
| "write_item ra (IInt i) = WriteInt ra i"
| "write_item ra (IUInt16 i) = WriteUInt16 ra i"
| "write_item ra (IUInt32 i) = WriteUInt32 ra i"
| "write_item ra (IInt64 i) = WriteInt64 ra i"
| "write_item ra (IFloat i) = WriteFloat ra i"
| "write_item ra (IString s) = WriteString ra s"
| "write_item ra (IString16 s) = WriteString16 ra s"
| "write_item ra (IData s) = WriteData ra s (of_nat (length s))"

text \<open>Reading back a value of the type of the given one.\<close>

fun read_item :: "item \<Rightarrow> item reader" where
  "read_item (IBool _) = rbind ReadBool (\<lambda>x. rret (IBool x))"
| "read_item (IInt _) = rbind ReadInt (\<lambda>x. rret (IInt x))"
| "read_item (IUInt16 _) = rbind ReadUInt16 (\<lambda>x. rret (IUInt16 x))"
| "read_item (IUInt32 _) = rbind ReadUInt32 (\<lambda>x. rret (IUInt32 x))"
| "read_item (IInt64 _) = rbind ReadInt64 (\<lambda>x. rret (IInt64 x))"
| "read_item (IFloat _) = rbind ReadFloat (\<lambda>x. rret (IFloat x))"
| "read_item (IString _) = rbind ReadString (\<lambda>x. rret (IString x))"
| "read_item (IString16 _) = rbind ReadString16 (\<lambda>x. rret (IString16 x))"
| "read_item (IData _) = rbind ReadData (\<lambda>x. rret (IData x))"

fun write_items :: "realloc_fn \<Rightarrow> item list \<Rightarrow> pickle \<Rightarrow> (bool \<times> pickle) option" where
  "write_items ra [] p = Some (True, p)"
| "write_items ra (x # xs) p = and_then (write_item ra x) (write_items ra xs) p"

fun read_items :: "item list \<Rightarrow> item list reader" where
  "read_items [] = rret []"
| "read_items (t # ts) = rbind (read_item t) (\<lambda>x. rbind (read_items ts) (\<lambda>xs. rret (x # xs)))"

fun item_chunks :: "item \<Rightarrow> bytes list" where
  "item_chunks (IBool b) = [bytes32 (if b then 1 else 0)]"
| "item_chunks (IInt i) = [bytes32 i]"
| "item_chunks (IUInt16 i) = [bytes16 i]"
| "item_chunks (IUInt32 i) = [bytes32 i]"
| "item_chunks (IInt64 i) = [bytes64 i]"
| "item_chunks (IFloat i) = [bytes32 i]"
| "item_chunks (IString s) = [bytes32 (of_nat (length s)), s]"
| "item_chunks (IString16 s) = [bytes32 (of_nat (length s)), units_bytes s]"
| "item_chunks (IData s) = [bytes32 (of_nat (length s)), s]"

fun item_small :: "item \<Rightarrow> bool" where
  "item_small (IString s) = (length s < 2 ^ 31)"
| "item_small (IString16 s) = (length s < 2 ^ 30)"
| "item_small (IData s) = (length s < 2 ^ 31)"
| "item_small _ = True"

lemma item_writes: "item_small x \<Longrightarrow> writes (\<lambda>ra. write_item ra x) (item_chunks x)"
  by (cases x) (simp_all add: prim_writes WriteBool_writes WriteString_writes String16_codec(1)
      WriteData_writes)

lemma item_reads: "item_small x \<Longrightarrow> reads (read_item x) (item_chunks x @ cs) x cs"
  by (cases x) (auto intro!: rbind_reads [where f = "\<lambda>y. rret (_ y)"] rret_reads prim_reads
      ReadBool_reads [of True, simplified] ReadBool_reads [of False, simplified]
      ReadString_reads String16_codec(2) ReadData_reads)

lemma items_writes:
  "list_all item_small xs \<Longrightarrow>
   writes (\<lambda>ra. write_items ra xs) (concat (map item_chunks xs))"
proof (induction xs)
  case Nil
  then show ?case by (simp add: writes_def appends_Nil)
next
  case (Cons x xs)
  then have "writes (\<lambda>ra. and_then (write_item ra x) (write_items ra xs))
      (item_chunks x @ concat (map item_chunks xs))"
    by (intro and_then_writes item_writes) simp_all
  then show ?case by (simp add: writes_def)
qed

lemma items_reads:
  "list_all item_small xs \<Longrightarrow> reads (read_items xs) (concat (map item_chunks xs) @ cs) xs cs"
proof (induction xs)
  case Nil
  then show ?case by (simp add: rret_reads)
next
  case (Cons x xs)
  then have 1: "reads (read_item x) (item_chunks x @ (concat (map item_chunks xs) @ cs)) x
      (concat (map item_chunks xs) @ cs)"
    and 2: "reads (read_items xs) (concat (map item_chunks xs) @ cs) xs cs"
    by (simp_all add: item_reads)
  show ?case unfolding read_items.simps list.map concat.simps append_assoc
    by (rule rbind_reads [OF 1]) (rule rbind_reads [OF 2], rule rret_reads)
qed

text \<open>C32: values of any types written to a fresh pickle are read back, in the same order, with the
  same values, provided no allocation fails and the payload stays below 2 GB.\<close>

theorem pickle_roundtrip:
  assumes "realloc_ok ra" "alloc_total ra" "list_all item_small xs"
    and "length (wire (concat (map item_chunks xs))) < 2 ^ 30"
  shows "\<exists>p0 p it it'. Pickle_default ra = Some p0 \<and> write_items ra xs p0 = Some (True, p) \<and>
           PickleIterator p = Some it \<and> read_items xs it = (Some xs, it')"
proof -
  obtain p0 where p0: "Pickle_default ra = Some p0" "pickle_inv p0" "hsize p0 = 4" "psize p0 = 0"
    using Pickle_default_fresh [OF assms(1,2)] by blast
  let ?cs = "concat (map item_chunks xs)"
  have "room ?cs p0" using assms(4) p0(3,4) by (simp add: room_def align4_def)
  then obtain p where p: "write_items ra xs p0 = Some (True, p)" "pickle_inv p" "appends ?cs p0 p"
    using writesD [OF items_writes [OF assms(3)] assms(1,2) p0(2)] by blast
  obtain it where it: "PickleIterator p = Some it" "positioned it ?cs"
    using iterator_positioned [OF p(2,3) p0(4)] by blast
  have "reads (read_items xs) ?cs xs []" using items_reads [OF assms(3), of "[]"] by simp
  then show ?thesis using p0(1) p(1) it unfolding reads_def by blast
qed

lemma pickle_roundtrip_witness:
  "\<exists>p0 p it it'. Pickle_default zero_realloc = Some p0 \<and>
     write_items zero_realloc [IInt 7, IString [104, 105], IBool True] p0 = Some (True, p) \<and>
     PickleIterator p = Some it \<and>
     read_items [IInt 7, IString [104, 105], IBool True] it =
       (Some [IInt 7, IString [104, 105], IBool True], it')"
  by (rule pickle_roundtrip [OF zero_realloc_ok]) (simp_all add: align4_def)


section \<open>Finding and adopting a pickle in a byte stream\<close>

definition stream_payload :: "bytes \<Rightarrow> nat" where
  "stream_payload data = unat (word32 (take 4 data))"

lemma find_next_addr:
  assumes "unat start + length data < 2 ^ 32" "unat start + unat hs < 2 ^ 32" "4 \<le> unat hs"
  shows "FindNext hs start data =
    (if 4 \<le> length data \<and> unat hs + stream_payload data \<le> length data
     then Some (start + hs + word32 (take 4 data)) else None)"
proof (cases "4 \<le> length data")
  case False
  have "unat (of_nat (length data) :: u32) = length data"
    unfolding unat_of_nat using assms(1) by simp
  then have "(of_nat (length data) :: u32) < 4" using False by (simp add: word_less_nat_alt)
  then show ?thesis using False by (simp add: FindNext_def sizeof_Header_def)
next
  case True
  let ?ps = "word32 (take 4 data) :: u32"
  let ?base = "start + hs"
  have ul: "unat (of_nat (length data) :: u32) = length data"
    unfolding unat_of_nat using assms(1) by simp
  then have nl: "\<not> (of_nat (length data) :: u32) < 4" using True by (simp add: word_less_nat_alt)
  have ub: "unat ?base = unat start + unat hs" using assms(2) by (simp add: unat_add_small)
  have us: "unat (start + of_nat (length data)) = unat start + length data"
    using assms(1) ul by (simp add: unat_add_small)
  have ld: "load32 data 0 = Some ?ps" using True by (simp add: load32_def)
  have F: "FindNext hs start data = (if ?base + ?ps < ?base then None
      else if ?base + ?ps > start + of_nat (length data) then None else Some (?base + ?ps))"
    using nl ld by (simp add: FindNext_def sizeof_Header_def)
  show ?thesis
  proof (cases "unat ?base + unat ?ps < 2 ^ 32")
    case True
    then have up: "unat (?base + ?ps) = unat start + unat hs + unat ?ps"
      using ub by (simp add: unat_add_small)
    have "\<not> ?base + ?ps < ?base" using up ub by (simp add: word_less_nat_alt)
    moreover have "?base + ?ps > start + of_nat (length data) \<longleftrightarrow> length data < unat hs + unat ?ps"
      using up us by (simp add: word_less_nat_alt)
    ultimately show ?thesis using F \<open>4 \<le> length data\<close> by (simp add: stream_payload_def)
  next
    case False
    have "?base + ?ps < ?base" using False by (intro unat_add_wraps) simp
    moreover have "\<not> unat hs + unat ?ps \<le> length data" using False ub assms(1) by linarith
    ultimately show ?thesis using F by (simp add: stream_payload_def)
  qed
qed

text \<open>C31: \<open>Pickle::FindNext\<close> on a buffer that does not touch the end of the address space: it finds
  an end exactly when the whole header and payload lie in the buffer, and then returns the address
  just after them; the wrap check makes this true for every claimed payload size up to
  \<open>0xFFFFFFFF\<close>.\<close>

theorem find_next_correct:
  assumes "unat start + length data < 2 ^ 32" "unat start + unat hs < 2 ^ 32" "4 \<le> unat hs"
  shows "FindNext hs start data =
    (if 4 \<le> length data \<and> unat hs + stream_payload data \<le> length data
     then Some (start + hs + word32 (take 4 data)) else None)"
  by (rule find_next_addr [OF assms])

lemma find_next_correct_witness:
  "FindNext 16 4096 ([2, 0, 0, 0] @ replicate 12 0 @ [7, 8, 9]) = Some 4114"
proof -
  have w: "word32 [2, 0, 0, 0] = 2" by (simp add: word32_def)
  show ?thesis using find_next_correct [of 4096 "[2, 0, 0, 0] @ replicate 12 0 @ [7, 8, 9]" 16]
    by (simp add: stream_payload_def w)
qed

lemma from_data_bounds:
  assumes "Pickle_from_data data len = Some q" "unat len = length data" "length data < 2 ^ 31"
  shows "(pk_header q = None \<and> hsize q = 0) \<or>
         (pk_header q = Some data \<and> 4 dvd hsize q \<and> 4 \<le> hsize q \<and>
          hsize q + psize q = length data)"
proof (cases "4 \<le> length data")
  case False
  then have "\<not> 4 \<le> sint len" using sint_small [of len] assms(2,3) by simp
  then show ?thesis using assms(1) by (auto simp: Pickle_from_data_def AlignInt_def hsize_def)
next
  case True
  let ?ps = "word32 (take 4 data) :: u32"
  have s: "4 \<le> sint len" using True sint_small [of len] assms(2,3) by simp
  have ld: "load32 data 0 = Some ?ps" using True by (simp add: load32_def)
  show ?thesis
  proof (cases "pk_header_size q = 0")
    case z: True
    then show ?thesis using assms(1) s ld
      by (auto simp: Pickle_from_data_def hsize_def Let_def split: if_splits)
  next
    case nz: False
    then have h: "pk_header_size q = len - ?ps" "\<not> len - ?ps > len" "len - ?ps = AlignInt (len - ?ps) 4"
      and d: "pk_header q = Some data"
      using assms(1) s ld by (auto simp: Pickle_from_data_def Let_def split: if_splits)
    have ple: "?ps \<le> len"
    proof (rule ccontr)
      assume "\<not> ?ps \<le> len"
      then have "unat len < unat ?ps" by (simp add: word_le_nat_alt)
      then show False using h(2) unat_sub_wraps by blast
    qed
    then have u: "unat (len - ?ps) = unat len - unat ?ps" by (rule unat_sub)
    have al: "align4 (unat (len - ?ps)) < 2 ^ 32"
      using u assms(2,3) align4_lt [of "unat (len - ?ps)"] by simp
    then have "align4 (unat (len - ?ps)) = unat (len - ?ps)" using h(3) unat_AlignInt4 by metis
    then have d4: "4 dvd unat (len - ?ps)" by (metis align4_dvd)
    moreover have "unat (len - ?ps) \<noteq> 0" using nz h(1) by (simp add: unat_eq_zero)
    ultimately have "4 \<le> unat (len - ?ps)" by (metis dvd_imp_le gr0I)
    moreover have "psize q = unat ?ps" using d ld by (simp add: psize_def payload_size_def)
    moreover have "unat ?ps \<le> unat len" using ple by (simp add: word_le_nat_alt)
    ultimately show ?thesis using d d4 h(1) u assms(2) by (simp add: hsize_def)
  qed
qed

text \<open>a pickle made from an untrusted block either is empty (a null header, on which every read
  fails) or its aligned header and its payload together are exactly the block: the payload size in
  the data is never believed beyond the data.\<close>

theorem from_data_safe:
  assumes "Pickle_from_data data len = Some q" "unat len = length data" "length data < 2 ^ 31"
  shows "(pk_header q = None \<and> hsize q = 0) \<or>
         (pk_header q = Some data \<and> 4 dvd hsize q \<and> 4 \<le> hsize q \<and>
          hsize q + psize q = length data)"
  by (rule from_data_bounds [OF assms])

lemma from_data_safe_witness:
  "\<exists>q. Pickle_from_data [1, 0, 0, 0, 42] 5 = Some q \<and> hsize q = 4 \<and> psize q = 1"
proof -
  have w: "word32 [1, 0, 0, 0] = 1" by (simp add: word32_def)
  have r: "Pickle_from_data [1, 0, 0, 0, 42] 5 = Some \<lparr>pk_header = Some [1, 0, 0, 0, 42],
      pk_header_size = 4, pk_capacity = kCapacityReadOnly, pk_var_off = 0\<rparr>"
    by (simp add: Pickle_from_data_def load32_def w AlignInt_def)
  show ?thesis using from_data_safe [OF r] r by (auto simp: hsize_def)
qed

lemma adopt_bytes:
  assumes inv: "pickle_inv p" and small: "hsize p + psize p < 2 ^ 31"
  shows "\<exists>d q. pickle_data p = Some d \<and> Pickle_from_data d (of_nat (length d)) = Some q \<and>
           hsize q = hsize p \<and> payload q = payload p \<and> hdr_tail q = hdr_tail p"
proof -
  from inv obtain b where b: "pk_header p = Some b" "pbuf p = b" "4 dvd hsize p" "4 \<le> hsize p"
    "hsize p + align4 (psize p) \<le> length b" "payload_size p = Some (of_nat (psize p))"
    "load32 b 0 = Some (of_nat (psize p))"
    by (rule pickle_invE)
  have up: "unat (of_nat (psize p) :: u32) = psize p" using small by (intro unat_small_nat) simp
  let ?n = "hsize p + psize p"
  have un: "unat (pk_header_size p + of_nat (psize p)) = ?n"
    using small up by (subst unat_add_small) (simp_all add: hsize_def)
  let ?d = "take ?n b"
  have ld: "length ?d = ?n" using b(5) align4_ge [of "psize p"] by simp
  have D: "pickle_data p = Some ?d"
    using b un align4_ge [of "psize p"] by (simp add: pickle_data_def pickle_size_def)
  have ul: "unat (of_nat ?n :: u32) = ?n" using small by (intro unat_small_nat)
  have weq: "(of_nat ?n :: u32) - of_nat (psize p) = pk_header_size p"
    by (simp add: hsize_def)
  have l0: "load32 ?d 0 = Some (of_nat (psize p))"
    using b(7) ld b(4) by (simp add: load32_def min_def split: if_splits)
  have s4: "4 \<le> sint (of_nat ?n :: u32)" using small b(4) by (simp only: sint_small_nat)
  have ng: "\<not> pk_header_size p > of_nat ?n"
    using ul by (simp only: word_less_nat_alt) (simp add: hsize_def)
  have "unat (AlignInt (pk_header_size p) 4) = unat (pk_header_size p)"
    using b(3) small by (subst unat_AlignInt4) (simp_all add: hsize_def)
  then have al: "AlignInt (pk_header_size p) 4 = pk_header_size p" by (simp only: word_unat_eq_iff)
  have nz: "pk_header_size p \<noteq> 0" using b(4) by (auto simp: hsize_def)
  let ?q = "\<lparr>pk_header = Some ?d, pk_header_size = pk_header_size p,
             pk_capacity = kCapacityReadOnly, pk_var_off = 0\<rparr>"
  have Q: "Pickle_from_data ?d (of_nat (length ?d)) = Some ?q"
    unfolding Pickle_from_data_def ld using s4 l0 weq ng al nz by (simp del: of_nat_add)
  have "psize ?q = psize p" using l0 up by (simp add: psize_def payload_size_def)
  then have "payload ?q = payload p"
    using b(2) by (simp add: payload_def pbuf_def hsize_def drop_take)
  moreover have "hdr_tail ?q = hdr_tail p"
    using b(2) by (simp add: hdr_tail_def pbuf_def hsize_def drop_take min_def)
  ultimately show ?thesis using D Q by (auto simp: hsize_def)
qed

text \<open>sending: the bytes of a written pickle, adopted by the receiver as a read-only pickle,
  give back the same header size and the same payload.\<close>

theorem from_data_of_pickle:
  assumes inv: "pickle_inv p" and small: "hsize p + psize p < 2 ^ 31"
  shows "\<exists>d q. pickle_data p = Some d \<and> Pickle_from_data d (of_nat (length d)) = Some q \<and>
           hsize q = hsize p \<and> payload q = payload p \<and> hdr_tail q = hdr_tail p"
  by (rule adopt_bytes [OF assms])

lemma from_data_of_pickle_witness:
  "\<exists>d q. pickle_data small_pickle = Some d \<and>
     Pickle_from_data d (of_nat (length d)) = Some q \<and> hsize q = 4"
proof -
  have "hsize small_pickle + psize small_pickle < 2 ^ 31" by (simp add: small_pickle_inv)
  from from_data_of_pickle [OF small_pickle_inv(1) this] show ?thesis
    by (auto simp: small_pickle_inv)
qed


section \<open>Copying a pickle\<close>

lemma copy_block:
  assumes inv: "pickle_inv p" and ra: "realloc_ok ra" "alloc_total ra"
    and small: "hsize p + psize p \<le> 2 ^ 32 - 64"
    and t: "pk_header_size t = pk_header_size p" "pk_capacity t \<noteq> kCapacityReadOnly"
  obtains n src r b b' where "pickle_size p = Some n" "pickle_data p = Some src"
    "Resize ra n t = Some (True, r)" "pk_header r = Some b" "blit 0 src b = Some b'"
    "pickle_inv (r\<lparr>pk_header := Some b'\<rparr>)" "hsize r = hsize p" "pk_var_off r = pk_var_off t"
    "psize (r\<lparr>pk_header := Some b'\<rparr>) = psize p"
    "take (hsize p + psize p) b' = take (hsize p + psize p) (pbuf p)"
proof -
  from inv obtain b0 where b0: "pk_header p = Some b0" "pbuf p = b0" "4 dvd hsize p" "4 \<le> hsize p"
    "hsize p + align4 (psize p) \<le> length b0" "payload_size p = Some (of_nat (psize p))"
    "load32 b0 0 = Some (of_nat (psize p))"
    by (rule pickle_invE)
  let ?N = "hsize p + psize p"
  have up: "unat (of_nat (psize p) :: u32) = psize p"
    unfolding unat_of_nat using small by simp
  let ?n = "pk_header_size p + of_nat (psize p)"
  have un: "unat ?n = ?N"
    using small up by (subst unat_add_small) (simp_all add: hsize_def)
  let ?src = "take ?N b0"
  have ls: "length ?src = ?N" using b0(5) align4_ge [of "psize p"] by simp
  have S: "pickle_size p = Some ?n" using b0(6) by (simp add: pickle_size_def)
  have D: "pickle_data p = Some ?src"
    using b0 un align4_ge [of "psize p"] by (simp add: pickle_data_def pickle_size_def)
  have nle: "unat ?n \<le> 2 ^ 32 - 64" using un small by simp
  show thesis
  proof (rule Resize_cases [OF ra(1) t(2) nle])
    assume "\<not> alloc_total ra"
    then show thesis using ra(2) by blast
  next
    fix b c
    assume R: "Resize ra ?n t = Some (True, t\<lparr>pk_header := Some b, pk_capacity := c\<rparr>)"
      and b: "length b = unat c" "64 dvd unat c" "unat ?n \<le> unat c"
    let ?r = "t\<lparr>pk_header := Some b, pk_capacity := c\<rparr>"
    have fit: "?N \<le> length b" using b un by simp
    then obtain b' where b': "blit 0 ?src b = Some b'" using blit_Some [of 0 ?src b] ls by auto
    have tk: "take ?N b' = ?src" using blit_at [OF b'] ls by simp
    have "take 4 b' = take 4 (take ?N b')" using b0(4) by simp
    also have "\<dots> = take 4 b0" using b0(4) by (simp add: tk)
    finally have t4: "take 4 b' = take 4 b0" .
    have lb: "length b' = length b" using blit_length [OF b'] .
    have "load32 b' 0 = Some (of_nat (psize p))"
      using b0(7) t4 fit lb b0(4) by (simp add: load32_def split: if_splits)
    then have ps: "psize (?r\<lparr>pk_header := Some b'\<rparr>) = psize p"
      using up by (simp add: psize_def payload_size_def)
    have "pickle_inv (?r\<lparr>pk_header := Some b'\<rparr>)"
      using ps lb b un b0(3,4) t(1) by (simp add: pickle_inv_def hsize_def)
    then show thesis using that [OF S D R _ b'] ps tk b0(2) t(1) by (simp add: hsize_def)
  qed
qed

lemma same_prefix_view:
  assumes "take (hsize p + psize p) (pbuf q) = take (hsize p + psize p) (pbuf p)"
    "hsize q = hsize p" "psize q = psize p"
  shows "payload q = payload p" "hdr_tail q = hdr_tail p"
proof -
  have "payload x = drop (hsize x) (take (hsize x + psize x) (pbuf x))" for x
    by (simp add: payload_def drop_take)
  then show "payload q = payload p" using assms by metis
  have "hdr_tail x = drop 4 (take (hsize x) (take (hsize x + psize x) (pbuf x)))" for x
    by (simp add: hdr_tail_def drop_take)
  then show "hdr_tail q = hdr_tail p" using assms by metis
qed

text \<open>the copy constructor makes a writable pickle with the same header and the same payload as
  the original, in a block of its own.\<close>

theorem copy_equal:
  assumes "pickle_inv p" "realloc_ok ra" "alloc_total ra" "hsize p + psize p \<le> 2 ^ 32 - 64"
  shows "\<exists>q. Pickle_copy ra p = Some q \<and> pickle_inv q \<and> hsize q = hsize p \<and>
           payload q = payload p \<and> hdr_tail q = hdr_tail p \<and> pk_var_off q = pk_var_off p"
proof -
  let ?t = "\<lparr>pk_header = None, pk_header_size = pk_header_size p, pk_capacity = 0,
             pk_var_off = pk_var_off p\<rparr>"
  obtain n src r b b' where c: "pickle_size p = Some n" "pickle_data p = Some src"
    "Resize ra n ?t = Some (True, r)" "pk_header r = Some b" "blit 0 src b = Some b'"
    "pickle_inv (r\<lparr>pk_header := Some b'\<rparr>)" "hsize r = hsize p" "pk_var_off r = pk_var_off p"
    "psize (r\<lparr>pk_header := Some b'\<rparr>) = psize p"
    "take (hsize p + psize p) b' = take (hsize p + psize p) (pbuf p)"
    by (rule copy_block [OF assms, of ?t]) (simp_all add: kCapacityReadOnly_def)
  have "Pickle_copy ra p = Some (r\<lparr>pk_header := Some b'\<rparr>)" using c by (simp add: Pickle_copy_def)
  then show ?thesis
    using c(6,7,8,9,10) same_prefix_view [of p "r\<lparr>pk_header := Some b'\<rparr>"]
    by (auto simp: hsize_def pbuf_def)
qed

lemma copy_equal_witness:
  "\<exists>q. Pickle_copy zero_realloc small_pickle = Some q \<and> hsize q = 4 \<and> payload q = []"
proof -
  have "hsize small_pickle + psize small_pickle \<le> 2 ^ 32 - 64" by (simp add: small_pickle_inv)
  from copy_equal [OF small_pickle_inv(1) zero_realloc_ok this] show ?thesis
    by (auto simp: small_pickle_inv payload_def)
qed

text \<open>assignment gives the target the header and the payload of the source, whatever the target
  was before: empty, read-only, of another header size or holding another payload.\<close>

theorem assign_equal:
  assumes "pickle_inv p" "realloc_ok ra" "alloc_total ra" "hsize p + psize p \<le> 2 ^ 32 - 64"
  shows "\<exists>q. Pickle_assign ra t p = Some q \<and> pickle_inv q \<and> hsize q = hsize p \<and>
           payload q = payload p \<and> hdr_tail q = hdr_tail p \<and> pk_var_off q = pk_var_off p"
proof -
  let ?t1 = "if pk_capacity t = kCapacityReadOnly then t\<lparr>pk_header := None, pk_capacity := 0\<rparr> else t"
  let ?t = "if pk_header_size ?t1 \<noteq> pk_header_size p
            then ?t1\<lparr>pk_header := None, pk_header_size := pk_header_size p\<rparr> else ?t1"
  have hs: "pk_header_size ?t = pk_header_size p" by simp
  have cap: "pk_capacity ?t \<noteq> kCapacityReadOnly" by (simp add: kCapacityReadOnly_def)
  obtain n src r b b' where c: "pickle_size p = Some n" "pickle_data p = Some src"
    "Resize ra n ?t = Some (True, r)" "pk_header r = Some b" "blit 0 src b = Some b'"
    "pickle_inv (r\<lparr>pk_header := Some b'\<rparr>)" "hsize r = hsize p"
    "psize (r\<lparr>pk_header := Some b'\<rparr>) = psize p"
    "take (hsize p + psize p) b' = take (hsize p + psize p) (pbuf p)"
    by (rule copy_block [OF assms hs cap])
  let ?q = "r\<lparr>pk_header := Some b', pk_var_off := pk_var_off p\<rparr>"
  have "Pickle_assign ra t p = Some ?q"
    using c(1-5) unfolding Pickle_assign_def Let_def by simp
  moreover have q: "hsize ?q = hsize p" "psize ?q = psize p"
    using c(7,8) by (simp_all add: hsize_def psize_def payload_size_def)
  moreover have "pickle_inv ?q" using c(6) q by (simp add: pickle_inv_def hsize_def psize_def payload_size_def)
  ultimately show ?thesis
    using c(9) same_prefix_view [of p ?q] by (auto simp: pbuf_def)
qed

lemma assign_equal_witness:
  "\<exists>q. Pickle_assign zero_realloc
     \<lparr>pk_header = None, pk_header_size = 16, pk_capacity = kCapacityReadOnly, pk_var_off = 0\<rparr>
     small_pickle = Some q \<and> hsize q = 4 \<and> payload q = []"
proof -
  have "hsize small_pickle + psize small_pickle \<le> 2 ^ 32 - 64" by (simp add: small_pickle_inv)
  from assign_equal [OF small_pickle_inv(1) zero_realloc_ok this] show ?thesis
    by (fastforce simp: small_pickle_inv payload_def)
qed

section \<open>Trimming variable-length data\<close>

text \<open>\<open>TrimWriteData\<close> on data that ends the payload shortens the payload by the unused bytes
  and rewrites the length word in front of the data; the earlier bytes and the kept data stay.\<close>

theorem trim_write_data:
  assumes inv: "pickle_inv p"
    and off: "hsize p \<le> unat (pk_var_off p)" "unat (pk_var_off p) + 4 + unat cur = hsize p + psize p"
    and ld: "load32 (pbuf p) (unat (pk_var_off p)) = Some cur"
    and n: "unat n \<le> unat cur" "unat cur < 2 ^ 31"
  shows "\<exists>p'. TrimWriteData n p = Some p' \<and> pickle_inv p' \<and>
     psize p' = psize p - (unat cur - unat n) \<and> hdr_tail p' = hdr_tail p \<and>
     payload p' = take (unat (pk_var_off p) - hsize p) (payload p) @ bytes32 n @
                  take (unat n) (drop (unat (pk_var_off p) - hsize p + 4) (payload p))"
proof -
  from inv obtain b where b: "pk_header p = Some b" "pbuf p = b" "length b = unat (pk_capacity p)"
    "64 dvd length b" "4 dvd hsize p" "4 \<le> hsize p"
    "hsize p + align4 (psize p) \<le> length b" "payload_size p = Some (of_nat (psize p))"
    by (rule pickle_invE)
  let ?v = "unat (pk_var_off p)"
  have pb: "psize p \<le> length b - hsize p" "hsize p \<le> length b"
    using b(7) align4_ge [of "psize p"] by simp_all
  have l32: "length b < 2 ^ 32" using b(3) by simp
  have s: "sint n = int (unat n)" "sint cur = int (unat cur)"
    using n by (simp_all add: sint_small)
  have ups: "unat (of_nat (psize p) :: u32) = psize p"
    unfolding unat_of_nat using pb l32 by simp
  have ucn: "unat (cur - n) = unat cur - unat n" using n(1) by (simp add: unat_sub word_le_nat_alt)
  have unew: "unat (of_nat (psize p) - (cur - n)) = psize p - (unat cur - unat n)"
    using ups ucn off by (subst unat_sub) (simp_all add: word_le_nat_alt)
  obtain b1 where b1: "store32 0 (of_nat (psize p) - (cur - n)) b = Some b1"
    using store32_Some [of 0 b] b(6) pb by fastforce
  have l1: "length b1 = length b" using b1 by (rule store32_length)
  have fit: "?v + 4 \<le> length b1" using off pb l1 by linarith
  obtain b2 where b2: "store32 ?v n b1 = Some b2" using store32_Some [OF fit] by blast
  have l2: "length b2 = length b" using store32_length [OF b2] l1 by simp
  let ?p' = "p\<lparr>pk_header := Some b2\<rparr>"
  have "\<not> (sint n < 0 \<or> sint n > sint cur)" using s n(1) by linarith
  then have T: "TrimWriteData n p = Some ?p'"
    using b(1,2,8) ld b1 b2 by (simp add: TrimWriteData_def set_payload_size_def)
  have "load32 b2 0 = Some (of_nat (psize p) - (cur - n))"
    using load32_store32_other [OF b2, of 0] load32_store32_same [OF b1] off(1) b(6) by simp
  then have ps: "psize ?p' = psize p - (unat cur - unat n)"
    using unew by (simp add: psize_def payload_size_def)
  have hs: "hsize ?p' = hsize p" by (simp add: hsize_def)
  have d4: "drop 4 b1 = drop 4 b" using store32_after [OF b1, of 4] by simp
  have e2: "b2 = take ?v b1 @ bytes32 n @ drop (?v + 4) b1"
    using b2 fit by (simp add: store32_def blit_def)
  have before: "take k (drop j b2) = take k (drop j b)" if "j + k \<le> ?v" "4 \<le> j" for j k
  proof -
    have "take k (drop j b2) = take k (drop j b1)"
      using blit_take_drop [of ?v "bytes32 n" b1 b2 j k] b2 that by (simp add: store32_def)
    moreover have "drop j b1 = drop (j - 4) (drop 4 b1)" "drop j b = drop (j - 4) (drop 4 b)"
      using that by simp_all
    ultimately show ?thesis using d4 by simp
  qed
  have after: "drop (?v + 4) b2 = drop (?v + 4) b"
  proof -
    have "drop (?v + 4) b2 = drop (?v + 4) b1" using store32_after [OF b2, of "?v + 4"] by simp
    also have "\<dots> = drop ?v (drop 4 b1)" by (simp add: add.commute)
    finally show ?thesis using d4 by (simp add: add.commute)
  qed
  have ht: "hdr_tail ?p' = hdr_tail p"
    using before [of 4 "hsize p - 4"] b(2,6) off(1) hs by (simp add: hdr_tail_def pbuf_def)
  let ?k = "?v - hsize p"
  have psn: "psize ?p' = ?k + (4 + unat n)" using ps off n by linarith
  have split: "drop (hsize p) b2 =
      take ?k (drop (hsize p) b2) @ take 4 (drop ?v b2) @ drop (?v + 4) b2"
  proof -
    have "drop (hsize p) b2 = take ?k (drop (hsize p) b2) @ drop ?k (drop (hsize p) b2)"
      by (simp only: append_take_drop_id)
    also have "drop ?k (drop (hsize p) b2) = drop ?v b2" using off(1) by simp
    also have "drop ?v b2 = take 4 (drop ?v b2) @ drop (?v + 4) b2"
      by (metis append_take_drop_id drop_drop add.commute)
    finally show ?thesis .
  qed
  have t4: "take 4 (drop ?v b2) = bytes32 n"
    using blit_at [of ?v "bytes32 n" b1 b2] b2 by (simp add: store32_def)
  have lk: "length (take ?k (drop (hsize p) b)) = ?k" using off pb by simp
  have "payload ?p' = take (?k + (4 + unat n))
      (take ?k (drop (hsize p) b) @ bytes32 n @ drop (?v + 4) b)"
    unfolding payload_def hs psn pbuf_def pickle.simps option.case
    using split t4 after before [of "hsize p" ?k] off(1) b(6) by simp
  also have "\<dots> = take ?k (drop (hsize p) b) @ bytes32 n @ take (unat n) (drop (?v + 4) b)"
    using lk by simp
  finally have pl: "payload ?p' = take ?k (drop (hsize p) b) @ bytes32 n @
      take (unat n) (drop (?v + 4) b)" .
  have k1: "take ?k (payload p) = take ?k (drop (hsize p) b)"
    using off b(2) by (simp add: payload_def min_def)
  have k2: "take (unat n) (drop (?k + 4) (payload p)) = take (unat n) (drop (?v + 4) b)"
    using off b(2) n(1) by (simp add: payload_def drop_take min_def add.commute add.left_commute)
  have "pickle_inv ?p'"
    using b l2 ps hs pb inv by (auto simp: pickle_inv_def)
  then show ?thesis using T ps ht pl k1 k2 by auto
qed

definition trim_pickle :: pickle where
  "trim_pickle = \<lparr>pk_header = Some (bytes32 8 @ bytes32 4 @ [1, 2, 3, 4] @ replicate 52 0),
     pk_header_size = 4, pk_capacity = 64, pk_var_off = 4\<rparr>"

lemma trim_write_data_witness:
  "\<exists>p'. TrimWriteData 2 trim_pickle = Some p' \<and> psize p' = 6 \<and>
        payload p' = bytes32 2 @ [1, 2]"
proof -
  have ps: "psize trim_pickle = 8"
    by (simp add: psize_def payload_size_def trim_pickle_def load32_def)
  have inv: "pickle_inv trim_pickle"
    using ps by (simp add: pickle_inv_def) (simp add: trim_pickle_def hsize_def)
  have ld: "load32 (pbuf trim_pickle) (unat (pk_var_off trim_pickle)) = Some 4"
    by (simp add: trim_pickle_def pbuf_def load32_def)
  have pl: "payload trim_pickle = bytes32 4 @ [1, 2, 3, 4]"
    using ps by (simp add: payload_def) (simp add: trim_pickle_def hsize_def pbuf_def)
  have h: "hsize trim_pickle = 4" "unat (pk_var_off trim_pickle) = 4"
    by (simp_all add: trim_pickle_def hsize_def)
  have u: "unat (2 :: u32) = 2" "unat (4 :: u32) = 4" by simp_all
  have "take 2 [1, 2, 3, 4 :: u8] = [1, 2]" using take_Suc_Cons [of 1 1 "[2, 3, 4 :: u8]"] by simp
  then show ?thesis using trim_write_data [OF inv _ _ ld, of 2] ps h pl by (auto simp: u)
qed

end
