(* ===== verification/Message_Facts.thy ===== *)
theory Message_Facts
  imports Message_Model Pickle_Props
begin

text \<open>
  Facts on messages and synchronous messages: what a header store changes, the flag bits, the fields
  of new messages and replies, and how the id of a synchronous message travels with its reply.
\<close>

section \<open>Abstract view of a message\<close>

text \<open>\<open>msg_ok\<close>: the header and the payload can be read; \<open>msg_inv\<close>: it can also be written.\<close>

definition msg_ok :: "message \<Rightarrow> bool" where
  "msg_ok m \<longleftrightarrow> (\<exists>b. pk_header m = Some b \<and> hsize m = 16 \<and> 16 + psize m \<le> length b)"

definition msg_inv :: "message \<Rightarrow> bool" where
  "msg_inv m \<longleftrightarrow> pickle_inv m \<and> hsize m = 16"

definition mword :: "nat \<Rightarrow> message \<Rightarrow> u32" where
  "mword off m = word32 (take 4 (drop (off - 4) (hdr_tail m)))"

abbreviation m_routing :: "message \<Rightarrow> i32" where "m_routing \<equiv> mword 4"
abbreviation m_type :: "message \<Rightarrow> u32" where "m_type \<equiv> mword 8"
abbreviation m_flags :: "message \<Rightarrow> u32" where "m_flags \<equiv> mword 12"

text \<open>\<open>updates m m' r t f\<close>: only the header fields may differ, and in \<open>m'\<close> they are \<open>r\<close>, \<open>t\<close>, \<open>f\<close>.\<close>

definition updates :: "message \<Rightarrow> message \<Rightarrow> i32 \<Rightarrow> u32 \<Rightarrow> u32 \<Rightarrow> bool" where
  "updates m m' r t f \<longleftrightarrow> msg_inv m' \<and> m_routing m' = r \<and> m_type m' = t \<and> m_flags m' = f \<and>
     psize m' = psize m \<and> padded m' = padded m \<and> payload m' = payload m \<and>
     pk_var_off m' = pk_var_off m"

lemma msg_inv_ok: "msg_inv m \<Longrightarrow> msg_ok m"
  by (auto simp: msg_inv_def msg_ok_def pickle_inv_def hsize_def)

lemma header_word:
  assumes "off = 4 \<or> off = 8 \<or> off = 12" "hsize m = 16"
  shows "take 4 (drop (off - 4) (hdr_tail m)) = take 4 (drop off (pbuf m))"
  using assms by (auto simp: hdr_tail_def drop_take min_def)

lemma hdr_get_mword:
  assumes "msg_ok m" "off = 4 \<or> off = 8 \<or> off = 12"
  shows "hdr_get off m = Some (mword off m)"
proof -
  obtain b where b: "pk_header m = Some b" "hsize m = 16" "16 + psize m \<le> length b"
    using assms(1) by (auto simp: msg_ok_def)
  then have "off + 4 \<le> length b" using assms(2) by linarith
  then show ?thesis using b header_word [OF assms(2) b(2)]
    by (simp add: hdr_get_def load32_def mword_def pbuf_def)
qed

lemma header_fields:
  assumes "msg_ok m"
  shows "routing_id m = Some (m_routing m)" "msg_type m = Some (m_type m)"
    "flags m = Some (m_flags m)" "priority m = Some (m_flags m AND PRIORITY_MASK)"
    "has_flag fb m = Some (m_flags m AND fb \<noteq> 0)"
  using hdr_get_mword [OF assms]
  by (simp_all add: routing_id_def msg_type_def flags_def priority_def has_flag_def)

section \<open>Storing into the header\<close>

lemma hdr_set_spec:
  assumes inv: "msg_inv m" and off: "off = 4 \<or> off = 8 \<or> off = 12"
  obtains m' where "hdr_set off w m = Some m'" "msg_inv m'" "mword off m' = w"
    "\<And>o'. (o' = 4 \<or> o' = 8 \<or> o' = 12) \<Longrightarrow> o' \<noteq> off \<Longrightarrow> mword o' m' = mword o' m"
    "psize m' = psize m" "padded m' = padded m" "payload m' = payload m"
    "pk_var_off m' = pk_var_off m"
proof -
  from inv obtain b where b: "pk_header m = Some b" "pbuf m = b" "length b = unat (pk_capacity m)"
    "hsize m + align4 (psize m) \<le> length b" "64 dvd length b" "4 \<le> hsize m"
    by (auto simp: msg_inv_def elim: pickle_invE)
  have h: "hsize m = 16" using inv by (simp add: msg_inv_def)
  have fit: "off + 4 \<le> length b" using b(4) h off by linarith
  obtain b' where b': "store32 off w b = Some b'" using store32_Some [OF fit] by blast
  let ?m = "m\<lparr>pk_header := Some b'\<rparr>"
  have l: "length b' = length b" using b' by (rule store32_length)
  have hs: "hsize ?m = 16" using h by (simp add: hsize_def)
  have l0: "load32 b' 0 = load32 b 0" using load32_store32_other [OF b', of 0] off by auto
  then have ps: "psize ?m = psize m" using b(1) by (simp add: psize_def payload_size_def)
  have d16: "drop 16 b' = drop 16 b" using store32_after [OF b', of 16] off by auto
  have w: "mword off ?m = w"
    using load32_store32_same [OF b'] header_word [OF off hs] fit l
    by (simp add: mword_def pbuf_def load32_def split: if_splits)
  have o: "mword o' ?m = mword o' m" if o': "o' = 4 \<or> o' = 8 \<or> o' = 12" "o' \<noteq> off" for o'
  proof -
    have "o' + 4 \<le> off \<or> off + 4 \<le> o'" using o' off by auto
    then have e: "load32 b' o' = load32 b o'" by (rule load32_store32_other [OF b'])
    have "o' + 4 \<le> length b" using b(4) h o'(1) by linarith
    then have "word32 (take 4 (drop o' b')) = word32 (take 4 (drop o' b))"
      using e l by (simp add: load32_def)
    then show ?thesis
      using header_word [OF o'(1) hs] header_word [OF o'(1) h] b(2)
      by (simp add: mword_def pbuf_def)
  qed
  have "msg_inv ?m" using inv hs ps l b(1,3) by (auto simp: msg_inv_def pickle_inv_def)
  moreover have "padded ?m = padded m" "payload ?m = payload m"
    using d16 hs h ps b(2) by (simp_all add: padded_def payload_def pbuf_def)
  moreover have "hdr_set off w m = Some ?m" using b(1) b' by (simp add: hdr_set_def)
  ultimately show thesis using that w o ps by simp
qed

lemma updates_trans: "updates m m1 r1 t1 f1 \<Longrightarrow> updates m1 m2 r t f \<Longrightarrow> updates m m2 r t f"
  by (simp add: updates_def)

lemma set_routing_updates:
  "msg_inv m \<Longrightarrow> \<exists>m'. hdr_set 4 w m = Some m' \<and> updates m m' w (m_type m) (m_flags m)"
  by (rule hdr_set_spec [of m 4 w]) (auto simp: updates_def)

lemma set_type_updates:
  "msg_inv m \<Longrightarrow> \<exists>m'. hdr_set 8 w m = Some m' \<and> updates m m' (m_routing m) w (m_flags m)"
  by (rule hdr_set_spec [of m 8 w]) (auto simp: updates_def)

lemma set_flags_updates:
  "msg_inv m \<Longrightarrow> \<exists>m'. hdr_set 12 w m = Some m' \<and> updates m m' (m_routing m) (m_type m) w"
  by (rule hdr_set_spec [of m 12 w]) (auto simp: updates_def)

lemma flag_on_updates:
  "msg_inv m \<Longrightarrow>
   \<exists>m'. flag_on fb m = Some m' \<and> updates m m' (m_routing m) (m_type m) (m_flags m OR fb)"
  using set_flags_updates [of m "m_flags m OR fb"] header_fields(3) [OF msg_inv_ok]
  by (simp add: flag_on_def)

lemma flag_off_updates:
  "msg_inv m \<Longrightarrow>
   \<exists>m'. flag_off fb m = Some m' \<and> updates m m' (m_routing m) (m_type m) (m_flags m AND NOT fb)"
  using set_flags_updates [of m "m_flags m AND NOT fb"] header_fields(3) [OF msg_inv_ok]
  by (simp add: flag_off_def)

lemma updates_inv: "updates m m' r t f \<Longrightarrow> msg_inv m'"
  by (simp add: updates_def)

lemma appends_header:
  assumes "msg_inv m" "pickle_inv m'" "appends cs m m'"
  shows "msg_inv m'" "mword off m' = mword off m"
  using assms by (simp_all add: msg_inv_def appends_def mword_def)

section \<open>Reading a message through its iterator\<close>

lemma payload_take_padded: "payload p = take (psize p) (padded p)"
  using align4_ge [of "psize p"] by (simp add: payload_def padded_def min_def)

lemma appends_payload:
  assumes inv: "pickle_inv p0" and app: "appends cs p0 p" and z: "4 dvd psize p0"
  shows "payload p = payload p0 @ wire0 cs"
proof (cases "cs = []")
  case True
  then show ?thesis using app by (simp add: appends_def payload_take_padded)
next
  case False
  have l: "length (padded p0) = psize p0" using length_padded [OF inv] z by simp
  have ps: "psize p = psize p0 + length (wire0 cs)" using app z False by (simp add: appends_def)
  have "padded p = padded p0 @ pad4 (wire0 cs)" using app by (simp add: appends_def pad4_wire0)
  then have "payload p = padded p0 @ take (length (wire0 cs)) (pad4 (wire0 cs))"
    unfolding payload_take_padded [of p] using ps l by simp
  then show ?thesis using l by (simp add: payload_take_padded [of p0])
qed

lemma payload_iterator:
  assumes ok: "msg_ok m" and pl: "payload m = wire0 cs"
  obtains it where "PickleIterator m = Some it" "positioned it cs"
proof -
  obtain b where b: "pk_header m = Some b" "hsize m = 16" "16 + psize m \<le> length b"
    using ok by (auto simp: msg_ok_def)
  then obtain w where w: "load32 b 0 = Some w" using load32_Some [of 0 b] by auto
  then have p: "payload_size m = Some w" "psize m = unat w"
    using b(1) by (simp_all add: payload_size_def psize_def)
  let ?it = "\<lparr>it_mem = drop (hsize m) b, it_ptr = 0, it_end = psize m, it_null = False\<rparr>"
  have "PickleIterator m = Some ?it" using b p by (simp add: PickleIterator_def hsize_def)
  moreover have "positioned ?it cs"
    using pl b by (simp add: positioned_def payload_def pbuf_def)
  ultimately show thesis by (rule that)
qed

section \<open>New messages\<close>

lemmas flag_bits = PRIORITY_MASK_def SYNC_BIT_def REPLY_BIT_def REPLY_ERROR_BIT_def
  UNBLOCK_BIT_def PUMPING_MSGS_BIT_def HAS_SENT_TIME_BIT_def

lemmas is_flag_defs = is_sync_def is_reply_def is_reply_error_def should_unblock_def
  is_caller_pumping_messages_def

lemma GetRefNum_count: "snd (GetRefNumUpper24 pid g) = g + 1"
  by (simp add: GetRefNumUpper24_def Let_def)

lemma refnum_low: "fst (GetRefNumUpper24 pid g) AND 0xFF = 0"
proof -
  have "(0xFF :: u32) = mask 8" by (simp add: mask_eq_exp_minus_1)
  then have "fst (GetRefNumUpper24 pid g) AND 0xFF = take_bit 8 (fst (GetRefNumUpper24 pid g))"
    by (simp add: take_bit_eq_mask)
  then show ?thesis by (simp add: GetRefNumUpper24_def Let_def take_bit_push_bit)
qed

lemma Message_new_spec:
  assumes "realloc_ok ra" "alloc_total ra"
  shows "\<exists>m. Message_new ra pid routing type prio g = Some (m, g + 1) \<and> msg_inv m \<and>
     m_routing m = routing \<and> m_type m = type \<and>
     m_flags m = prio OR fst (GetRefNumUpper24 pid g) \<and> psize m = 0 \<and> pk_var_off m = 0"
proof -
  obtain m0 where m0: "Pickle_header_size ra 16 = Some m0" "pickle_inv m0" "hsize m0 = 16"
    "psize m0 = 0" "pk_var_off m0 = 0"
    using Pickle_header_size_fresh [OF assms, of 16] by (auto simp: align4_def)
  then have i0: "msg_inv m0" by (simp add: msg_inv_def)
  obtain m1 where m1: "hdr_set 4 routing m0 = Some m1"
    "updates m0 m1 routing (m_type m0) (m_flags m0)" using set_routing_updates [OF i0] by blast
  obtain m2 where m2: "hdr_set 8 type m1 = Some m2"
    "updates m1 m2 (m_routing m1) type (m_flags m1)"
    using set_type_updates [OF updates_inv [OF m1(2)]] by blast
  obtain m3 where m3: "hdr_set 12 (prio OR fst (GetRefNumUpper24 pid g)) m2 = Some m3"
    "updates m2 m3 (m_routing m2) (m_type m2) (prio OR fst (GetRefNumUpper24 pid g))"
    using set_flags_updates [OF updates_inv [OF m2(2)]] by blast
  show ?thesis using m0 m1 m2 m3
    by (auto simp: Message_new_def sizeof_MessageHeader_def updates_def GetRefNum_count Let_def)
qed

lemma Message_new_flags:
  assumes "prio \<le> 3"
  shows "(prio OR fst (GetRefNumUpper24 pid g)) AND PRIORITY_MASK = prio"
    "(prio OR fst (GetRefNumUpper24 pid g)) AND SYNC_BIT = 0"
    "(prio OR fst (GetRefNumUpper24 pid g)) AND REPLY_BIT = 0"
    "(prio OR fst (GetRefNumUpper24 pid g)) AND UNBLOCK_BIT = 0"
    "(prio OR fst (GetRefNumUpper24 pid g)) AND PUMPING_MSGS_BIT = 0"
    "(prio OR fst (GetRefNumUpper24 pid g)) AND REPLY_ERROR_BIT = 0"
proof -
  let ?r = "fst (GetRefNumUpper24 pid g)"
  have z: "?r AND b = 0" if "b AND 0xFF = b" for b
  proof -
    have "?r AND b = ?r AND (0xFF AND b)" using that by (simp add: and.commute)
    also have "\<dots> = (?r AND 0xFF) AND b" by (simp add: and.assoc)
    finally show ?thesis by (simp add: refnum_low)
  qed
  have s: "(prio OR ?r) AND b = prio AND b" if "b AND 0xFF = b" for b
    using z [OF that] by (simp add: bit.conj_disj_distrib2)
  have "unat prio \<le> 3" using assms by (simp add: word_le_nat_alt)
  then have "unat prio = 0 \<or> unat prio = 1 \<or> unat prio = 2 \<or> unat prio = 3" by linarith
  then have p: "prio = 0 \<or> prio = 1 \<or> prio = 2 \<or> prio = 3"
    by (simp add: word_unat_eq_iff)
  then show "(prio OR ?r) AND PRIORITY_MASK = prio" "(prio OR ?r) AND SYNC_BIT = 0"
    "(prio OR ?r) AND REPLY_BIT = 0" "(prio OR ?r) AND UNBLOCK_BIT = 0"
    "(prio OR ?r) AND PUMPING_MSGS_BIT = 0" "(prio OR ?r) AND REPLY_ERROR_BIT = 0"
    using s [of PRIORITY_MASK] s [of SYNC_BIT] s [of REPLY_BIT] s [of UNBLOCK_BIT]
      s [of PUMPING_MSGS_BIT] s [of REPLY_ERROR_BIT]
    by (auto simp: flag_bits)
qed

end
