(* ===== verification/Message_Props.thy ===== *)
theory Message_Props
  imports Message_Facts
begin

text \<open>
  The properties of messages and synchronous messages: reference numbers, header fields and flag
  bits, the time stamp, the trip through the wire, and the pairing of a reply with its request.
\<close>

section \<open>Reference numbers\<close>

lemma refnum_count:
  "take_bit 14 (drop_bit 8 (fst (GetRefNumUpper24 pid g))) = take_bit 14 (g + 1)"
proof -
  have "(0x3fff :: u32) = mask 14" by (simp add: mask_eq_exp_minus_1)
  then have a: "(g + 1) AND 0x3fff = take_bit 14 (g + 1)" by (simp add: take_bit_eq_mask)
  have e: "fst (GetRefNumUpper24 pid g) =
      push_bit 8 (push_bit 14 (case pid of None \<Rightarrow> 0 | Some i \<Rightarrow> i) OR take_bit 14 (g + 1))"
    unfolding GetRefNumUpper24_def Let_def fst_conv a by (rule refl)
  have "take_bit 14 (drop_bit 8 (push_bit 8 (push_bit 14 p OR take_bit 14 c))) = take_bit 14 c"
    for p c :: u32
    by (rule bit_word_eqI) (auto simp: bit_simps)
  then show ?thesis by (simp only: e)
qed

text \<open>any two messages of a process whose creation numbers are less than 16384 apart have
  different reference numbers, whatever the process id, and a reference number never touches the
  low eight bits, where the flags are.\<close>

theorem refnum_distinct:
  assumes "g2 \<noteq> g1" "unat (g2 - g1) < 2 ^ 14"
  shows "fst (GetRefNumUpper24 pid g1) \<noteq> fst (GetRefNumUpper24 pid g2) \<and>
         fst (GetRefNumUpper24 pid g1) AND 0xFF = 0"
proof -
  have "take_bit 14 (g1 + 1) \<noteq> take_bit 14 (g2 + 1)"
  proof
    assume "take_bit 14 (g1 + 1) = take_bit 14 (g2 + 1)"
    moreover have "g1 + 1 + (g2 - g1) = g2 + 1" by simp
    ultimately have "unat (take_bit 14 (g1 + 1)) = unat (take_bit 14 (g1 + 1 + (g2 - g1)))"
      by (simp only:)
    then have "unat (g1 + 1) mod 2 ^ 14 = unat (g1 + 1 + (g2 - g1)) mod 2 ^ 14"
      unfolding unsigned_take_bit_eq by (simp only: take_bit_eq_mod)
    also have "\<dots> = (unat (g1 + 1) + unat (g2 - g1)) mod 2 ^ 14"
      unfolding unat_word_ariths(1) [of "g1 + 1"] by (rule mod_mod_cancel) simp
    finally have "(2 :: nat) ^ 14 dvd unat (g1 + 1) + unat (g2 - g1) - unat (g1 + 1)"
      by (subst mod_eq_dvd_iff_nat [symmetric]) simp_all
    then have "unat (g2 - g1) mod 2 ^ 14 = 0" by simp
    then show False using assms by (simp add: unat_eq_zero)
  qed
  then have "fst (GetRefNumUpper24 pid g1) \<noteq> fst (GetRefNumUpper24 pid g2)"
    by (metis refnum_count)
  then show ?thesis by (simp add: refnum_low)
qed

lemma refnum_distinct_witness:
  "fst (GetRefNumUpper24 (Some 77) 5) \<noteq> fst (GetRefNumUpper24 (Some 77) 9)"
  using refnum_distinct [of 9 5 "Some 77"] by simp

section \<open>Header fields and flags\<close>

text \<open>a new message has the routing id, type and priority it was created with, is neither
  synchronous nor a reply, does not unblock, and is empty; the reference number in its flags does
  not disturb any of these.\<close>

theorem new_message_fields:
  assumes "realloc_ok ra" "alloc_total ra" "prio \<le> 3"
  shows "\<exists>m. Message_new ra pid routing type prio g = Some (m, g + 1) \<and>
     routing_id m = Some routing \<and> msg_type m = Some type \<and> priority m = Some prio \<and>
     is_sync m = Some False \<and> is_reply m = Some False \<and> should_unblock m = Some False \<and>
     payload_size m = Some 0"
proof -
  obtain m where m: "Message_new ra pid routing type prio g = Some (m, g + 1)" "msg_inv m"
    "m_routing m = routing" "m_type m = type" "m_flags m = prio OR fst (GetRefNumUpper24 pid g)"
    "psize m = 0" using Message_new_spec [OF assms(1,2)] by blast
  have "payload_size m = Some 0"
    using m(2,6) by (auto simp: msg_inv_def elim: pickle_invE)
  then show ?thesis
    using m header_fields [OF msg_inv_ok [OF m(2)]] Message_new_flags [OF assms(3), of pid g]
    by (simp add: is_sync_def is_reply_def should_unblock_def)
qed

lemma new_message_fields_witness:
  "\<exists>m. Message_new zero_realloc (Some 4) 9 1 PRIORITY_NORMAL 0 = Some (m, 1) \<and>
       priority m = Some PRIORITY_NORMAL \<and> is_sync m = Some False"
  using new_message_fields [OF zero_realloc_ok, of PRIORITY_NORMAL "Some 4" 9 1 0]
  by (auto simp: PRIORITY_NORMAL_def)

text \<open>setting or clearing one flag bit changes that bit only: every flag with other bits, the
  routing id, the type and the payload stay as they are.\<close>

theorem flag_setters_independent:
  assumes "msg_inv m" "fb \<noteq> 0" "other AND fb = 0"
  shows "\<exists>m1 m2. flag_on fb m = Some m1 \<and> has_flag fb m1 = Some True \<and>
     has_flag other m1 = has_flag other m \<and> routing_id m1 = routing_id m \<and>
     msg_type m1 = msg_type m \<and> payload m1 = payload m \<and>
     flag_off fb m1 = Some m2 \<and> has_flag fb m2 = Some False \<and>
     has_flag other m2 = has_flag other m \<and> routing_id m2 = routing_id m \<and>
     msg_type m2 = msg_type m \<and> payload m2 = payload m"
proof -
  obtain m1 where m1: "flag_on fb m = Some m1"
    "updates m m1 (m_routing m) (m_type m) (m_flags m OR fb)"
    using flag_on_updates [OF assms(1)] by blast
  obtain m2 where m2: "flag_off fb m1 = Some m2"
    "updates m1 m2 (m_routing m1) (m_type m1) (m_flags m1 AND NOT fb)"
    using flag_off_updates [OF updates_inv [OF m1(2)]] by blast
  have b: "(m_flags m OR fb) AND fb = fb" by (rule bit_word_eqI) (auto simp: bit_simps)
  have z: "\<not> (bit other k \<and> bit fb k)" for k
    by (metis assms(3) bit_0_eq bit_and_iff bot_apply bot_bool_def)
  have o: "(m_flags m OR fb) AND other = m_flags m AND other"
    "((m_flags m OR fb) AND NOT fb) AND other = m_flags m AND other"
    "((m_flags m OR fb) AND NOT fb) AND fb = 0"
    by (rule bit_word_eqI; use z in \<open>auto simp: bit_simps\<close>)+
  show ?thesis
    using m1 m2 b o assms(2) header_fields [OF msg_inv_ok [OF assms(1)]]
      header_fields [OF msg_inv_ok [OF updates_inv [OF m1(2)]]]
      header_fields [OF msg_inv_ok [OF updates_inv [OF m2(2)]]]
    by (auto simp: updates_def)
qed

lemma fresh_message:
  obtains m where "Message_new zero_realloc None 9 1 2 0 = Some (m, 1)" "msg_inv m"
    "m_routing m = 9" "m_type m = 1" "m_flags m = 2 OR fst (GetRefNumUpper24 None 0)" "psize m = 0"
  using Message_new_spec [OF zero_realloc_ok, of None 9 1 2 0] by auto

lemma flag_setters_independent_witness:
  "\<exists>m m1. msg_inv m \<and> flag_on REPLY_BIT m = Some m1 \<and> is_reply m1 = Some True \<and>
      is_sync m1 = is_sync m"
proof -
  obtain m where m: "msg_inv m" using fresh_message by blast
  show ?thesis using flag_setters_independent [OF m, of REPLY_BIT SYNC_BIT] m
    by (auto simp: REPLY_BIT_def SYNC_BIT_def is_reply_def is_sync_def)
qed

section \<open>The time stamp\<close>

text \<open>the time written by \<open>set_sent_time\<close> is what \<open>sent_time\<close> reads, whatever the payload
  size was before (the stamp goes to the next four-byte boundary and ends the payload).\<close>

theorem sent_time_roundtrip:
  assumes "realloc_ok ra" "alloc_total ra" "msg_inv m" "psize m < 2 ^ 30"
  shows "\<exists>m'. set_sent_time ra t m = Some m' \<and> sent_time m' = Some t \<and>
     routing_id m' = routing_id m \<and> msg_type m' = msg_type m"
proof -
  obtain m1 where m1: "flag_on HAS_SENT_TIME_BIT m = Some m1"
    "updates m m1 (m_routing m) (m_type m) (m_flags m OR HAS_SENT_TIME_BIT)"
    using flag_on_updates [OF assms(3)] by blast
  then have i1: "pickle_inv m1" "hsize m1 = 16" "psize m1 = psize m"
    by (simp_all add: updates_def msg_inv_def)
  have "room [bytes64 t] m1"
    using i1 assms(4) align4_lt [of "psize m"] by (simp add: room_def)
  then obtain m' where m': "WriteInt64 ra t m1 = Some (True, m')" "pickle_inv m'"
    "appends [bytes64 t] m1 m'"
    using writesD [OF prim_writes(6) assms(1,2) i1(1)] by blast
  note h = appends_header [OF updates_inv [OF m1(2)] m'(2,3)]
  obtain b where b: "pk_header m' = Some b" "pbuf m' = b" "hsize m' + align4 (psize m') \<le> length b"
    "payload_size m' = Some (of_nat (psize m'))" "length b = unat (pk_capacity m')"
    using m'(2) by (rule pickle_invE)
  have hs: "hsize m' = 16" using h(1) by (simp add: msg_inv_def)
  have ps: "psize m' = align4 (psize m) + 8" using m'(3) i1(3) by (simp add: appends_def)
  let ?n = "16 + (align4 (psize m) + 8)"
  have sm: "?n < 2 ^ 31" using align4_lt [of "psize m"] assms(4) by simp
  have "unat (of_nat (psize m') :: u32) = psize m'" using sm ps by (intro unat_small_nat) simp
  then have un: "unat (pk_header_size m' + of_nat (psize m')) = ?n"
    using hs sm by (subst unat_add_small) (simp_all add: hsize_def ps del: of_nat_add)
  have fit: "?n \<le> length b" using b(3) hs ps align4_ge [of "psize m'"] by simp
  have "padded m' = padded m1 @ bytes64 t" using m'(3) by (simp add: appends_def)
  moreover have "length (padded m1) = align4 (psize m)" using length_padded [OF i1(1)] i1(3) by simp
  moreover have "padded m' = take (align4 (psize m) + 8) (drop 16 b)"
    using hs ps b(2) by (simp add: padded_def)
  ultimately have "drop (align4 (psize m)) (take (align4 (psize m) + 8) (drop 16 b)) = bytes64 t"
    by simp
  then have "take 8 (drop (16 + align4 (psize m)) b) = bytes64 t"
    by (simp add: drop_take add.commute)
  moreover have "?n - 8 = 16 + align4 (psize m)" by simp
  moreover have "m_flags m' AND HAS_SENT_TIME_BIT \<noteq> 0"
  proof -
    have "(m_flags m OR HAS_SENT_TIME_BIT) AND HAS_SENT_TIME_BIT = HAS_SENT_TIME_BIT"
      by (rule bit_word_eqI) (auto simp: bit_simps)
    then show ?thesis using h(2) m1(2) by (simp add: updates_def HAS_SENT_TIME_BIT_def)
  qed
  ultimately have "sent_time m' = Some t"
    using b fit un header_fields(3) [OF msg_inv_ok [OF h(1)]]
    by (simp add: sent_time_def pickle_size_def)
  then show ?thesis
    using m1 m'(1) h header_fields [OF msg_inv_ok [OF h(1)]]
      header_fields [OF msg_inv_ok [OF assms(3)]]
    by (auto simp: set_sent_time_def updates_def)
qed

lemma sent_time_roundtrip_witness:
  "\<exists>m m'. msg_inv m \<and> set_sent_time zero_realloc 123456789 m = Some m' \<and>
      sent_time m' = Some 123456789"
proof -
  obtain m where m: "msg_inv m" "psize m = 0" using fresh_message by blast
  show ?thesis using sent_time_roundtrip [OF zero_realloc_ok m(1)] m by force
qed

section \<open>Through the wire\<close>

lemma message_wire:
  assumes inv: "msg_inv m" and small: "16 + psize m < 2 ^ 31"
  shows "\<exists>d q. pickle_data m = Some d \<and> length d = 16 + psize m \<and>
     Message_from_data d (of_nat (length d)) = Some q \<and> msg_ok q \<and>
     routing_id q = routing_id m \<and> msg_type q = msg_type m \<and> flags q = flags m \<and>
     payload q = payload m"
proof -
  have h: "hsize m = 16" and p: "pickle_inv m" using inv by (simp_all add: msg_inv_def)
  obtain d q where d: "pickle_data m = Some d" "Pickle_from_data d (of_nat (length d)) = Some q"
    "hsize q = hsize m" "payload q = payload m" "hdr_tail q = hdr_tail m"
    using adopt_bytes [OF p] small h by auto
  obtain b where b: "pk_header m = Some b" "payload_size m = Some (of_nat (psize m))"
    "hsize m + align4 (psize m) \<le> length b"
    using p by (rule pickle_invE)
  have "unat (pk_header_size m + of_nat (psize m)) = 16 + psize m"
    using h small by (subst unat_add_small) (simp_all add: hsize_def unat_of_nat)
  then have ld: "length d = 16 + psize m"
    using d(1) b h align4_ge [of "psize m"] by (auto simp: pickle_data_def pickle_size_def min_def)
  have ul: "unat (of_nat (length d) :: u32) = length d" "length d < 2 ^ 31"
    using ld small unat_small_nat [of "length d"] by simp_all
  have "pk_header q = Some d \<and> hsize q + psize q = length d"
    using from_data_bounds [OF d(2) ul] d(3) h by auto
  then have ok: "msg_ok q" using d(3) h by (simp add: msg_ok_def)
  have "mword off q = mword off m" for off using d(5) by (simp add: mword_def)
  then show ?thesis
    using d ld ok header_fields [OF ok] header_fields [OF msg_inv_ok [OF inv]]
    by (auto simp: Message_from_data_def)
qed

text \<open>the bytes of a message, adopted by the receiver, give a message with the same routing id,
  type, flags and payload.\<close>

theorem message_wire_roundtrip:
  assumes inv: "msg_inv m" and small: "16 + psize m < 2 ^ 31"
  shows "\<exists>d q. pickle_data m = Some d \<and> length d = 16 + psize m \<and>
     Message_from_data d (of_nat (length d)) = Some q \<and> msg_ok q \<and>
     routing_id q = routing_id m \<and> msg_type q = msg_type m \<and> flags q = flags m \<and>
     payload q = payload m"
  by (rule message_wire [OF assms])

lemma message_wire_roundtrip_witness:
  "\<exists>m d q. pickle_data m = Some d \<and> length d = 16 \<and>
     Message_from_data d (of_nat (length d)) = Some q \<and> routing_id q = Some 9"
proof -
  obtain m where m: "msg_inv m" "psize m = 0" "m_routing m = 9" using fresh_message by blast
  show ?thesis
    using message_wire_roundtrip [OF m(1)] m header_fields [OF msg_inv_ok [OF m(1)]]
    by auto
qed

end
