(* ===== verification/ChannelReader.thy ===== *)
theory ChannelReader
  imports Message_Props
begin

text \<open>
  \<open>ipc/ipc_channel_reader.{h,cc}\<close>: cutting the byte stream of a pipe into messages.  The virtual
  functions of the class and the listener are the record \<open>reader_ops\<close> over the state \<open>'w\<close> of the
  subclass; \<open>input_overflow_buf_\<close> is the byte list \<open>ov\<close>.  \<open>p\<close> is the address of the bytes scanned
  (\<open>FindNext\<close> computes with addresses).

  A received message is adopted from a block that \<open>FindNext\<close> delimited, so its header can always be
  read (\<open>dispatched_readable\<close>); the two \<open>None\<close> branches below cannot be reached.
\<close>

section \<open>The reader\<close>

definition kMaximumMessageSize :: nat where "kMaximumMessageSize = 128 * 1024 * 1024"
definition kReadBufferSize :: nat where "kReadBufferSize = 4 * 1024"
definition HELLO_MESSAGE_TYPE :: u32 where "HELLO_MESSAGE_TYPE = 0xFFFF"

datatype ReadState = READ_SUCCEEDED | READ_FAILED | READ_PENDING

record 'w reader_ops =
  ReadData :: "'w \<Rightarrow> ReadState \<times> bytes \<times> 'w"
  WillDispatch :: "message \<Rightarrow> 'w \<Rightarrow> bool"
  HandleHello :: "message \<Rightarrow> 'w \<Rightarrow> 'w"
  OnMessage :: "message \<Rightarrow> 'w \<Rightarrow> 'w"
  DidEmpty :: "'w \<Rightarrow> bool"

definition IsHelloMessage :: "message \<Rightarrow> bool" where
  "IsHelloMessage m \<longleftrightarrow> routing_id m = Some MSG_ROUTING_NONE \<and> msg_type m = Some HELLO_MESSAGE_TYPE"

definition deliver :: "'w reader_ops \<Rightarrow> message \<Rightarrow> 'w \<Rightarrow> 'w" where
  "deliver ops m w = (if IsHelloMessage m then HandleHello ops m w else OnMessage ops m w)"

text \<open>The loop \<open>while (p < end)\<close>: whether it ran to the end, the bytes left, the state.\<close>

function dispatch_loop :: "'w reader_ops \<Rightarrow> u32 \<Rightarrow> bytes \<Rightarrow> 'w \<Rightarrow> bool \<times> bytes \<times> 'w" where
  "dispatch_loop ops p data w =
     (if data = [] then (True, [], w)
      else case Message_FindNext p data of
             None \<Rightarrow> (True, data, w)
           | Some message_tail \<Rightarrow>
               let len = unat (message_tail - p)
               in if len = 0 then (True, data, w)
                  else case Message_from_data (take len data) (of_nat len) of
                         None \<Rightarrow> (True, data, w)
                       | Some m \<Rightarrow>
                           if \<not> WillDispatch ops m w then (False, data, w)
                           else dispatch_loop ops message_tail (drop len data) (deliver ops m w))"
  by auto
termination by (relation "measure (\<lambda>(_, _, data, _). length data)") auto

declare dispatch_loop.simps [simp del]

definition DispatchInputData ::
    "'w reader_ops \<Rightarrow> u32 \<Rightarrow> u32 \<Rightarrow> bytes \<Rightarrow> bytes \<Rightarrow> 'w \<Rightarrow> bool \<times> bytes \<times> 'w" where
  "DispatchInputData ops input_addr overflow_addr input_data ov w =
     (if ov \<noteq> [] \<and> length ov + length input_data > kMaximumMessageSize then (False, [], w)
      else
        let buf = (if ov = [] then input_data else ov @ input_data);
            p = (if ov = [] then input_addr else overflow_addr);
            (ok, rest, w') = dispatch_loop ops p buf w
        in if \<not> ok then (False, (if ov = [] then [] else buf), w')
           else if rest = [] \<and> \<not> DidEmpty ops w' then (False, rest, w')
           else (True, rest, w'))"

text \<open>\<open>ProcessIncomingMessages\<close> reads until the pipe has nothing ready; the loop may run for ever,
  so it has fuel, and \<open>None\<close> means that the fuel did not suffice.\<close>

fun ProcessIncomingMessages ::
    "'w reader_ops \<Rightarrow> u32 \<Rightarrow> u32 \<Rightarrow> nat \<Rightarrow> bytes \<Rightarrow> 'w \<Rightarrow> (bool \<times> bytes \<times> 'w) option"
  where
  "ProcessIncomingMessages ops ia oa 0 ov w = None"
| "ProcessIncomingMessages ops ia oa (Suc n) ov w =
     (case ReadData ops w of
        (READ_FAILED, data, w1) \<Rightarrow> Some (False, ov, w1)
      | (READ_PENDING, data, w1) \<Rightarrow> Some (True, ov, w1)
      | (READ_SUCCEEDED, data, w1) \<Rightarrow>
          (case DispatchInputData ops ia oa data ov w1 of
             (ok, ov', w') \<Rightarrow>
               if \<not> ok then Some (False, ov', w')
               else ProcessIncomingMessages ops ia oa n ov' w'))"

definition AsyncReadComplete ::
    "'w reader_ops \<Rightarrow> u32 \<Rightarrow> u32 \<Rightarrow> bytes \<Rightarrow> bytes \<Rightarrow> 'w \<Rightarrow> bool \<times> bytes \<times> 'w" where
  "AsyncReadComplete ops ia oa data ov w = DispatchInputData ops ia oa data ov w"

text \<open>What every hand-over keeps, the whole reader keeps.\<close>

lemma dispatch_loop_keeps:
  assumes "\<And>m w. P w \<Longrightarrow> WillDispatch ops m w \<Longrightarrow> P (deliver ops m w)"
  shows "P w \<Longrightarrow> P (snd (snd (dispatch_loop ops p data w)))"
  using assms
proof (induction ops p data w rule: dispatch_loop.induct)
  case (1 ops p data w)
  show ?case
  proof (cases "data = []")
    case False
    note ne = this
    show ?thesis
    proof (cases "Message_FindNext p data")
      case (Some tl)
      let ?n = "unat (tl - p)"
      show ?thesis
      proof (cases "Message_from_data (take ?n data) (of_nat ?n)")
        case None
        then show ?thesis using 1(2) ne Some by (simp add: dispatch_loop.simps [of ops p] Let_def)
      next
        case m: (Some m)
        show ?thesis
        proof (cases "?n = 0 \<or> \<not> WillDispatch ops m w")
          case True
          then show ?thesis using 1(2) ne Some m by (auto simp: dispatch_loop.simps [of ops p] Let_def)
        next
          case False
          then show ?thesis using 1(1) [OF ne Some refl _ m] 1(2,3) ne Some m
            by (simp add: dispatch_loop.simps [of ops p] Let_def)
        qed
      qed
    qed (use 1(2) ne in \<open>simp add: dispatch_loop.simps [of ops p]\<close>)
  qed (use 1(2) in \<open>simp add: dispatch_loop.simps [of ops p]\<close>)
qed

lemma DispatchInputData_keeps:
  assumes "\<And>m w. P w \<Longrightarrow> WillDispatch ops m w \<Longrightarrow> P (deliver ops m w)" "P w"
  shows "P (snd (snd (DispatchInputData ops ia oa data ov w)))"
proof -
  let ?p = "if ov = [] then ia else oa" and ?d = "if ov = [] then data else ov @ data"
  obtain ok rest w' where D: "dispatch_loop ops ?p ?d w = (ok, rest, w')" by (rule prod_cases3)
  have "P (snd (snd (dispatch_loop ops ?p ?d w)))" by (rule dispatch_loop_keeps [OF assms])
  then have "P w'" by (simp add: D)
  then show ?thesis using assms(2) unfolding DispatchInputData_def Let_def D by simp
qed

section \<open>The stream as frames\<close>

text \<open>The abstract view: the first complete frame of a stream, and the messages of a stream.\<close>

definition first_frame :: "bytes \<Rightarrow> nat option" where
  "first_frame data =
     (if 4 \<le> length data \<and> 16 + stream_payload data \<le> length data
      then Some (16 + stream_payload data) else None)"

definition frame_message :: "bytes \<Rightarrow> message" where
  "frame_message d = \<lparr>pk_header = Some d, pk_header_size = 16, pk_capacity = kCapacityReadOnly,
                      pk_var_off = 0\<rparr>"

function frames :: "bytes \<Rightarrow> message list \<times> bytes" where
  "frames data =
     (case first_frame data of
        None \<Rightarrow> ([], data)
      | Some n \<Rightarrow> (frame_message (take n data) # fst (frames (drop n data)), snd (frames (drop n data))))"
  by auto
termination by (relation "measure length") (auto simp: first_frame_def split: if_splits)

declare frames.simps [simp del]

text \<open>Handing a list of messages on, until one is refused.\<close>

fun handle_all :: "'w reader_ops \<Rightarrow> message list \<Rightarrow> 'w \<Rightarrow> bool \<times> 'w" where
  "handle_all ops [] w = (True, w)"
| "handle_all ops (m # ms) w =
     (if WillDispatch ops m w then handle_all ops ms (deliver ops m w) else (False, w))"

lemma frames_None: "first_frame data = None \<Longrightarrow> frames data = ([], data)"
  by (simp add: frames.simps)

lemma frames_Some:
  "first_frame data = Some n \<Longrightarrow>
   frames data = (frame_message (take n data) # fst (frames (drop n data)), snd (frames (drop n data)))"
  by (subst frames.simps) simp

lemma first_frame_bounds: "first_frame data = Some n \<Longrightarrow> 16 \<le> n \<and> n \<le> length data"
  by (auto simp: first_frame_def split: if_splits)

lemma FindNext_frame:
  assumes "unat p + length data + 16 < 2 ^ 32"
  shows "Message_FindNext p data = map_option (\<lambda>n. p + of_nat n) (first_frame data)"
proof -
  have u: "unat p + length data < 2 ^ 32" "unat p + unat (16 :: u32) < 2 ^ 32" "4 \<le> unat (16 :: u32)"
    using assms by simp_all
  have "p + 16 + word32 (take 4 data) = p + of_nat (16 + stream_payload data)"
    by (simp add: stream_payload_def)
  then show ?thesis
    using find_next_addr [OF u] by (simp add: Message_FindNext_def sizeof_MessageHeader_def first_frame_def)
qed

lemma frame_adopted:
  assumes f: "first_frame data = Some n" and l: "length data < 2 ^ 31"
  shows "Message_from_data (take n data) (of_nat n) = Some (frame_message (take n data))"
    "msg_ok (frame_message (take n data))"
proof -
  let ?ps = "word32 (take 4 data) :: u32"
  have n: "n = 16 + unat ?ps" "n \<le> length data" "4 \<le> length data"
    using f by (auto simp: first_frame_def stream_payload_def split: if_splits)
  have t4: "take 4 (take n data) = take 4 data" using n by (simp add: min_def)
  have ld: "load32 (take n data) 0 = Some ?ps" using n t4 by (simp add: load32_def)
  have un: "unat (of_nat n :: u32) = n" using n l by (intro unat_small_nat) simp
  have "(of_nat n :: u32) = 16 + ?ps" by (simp add: n(1))
  then have hs: "(of_nat n :: u32) - ?ps = 16" by simp
  have s4: "4 \<le> sint (of_nat n :: u32)" using sint_small_nat [of n] n l by simp
  have ng: "\<not> (16 :: u32) > of_nat n" using un n by (simp add: word_less_nat_alt)
  have al: "AlignInt 16 4 = (16 :: u32)" by (simp add: AlignInt_def)
  show "Message_from_data (take n data) (of_nat n) = Some (frame_message (take n data))"
    using s4 ld hs ng al
    by (simp add: Message_from_data_def Pickle_from_data_def frame_message_def Let_def)
  have "psize (frame_message (take n data)) = unat ?ps"
    using ld by (simp add: psize_def payload_size_def frame_message_def)
  then show "msg_ok (frame_message (take n data))"
    using n by (simp add: msg_ok_def frame_message_def hsize_def)
qed

lemma frames_readable:
  assumes "length data < 2 ^ 31" shows "list_all msg_ok (fst (frames data))"
  using assms
proof (induction data rule: frames.induct)
  case (1 data)
  show ?case
  proof (cases "first_frame data")
    case (Some n)
    then show ?thesis using 1 frame_adopted(2) [OF Some] by (simp add: frames_Some)
  qed (simp add: frames_None)
qed

text \<open>The loop of the code is the abstract parse followed by the hand-over.\<close>

lemma loop_frames:
  assumes "unat p + length data + 16 < 2 ^ 32" "length data < 2 ^ 31"
  shows "\<exists>rest. dispatch_loop ops p data w =
      (fst (handle_all ops (fst (frames data)) w), rest, snd (handle_all ops (fst (frames data)) w)) \<and>
      (fst (handle_all ops (fst (frames data)) w) \<longrightarrow> rest = snd (frames data))"
  using assms
proof (induction ops p data w rule: dispatch_loop.induct)
  case (1 ops p data w)
  show ?case
  proof (cases "first_frame data")
    case None
    then have "Message_FindNext p data = None" using FindNext_frame [OF 1(2)] by simp
    then show ?thesis using None by (simp add: dispatch_loop.simps [of ops p] frames_None)
  next
    case (Some n)
    note b = first_frame_bounds [OF Some]
    have ne: "data \<noteq> []" using b by auto
    have F: "Message_FindNext p data = Some (p + of_nat n)" using FindNext_frame [OF 1(2)] Some by simp
    have un: "unat (p + of_nat n - p) = n" using b 1(3) unat_small_nat [of n] by simp
    have up: "unat (p + of_nat n) = unat p + n"
      using b 1(2,3) unat_small_nat [of n] by (subst unat_add_small) simp_all
    let ?m = "frame_message (take n data)"
    have A: "Message_from_data (take n data) (of_nat n) = Some ?m"
      using frame_adopted(1) [OF Some 1(3)] .
    have L: "dispatch_loop ops p data w =
        (if \<not> WillDispatch ops ?m w then (False, data, w)
         else dispatch_loop ops (p + of_nat n) (drop n data) (deliver ops ?m w))"
      using ne F un A b by (simp add: dispatch_loop.simps [of ops p] Let_def)
    show ?thesis
    proof (cases "WillDispatch ops ?m w")
      case False
      then show ?thesis using L Some by (simp add: frames_Some)
    next
      case True
      have "unat (p + of_nat n) + length (drop n data) + 16 < 2 ^ 32" "length (drop n data) < 2 ^ 31"
        using up b 1(2,3) by simp_all
      note IH = 1(1) [OF ne F un [symmetric] _ A _ this]
      from L True Some show ?thesis
        using IH b by (simp add: frames_Some)
    qed
  qed
qed

section \<open>Chunks of a stream\<close>

lemma first_frame_append: "first_frame data = Some n \<Longrightarrow> first_frame (data @ ds) = Some n"
  by (auto simp: first_frame_def stream_payload_def split: if_splits)

text \<open>What is left over after the first part is parsed together with the second part.\<close>

lemma frames_append:
  "frames (d1 @ d2) =
     (fst (frames d1) @ fst (frames (snd (frames d1) @ d2)), snd (frames (snd (frames d1) @ d2)))"
proof (induction d1 rule: frames.induct)
  case (1 d1)
  show ?case
  proof (cases "first_frame d1")
    case None
    then show ?thesis by (simp add: frames_None)
  next
    case (Some n)
    note b = first_frame_bounds [OF Some]
    have "frames (d1 @ d2) = (frame_message (take n d1) # fst (frames (drop n d1 @ d2)),
        snd (frames (drop n d1 @ d2)))"
      using frames_Some [OF first_frame_append [OF Some, of d2]] b by simp
    then show ?thesis using 1 [OF Some] frames_Some [OF Some] by simp
  qed
qed

lemma handle_all_append:
  "handle_all ops (ms @ ns) w =
     (if fst (handle_all ops ms w) then handle_all ops ns (snd (handle_all ops ms w))
      else handle_all ops ms w)"
  by (induction ms arbitrary: w) auto

lemma frames_rest_length: "length (snd (frames data)) \<le> length data"
proof (induction data rule: frames.induct)
  case (1 data)
  then show ?case by (cases "first_frame data") (force simp: frames_None frames_Some)+
qed

lemma frames_rest: "first_frame (snd (frames data)) = None"
proof (induction data rule: frames.induct)
  case (1 data)
  then show ?case by (cases "first_frame data") (simp_all add: frames_None frames_Some)
qed

text \<open>\<open>is_frame f\<close>: \<open>f\<close> is exactly one frame.  A part of a stream of frames leaves less than a
  frame over.\<close>

definition is_frame :: "bytes \<Rightarrow> bool" where "is_frame f \<longleftrightarrow> first_frame f = Some (length f)"

lemma frame_prefix:
  assumes "is_frame f" "f = a @ b" "b \<noteq> []" shows "first_frame a = None"
proof (rule ccontr)
  assume "first_frame a \<noteq> None"
  then obtain n where n: "first_frame a = Some n" by blast
  then have "first_frame f = Some n" using first_frame_append assms(2) by simp
  then have "n = length f" using assms(1) by (simp add: is_frame_def)
  then show False using first_frame_bounds [OF n] assms(2,3) by simp
qed

lemma frames_Cons_frame:
  assumes "is_frame f"
  shows "frames (f @ data) = (frame_message f # fst (frames data), snd (frames data))"
proof -
  have "first_frame (f @ data) = Some (length f)"
    using assms first_frame_append by (simp add: is_frame_def)
  then show ?thesis by (simp add: frames_Some)
qed

lemma frames_concat:
  "list_all is_frame fs \<Longrightarrow> frames (concat fs) = (map frame_message fs, [])"
proof (induction fs)
  case Nil
  show ?case by (simp add: frames_None first_frame_def)
next
  case (Cons f fs)
  then show ?case by (simp add: frames_Cons_frame)
qed

lemma frames_part:
  assumes "concat fs = a @ b" "list_all is_frame fs" "list_all (\<lambda>f. length f \<le> n) fs"
  shows "length (snd (frames a)) \<le> n"
  using assms
proof (induction fs arbitrary: a)
  case Nil
  then show ?case by (simp add: frames_None first_frame_def)
next
  case (Cons f fs)
  show ?case
  proof (cases "length a < length f")
    case True
    then have fa: "f = a @ drop (length a) f" "drop (length a) f \<noteq> []"
      using Cons.prems(1) by (simp_all add: append_eq_append_conv_if)
        (metis append_take_drop_id less_imp_le_nat take_all_iff take_append)
    have "is_frame f" using Cons.prems(2) by simp
    then have "first_frame a = None" by (rule frame_prefix [OF _ fa])
    then show ?thesis using True Cons.prems(3) by (simp add: frames_None)
  next
    case False
    then obtain a' where a': "a = f @ a'" "concat fs = a' @ b"
      using Cons.prems(1) by (auto simp: append_eq_append_conv2)
    then show ?thesis using Cons.IH [OF a'(2)] Cons.prems frames_Cons_frame by simp
  qed
qed

section \<open>The reader as a client of its subclass\<close>

text \<open>Feeding a list of reads one after the other; a refused one ends it.\<close>

fun feed :: "'w reader_ops \<Rightarrow> u32 \<Rightarrow> u32 \<Rightarrow> bytes list \<Rightarrow> bytes \<Rightarrow> 'w \<Rightarrow> bool \<times> bytes \<times> 'w" where
  "feed ops ia oa [] ov w = (True, ov, w)"
| "feed ops ia oa (d # ds) ov w =
     (case DispatchInputData ops ia oa d ov w of
        (ok, ov', w') \<Rightarrow> if ok then feed ops ia oa ds ov' w' else (False, ov', w'))"

locale channel_reader =
  fixes ops :: "'w reader_ops" and ia oa :: u32
  assumes did_empty: "DidEmpty ops w"
    and input_addr: "unat ia + kReadBufferSize + 16 < 2 ^ 32"
    and overflow_addr: "unat oa + kMaximumMessageSize + 16 < 2 ^ 32"
begin

lemma dispatch_frames:
  assumes "length data \<le> kReadBufferSize" "length ov + length data \<le> kMaximumMessageSize"
  shows "\<exists>rest. DispatchInputData ops ia oa data ov w =
      (fst (handle_all ops (fst (frames (ov @ data))) w), rest,
       snd (handle_all ops (fst (frames (ov @ data))) w)) \<and>
      (fst (handle_all ops (fst (frames (ov @ data))) w) \<longrightarrow> rest = snd (frames (ov @ data)))"
proof -
  let ?p = "if ov = [] then ia else oa"
  have a: "unat ?p + length (ov @ data) + 16 < 2 ^ 32"
    using assms input_addr overflow_addr by auto
  have l: "length (ov @ data) < 2 ^ 31" using assms(2) by (simp add: kMaximumMessageSize_def)
  have b: "(if ov = [] then data else ov @ data) = ov @ data" by simp
  let ?h = "handle_all ops (fst (frames (ov @ data))) w"
  from loop_frames [OF a l, of ops w] obtain rest where
    "dispatch_loop ops ?p (ov @ data) w = (fst ?h, rest, snd ?h) \<and>
     (fst ?h \<longrightarrow> rest = snd (frames (ov @ data)))" by (rule exE)
  then have R: "dispatch_loop ops ?p (ov @ data) w = (fst ?h, rest, snd ?h)"
    "fst ?h \<longrightarrow> rest = snd (frames (ov @ data))" by (rule conjunct1, rule conjunct2)
  have "\<not> (ov \<noteq> [] \<and> length ov + length data > kMaximumMessageSize)" using assms(2) by simp
  then have D: "DispatchInputData ops ia oa data ov w =
      (if \<not> fst ?h then (False, (if ov = [] then [] else ov @ data), snd ?h)
       else (True, rest, snd ?h))"
    using R(1) did_empty unfolding DispatchInputData_def b Let_def by simp
  show ?thesis using R(2) by (cases "fst ?h") (simp_all add: D)
qed

lemma dispatch_exact:
  assumes "length data \<le> kReadBufferSize"
  shows "DispatchInputData ops ia oa data ov w =
     (if ov \<noteq> [] \<and> length ov + length data > kMaximumMessageSize then (False, [], w)
      else (case handle_all ops (fst (frames (ov @ data))) w of
              (ok, w') \<Rightarrow> (ok, if ok then snd (frames (ov @ data)) else if ov = [] then [] else ov @ data,
                         w')))"
proof (cases "ov \<noteq> [] \<and> length ov + length data > kMaximumMessageSize")
  case True
  then show ?thesis by (simp add: DispatchInputData_def)
next
  case False
  then have f: "length ov + length data \<le> kMaximumMessageSize"
    using assms by (auto simp: kMaximumMessageSize_def kReadBufferSize_def)
  let ?h = "handle_all ops (fst (frames (ov @ data))) w"
  let ?p = "if ov = [] then ia else oa"
  have a: "unat ?p + length (ov @ data) + 16 < 2 ^ 32"
    using f assms input_addr overflow_addr by auto
  have l: "length (ov @ data) < 2 ^ 31" using f by (simp add: kMaximumMessageSize_def)
  from loop_frames [OF a l, of ops w] obtain rest where
    R: "dispatch_loop ops ?p (ov @ data) w = (fst ?h, rest, snd ?h) \<and>
     (fst ?h \<longrightarrow> rest = snd (frames (ov @ data)))" by (rule exE)
  have b: "(if ov = [] then data else ov @ data) = ov @ data" by simp
  have "DispatchInputData ops ia oa data ov w =
      (if \<not> fst ?h then (False, (if ov = [] then [] else ov @ data), snd ?h)
       else (True, rest, snd ?h))"
    using R did_empty False unfolding DispatchInputData_def b Let_def by simp
  then show ?thesis using R False by (cases ?h) (cases "fst ?h"; simp)
qed

lemma feed_frames:
  assumes "concat fs = a @ concat ds" "list_all is_frame fs"
    and "list_all (\<lambda>f. length f + kReadBufferSize \<le> kMaximumMessageSize) fs"
    and "list_all (\<lambda>d. length d \<le> kReadBufferSize) ds"
    and "fst (handle_all ops (fst (frames a)) w0)" "w = snd (handle_all ops (fst (frames a)) w0)"
  shows "\<exists>rest. feed ops ia oa ds (snd (frames a)) w =
      (fst (handle_all ops (map frame_message fs) w0), rest,
       snd (handle_all ops (map frame_message fs) w0)) \<and>
      (fst (handle_all ops (map frame_message fs) w0) \<longrightarrow> rest = [])"
  using assms
proof (induction ds arbitrary: a w)
  case Nil
  then have "frames a = (map frame_message fs, [])" using frames_concat [OF Nil(2)] by simp
  then show ?case using Nil by simp
next
  case (Cons d ds)
  let ?ov = "snd (frames a)"
  let ?h = "handle_all ops (fst (frames (?ov @ d))) w"
  let ?H = "handle_all ops (map frame_message fs) w0"
  have "length ?ov \<le> kMaximumMessageSize - kReadBufferSize"
    using frames_part [OF Cons.prems(1,2), of "kMaximumMessageSize - kReadBufferSize"] Cons.prems(3)
    by (fastforce simp: list_all_iff)
  then have fits: "length d \<le> kReadBufferSize" "length ?ov + length d \<le> kMaximumMessageSize"
    using Cons.prems(4) by (simp_all add: kMaximumMessageSize_def kReadBufferSize_def)
  from dispatch_frames [OF fits, of w] obtain rest where
    D: "DispatchInputData ops ia oa d ?ov w = (fst ?h, rest, snd ?h)"
      "fst ?h \<longrightarrow> rest = snd (frames (?ov @ d))" by blast
  have ap: "fst (frames (a @ d)) = fst (frames a) @ fst (frames (?ov @ d))"
    "snd (frames (a @ d)) = snd (frames (?ov @ d))"
    using frames_append [of a d] by simp_all
  have ha: "handle_all ops (fst (frames (a @ d))) w0 = ?h"
    using Cons.prems(5,6) by (simp add: ap handle_all_append)
  have c: "concat fs = (a @ d) @ concat ds" using Cons.prems(1) by simp
  show ?case
  proof (cases "fst ?h")
    case True
    then have "\<exists>rest. feed ops ia oa ds (snd (frames (a @ d))) (snd ?h) = (fst ?H, rest, snd ?H) \<and>
        (fst ?H \<longrightarrow> rest = [])"
      using Cons.prems ha by (intro Cons.IH [OF c]) simp_all
    then show ?thesis using D True ap(2) by simp
  next
    case False
    have "map frame_message fs = fst (frames (a @ d)) @ fst (frames (snd (frames (a @ d)) @ concat ds))"
      using frames_concat [OF Cons.prems(2)] frames_append [of "a @ d" "concat ds"] c by simp
    then have "?H = ?h" using False ha by (simp add: handle_all_append)
    then show ?thesis using D False by simp
  qed
qed

end

text \<open>A message of the sender as a frame, and the message the receiver makes of it.\<close>

lemma message_is_frame:
  assumes "msg_inv m" "16 + psize m < 2 ^ 31" "pickle_data m = Some d"
  shows "is_frame d" "length d = 16 + psize m" "routing_id (frame_message d) = routing_id m"
    "msg_type (frame_message d) = msg_type m" "flags (frame_message d) = flags m"
    "payload (frame_message d) = payload m"
proof -
  obtain q where q: "length d = 16 + psize m" "Message_from_data d (of_nat (length d)) = Some q"
    "msg_ok q" "routing_id q = routing_id m" "msg_type q = msg_type m" "flags q = flags m"
    "payload q = payload m"
    using message_wire [OF assms(1,2)] assms(3) by auto
  obtain b where b: "pk_header m = Some b" "load32 b 0 = Some (of_nat (psize m))"
    "payload_size m = Some (of_nat (psize m))" "hsize m + align4 (psize m) \<le> length b"
    using assms(1) by (auto simp: msg_inv_def elim: pickle_invE)
  have up: "unat (of_nat (psize m) :: u32) = psize m" using assms(2) by (intro unat_small_nat) simp
  have h: "unat (pk_header_size m) = 16" using assms(1) by (simp add: msg_inv_def hsize_def)
  have "unat (pk_header_size m + of_nat (psize m)) = 16 + psize m"
    using h up assms(2) by (subst unat_add_small) simp_all
  then have d: "d = take (16 + psize m) b"
    using assms(3) b by (simp add: pickle_data_def pickle_size_def split: if_splits)
  have "take 4 d = take 4 b" by (simp add: d min_def)
  then have "stream_payload d = psize m"
    using b(2) up by (simp add: stream_payload_def load32_def split: if_splits)
  then show fr: "is_frame d" using q(1) by (simp add: is_frame_def first_frame_def)
  then have "Message_from_data d (of_nat (length d)) = Some (frame_message d)"
    using frame_adopted(1) [of d "length d"] q(1) assms(2) by (simp add: is_frame_def)
  then have "q = frame_message d" using q(2) by simp
  then show "length d = 16 + psize m" "routing_id (frame_message d) = routing_id m"
    "msg_type (frame_message d) = msg_type m" "flags (frame_message d) = flags m"
    "payload (frame_message d) = payload m" using q by simp_all
qed

section \<open>Properties\<close>

text \<open>C1: reassembly.  Messages are written one after the other into the pipe and arrive in reads
  of at most \<open>kReadBufferSize\<close> bytes cut anywhere: the reader hands on exactly the messages sent, in
  order, until the subclass refuses one, and if it refuses none, nothing is left over.\<close>

theorem stream_delivery:
  assumes "channel_reader ops ia oa"
    and "list_all (\<lambda>m. msg_inv m \<and> 16 + psize m + kReadBufferSize \<le> kMaximumMessageSize) ms"
    and "map pickle_data ms = map Some fs" "concat ds = concat fs"
    and "list_all (\<lambda>d. length d \<le> kReadBufferSize) ds"
  shows "\<exists>rest. feed ops ia oa ds [] w =
      (fst (handle_all ops (map frame_message fs) w), rest,
       snd (handle_all ops (map frame_message fs) w)) \<and>
      (fst (handle_all ops (map frame_message fs) w) \<longrightarrow> rest = [])"
proof -
  have l: "length ms = length fs" using assms(3) by (metis length_map)
  have f: "is_frame (fs ! i) \<and> length (fs ! i) = 16 + psize (ms ! i)" if "i < length fs" for i
  proof -
    have "msg_inv (ms ! i)" "16 + psize (ms ! i) < 2 ^ 31"
      using assms(2) that l by (auto simp: list_all_length kMaximumMessageSize_def)
    moreover have "pickle_data (ms ! i) = Some (fs ! i)"
      using assms(3) that l by (metis nth_map)
    ultimately show ?thesis using message_is_frame by blast
  qed
  have "list_all is_frame fs" using f by (simp add: list_all_length)
  moreover have "list_all (\<lambda>f. length f + kReadBufferSize \<le> kMaximumMessageSize) fs"
    using f assms(2) l by (simp add: list_all_length)
  moreover have "frames [] = ([], [])" by (simp add: frames_None first_frame_def)
  ultimately show ?thesis
    using channel_reader.feed_frames [OF assms(1), of fs "[]" ds w w] assms(4,5) by simp
qed

text \<open>A subclass that records what it is handed, for the closed instances.\<close>

definition recorder :: "i32 list reader_ops" where
  "recorder = \<lparr>ReadData = \<lambda>w. (READ_PENDING, [], w), WillDispatch = \<lambda>m w. True, HandleHello = \<lambda>m w. w,
     OnMessage = \<lambda>m w. (case routing_id m of None \<Rightarrow> w | Some r \<Rightarrow> w @ [r]), DidEmpty = \<lambda>w. True\<rparr>"

lemma recorder_reader: "channel_reader recorder 4096 65536"
  by unfold_locales (simp_all add: recorder_def kReadBufferSize_def kMaximumMessageSize_def)

lemma stream_delivery_witness:
  "\<exists>d. length d = 16 \<and> feed recorder 4096 65536 [take 5 d, drop 5 d @ d] [] [] = (True, [], [9, 9])"
proof -
  obtain m where m: "msg_inv m" "psize m = 0" "m_routing m = 9" "m_type m = 1"
    using fresh_message by blast
  have s: "16 + psize m < 2 ^ 31" using m(2) by simp
  then obtain d where d: "pickle_data m = Some d" using message_wire [OF m(1)] by blast
  note f = message_is_frame [OF m(1) s d]
  have r: "routing_id (frame_message d) = Some 9" "msg_type (frame_message d) = Some 1"
    using f(3,4) header_fields [OF msg_inv_ok [OF m(1)]] m(3,4) by simp_all
  have nh: "\<not> IsHelloMessage (frame_message d)"
    using r by (simp add: IsHelloMessage_def HELLO_MESSAGE_TYPE_def)
  have h: "handle_all recorder [frame_message d, frame_message d] [] = (True, [9, 9])"
    using nh r(1) by (simp add: recorder_def deliver_def)
  have l: "length d = 16" using f(2) m(2) by simp
  show ?thesis
    using stream_delivery [OF recorder_reader, of "[m, m]" "[d, d]" "[take 5 d, drop 5 d @ d]" "[]"]
      m d h l by (auto simp: kMaximumMessageSize_def kReadBufferSize_def)
qed

text \<open>C12: whatever bytes the peer sent, the loop hands on exactly the complete frames of the buffer,
  each once and in order, up to the first one refused; each of them has a readable header and a
  payload inside the received bytes.\<close>

theorem dispatched_readable:
  assumes "unat p + length data + 16 < 2 ^ 32" "length data < 2 ^ 31"
  shows "list_all msg_ok (fst (frames data)) \<and>
     (\<exists>rest. dispatch_loop ops p data w =
       (fst (handle_all ops (fst (frames data)) w), rest, snd (handle_all ops (fst (frames data)) w)))"
proof (rule conjI)
  show "list_all msg_ok (fst (frames data))" by (rule frames_readable [OF assms(2)])
  from loop_frames [OF assms, of ops w] obtain rest where
    "dispatch_loop ops p data w =
      (fst (handle_all ops (fst (frames data)) w), rest, snd (handle_all ops (fst (frames data)) w)) \<and>
     (fst (handle_all ops (fst (frames data)) w) \<longrightarrow> rest = snd (frames data))" by (rule exE)
  then show "\<exists>rest. dispatch_loop ops p data w =
      (fst (handle_all ops (fst (frames data)) w), rest, snd (handle_all ops (fst (frames data)) w))"
    by (intro exI) (rule conjunct1)
qed

lemma dispatched_readable_witness:
  "\<exists>rest. dispatch_loop recorder 4096 [255, 255, 255, 255] [7] =
     (fst (handle_all recorder (fst (frames [255, 255, 255, 255])) [7]), rest,
      snd (handle_all recorder (fst (frames [255, 255, 255, 255])) [7]))"
  by (rule conjunct2 [OF dispatched_readable]) simp_all

text \<open>The limit on what is pending, at the boundary: a total of exactly \<open>kMaximumMessageSize\<close> is accepted.\<close>

lemma overflow_limit:
  assumes "channel_reader ops ia oa" "ov \<noteq> []" "length data \<le> kReadBufferSize"
  shows "(kMaximumMessageSize < length ov + length data \<longrightarrow>
            DispatchInputData ops ia oa data ov w = (False, [], w)) \<and>
         (length ov + length data \<le> kMaximumMessageSize \<longrightarrow>
            fst (handle_all ops (fst (frames (ov @ data))) w) \<longrightarrow>
            DispatchInputData ops ia oa data ov w =
              (True, snd (frames (ov @ data)), snd (handle_all ops (fst (frames (ov @ data))) w)))"
  using channel_reader.dispatch_frames [OF assms(1,3), of ov w] assms(2)
  by (auto simp: DispatchInputData_def)

context channel_reader
begin

lemma pending_bound:
  assumes "length data \<le> kReadBufferSize" "length ov \<le> kMaximumMessageSize"
  shows "length (fst (snd (DispatchInputData ops ia oa data ov w))) \<le> kMaximumMessageSize"
proof -
  have "length (snd (frames (ov @ data))) \<le> length ov + length data"
    using frames_rest_length [of "ov @ data"] by simp
  moreover have "length data \<le> kMaximumMessageSize"
    using assms(1) by (simp add: kReadBufferSize_def kMaximumMessageSize_def)
  ultimately show ?thesis using assms
    by (cases "handle_all ops (fst (frames (ov @ data))) w") (auto simp: dispatch_exact)
qed

lemma feed_bound:
  assumes "list_all (\<lambda>d. length d \<le> kReadBufferSize) ds" "length ov \<le> kMaximumMessageSize"
  shows "length (fst (snd (feed ops ia oa ds ov w))) \<le> kMaximumMessageSize"
  using assms
proof (induction ds arbitrary: ov w)
  case (Cons d ds)
  then show ?case using pending_bound [of d ov w]
    by (cases "DispatchInputData ops ia oa d ov w") simp
qed simp

text \<open>While the bytes of a message that is too big come in, there is no complete frame.\<close>

lemma oversize_part:
  assumes "4 \<le> length (a @ b)" "kMaximumMessageSize < 16 + stream_payload (a @ b)" "length a \<le> kMaximumMessageSize"
  shows "first_frame a = None"
  using assms by (auto simp: first_frame_def stream_payload_def)

lemma feed_oversize:
  assumes "4 \<le> length (ov @ concat ds)" "kMaximumMessageSize < 16 + stream_payload (ov @ concat ds)"
    and "list_all (\<lambda>d. length d \<le> kReadBufferSize) ds" "length ov \<le> kMaximumMessageSize"
  shows "feed ops ia oa ds ov w =
    (if length (ov @ concat ds) \<le> kMaximumMessageSize then (True, ov @ concat ds, w) else (False, [], w))"
  using assms
proof (induction ds arbitrary: ov)
  case (Cons d ds)
  have d: "length d \<le> kReadBufferSize" using Cons.prems(3) by simp
  show ?case
  proof (cases "length ov + length d \<le> kMaximumMessageSize")
    case True
    have "first_frame (ov @ d) = None"
      by (rule oversize_part [of _ "concat ds"]) (use Cons.prems True in simp_all)
    then have "DispatchInputData ops ia oa d ov w = (True, ov @ d, w)"
      using True by (simp add: dispatch_exact [OF d] frames_None)
    then show ?thesis using Cons.IH [of "ov @ d"] Cons.prems True by simp
  next
    case False
    then have "ov \<noteq> []" using d by (auto simp: kReadBufferSize_def kMaximumMessageSize_def)
    then show ?thesis using False by (simp add: dispatch_exact [OF d])
  qed
qed simp

end

text \<open>C40: a message that is too big.  Whatever bytes the peer sends and however they are cut into reads, the
  reader never keeps more than \<open>kMaximumMessageSize\<close> of them; and a message whose header announces more than
  \<open>kMaximumMessageSize\<close> bytes is never handed on: its bytes are kept until they exceed the limit, and the
  read that makes them exceed it is a channel error and drops them.  (Exactly the maximum is still
  accepted: \<open>overflow_limit\<close>.)\<close>

theorem oversize_refused:
  assumes "channel_reader ops ia oa" "list_all (\<lambda>d. length d \<le> kReadBufferSize) ds" "length ov \<le> kMaximumMessageSize"
  shows "length (fst (snd (feed ops ia oa ds ov w))) \<le> kMaximumMessageSize \<and>
    (4 \<le> length (ov @ concat ds) \<and> kMaximumMessageSize < 16 + stream_payload (ov @ concat ds) \<longrightarrow>
      feed ops ia oa ds ov w =
        (if length (ov @ concat ds) \<le> kMaximumMessageSize then (True, ov @ concat ds, w) else (False, [], w)))"
  using channel_reader.feed_bound [OF assms] channel_reader.feed_oversize [OF assms(1) _ _ assms(2,3)] by blast

lemma oversize_refused_witness:
  "feed recorder 4096 65536 [[0, 0], [0, 8, 1, 2]] [] [] = (True, [0, 0, 0, 8, 1, 2], []) \<and>
   (\<exists>ov. length ov = kMaximumMessageSize \<and> feed recorder 4096 65536 [[1]] ov [] = (False, [], []))"
proof
  have k: "4 \<le> kMaximumMessageSize" "6 \<le> kMaximumMessageSize" "kMaximumMessageSize < 16 + 2 ^ 27"
    "4 \<le> kReadBufferSize"
    by (simp_all add: kMaximumMessageSize_def kReadBufferSize_def)
  have w: "stream_payload [0, 0, 0, 8] = 2 ^ 27" by (simp add: stream_payload_def word32_def)
  have z: "take 4 [0, 0, 0, 8, 1, 2 :: u8] = take 4 [0, 0, 0, 8]" by simp
  have p: "stream_payload [0, 0, 0, 8, 1, 2] = 2 ^ 27" using w unfolding stream_payload_def z .
  have "feed recorder 4096 65536 [[0, 0], [0, 8, 1, 2]] [] [] =
    (if length ([] @ concat [[0, 0], [0, 8, 1, 2 :: u8]]) \<le> kMaximumMessageSize
     then (True, [] @ concat [[0, 0], [0, 8, 1, 2]], []) else (False, [], []))"
    by (rule mp [OF conjunct2 [OF oversize_refused [OF recorder_reader]]]) (use k p in simp_all)
  then show "feed recorder 4096 65536 [[0, 0], [0, 8, 1, 2]] [] [] = (True, [0, 0, 0, 8, 1, 2], [])"
    using k by (simp del: feed.simps)
  define n where "n = kMaximumMessageSize - 4"
  define ov :: bytes where "ov = [0, 0, 0, 8] @ replicate n 0"
  have l: "length ov = kMaximumMessageSize" using k(1) by (simp add: ov_def n_def)
  have "take 4 (ov @ concat [[1]]) = take 4 [0, 0, 0, 8]" by (simp add: ov_def)
  then have q: "stream_payload (ov @ concat [[1]]) = 2 ^ 27" using w unfolding stream_payload_def by metis
  have "feed recorder 4096 65536 [[1]] ov [] =
    (if length (ov @ concat [[1]]) \<le> kMaximumMessageSize then (True, ov @ concat [[1]], []) else (False, [], []))"
    by (rule mp [OF conjunct2 [OF oversize_refused [OF recorder_reader]]]) (use k l q in simp_all)
  then have "feed recorder 4096 65536 [[1]] ov [] = (False, [], [])" using l by (simp del: feed.simps)
  then show "\<exists>ov. length ov = kMaximumMessageSize \<and> feed recorder 4096 65536 [[1]] ov [] = (False, [], [])"
    using l by blast
qed

end
