(* ===== verification/NumberStrings.thy ===== *)
theory NumberStrings
  imports Ipc_Prelude
begin

text \<open>
  \<open>base/strings/string_number_conversions.cc\<close>: decimal and hexadecimal strings of signed integers.
  Channel names carry their secret and the process id in this form.  The value being parsed is an
  integer between \<open>min()\<close> and \<open>max()\<close> of the type (\<open>mn\<close>, \<open>mx\<close>); C++ division truncates towards zero.
\<close>

section \<open>Printing\<close>

text \<open>The loop of \<open>IntToStringT::IntToString\<close> writes the digits from the last one.\<close>

definition digit_char :: "nat \<Rightarrow> u8" where "digit_char d = of_nat (d + 48)"

function digit_loop :: "nat \<Rightarrow> bytes \<Rightarrow> bytes" where
  "digit_loop res acc =
     (let acc' = digit_char (res mod 10) # acc; res' = res div 10
      in if res' = 0 then acc' else digit_loop res' acc')"
  by auto
termination by (relation "measure fst") auto

declare digit_loop.simps [simp del]

definition ToUnsigned :: "i32 \<Rightarrow> u32" where
  "ToUnsigned v = (if sint v < 0 then - v else v)"

definition IntToString :: "i32 \<Rightarrow> bytes" where
  "IntToString v =
     (let s = digit_loop (unat (ToUnsigned v)) [] in if sint v < 0 then 45 # s else s)"

definition UintToString :: "u32 \<Rightarrow> bytes" where
  "UintToString v = digit_loop (unat v) []"

section \<open>Parsing\<close>

definition CharToDigit :: "nat \<Rightarrow> u8 \<Rightarrow> nat option" where
  "CharToDigit base c =
     (let n = unat c
      in if base \<le> 10 then (if 48 \<le> n \<and> n < 48 + base then Some (n - 48) else None)
         else if 48 \<le> n \<and> n \<le> 57 then Some (n - 48)
         else if 97 \<le> n \<and> n < 97 + base - 10 then Some (n - 97 + 10)
         else if 65 \<le> n \<and> n < 65 + base - 10 then Some (n - 65 + 10)
         else None)"

definition LocalIsWhitespace :: "u8 \<Rightarrow> bool" where
  "LocalIsWhitespace c = (c = 32 \<or> (9 \<le> unat c \<and> unat c \<le> 13))"

definition Positive_CheckBounds :: "int \<Rightarrow> nat \<Rightarrow> int \<Rightarrow> nat \<Rightarrow> bool" where
  "Positive_CheckBounds mx base output new_digit =
     (\<not> (output > mx div int base \<or> (output = mx div int base \<and> int new_digit > mx mod int base)))"

definition Negative_CheckBounds :: "int \<Rightarrow> nat \<Rightarrow> int \<Rightarrow> nat \<Rightarrow> bool" where
  "Negative_CheckBounds mn base output new_digit =
     (\<not> (output < - ((- mn) div int base) \<or>
         (output = - ((- mn) div int base) \<and> int new_digit > (- mn) mod int base)))"

fun Positive_loop :: "int \<Rightarrow> nat \<Rightarrow> bool \<Rightarrow> bytes \<Rightarrow> int \<Rightarrow> bool \<times> int" where
  "Positive_loop mx base first [] output = (True, output)"
| "Positive_loop mx base first (c # cs) output =
     (case CharToDigit base c of
        None \<Rightarrow> (False, output)
      | Some d \<Rightarrow>
          if first then Positive_loop mx base False cs (output + int d)
          else if \<not> Positive_CheckBounds mx base output d then (False, mx)
          else Positive_loop mx base False cs (output * int base + int d))"

fun Negative_loop :: "int \<Rightarrow> nat \<Rightarrow> bool \<Rightarrow> bytes \<Rightarrow> int \<Rightarrow> bool \<times> int" where
  "Negative_loop mn base first [] output = (True, output)"
| "Negative_loop mn base first (c # cs) output =
     (case CharToDigit base c of
        None \<Rightarrow> (False, output)
      | Some d \<Rightarrow>
          if first then Negative_loop mn base False cs (output - int d)
          else if \<not> Negative_CheckBounds mn base output d then (False, mn)
          else Negative_loop mn base False cs (output * int base - int d))"

definition skip_0x :: "nat \<Rightarrow> bytes \<Rightarrow> bytes" where
  "skip_0x base s =
     (if base = 16 \<and> length s > 2 \<and> s ! 0 = 48 \<and> (s ! 1 = 120 \<or> s ! 1 = 88) then drop 2 s else s)"

definition Positive_Invoke :: "int \<Rightarrow> nat \<Rightarrow> bytes \<Rightarrow> bool \<times> int" where
  "Positive_Invoke mx base s =
     (if s = [] then (False, 0) else Positive_loop mx base True (skip_0x base s) 0)"

definition Negative_Invoke :: "int \<Rightarrow> nat \<Rightarrow> bytes \<Rightarrow> bool \<times> int" where
  "Negative_Invoke mn base s =
     (if s = [] then (False, 0) else Negative_loop mn base True (skip_0x base s) 0)"

definition ToNumber_Invoke :: "int \<Rightarrow> int \<Rightarrow> nat \<Rightarrow> bytes \<Rightarrow> bool \<times> int" where
  "ToNumber_Invoke mn mx base s =
     (let s1 = dropWhile LocalIsWhitespace s;
          valid = (s1 = s);
          r = (if s1 \<noteq> [] \<and> hd s1 = 45 then Negative_Invoke mn base (tl s1)
               else Positive_Invoke mx base (if s1 \<noteq> [] \<and> hd s1 = 43 then tl s1 else s1))
      in (valid \<and> fst r, snd r))"

definition StringToInt :: "bytes \<Rightarrow> bool \<times> i32" where
  "StringToInt s = (let r = ToNumber_Invoke (- (2 ^ 31)) (2 ^ 31 - 1) 10 s
                    in (fst r, word_of_int (snd r)))"

definition StringToInt64 :: "bytes \<Rightarrow> bool \<times> u64" where
  "StringToInt64 s = (let r = ToNumber_Invoke (- (2 ^ 63)) (2 ^ 63 - 1) 10 s
                      in (fst r, word_of_int (snd r)))"

definition HexStringToInt :: "bytes \<Rightarrow> bool \<times> i32" where
  "HexStringToInt s = (let r = ToNumber_Invoke (- (2 ^ 31)) (2 ^ 31 - 1) 16 s
                       in (fst r, word_of_int (snd r)))"

section \<open>Facts\<close>

text \<open>The number a digit string stands for.\<close>

definition val_from :: "nat \<Rightarrow> nat \<Rightarrow> nat list \<Rightarrow> nat" where
  "val_from base v ds = foldl (\<lambda>acc d. acc * base + d) v ds"

lemma val_from_simps [simp]:
  "val_from base v [] = v" "val_from base v (d # ds) = val_from base (v * base + d) ds"
  by (simp_all add: val_from_def)

lemma val_from_ge: "0 < base \<Longrightarrow> v \<le> val_from base v ds"
proof (induction ds arbitrary: v)
  case (Cons d ds)
  have "v * 1 \<le> v * base" using Cons.prems by (intro mult_le_mono2) simp
  then have "v \<le> v * base + d" by linarith
  then show ?case using Cons.IH [OF Cons.prems, of "v * base + d"] by simp
qed simp

lemma unat_digit_char: "d \<le> 10 \<Longrightarrow> unat (digit_char d) = d + 48"
  unfolding digit_char_def unat_of_nat by simp

lemma CharToDigit_digit: "base \<le> 10 \<Longrightarrow> d < base \<Longrightarrow> CharToDigit base (digit_char d) = Some d"
  by (simp add: CharToDigit_def unat_digit_char Let_def)

lemma digit_bound: "CharToDigit base c = Some d \<Longrightarrow> 2 \<le> base \<Longrightarrow> d < max base 10"
  by (auto simp: CharToDigit_def Let_def split: if_splits)

text \<open>The bounds checks say exactly that the next digit still fits.\<close>

lemma Positive_fits:
  assumes "0 < base" "d < base" "0 \<le> mx" "0 \<le> out"
  shows "Positive_CheckBounds mx base out d \<longleftrightarrow> out * int base + int d \<le> mx"
proof -
  define b where "b = int base"
  define q where "q = mx div b"
  define r where "r = mx mod b"
  have b: "0 < b" "int d < b" and r: "0 \<le> r" "r < b"
    using assms by (simp_all add: b_def r_def)
  have mx: "mx = q * b + r" by (simp add: q_def r_def)
  have D: "Positive_CheckBounds mx base out d \<longleftrightarrow> \<not> (out > q \<or> (out = q \<and> int d > r))"
    by (simp add: Positive_CheckBounds_def q_def r_def b_def)
  consider "out < q" | "out = q" | "q < out" by linarith
  then have "(\<not> (out > q \<or> (out = q \<and> int d > r))) \<longleftrightarrow> out * b + int d \<le> mx"
  proof cases
    case 1
    then have "(out + 1) * b \<le> q * b" using b by (intro mult_right_mono) simp_all
    then have "out * b + b \<le> q * b" by (simp add: algebra_simps)
    then show ?thesis using 1 b r mx by linarith
  next
    case 2
    then show ?thesis using mx by auto
  next
    case 3
    then have "(q + 1) * b \<le> out * b" using b by (intro mult_right_mono) simp_all
    then have "q * b + b \<le> out * b" by (simp add: algebra_simps)
    then show ?thesis using 3 r mx by linarith
  qed
  then show ?thesis using D by (simp add: b_def)
qed

lemma Negative_is_Positive: "Negative_CheckBounds mn base out d = Positive_CheckBounds (- mn) base (- out) d"
  by (auto simp: Negative_CheckBounds_def Positive_CheckBounds_def)

lemma Negative_loop_Positive:
  "Negative_loop mn base first cs out =
     (let r = Positive_loop (- mn) base first cs (- out) in (fst r, - snd r))"
  by (induction cs arbitrary: first out)
    (auto simp: Negative_is_Positive Let_def split: option.split)

text \<open>The loop reads a number that fits exactly, and stops at the first digit that does not fit.\<close>

lemma Positive_loop_value:
  assumes "0 < base" "base \<le> 10" "0 \<le> mx"
  shows "list_all (\<lambda>d. d < base) ds \<Longrightarrow> int v \<le> mx \<Longrightarrow>
    Positive_loop mx base False (map digit_char ds) (int v) =
      (if int (val_from base v ds) \<le> mx then (True, int (val_from base v ds)) else (False, mx))"
proof (induction ds arbitrary: v)
  case Nil
  then show ?case by simp
next
  case (Cons d ds)
  let ?w = "v * base + d"
  have d: "d < base" "CharToDigit base (digit_char d) = Some d"
    using Cons.prems(1) assms(2) CharToDigit_digit by simp_all
  have fit: "Positive_CheckBounds mx base (int v) d \<longleftrightarrow> int ?w \<le> mx"
    using Positive_fits [OF assms(1) d(1) assms(3), of "int v"] by simp
  show ?case
  proof (cases "int ?w \<le> mx")
    case True
    have ds: "list_all (\<lambda>d. d < base) ds" using Cons.prems by simp
    have e: "int ?w = int v * int base + int d" by simp
    show ?thesis using d(2) fit True Cons.IH [OF ds True, unfolded e] by simp
  next
    case False
    have "int ?w \<le> int (val_from base ?w ds)"
      using val_from_ge [OF assms(1)] by (simp only: of_nat_le_iff)
    then show ?thesis using d(2) fit False by simp
  qed
qed


lemma Positive_Invoke_value:
  assumes "ds \<noteq> []" "list_all (\<lambda>d. d < 10) ds" "9 \<le> mx"
  shows "Positive_Invoke mx 10 (map digit_char ds) =
    (if int (val_from 10 0 ds) \<le> mx then (True, int (val_from 10 0 ds)) else (False, mx))"
proof -
  obtain d es where ds: "ds = d # es" using assms(1) by (cases ds) auto
  have d: "d < 10" "CharToDigit 10 (digit_char d) = Some d"
    using assms(2) CharToDigit_digit [of 10 d] by (simp_all add: ds)
  have "int d \<le> mx" using d(1) assms(3) by linarith
  then show ?thesis
    using d(2) assms Positive_loop_value [of 10 mx es d]
    by (simp add: ds Positive_Invoke_def skip_0x_def)
qed

lemma Negative_Invoke_value:
  assumes "ds \<noteq> []" "list_all (\<lambda>d. d < 10) ds" "9 \<le> - mn"
  shows "Negative_Invoke mn 10 (map digit_char ds) =
    (if int (val_from 10 0 ds) \<le> - mn then (True, - int (val_from 10 0 ds)) else (False, mn))"
  using Positive_Invoke_value [OF assms] assms(1)
  by (simp add: Negative_Invoke_def Positive_Invoke_def Negative_loop_Positive Let_def split: if_splits)

lemma digit_not_special:
  assumes "list_all (\<lambda>d. d < 10) ds" "ds \<noteq> []"
  shows "dropWhile LocalIsWhitespace (map digit_char ds) = map digit_char ds"
    "hd (map digit_char ds) \<noteq> 45" "hd (map digit_char ds) \<noteq> 43"
proof -
  obtain d es where ds: "ds = d # es" using assms(2) by (cases ds) auto
  have u: "unat (digit_char d) = d + 48" using assms(1) ds unat_digit_char by simp
  then have "digit_char d \<noteq> 32" "digit_char d \<noteq> 45" "digit_char d \<noteq> 43" by auto
  then show "dropWhile LocalIsWhitespace (map digit_char ds) = map digit_char ds"
    "hd (map digit_char ds) \<noteq> 45" "hd (map digit_char ds) \<noteq> 43"
    using u by (simp_all add: ds LocalIsWhitespace_def)
qed

lemma ToNumber_digits:
  assumes "ds \<noteq> []" "list_all (\<lambda>d. d < 10) ds" "9 \<le> mx" "9 \<le> - mn"
  shows "ToNumber_Invoke mn mx 10 (map digit_char ds) =
      (if int (val_from 10 0 ds) \<le> mx then (True, int (val_from 10 0 ds)) else (False, mx))"
    "ToNumber_Invoke mn mx 10 (45 # map digit_char ds) =
      (if int (val_from 10 0 ds) \<le> - mn then (True, - int (val_from 10 0 ds)) else (False, mn))"
proof -
  note n = digit_not_special [OF assms(2,1)]
  show "ToNumber_Invoke mn mx 10 (map digit_char ds) =
      (if int (val_from 10 0 ds) \<le> mx then (True, int (val_from 10 0 ds)) else (False, mx))"
    using n Positive_Invoke_value [OF assms(1-3)] by (simp add: ToNumber_Invoke_def Let_def)
  have w: "\<not> LocalIsWhitespace 45" by (simp add: LocalIsWhitespace_def)
  show "ToNumber_Invoke mn mx 10 (45 # map digit_char ds) =
      (if int (val_from 10 0 ds) \<le> - mn then (True, - int (val_from 10 0 ds)) else (False, mn))"
    using w Negative_Invoke_value [OF assms(1,2,4)] by (simp add: ToNumber_Invoke_def Let_def)
qed

lemma StringToInt_digits:
  assumes "ds \<noteq> []" "list_all (\<lambda>d. d < 10) ds"
  shows "StringToInt (map digit_char ds) =
      (if val_from 10 0 ds < 2 ^ 31 then (True, of_nat (val_from 10 0 ds)) else (False, 0x7FFFFFFF))"
    "StringToInt (45 # map digit_char ds) =
      (if val_from 10 0 ds \<le> 2 ^ 31 then (True, - of_nat (val_from 10 0 ds)) else (False, 0x80000000))"
  using ToNumber_digits [OF assms, of "2 ^ 31 - 1" "- (2 ^ 31)"]
  by (simp_all add: StringToInt_def)

text \<open>The digits that the printer writes.\<close>

lemma digit_loop_digits:
  "\<exists>ds. ds \<noteq> [] \<and> list_all (\<lambda>d. d < 10) ds \<and> digit_loop n acc = map digit_char ds @ acc \<and>
        val_from 10 0 ds = n"
proof (induction n acc rule: digit_loop.induct)
  case (1 n acc)
  show ?case
  proof (cases "n div 10 = 0")
    case True
    then have "digit_loop n acc = map digit_char [n mod 10] @ acc"
      by (simp add: digit_loop.simps [of n])
    moreover have "val_from 10 0 [n mod 10] = n" using True by simp
    ultimately show ?thesis by (intro exI [of _ "[n mod 10]"]) simp
  next
    case False
    then obtain ds where ds: "ds \<noteq> []" "list_all (\<lambda>d. d < 10) ds"
      "digit_loop (n div 10) (digit_char (n mod 10) # acc) = map digit_char ds @ digit_char (n mod 10) # acc"
      "val_from 10 0 ds = n div 10"
      using 1 [OF refl refl] by auto
    have "val_from 10 0 (ds @ [n mod 10]) = n"
      using ds(4) by (simp add: val_from_def)
    then show ?thesis using ds False
      by (intro exI [of _ "ds @ [n mod 10]"]) (simp add: digit_loop.simps [of n] Let_def)
  qed
qed

lemma ToUnsigned_bound:
  "sint v < 0 \<Longrightarrow> unat (ToUnsigned v) \<le> 2 ^ 31"
  "\<not> sint v < 0 \<Longrightarrow> unat (ToUnsigned v) < 2 ^ 31"
proof -
  assume n: "sint v < 0"
  have "- (2 ^ 31) \<le> sint v" using sint_greater_eq [of v] by simp
  then have b: "0 \<le> - sint v" "- sint v \<le> 2 ^ 31" "- sint v < 2 ^ 32" using n by simp_all
  have "unat (word_of_int (- sint v) :: u32) = nat (take_bit 32 (- sint v))"
    by (subst unsigned_of_int) simp
  also have "take_bit 32 (- sint v) = - sint v" using b by (intro take_bit_int_eq_self) simp_all
  finally have "unat (- v) = nat (- sint v)" by simp
  then have "unat (- v) \<le> 2 ^ 31" using b by (simp add: nat_le_iff)
  then show "unat (ToUnsigned v) \<le> 2 ^ 31" using n by (simp add: ToUnsigned_def)
next
  assume "\<not> sint v < 0"
  then show "unat (ToUnsigned v) < 2 ^ 31" using sint_neg [of v] by (force simp: ToUnsigned_def)
qed

lemma StringToInt_IntToString: "StringToInt (IntToString v) = (True, v)"
proof -
  obtain ds where ds: "ds \<noteq> []" "list_all (\<lambda>d. d < 10) ds"
    "digit_loop (unat (ToUnsigned v)) [] = map digit_char ds" "val_from 10 0 ds = unat (ToUnsigned v)"
    using digit_loop_digits [of "unat (ToUnsigned v)" "[]"] by auto
  show ?thesis
  proof (cases "sint v < 0")
    case True
    then have "- of_nat (unat (ToUnsigned v)) = v" by (simp add: ToUnsigned_def)
    then show ?thesis
      using StringToInt_digits(2) [OF ds(1,2)] ds(3,4) True ToUnsigned_bound(1) [OF True]
      by (simp add: IntToString_def)
  next
    case False
    then have "of_nat (unat (ToUnsigned v)) = v" by (simp add: ToUnsigned_def)
    then show ?thesis
      using StringToInt_digits(1) [OF ds(1,2)] ds(3,4) False ToUnsigned_bound(2) [OF False]
      by (simp add: IntToString_def)
  qed
qed

text \<open>C38: \<open>StringToInt\<close> reads back what \<open>IntToString\<close> prints, for every 32-bit integer, the
  smallest one included.\<close>

theorem int_string_roundtrip: "StringToInt (IntToString v) = (True, v)"
  by (rule StringToInt_IntToString)

text \<open>C39: a string of decimal digits is parsed exactly when its value fits into an \<open>int\<close>, and
  otherwise saturates: no digit string overflows, however long it is.\<close>

theorem string_to_int_saturates:
  assumes "ds \<noteq> []" "list_all (\<lambda>d. d < 10) ds"
  shows "StringToInt (map digit_char ds) =
      (if val_from 10 0 ds < 2 ^ 31 then (True, of_nat (val_from 10 0 ds)) else (False, 0x7FFFFFFF)) \<and>
    StringToInt (45 # map digit_char ds) =
      (if val_from 10 0 ds \<le> 2 ^ 31 then (True, - of_nat (val_from 10 0 ds)) else (False, 0x80000000))"
  using StringToInt_digits [OF assms] by blast

lemma string_to_int_saturates_witness:
  "StringToInt (map digit_char [2, 1, 4, 7, 4, 8, 3, 6, 4, 8]) = (False, 0x7FFFFFFF) \<and>
   StringToInt (45 # map digit_char [2, 1, 4, 7, 4, 8, 3, 6, 4, 8]) = (True, 0x80000000)"
  using string_to_int_saturates [of "[2, 1, 4, 7, 4, 8, 3, 6, 4, 8]"] by simp

end
