(* ===== verification/ChannelWin.thy ===== *)
theory ChannelWin
  imports ChannelReader NumberStrings
begin

text \<open>
  \<open>ipc/ipc_channel_win.{h,cc}\<close> and \<open>ipc/ipc_channel.cc\<close>: one end of a named pipe.  The record
  \<open>channel\<close> has the members of \<open>Channel::ChannelImpl\<close>; \<open>ch_user\<close> is the rest of the process, which the
  listener may change (a listener may call back into the channel, so its handlers map channels to
  channels).  \<open>ch_written\<close> is a history variable: the messages \<open>WriteFile\<close> has accepted.

  The Win32 calls are parameters: the record \<open>os\<close> gives the answer of each call in a given state
  (success and \<open>GetLastError\<close>).  The data of a completed read is an argument of its completion.
\<close>

section \<open>Names and secrets\<close>

definition pipe_prefix :: bytes where
  "pipe_prefix = [92, 92, 46, 92, 112, 105, 112, 101, 92, 105, 112, 99, 46]"

definition backslash :: u8 where "backslash = 92"

text \<open>\<open>std::wstring(ascii.begin(), ascii.end())\<close>: every (signed) \<open>char\<close> becomes a unit.\<close>

definition ASCIIToWide :: "bytes \<Rightarrow> u16 list" where
  "ASCIIToWide s = map (\<lambda>c. word_of_int (sint c)) s"

fun find_first_of :: "u8 \<Rightarrow> bytes \<Rightarrow> nat option" where
  "find_first_of c [] = None"
| "find_first_of c (x # xs) = (if x = c then Some 0 else map_option Suc (find_first_of c xs))"

text \<open>\<open>substr(0, n)\<close> with \<open>n = index - 1\<close> computed in \<open>size_t\<close>: for index 0 it is \<open>npos\<close>.\<close>

definition substr0 :: "bytes \<Rightarrow> u32 \<Rightarrow> bytes" where
  "substr0 s n = take (unat n) s"

text \<open>\<open>PipeName(channel_id, secret)\<close>: the name and the new value of \<open>*secret\<close> (if asked for).\<close>

definition PipeName :: "bytes \<Rightarrow> u16 list \<times> i32" where
  "PipeName channel_id =
     (case find_first_of backslash channel_id of
        Some index \<Rightarrow>
          (ASCIIToWide (pipe_prefix @ substr0 channel_id (of_nat index - 1)),
           snd (StringToInt (drop (index + 1) channel_id)))
      | None \<Rightarrow> (ASCIIToWide (pipe_prefix @ channel_id), 0))"

definition ERROR_SEM_TIMEOUT :: u32 where "ERROR_SEM_TIMEOUT = 121"

text \<open>\<open>wait\<close> is \<open>WaitNamedPipe(name, 1)\<close>: its result and \<open>GetLastError()\<close>.\<close>

definition IsNamedServerInitialized :: "(u16 list \<Rightarrow> bool \<times> u32) \<Rightarrow> bytes \<Rightarrow> bool" where
  "IsNamedServerInitialized wait channel_id =
     (let (ok, err) = wait (fst (PipeName channel_id))
      in if ok then True else err = ERROR_SEM_TIMEOUT)"

definition GenerateUniqueRandomChannelID :: "i32 \<Rightarrow> u32 \<Rightarrow> i32 \<Rightarrow> bytes \<times> u32" where
  "GenerateUniqueRandomChannelID process_id g_last_id rand =
     (let (n, g_last_id') = GetNext g_last_id
      in (IntToString process_id @ [46] @ UintToString n @ [46] @ IntToString rand, g_last_id'))"

text \<open>\<open>do { secret = RandInt(0, INT_MAX); } while (secret == 0)\<close> on a list of draws.\<close>

fun draw_secret :: "i32 list \<Rightarrow> i32 option" where
  "draw_secret [] = None"
| "draw_secret (r # rs) = (if r = 0 then draw_secret rs else Some r)"

definition GenerateVerifiedChannelID ::
    "bytes \<Rightarrow> i32 \<Rightarrow> u32 \<Rightarrow> i32 list \<Rightarrow> i32 \<Rightarrow> (bytes \<times> u32) option" where
  "GenerateVerifiedChannelID prefix process_id g_last_id draws rand =
     (let id0 = (if prefix = [] then [] else prefix @ [46])
      in case draw_secret draws of
           None \<Rightarrow> None
         | Some secret \<Rightarrow>
             let (u, g') = GenerateUniqueRandomChannelID process_id g_last_id rand
             in Some (id0 @ u @ [backslash] @ IntToString secret, g'))"

section \<open>The channel\<close>

record 'u channel =
  ch_input_pending :: bool
  ch_output_pending :: bool
  ch_pipe :: "u32 option"
  ch_peer_pid :: i32
  ch_queue :: "message list"
  ch_waiting_connect :: bool
  ch_processing_incoming :: bool
  ch_validate_client :: bool
  ch_client_secret :: i32
  ch_overflow :: bytes
  ch_thread_check :: bool
  ch_written :: "message list"
  ch_user :: 'u

record 'u os_calls =
  os_ReadFile :: "'u channel \<Rightarrow> bool \<times> u32"
  os_WriteFile :: "'u channel \<Rightarrow> message \<Rightarrow> bool \<times> u32"
  os_ConnectNamedPipe :: "'u channel \<Rightarrow> bool \<times> u32"
  os_CancelledInput :: "'u channel \<Rightarrow> nat"
  os_CancelledOutput :: "'u channel \<Rightarrow> nat"

record 'u listener =
  OnMessageReceived :: "message \<Rightarrow> 'u channel \<Rightarrow> 'u channel"
  OnChannelConnected :: "i32 \<Rightarrow> 'u channel \<Rightarrow> 'u channel"
  OnChannelError :: "'u channel \<Rightarrow> 'u channel"

definition ERROR_IO_PENDING :: u32 where "ERROR_IO_PENDING = 997"
definition ERROR_PIPE_CONNECTED :: u32 where "ERROR_PIPE_CONNECTED = 535"
definition ERROR_NO_DATA :: u32 where "ERROR_NO_DATA = 232"

definition Win_ReadData :: "'u os_calls \<Rightarrow> 'u channel \<Rightarrow> ReadState \<times> bytes \<times> 'u channel" where
  "Win_ReadData os s =
     (if ch_pipe s = None then (READ_FAILED, [], s)
      else let (ok, err) = os_ReadFile os s
           in if \<not> ok
              then if err = ERROR_IO_PENDING then (READ_PENDING, [], s\<lparr>ch_input_pending := True\<rparr>)
                   else (READ_FAILED, [], s)
              else (READ_PENDING, [], s\<lparr>ch_input_pending := True\<rparr>))"

definition WillDispatchInputMessage :: "message \<Rightarrow> 'u channel \<Rightarrow> bool" where
  "WillDispatchInputMessage m s = (if ch_validate_client s then IsHelloMessage m else True)"

definition DidEmptyInputBuffers :: "'u channel \<Rightarrow> bool" where "DidEmptyInputBuffers s = True"

text \<open>\<open>HandleHelloMessage\<close>; \<open>close\<close> is \<open>Close()\<close>.\<close>

definition HandleHelloMessage ::
    "('u channel \<Rightarrow> 'u channel) \<Rightarrow> 'u listener \<Rightarrow> message \<Rightarrow> 'u channel \<Rightarrow> 'u channel" where
  "HandleHelloMessage close lst msg s =
     (case PickleIterator msg of
        None \<Rightarrow> s
      | Some it \<Rightarrow>
          let (claimed_pid, it1) = ReadInt it;
              failed = (case claimed_pid of
                          None \<Rightarrow> True
                        | Some _ \<Rightarrow>
                            if ch_validate_client s
                            then (case fst (ReadInt it1) of
                                    Some secret \<Rightarrow> secret \<noteq> ch_client_secret s | None \<Rightarrow> True)
                            else False)
          in if failed then OnChannelError lst (close s)
             else (case claimed_pid of
                     None \<Rightarrow> s
                   | Some pid \<Rightarrow> OnChannelConnected lst pid
                       (s\<lparr>ch_peer_pid := pid, ch_validate_client := False\<rparr>)))"

definition ProcessConnection :: "'u os_calls \<Rightarrow> 'u channel \<Rightarrow> bool \<times> 'u channel" where
  "ProcessConnection os s =
     (let s1 = (if ch_input_pending s then s\<lparr>ch_input_pending := False\<rparr> else s)
      in if ch_pipe s1 = None then (False, s1)
         else let (ok, err) = os_ConnectNamedPipe os s1
              in if ok then (False, s1)
                 else if err = ERROR_IO_PENDING then (True, s1\<lparr>ch_input_pending := True\<rparr>)
                 else if err = ERROR_PIPE_CONNECTED then (True, s1\<lparr>ch_waiting_connect := False\<rparr>)
                 else if err = ERROR_NO_DATA then (False, s1)
                 else (False, s1))"

text \<open>\<open>ProcessOutgoingMessages(context, bytes_written)\<close>; the first argument says whether \<open>context\<close> is
  not null.\<close>

definition ProcessOutgoingMessages ::
    "'u os_calls \<Rightarrow> bool \<Rightarrow> nat \<Rightarrow> 'u channel \<Rightarrow> bool \<times> 'u channel" where
  "ProcessOutgoingMessages os context bytes_written s =
     (if ch_output_pending s \<and> (\<not> context \<or> bytes_written = 0)
      then (False, s\<lparr>ch_output_pending := False\<rparr>)
      else
        let s1 = (if ch_output_pending s
                  then s\<lparr>ch_output_pending := False, ch_queue := tl (ch_queue s)\<rparr> else s)
        in case ch_queue s1 of
             [] \<Rightarrow> (True, s1)
           | m # _ \<Rightarrow>
               if ch_pipe s1 = None then (False, s1)
               else let (ok, err) = os_WriteFile os s1 m
                    in if \<not> ok \<and> err \<noteq> ERROR_IO_PENDING then (False, s1)
                       else (True, s1\<lparr>ch_output_pending := True, ch_written := ch_written s1 @ [m]\<rparr>))"

definition Channel_Send :: "'u os_calls \<Rightarrow> message \<Rightarrow> 'u channel \<Rightarrow> bool \<times> 'u channel" where
  "Channel_Send os m s =
     (let s1 = s\<lparr>ch_queue := ch_queue s @ [m]\<rparr>
      in if \<not> ch_waiting_connect s1 \<and> \<not> ch_output_pending s1
         then ProcessOutgoingMessages os False 0 s1 else (True, s1))"

text \<open>The virtual functions of the reader, for this subclass.\<close>

definition win_ops ::
    "'u os_calls \<Rightarrow> 'u listener \<Rightarrow> ('u channel \<Rightarrow> 'u channel) \<Rightarrow> 'u channel reader_ops" where
  "win_ops os lst close =
     \<lparr>ReadData = Win_ReadData os, WillDispatch = WillDispatchInputMessage,
      HandleHello = HandleHelloMessage close lst, OnMessage = OnMessageReceived lst,
      DidEmpty = DidEmptyInputBuffers\<rparr>"

definition store_input :: "bool \<times> bytes \<times> 'u channel \<Rightarrow> bool \<times> 'u channel" where
  "store_input r = (case r of (ok, ov, s) \<Rightarrow> (ok, s\<lparr>ch_overflow := ov\<rparr>))"

text \<open>The two halves of \<open>OnIOCompleted\<close> for the input context: establishing the connection (whether it
  returns at once), and processing the data that arrived and asking for more.  \<open>data\<close> are the
  \<open>bytes_transfered\<close> bytes in the input buffer at \<open>ia\<close>, \<open>oa\<close> is the address of the overflow buffer.
  On this platform a read never returns data at once, so \<open>ProcessIncomingMessages\<close> ends in the first
  round.\<close>

definition connect_half :: "'u os_calls \<Rightarrow> 'u channel \<Rightarrow> bool \<times> 'u channel" where
  "connect_half os s =
     (if ch_waiting_connect s then
        (let (ok, t) = ProcessConnection os s
         in if \<not> ok then (True, t)
            else let t2 = (if ch_queue t \<noteq> [] \<and> \<not> ch_output_pending t
                           then snd (ProcessOutgoingMessages os False 0 t) else t)
                 in (ch_input_pending t2, t2))
      else (False, s))"

definition read_half ::
    "('u channel \<Rightarrow> 'u channel) \<Rightarrow> 'u os_calls \<Rightarrow> 'u listener \<Rightarrow> u32 \<Rightarrow> u32 \<Rightarrow> nat \<Rightarrow> bytes \<Rightarrow>
     'u channel \<Rightarrow> bool \<times> 'u channel" where
  "read_half close os lst ia oa bytes_transfered data s =
     (let (ok, s1) =
        (if ch_input_pending s then
           (let t = s\<lparr>ch_input_pending := False\<rparr>
            in if bytes_transfered = 0 then (False, t)
               else if ch_pipe t \<noteq> None
               then store_input (AsyncReadComplete (win_ops os lst close) ia oa data (ch_overflow t) t)
               else (True, t))
         else (True, s))
      in if ok then
           (case ProcessIncomingMessages (win_ops os lst close) ia oa 1 (ch_overflow s1) s1 of
              None \<Rightarrow> (True, s1) | Some r \<Rightarrow> store_input r)
         else (False, s1))"

text \<open>\<open>OnIOCompleted\<close> for a given \<open>Close()\<close>; \<open>is_input\<close> tells the two contexts apart.\<close>

definition finish_io ::
    "('u channel \<Rightarrow> 'u channel) \<Rightarrow> 'u listener \<Rightarrow> bool \<Rightarrow> 'u channel \<Rightarrow> 'u channel" where
  "finish_io close lst ok s =
     (if \<not> ok \<and> ch_pipe s \<noteq> None then OnChannelError lst (close s) else s)"

definition OnIOCompleted_with ::
    "('u channel \<Rightarrow> 'u channel) \<Rightarrow> 'u os_calls \<Rightarrow> 'u listener \<Rightarrow> u32 \<Rightarrow> u32 \<Rightarrow> bool \<Rightarrow> nat \<Rightarrow> bytes \<Rightarrow>
     'u channel \<Rightarrow> 'u channel" where
  "OnIOCompleted_with close os lst ia oa is_input bytes_transfered data s =
     (if is_input then
        (let (stop, s1) = connect_half os s
         in if stop then s1
            else let (ok, s2) = read_half close os lst ia oa bytes_transfered data
                                  (s1\<lparr>ch_processing_incoming := True\<rparr>)
                 in finish_io close lst ok
                      (s2\<lparr>ch_processing_incoming := ch_processing_incoming s1\<rparr>))
      else
        (let (ok, t) = ProcessOutgoingMessages os True bytes_transfered s
         in finish_io close lst ok t))"

text \<open>
  \<open>Close\<close>.  The loop at its end waits until no I/O is pending; each wait runs \<open>OnIOCompleted\<close> of a
  completed or cancelled operation, which clears its pending flag (\<open>drain_clears\<close>), so every operation
  is waited for once.  The nested \<open>OnIOCompleted\<close> finds the pipe closed and never closes again, so
  the argument for \<open>Close()\<close> there is not used (\<open>closed_never_closes\<close>).
\<close>

definition Channel_Close ::
    "'u os_calls \<Rightarrow> 'u listener \<Rightarrow> u32 \<Rightarrow> u32 \<Rightarrow> 'u channel \<Rightarrow> 'u channel" where
  "Channel_Close os lst ia oa s =
     (let s1 = s\<lparr>ch_pipe := None\<rparr>;
          s2 = (if ch_input_pending s1
                then OnIOCompleted_with id os lst ia oa True (os_CancelledInput os s1) [] s1 else s1);
          s3 = (if ch_output_pending s2
                then OnIOCompleted_with id os lst ia oa False (os_CancelledOutput os s2) [] s2 else s2)
      in s3\<lparr>ch_queue := []\<rparr>)"

definition OnIOCompleted ::
    "'u os_calls \<Rightarrow> 'u listener \<Rightarrow> u32 \<Rightarrow> u32 \<Rightarrow> bool \<Rightarrow> bytes \<Rightarrow> nat \<Rightarrow> 'u channel \<Rightarrow> 'u channel" where
  "OnIOCompleted os lst ia oa is_input data bytes_transfered s =
     OnIOCompleted_with (Channel_Close os lst ia oa) os lst ia oa is_input bytes_transfered data s"

section \<open>Opening a channel\<close>

definition MODE_SERVER_FLAG :: u32 where "MODE_SERVER_FLAG = 1"
definition MODE_CLIENT_FLAG :: u32 where "MODE_CLIENT_FLAG = 2"
definition PIPE_SERVER_END :: u32 where "PIPE_SERVER_END = 1"

text \<open>\<open>CreatePipe\<close>: the handles given by the system are arguments (\<open>None\<close> is failure).\<close>

record pipe_calls =
  GetNamedPipeInfo_flags :: u32
  DuplicateHandle_result :: "u32 option"
  CreateNamedPipe_result :: "u16 list \<Rightarrow> u32 option"
  CreateFile_result :: "u16 list \<Rightarrow> u32 option"
  CurrentProcessId :: i32

definition PushHello ::
    "realloc_fn \<Rightarrow> u32 option \<Rightarrow> pipe_calls \<Rightarrow> u32 \<Rightarrow> 'u channel \<Rightarrow> (bool \<times> 'u channel \<times> u32) option" where
  "PushHello ra pid sys g s = do {
     (m, g') \<leftarrow> Message_new ra pid MSG_ROUTING_NONE HELLO_MESSAGE_TYPE PRIORITY_NORMAL g;
     let secret = (if ch_validate_client s then 0 else ch_client_secret s);
     r1 \<leftarrow> WriteInt ra (CurrentProcessId sys) m;
     r2 \<leftarrow> (if fst r1 \<and> secret \<noteq> 0 then WriteUInt32 ra secret (snd r1) else Some r1);
     (if \<not> fst r2 then Some (False, s\<lparr>ch_pipe := None\<rparr>, g')
      else Some (True, s\<lparr>ch_queue := ch_queue s @ [snd r2]\<rparr>, g')) }"

definition OpenPipe ::
    "pipe_calls \<Rightarrow> bytes \<Rightarrow> u32 option \<Rightarrow> u32 \<Rightarrow> 'u channel \<Rightarrow> bool \<times> 'u channel" where
  "OpenPipe sys name handle mode s =
     (case handle of
        Some h \<Rightarrow>
          (let fl = GetNamedPipeInfo_flags sys
           in if (mode AND MODE_SERVER_FLAG \<noteq> 0 \<and> fl AND PIPE_SERVER_END = 0) \<or>
                 (mode AND MODE_CLIENT_FLAG \<noteq> 0 \<and> fl AND PIPE_SERVER_END \<noteq> 0)
              then (False, s)
              else case DuplicateHandle_result sys of
                     None \<Rightarrow> (False, s) | Some p \<Rightarrow> (True, s\<lparr>ch_pipe := Some p\<rparr>))
      | None \<Rightarrow>
          if mode AND MODE_SERVER_FLAG \<noteq> 0 then
            (let (pn, secret) = PipeName name
             in (True, s\<lparr>ch_client_secret := secret, ch_validate_client := secret \<noteq> 0,
                        ch_pipe := CreateNamedPipe_result sys pn\<rparr>))
          else if mode AND MODE_CLIENT_FLAG \<noteq> 0 then
            (let (pn, secret) = PipeName name
             in (True, s\<lparr>ch_client_secret := secret, ch_pipe := CreateFile_result sys pn\<rparr>))
          else (True, s))"

definition CreatePipe ::
    "realloc_fn \<Rightarrow> u32 option \<Rightarrow> pipe_calls \<Rightarrow> bytes \<Rightarrow> u32 option \<Rightarrow> u32 \<Rightarrow> u32 \<Rightarrow> 'u channel
      \<Rightarrow> (bool \<times> 'u channel \<times> u32) option" where
  "CreatePipe ra pid sys name handle mode g s =
     (let (ok, t) = OpenPipe sys name handle mode s
      in if \<not> ok \<or> ch_pipe t = None then Some (False, t, g)
         else PushHello ra pid sys g t)"

definition ChannelImpl_new ::
    "realloc_fn \<Rightarrow> u32 option \<Rightarrow> pipe_calls \<Rightarrow> bytes \<Rightarrow> u32 option \<Rightarrow> u32 \<Rightarrow> u32 \<Rightarrow> 'u
      \<Rightarrow> ('u channel \<times> u32) option" where
  "ChannelImpl_new ra pid sys name handle mode g u = do {
     (ok, s, g') \<leftarrow> CreatePipe ra pid sys name handle mode g
       \<lparr>ch_input_pending = False, ch_output_pending = False, ch_pipe = None, ch_peer_pid = 0,
        ch_queue = [], ch_waiting_connect = (mode AND MODE_SERVER_FLAG \<noteq> 0),
        ch_processing_incoming = False, ch_validate_client = False, ch_client_secret = 0,
        ch_overflow = [], ch_thread_check = False, ch_written = [], ch_user = u\<rparr>;
     Some (s, g') }"

text \<open>\<open>Connect\<close>: its result, whether it posted the initial \<open>OnIOCompleted\<close>, the channel.\<close>

definition Channel_Connect :: "'u os_calls \<Rightarrow> 'u channel \<Rightarrow> bool \<times> bool \<times> 'u channel" where
  "Channel_Connect os s =
     (let s1 = s\<lparr>ch_thread_check := True\<rparr>
      in if ch_pipe s1 = None then (False, False, s1)
         else let s2 = (if ch_waiting_connect s1 then snd (ProcessConnection os s1) else s1);
                  posted = (\<not> ch_input_pending s2);
                  s3 = (if \<not> ch_waiting_connect s2
                        then snd (ProcessOutgoingMessages os False 0 s2) else s2)
              in (True, posted, s3))"

end
