(* ===== verification/ChannelWin_Props.thy ===== *)
theory ChannelWin_Props
  imports ChannelWin
begin

text \<open>
  Properties of the Windows channel: pipe names and secrets, the validation of the client, the order
  of the messages written, and closing.
\<close>

section \<open>Pipe names\<close>

lemma digit_not_backslash: "d < 10 \<Longrightarrow> digit_char d \<noteq> backslash"
proof
  assume "d < 10" "digit_char d = backslash"
  then have "unat (digit_char d) = 92" by (simp add: backslash_def)
  then show False using unat_digit_char [of d] \<open>d < 10\<close> by simp
qed

lemma digit_loop_no_backslash: "backslash \<notin> set acc \<Longrightarrow> backslash \<notin> set (digit_loop n acc)"
proof -
  assume a: "backslash \<notin> set acc"
  obtain ds where "list_all (\<lambda>d. d < 10) ds" "digit_loop n acc = map digit_char ds @ acc"
    using digit_loop_digits [of n acc] by blast
  then show ?thesis using a digit_not_backslash by (auto simp: list_all_iff dest: sym)
qed

lemma IntToString_no_backslash: "backslash \<notin> set (IntToString v)"
  by (auto simp: IntToString_def Let_def digit_loop_no_backslash) (simp add: backslash_def)

lemma UintToString_no_backslash: "backslash \<notin> set (UintToString v)"
  by (simp add: UintToString_def digit_loop_no_backslash)

lemma digit_loop_length:
  "n < 10 ^ Suc k \<Longrightarrow> length (digit_loop n acc) \<le> length acc + Suc k"
proof (induction k arbitrary: n acc)
  case 0
  then show ?case by (subst digit_loop.simps) (simp add: Let_def)
next
  case (Suc k)
  show ?case
  proof (cases "n div 10 = 0")
    case True
    then show ?thesis by (subst digit_loop.simps) (simp add: Let_def)
  next
    case False
    have "n div 10 < 10 ^ Suc k" using Suc.prems by (simp add: less_mult_imp_div_less)
    from Suc.IH [OF this, of "digit_char (n mod 10) # acc"] show ?thesis using False
      by (subst digit_loop.simps) (simp add: Let_def)
  qed
qed

lemma IntToString_length: "length (IntToString v) \<le> 11"
proof -
  have "unat (ToUnsigned v) < 10 ^ Suc 9" using ToUnsigned_bound [of v] by (cases "sint v < 0") simp_all
  from digit_loop_length [OF this, of "[]"] show ?thesis by (simp add: IntToString_def Let_def)
qed

lemma UintToString_length: "length (UintToString v) \<le> 10"
proof -
  have "unat v < 10 ^ Suc 9" by (rule less_le_trans [OF unsigned_less]) simp
  from digit_loop_length [OF this, of "[]"] show ?thesis by (simp add: UintToString_def)
qed

lemma find_first_of_append:
  "c \<notin> set xs \<Longrightarrow> find_first_of c (xs @ c # ys) = Some (length xs)"
  by (induction xs) auto

lemma PipeName_secret:
  assumes "backslash \<notin> set name" "length name < 2 ^ 32"
  shows "PipeName (name @ backslash # s) =
    (if name = [] then (ASCIIToWide (pipe_prefix @ take (2 ^ 32 - 1) (backslash # s)), snd (StringToInt s))
     else (ASCIIToWide (pipe_prefix @ butlast name), snd (StringToInt s)))"
proof (cases "name = []")
  case True
  have "unat (- 1 :: u32) = 2 ^ 32 - 1" by (simp add: unsigned_minus_1_eq_mask mask_eq_exp_minus_1)
  then show ?thesis using True by (simp add: PipeName_def substr0_def)
next
  case False
  have n: "unat (of_nat (length name) :: u32) = length name"
    using assms(2) by (simp add: unsigned_of_nat take_bit_nat_eq_self)
  have "unat ((of_nat (length name) :: u32) - 1) = length name - 1"
    using n False by (subst unat_minus_one) (auto simp: word_unat_eq_iff)
  then show ?thesis
    using False find_first_of_append [OF assms(1), of s]
    by (simp add: PipeName_def substr0_def butlast_conv_take)
qed

text \<open>The last character before the backslash does not reach the pipe name: identifiers that differ
  only there name the same pipe.\<close>

lemma pipe_name_collision:
  assumes "backslash \<notin> set name" "c \<noteq> backslash" "c' \<noteq> backslash" "length name + 1 < 2 ^ 32"
  shows "PipeName (name @ [c] @ backslash # s) = PipeName (name @ [c'] @ backslash # s)"
  using PipeName_secret [of "name @ [c]" s] PipeName_secret [of "name @ [c']" s] assms by auto

text \<open>An identifier that starts with the backslash puts the secret into the pipe name.\<close>

lemma pipe_name_leaks:
  assumes "length s < 2 ^ 31"
  shows "fst (PipeName (backslash # s)) = ASCIIToWide (pipe_prefix @ backslash # s)"
  using PipeName_secret [of "[]" s] assms by simp

text \<open>the two ends of a channel opened by the identifier of \<open>GenerateVerifiedChannelID\<close> use
  the same pipe, whose name has no backslash after the prefix and so no digit of the secret, and both
  recover the nonzero secret; the last character of the random identifier is lost on the way.\<close>

theorem verified_channel_id:
  assumes "GenerateVerifiedChannelID prefix process_id g draws rand = Some (channel_id, g')"
    and "backslash \<notin> set prefix" "length prefix < 2 ^ 31"
  shows "\<exists>name secret. draw_secret draws = Some secret \<and> secret \<noteq> 0 \<and>
    channel_id = name @ [backslash] @ IntToString secret \<and> name \<noteq> [] \<and> backslash \<notin> set name \<and>
    PipeName channel_id = (ASCIIToWide (pipe_prefix @ butlast name), secret)"
proof -
  obtain secret where s: "draw_secret draws = Some secret"
    using assms(1) by (auto simp: GenerateVerifiedChannelID_def Let_def split: option.splits)
  have s0: "secret \<noteq> 0" using s by (induction draws) (auto split: if_splits)
  define name where "name = (if prefix = [] then [] else prefix @ [46]) @
    IntToString process_id @ [46] @ UintToString (fst (GetNext g)) @ [46] @ IntToString rand"
  have id: "channel_id = name @ [backslash] @ IntToString secret"
    using assms(1) s by (auto simp: GenerateVerifiedChannelID_def GenerateUniqueRandomChannelID_def
        name_def Let_def split: prod.splits)
  have nb: "backslash \<notin> set name"
    using assms(2) IntToString_no_backslash UintToString_no_backslash
    by (auto simp: name_def) (simp_all add: backslash_def)
  have ne: "name \<noteq> []" by (simp add: name_def)
  have "length name < 2 ^ 32" 
    using assms(3) IntToString_length [of process_id] IntToString_length [of rand]
      UintToString_length [of "fst (GetNext g)"] by (simp add: name_def)
  then have "PipeName channel_id = (ASCIIToWide (pipe_prefix @ butlast name), secret)"
    using PipeName_secret [OF nb] ne by (simp add: id StringToInt_IntToString)
  then show ?thesis using s s0 id nb ne by blast
qed


lemma verified_channel_id_witness:
  "\<exists>channel_id g'. GenerateVerifiedChannelID [97] 7 0 [0, 42] 5 = Some (channel_id, g') \<and>
     snd (PipeName channel_id) = 42"
proof -
  have d: "draw_secret [0, 42] = Some 42" by simp
  then obtain channel_id g' where
    g: "GenerateVerifiedChannelID [97] 7 0 [0, 42] 5 = Some (channel_id, g')"
    by (auto simp: GenerateVerifiedChannelID_def GenerateUniqueRandomChannelID_def GetNext_def)
  from verified_channel_id [OF g] d show ?thesis
    by (intro exI [of _ channel_id] exI [of _ g']) (auto simp: g backslash_def)
qed


section \<open>Closing\<close>

lemmas io_defs = OnIOCompleted_with_def ProcessConnection_def ProcessOutgoingMessages_def
  Win_ReadData_def win_ops_def store_input_def connect_half_def read_half_def finish_io_def Let_def

text \<open>On a closed pipe a completion only clears its pending flag; it neither closes again nor calls
  the listener.\<close>

lemma drain_input:
  assumes "ch_pipe s = None"
  shows "OnIOCompleted_with close os lst ia oa True n data s = s\<lparr>ch_input_pending := False\<rparr>"
proof (cases "ch_input_pending s")
  case True
  then show ?thesis using assms by (simp add: io_defs)
next
  case False
  then have "s\<lparr>ch_input_pending := False\<rparr> = s" by simp
  then show ?thesis using assms False by (simp add: io_defs)
qed

lemma drain_output:
  assumes "ch_pipe s = None" "ch_output_pending s"
  shows "OnIOCompleted_with close os lst ia oa False n data s =
    s\<lparr>ch_output_pending := False, ch_queue := if n = 0 then ch_queue s else tl (ch_queue s)\<rparr>"
  using assms by (simp add: io_defs split: list.splits)

lemma Close_eq:
  "Channel_Close os lst ia oa s =
   s\<lparr>ch_pipe := None, ch_input_pending := False, ch_output_pending := False, ch_queue := []\<rparr>"
  by (simp add: Channel_Close_def drain_input drain_output Let_def)




section \<open>Runs of a channel\<close>

text \<open>The steps the rest of the process can take on a channel; the label is the list of messages
  handed to \<open>Send\<close>.  (\<open>Connect\<close> is called once, before anything is written.)\<close>

inductive chan_step ::
    "'u os_calls \<Rightarrow> 'u listener \<Rightarrow> u32 \<Rightarrow> u32 \<Rightarrow> 'u channel \<Rightarrow> message list \<Rightarrow> 'u channel \<Rightarrow> bool"
  for os lst ia oa where
  send: "chan_step os lst ia oa s [m] (snd (Channel_Send os m s))"
| io: "chan_step os lst ia oa s [] (OnIOCompleted os lst ia oa is_input data n s)"
| connect: "\<not> ch_output_pending s \<Longrightarrow> chan_step os lst ia oa s [] (snd (snd (Channel_Connect os s)))"
| close: "chan_step os lst ia oa s [] (Channel_Close os lst ia oa s)"

inductive chan_run ::
    "'u os_calls \<Rightarrow> 'u listener \<Rightarrow> u32 \<Rightarrow> u32 \<Rightarrow> 'u channel \<Rightarrow> message list \<Rightarrow> 'u channel \<Rightarrow> bool"
  for os lst ia oa where
  start: "chan_run os lst ia oa s [] s"
| step: "chan_run os lst ia oa s ms t \<Longrightarrow> chan_step os lst ia oa t xs u \<Longrightarrow>
         chan_run os lst ia oa s (ms @ xs) u"









text \<open>A system where everything succeeds, a listener that counts the errors it is told of, and a fresh
  channel, for the closed instances.\<close>

definition easy_os :: "nat os_calls" where
  "easy_os = \<lparr>os_ReadFile = \<lambda>s. (True, 0), os_WriteFile = \<lambda>s m. (False, ERROR_IO_PENDING),
     os_ConnectNamedPipe = \<lambda>s. (False, ERROR_PIPE_CONNECTED), os_CancelledInput = \<lambda>s. 0,
     os_CancelledOutput = \<lambda>s. 0\<rparr>"

definition error_counter :: "nat listener" where
  "error_counter = \<lparr>OnMessageReceived = \<lambda>m s. s\<lparr>ch_user := ch_user s + 100\<rparr>,
     OnChannelConnected = \<lambda>p s. s\<lparr>ch_user := ch_user s + 10\<rparr>,
     OnChannelError = \<lambda>s. s\<lparr>ch_user := Suc (ch_user s)\<rparr>\<rparr>"

definition open_channel :: "i32 \<Rightarrow> nat channel" where
  "open_channel secret =
     \<lparr>ch_input_pending = False, ch_output_pending = False, ch_pipe = Some 5, ch_peer_pid = 0,
      ch_queue = [], ch_waiting_connect = False, ch_processing_incoming = False,
      ch_validate_client = (secret \<noteq> 0), ch_client_secret = secret, ch_overflow = [],
      ch_thread_check = True, ch_written = [], ch_user = 0\<rparr>"



section \<open>The order of the messages written\<close>

text \<open>A listener that leaves the channel alone (it may post tasks: \<open>ch_user\<close>).\<close>

definition quiet :: "'u listener \<Rightarrow> bool" where
  "quiet lst \<longleftrightarrow> (\<forall>m s. \<exists>u. OnMessageReceived lst m s = s\<lparr>ch_user := u\<rparr>) \<and>
     (\<forall>p s. \<exists>u. OnChannelConnected lst p s = s\<lparr>ch_user := u\<rparr>) \<and>
     (\<forall>s. \<exists>u. OnChannelError lst s = s\<lparr>ch_user := u\<rparr>)"

text \<open>\<open>xs\<close> are the messages accepted so far: what is written is a prefix of them; on an open pipe the
  rest is the queue, whose head is the message in flight.\<close>

definition out_inv :: "message list \<Rightarrow> 'u channel \<Rightarrow> bool" where
  "out_inv xs s \<longleftrightarrow>
     (if ch_pipe s = None then \<not> ch_output_pending s \<and> (\<exists>zs. xs = ch_written s @ zs)
      else if ch_output_pending s
      then ch_queue s \<noteq> [] \<and> ch_written s \<noteq> [] \<and> last (ch_written s) = hd (ch_queue s) \<and>
           xs = ch_written s @ tl (ch_queue s)
      else xs = ch_written s @ ch_queue s)"

lemma out_inv_eq:
  "out_inv xs s \<Longrightarrow> ch_pipe t = ch_pipe s \<Longrightarrow> ch_output_pending t = ch_output_pending s \<Longrightarrow>
   ch_queue t = ch_queue s \<Longrightarrow> ch_written t = ch_written s \<Longrightarrow> out_inv xs t"
  by (simp add: out_inv_def)

lemma out_inv_closed:
  assumes "out_inv xs s" shows "out_inv xs (Channel_Close os lst ia oa s)"
  using assms by (auto simp: out_inv_def Close_eq split: if_splits)

lemma out_inv_outgoing:
  assumes "out_inv xs s" "\<not> ch_output_pending s"
  shows "out_inv xs (snd (ProcessOutgoingMessages os context n s))"
  using assms
  by (auto simp: ProcessOutgoingMessages_def Let_def out_inv_def split: list.splits prod.splits if_splits)

lemma out_inv_written:
  assumes "out_inv xs s" "ch_output_pending s" "0 < n"
  shows "out_inv xs (snd (ProcessOutgoingMessages os True n s))"
  using assms
  by (auto simp: ProcessOutgoingMessages_def Let_def out_inv_def neq_Nil_conv
      split: list.splits prod.splits if_splits)

lemma out_inv_send:
  assumes "out_inv xs s" shows "out_inv (xs @ [m]) (snd (Channel_Send os m s))"
proof -
  have "out_inv (xs @ [m]) (s\<lparr>ch_queue := ch_queue s @ [m]\<rparr>)"
    using assms by (auto simp: out_inv_def split: if_splits)
  then show ?thesis
    by (simp add: Channel_Send_def Let_def out_inv_outgoing)
qed

lemma ProcessConnection_keeps:
  "ch_output_pending (snd (ProcessConnection os s)) = ch_output_pending s"
  "ch_queue (snd (ProcessConnection os s)) = ch_queue s"
  "ch_pipe (snd (ProcessConnection os s)) = ch_pipe s"
  "ch_written (snd (ProcessConnection os s)) = ch_written s"
  "ch_overflow (snd (ProcessConnection os s)) = ch_overflow s"
  "ch_validate_client (snd (ProcessConnection os s)) = ch_validate_client s"
  "ch_client_secret (snd (ProcessConnection os s)) = ch_client_secret s"
  "ch_user (snd (ProcessConnection os s)) = ch_user s"
  by (simp_all add: ProcessConnection_def Let_def split: prod.splits)

lemma ProcessOutgoing_keeps:
  "ch_pipe (snd (ProcessOutgoingMessages os context n s)) = ch_pipe s"
  "ch_overflow (snd (ProcessOutgoingMessages os context n s)) = ch_overflow s"
  "ch_validate_client (snd (ProcessOutgoingMessages os context n s)) = ch_validate_client s"
  "ch_client_secret (snd (ProcessOutgoingMessages os context n s)) = ch_client_secret s"
  "ch_user (snd (ProcessOutgoingMessages os context n s)) = ch_user s"
  by (simp_all add: ProcessOutgoingMessages_def Let_def split: prod.splits list.splits)

text \<open>The reading half, with the request for more data written out.\<close>

lemma ProcessIncoming_win:
  "(case ProcessIncomingMessages (win_ops os lst close) ia oa 1 (ch_overflow s) s of
      None \<Rightarrow> (True, s) | Some r \<Rightarrow> store_input r) =
   (fst (Win_ReadData os s) \<noteq> READ_FAILED, snd (snd (Win_ReadData os s)))"
  by (auto simp: win_ops_def store_input_def Win_ReadData_def Let_def split: prod.splits)

lemma read_half_cases:
  "snd (read_half close os lst ia oa n data s) = (let t = s\<lparr>ch_input_pending := False\<rparr> in
     if ch_input_pending s \<and> n = 0 then t
     else if ch_input_pending s \<and> ch_pipe s \<noteq> None then
       (case DispatchInputData (win_ops os lst close) ia oa data (ch_overflow s) t of
          (ok, ov, w) \<Rightarrow>
            if ok then snd (snd (Win_ReadData os (w\<lparr>ch_overflow := ov\<rparr>))) else w\<lparr>ch_overflow := ov\<rparr>)
     else snd (snd (Win_ReadData os t)))"
proof -
  have id: "s\<lparr>ch_input_pending := False\<rparr> = s" if "\<not> ch_input_pending s" using that by simp
  obtain ok ov w where D: "DispatchInputData (win_ops os lst close) ia oa data (ch_overflow s)
      (s\<lparr>ch_input_pending := False\<rparr>) = (ok, ov, w)" by (rule prod_cases3)
  show ?thesis unfolding read_half_def ProcessIncoming_win
    by (cases "ch_input_pending s"; cases "ch_pipe s = None"; cases "n = 0"; cases ok)
      (simp_all add: Let_def id AsyncReadComplete_def D store_input_def)
qed

lemma Win_ReadData_keeps:
  "ch_output_pending (snd (snd (Win_ReadData os s))) = ch_output_pending s"
  "ch_queue (snd (snd (Win_ReadData os s))) = ch_queue s"
  "ch_pipe (snd (snd (Win_ReadData os s))) = ch_pipe s"
  "ch_written (snd (snd (Win_ReadData os s))) = ch_written s"
  "ch_validate_client (snd (snd (Win_ReadData os s))) = ch_validate_client s"
  "ch_client_secret (snd (snd (Win_ReadData os s))) = ch_client_secret s"
  "ch_user (snd (snd (Win_ReadData os s))) = ch_user s"
  by (simp_all add: Win_ReadData_def Let_def split: prod.splits)

text \<open>What the pieces of the subclass keep, the completion of a read keeps.\<close>

lemma read_half_keeps:
  assumes "P s"
    and eq: "\<And>s t. P s \<Longrightarrow> ch_output_pending t = ch_output_pending s \<Longrightarrow> ch_queue t = ch_queue s \<Longrightarrow>
      ch_pipe t = ch_pipe s \<Longrightarrow> ch_written t = ch_written s \<Longrightarrow>
      ch_validate_client t = ch_validate_client s \<Longrightarrow> ch_client_secret t = ch_client_secret s \<Longrightarrow>
      ch_user t = ch_user s \<Longrightarrow> P t"
    and deliver: "\<And>m s. P s \<Longrightarrow> WillDispatchInputMessage m s \<Longrightarrow>
      P (deliver (win_ops os lst close) m s)"
  shows "P (snd (read_half close os lst ia oa n data s))"
proof -
  let ?t = "s\<lparr>ch_input_pending := False\<rparr>"
  have t: "P ?t" by (rule eq [OF assms(1)]) simp_all
  have r: "P w \<Longrightarrow> P (snd (snd (Win_ReadData os w)))" for w
    by (erule eq) (simp_all add: Win_ReadData_keeps)
  obtain ok ov w where D: "DispatchInputData (win_ops os lst close) ia oa data (ch_overflow s) ?t =
      (ok, ov, w)" by (rule prod_cases3)
  have "P (snd (snd (DispatchInputData (win_ops os lst close) ia oa data (ch_overflow s) ?t)))"
    by (rule DispatchInputData_keeps [OF deliver t]) (simp_all add: win_ops_def)
  then have "P w" by (simp add: D)
  then have w: "P (w\<lparr>ch_overflow := ov\<rparr>)" by (rule eq) simp_all
  show ?thesis using t r [OF t] w r [OF w] by (simp add: read_half_cases D Let_def)
qed

lemma quiet_handlers:
  assumes "quiet lst"
  shows "\<exists>u. OnMessageReceived lst m s = s\<lparr>ch_user := u\<rparr>"
    "\<exists>u. OnChannelConnected lst p s = s\<lparr>ch_user := u\<rparr>"
    "\<exists>u. OnChannelError lst s = s\<lparr>ch_user := u\<rparr>"
  using assms by (auto simp: quiet_def)

lemma out_inv_user: "out_inv xs s \<Longrightarrow> out_inv xs (s\<lparr>ch_user := u\<rparr>)"
  by (erule out_inv_eq) simp_all

lemma out_inv_error:
  assumes "quiet lst" "out_inv xs s"
  shows "out_inv xs (OnChannelError lst (Channel_Close os lst ia oa s))"
  using quiet_handlers(3) [OF assms(1), of "Channel_Close os lst ia oa s"] out_inv_closed [OF assms(2)]
  by (auto intro!: out_inv_user)

lemma out_inv_deliver:
  assumes "quiet lst" "out_inv xs s"
  shows "out_inv xs (deliver (win_ops os lst (Channel_Close os lst ia oa)) m s)"
proof (cases "IsHelloMessage m")
  case False
  then show ?thesis using quiet_handlers(1) [OF assms(1), of m s] assms(2)
    by (auto simp: deliver_def win_ops_def intro!: out_inv_user)
next
  case True
  have C: "out_inv xs (OnChannelConnected lst pid (s\<lparr>ch_peer_pid := pid, ch_validate_client := False\<rparr>))"
    for pid
  proof -
    have "out_inv xs (s\<lparr>ch_peer_pid := pid, ch_validate_client := False\<rparr>)"
      by (rule out_inv_eq [OF assms(2)]) simp_all
    then show ?thesis
      using quiet_handlers(2) [OF assms(1), of pid "s\<lparr>ch_peer_pid := pid, ch_validate_client := False\<rparr>"]
      by (auto intro!: out_inv_user)
  qed
  show ?thesis using True C out_inv_error [OF assms] assms(2)
    by (simp add: deliver_def win_ops_def HandleHelloMessage_def Let_def split: option.splits prod.splits)
qed

lemma out_inv_finish:
  assumes "quiet lst" "out_inv xs s"
  shows "out_inv xs (finish_io (Channel_Close os lst ia oa) lst ok s)"
  using out_inv_error [OF assms] assms(2) by (simp add: finish_io_def)

lemma out_inv_connect:
  assumes "out_inv xs s" shows "out_inv xs (snd (connect_half os s))"
proof -
  have p: "out_inv xs (snd (ProcessConnection os s))"
    by (rule out_inv_eq [OF assms]) (simp_all add: ProcessConnection_keeps)
  show ?thesis using p assms out_inv_outgoing [OF p]
    by (auto simp: connect_half_def Let_def split: prod.splits)
qed

lemma out_inv_io:
  assumes q: "quiet lst" and i: "out_inv xs s"
  shows "out_inv xs (OnIOCompleted os lst ia oa is_input data n s)"
proof (cases is_input)
  case True
  let ?c = "Channel_Close os lst ia oa"
  define s1 where "s1 = snd (connect_half os s)"
  have s1: "out_inv xs s1" using out_inv_connect [OF i] by (simp add: s1_def)
  let ?p = "s1\<lparr>ch_processing_incoming := True\<rparr>"
  have "out_inv xs ?p" by (rule out_inv_eq [OF s1]) simp_all
  then have r: "out_inv xs (snd (read_half ?c os lst ia oa n data ?p))"
    by (rule read_half_keeps) (auto intro: out_inv_eq out_inv_deliver [OF q])
  have "out_inv xs ((snd (read_half ?c os lst ia oa n data ?p))
      \<lparr>ch_processing_incoming := ch_processing_incoming s1\<rparr>)"
    by (rule out_inv_eq [OF r]) simp_all
  from out_inv_finish [OF q this] s1 show ?thesis using True
    by (auto simp: OnIOCompleted_def OnIOCompleted_with_def s1_def split: prod.splits)
next
  case False
  have *: "OnIOCompleted os lst ia oa is_input data n s =
      finish_io (Channel_Close os lst ia oa) lst (fst (ProcessOutgoingMessages os True n s))
        (snd (ProcessOutgoingMessages os True n s))"
    using False by (simp add: OnIOCompleted_def OnIOCompleted_with_def split: prod.splits)
  show ?thesis
  proof (cases "ch_output_pending s \<and> n = 0")
    case True
    then have e: "ProcessOutgoingMessages os True n s = (False, s\<lparr>ch_output_pending := False\<rparr>)"
      by (simp add: ProcessOutgoingMessages_def)
    have p: "ch_pipe s \<noteq> None" using i True by (cases "ch_pipe s = None") (simp_all add: out_inv_def)
    have "Channel_Close os lst ia oa (s\<lparr>ch_output_pending := False\<rparr>) = Channel_Close os lst ia oa s"
      by (simp add: Close_eq)
    then show ?thesis using out_inv_error [OF assms] p by (simp add: * e finish_io_def)
  next
    case False
    then have "out_inv xs (snd (ProcessOutgoingMessages os True n s))"
      using out_inv_outgoing [OF i] out_inv_written [OF i] by blast
    from out_inv_finish [OF q this] show ?thesis by (simp add: *)
  qed
qed

lemma out_inv_Connect:
  assumes "out_inv xs s" "\<not> ch_output_pending s"
  shows "out_inv xs (snd (snd (Channel_Connect os s)))"
proof -
  let ?s = "s\<lparr>ch_thread_check := True\<rparr>"
  define s2 where "s2 = (if ch_waiting_connect ?s then snd (ProcessConnection os ?s) else ?s)"
  have "out_inv xs s2"
    by (rule out_inv_eq [OF assms(1)]) (simp_all add: s2_def ProcessConnection_keeps)
  moreover have "\<not> ch_output_pending s2" using assms(2) by (simp add: s2_def ProcessConnection_keeps)
  moreover have "out_inv xs ?s" by (rule out_inv_eq [OF assms(1)]) simp_all
  ultimately show ?thesis using out_inv_outgoing [of xs s2]
    unfolding Channel_Connect_def Let_def s2_def [symmetric] by simp
qed

lemma out_inv_step:
  assumes "chan_step os lst ia oa s xs t" "quiet lst" "out_inv ms s"
  shows "out_inv (ms @ xs) t"
  using assms(1)
proof (cases rule: chan_step.cases)
  case (send m)
  then show ?thesis using out_inv_send [OF assms(3)] by simp
next
  case (io is_input data n)
  then show ?thesis using out_inv_io [OF assms(2,3)] by simp
next
  case connect
  then show ?thesis using out_inv_Connect [OF assms(3)] by simp
next
  case close
  then show ?thesis using out_inv_closed [OF assms(3)] by simp
qed

lemma out_inv_run:
  assumes "chan_run os lst ia oa s xs t" "quiet lst" "out_inv ms s"
  shows "out_inv (ms @ xs) t"
  using assms
proof (induction rule: chan_run.induct)
  case (step s xs t ys u)
  then show ?case using out_inv_step [OF step.hyps(2)] by (metis append.assoc)
qed simp


text \<open>C5: the pipe receives the messages in the order in which they were sent.  In every run of a
  channel (sends, completions of reads and writes that succeed or fail, the connection, closing) with a
  listener that does not call back into it, the messages handed to \<open>WriteFile\<close> are a prefix of the
  messages accepted by \<open>Send\<close> (after those queued before, the hello); while the pipe is open none is
  lost: the rest is in the queue, and the head of the queue is the message in flight.\<close>

theorem output_in_order:
  assumes "chan_run os lst ia oa s ms t" "quiet lst" "ch_written s = []" "\<not> ch_output_pending s"
  shows "(\<exists>rest. ch_queue s @ ms = ch_written t @ rest \<and>
            (ch_pipe t \<noteq> None \<longrightarrow>
               rest = (if ch_output_pending t then tl (ch_queue t) else ch_queue t))) \<and>
    (ch_output_pending t \<longrightarrow> ch_written t \<noteq> [] \<and> ch_queue t \<noteq> [] \<and> last (ch_written t) = hd (ch_queue t))"
proof -
  have "out_inv (ch_queue s) s" using assms(3,4) by (simp add: out_inv_def)
  from out_inv_run [OF assms(1,2) this] show ?thesis by (auto simp: out_inv_def split: if_splits)
qed

lemma output_in_order_witness:
  "\<exists>m. ch_written (snd (Channel_Send easy_os m (open_channel 1))) = [m]"
proof -
  obtain m where "msg_inv m" using fresh_message by blast
  let ?t = "snd (Channel_Send easy_os m (open_channel 1))"
  have r: "chan_run easy_os error_counter 0 0 (open_channel 1) ([] @ [m]) ?t"
    by (rule chan_run.step [OF chan_run.start chan_step.send])
  have "quiet error_counter" by (auto simp: quiet_def error_counter_def)
  from output_in_order [OF r this] obtain rest where "m # [] = ch_written ?t @ rest"
    by (auto simp: open_channel_def)
  moreover have "ch_written ?t \<noteq> []"
    by (simp add: Channel_Send_def ProcessOutgoingMessages_def open_channel_def easy_os_def Let_def)
  ultimately have "ch_written ?t = [m]" by (auto simp: Cons_eq_append_conv)
  then show ?thesis by blast
qed


section \<open>The validation of the client\<close>

lemma win_reader:
  assumes "unat ia + kReadBufferSize + 16 < 2 ^ 32" "unat oa + kMaximumMessageSize + 16 < 2 ^ 32"
  shows "channel_reader (win_ops os lst close) ia oa"
  using assms by unfold_locales (simp_all add: win_ops_def DidEmptyInputBuffers_def)

text \<open>The reader with its two buffers at fixed addresses.\<close>

interpretation win: channel_reader "win_ops os lst close" "0x10000" "0x20000" for os lst close
  by (rule win_reader) (simp_all add: kReadBufferSize_def kMaximumMessageSize_def)

definition good_hello :: "i32 \<Rightarrow> message \<Rightarrow> bool" where
  "good_hello secret m \<longleftrightarrow> IsHelloMessage m \<and>
     (case PickleIterator m of
        None \<Rightarrow> False
      | Some it \<Rightarrow> fst (ReadInt it) \<noteq> None \<and> fst (ReadInt (snd (ReadInt it))) = Some secret)"

definition keeps_validation :: "('u channel \<Rightarrow> 'u channel) \<Rightarrow> bool" where
  "keeps_validation h \<longleftrightarrow> (\<forall>s. ch_validate_client (h s) = ch_validate_client s \<and>
     ch_client_secret (h s) = ch_client_secret s)"

lemma keeps_validationD:
  assumes "keeps_validation h"
  shows "ch_validate_client (h s) = ch_validate_client s" "ch_client_secret (h s) = ch_client_secret s"
  using assms by (simp_all add: keeps_validation_def)

lemma keeps_validation_Close: "keeps_validation (Channel_Close os lst ia oa)"
  by (simp add: keeps_validation_def Close_eq)

lemma bad_hello:
  assumes "ch_validate_client s" "\<not> good_hello (ch_client_secret s) m" "IsHelloMessage m"
  shows "HandleHelloMessage close lst m s = (if PickleIterator m = None then s else OnChannelError lst (close s))"
  using assms by (auto simp: HandleHelloMessage_def good_hello_def Let_def split: option.splits prod.splits)

text \<open>While no hello with the secret has come, the other two callbacks of the listener do not matter.\<close>

lemma unvalidated_all:
  assumes "\<forall>m\<in>set ms. \<not> good_hello (ch_client_secret s) m" "ch_validate_client s"
    and "keeps_validation (OnChannelError lst)" "keeps_validation close"
    and "OnChannelError lst' = OnChannelError lst"
  shows "handle_all (win_ops os lst' close) ms s = handle_all (win_ops os lst close) ms s \<and>
    ch_validate_client (snd (handle_all (win_ops os lst close) ms s))"
  using assms(1,2)
proof (induction ms arbitrary: s)
  case (Cons m ms)
  show ?case
  proof (cases "IsHelloMessage m")
    case False
    then show ?thesis using Cons.prems by (simp add: win_ops_def WillDispatchInputMessage_def)
  next
    case True
    define t where "t = (if PickleIterator m = None then s else OnChannelError lst (close s))"
    have g: "\<not> good_hello (ch_client_secret s) m" using Cons.prems(1) by simp
    note d = bad_hello [OF Cons.prems(2) g True]
    have "ch_client_secret t = ch_client_secret s" "ch_validate_client t = ch_validate_client s"
      using keeps_validationD [OF assms(3)] keeps_validationD [OF assms(4)] by (simp_all add: t_def)
    then have "handle_all (win_ops os lst' close) ms t = handle_all (win_ops os lst close) ms t \<and>
        ch_validate_client (snd (handle_all (win_ops os lst close) ms t))"
      using Cons.prems by (intro Cons.IH) simp_all
    moreover have "deliver (win_ops os l close) m s = t" if "OnChannelError l = OnChannelError lst" for l
      using True d [of close l] that by (simp add: deliver_def win_ops_def t_def)
    moreover have "WillDispatch (win_ops os l close) m s" for l
      using True by (simp add: win_ops_def WillDispatchInputMessage_def)
    ultimately show ?thesis using assms(5) by simp
  qed
qed simp


lemma unvalidated_dispatch:
  assumes r: "\<And>l. channel_reader (win_ops os l close) ia oa" and d: "length data \<le> kReadBufferSize"
    and a: "\<forall>m\<in>set (fst (frames (ov @ data))). \<not> good_hello (ch_client_secret s) m"
      "ch_validate_client s" "keeps_validation (OnChannelError lst)" "keeps_validation close"
      "OnChannelError lst' = OnChannelError lst"
  shows "DispatchInputData (win_ops os lst' close) ia oa data ov s =
      DispatchInputData (win_ops os lst close) ia oa data ov s"
    "ch_validate_client (snd (snd (DispatchInputData (win_ops os lst close) ia oa data ov s)))"
proof -
  note u = unvalidated_all [OF a, of os]
  show "DispatchInputData (win_ops os lst' close) ia oa data ov s =
      DispatchInputData (win_ops os lst close) ia oa data ov s"
    unfolding channel_reader.dispatch_exact [OF r d] conjunct1 [OF u] ..
  show "ch_validate_client (snd (snd (DispatchInputData (win_ops os lst close) ia oa data ov s)))"
    using conjunct2 [OF u] a(2) unfolding channel_reader.dispatch_exact [OF r d]
    by (cases "handle_all (win_ops os lst close) (fst (frames (ov @ data))) s") simp
qed

lemma unvalidated_read:
  assumes "\<And>l. channel_reader (win_ops os l close) ia oa" "length data \<le> kReadBufferSize"
      "\<forall>m\<in>set (fst (frames (ch_overflow s @ data))). \<not> good_hello (ch_client_secret s) m"
      "ch_validate_client s" "keeps_validation (OnChannelError lst)" "keeps_validation close"
      "OnChannelError lst' = OnChannelError lst"
  shows "read_half close os lst' ia oa n data s = read_half close os lst ia oa n data s"
    "ch_validate_client (snd (read_half close os lst ia oa n data s))"
proof -
  have d: "DispatchInputData (win_ops os lst' close) ia oa data (ch_overflow s) (s\<lparr>ch_input_pending := False\<rparr>) =
      DispatchInputData (win_ops os lst close) ia oa data (ch_overflow s) (s\<lparr>ch_input_pending := False\<rparr>)"
    "ch_validate_client (snd (snd (DispatchInputData (win_ops os lst close) ia oa data (ch_overflow s)
       (s\<lparr>ch_input_pending := False\<rparr>))))"
    using assms(3,4) by (intro unvalidated_dispatch assms; simp)+
  show "read_half close os lst' ia oa n data s = read_half close os lst ia oa n data s"
    unfolding read_half_def ProcessIncoming_win by (simp add: AsyncReadComplete_def d(1) Let_def)
  show "ch_validate_client (snd (read_half close os lst ia oa n data s))"
    using d(2) assms(4)
    by (cases "DispatchInputData (win_ops os lst close) ia oa data (ch_overflow s)
          (s\<lparr>ch_input_pending := False\<rparr>)") (simp add: read_half_cases Let_def Win_ReadData_keeps)
qed

lemma connect_half_keeps:
  "ch_overflow (snd (connect_half os s)) = ch_overflow s"
  "ch_validate_client (snd (connect_half os s)) = ch_validate_client s"
  "ch_client_secret (snd (connect_half os s)) = ch_client_secret s"
  using ProcessConnection_keeps [of os s]
  by (cases "ProcessConnection os s"; simp add: connect_half_def Let_def ProcessOutgoing_keeps)+

text \<open>C3: authentication of the client.  While the server waits for the hello of a client and none of
  the frames received so far is a hello with its secret, a completed read behaves the same whatever the
  listener does on a message or on a connection, that is neither is ever called, whatever bytes the
  peer sent; and the server goes on waiting.\<close>

theorem unauthenticated_input:
  assumes "unat ia + kReadBufferSize + 16 < 2 ^ 32" "unat oa + kMaximumMessageSize + 16 < 2 ^ 32"
    and "length data \<le> kReadBufferSize" "ch_validate_client s" "keeps_validation (OnChannelError lst)"
    and "\<forall>m\<in>set (fst (frames (ch_overflow s @ data))). \<not> good_hello (ch_client_secret s) m"
  shows "OnIOCompleted os (lst\<lparr>OnMessageReceived := f, OnChannelConnected := g\<rparr>) ia oa True data n s =
      OnIOCompleted os lst ia oa True data n s \<and>
    ch_validate_client (OnIOCompleted os lst ia oa True data n s)"
proof -
  let ?l = "lst\<lparr>OnMessageReceived := f, OnChannelConnected := g\<rparr>"
  let ?c = "Channel_Close os lst ia oa"
  have c: "Channel_Close os ?l ia oa = ?c" by (intro ext) (simp add: Close_eq)
  define s1 where "s1 = snd (connect_half os s)"
  let ?p = "s1\<lparr>ch_processing_incoming := True\<rparr>"
  have p: "ch_overflow ?p = ch_overflow s" "ch_validate_client ?p = ch_validate_client s"
    "ch_client_secret ?p = ch_client_secret s" by (simp_all add: s1_def connect_half_keeps)
  have e: "OnChannelError ?l = OnChannelError lst" by simp
  have r: "read_half ?c os ?l ia oa n data ?p = read_half ?c os lst ia oa n data ?p"
    "ch_validate_client (snd (read_half ?c os lst ia oa n data ?p))"
    using assms(3-6) p by (intro unvalidated_read win_reader assms keeps_validation_Close e; simp)+
  have fin: "finish_io ?c ?l ok t = finish_io ?c lst ok t"
    "ch_validate_client (finish_io ?c lst ok t) = ch_validate_client t" for ok t
    using keeps_validationD(1) [OF assms(5)] by (simp_all add: finish_io_def Close_eq)
  have v: "ch_validate_client s1" using assms(4) p(2) by simp
  have c2: "OnIOCompleted os l ia oa True data n s =
      (if fst (connect_half os s) then s1
       else finish_io (Channel_Close os l ia oa) l (fst (read_half (Channel_Close os l ia oa) os l ia oa n data ?p))
              ((snd (read_half (Channel_Close os l ia oa) os l ia oa n data ?p))
                 \<lparr>ch_processing_incoming := ch_processing_incoming s1\<rparr>))" for l
    by (simp add: OnIOCompleted_def OnIOCompleted_with_def s1_def split: prod.splits)
  show ?thesis using r(2) v fin by (simp add: c2 c r(1))
qed

text \<open>After a refused hello the loop goes on: a second hello in the same buffer that has the secret
  connects the channel that was just closed, after the error was reported.\<close>

lemma hello_retried:
  assumes "ch_validate_client s" "IsHelloMessage m1" "PickleIterator m1 \<noteq> None"
    "\<not> good_hello (ch_client_secret s) m1"
    "good_hello (ch_client_secret s) m2" "keeps_validation (OnChannelError lst)" "keeps_validation close"
  shows "\<exists>pid t. t = OnChannelError lst (close s) \<and>
    handle_all (win_ops os lst close) [m1, m2] s =
      (True, OnChannelConnected lst pid (t\<lparr>ch_peer_pid := pid, ch_validate_client := False\<rparr>))"
proof -
  define t where "t = OnChannelError lst (close s)"
  have k: "ch_validate_client t" "ch_client_secret t = ch_client_secret s"
    using keeps_validationD [OF assms(6)] keeps_validationD [OF assms(7)] assms(1) by (simp_all add: t_def)
  have d1: "deliver (win_ops os lst close) m1 s = t"
    using bad_hello [OF assms(1,4,2)] assms(2,3) by (simp add: deliver_def win_ops_def t_def)
  have h2: "IsHelloMessage m2" using assms(5) by (simp add: good_hello_def)
  have w: "WillDispatch (win_ops os lst close) m1 s" "WillDispatch (win_ops os lst close) m2 t"
    using assms(2) h2 by (simp_all add: win_ops_def WillDispatchInputMessage_def)
  obtain it pid where "PickleIterator m2 = Some it" "fst (ReadInt it) = Some pid"
    "fst (ReadInt (snd (ReadInt it))) = Some (ch_client_secret s)"
    using assms(5) by (auto simp: good_hello_def split: option.splits)
  then have "deliver (win_ops os lst close) m2 t =
      OnChannelConnected lst pid (t\<lparr>ch_peer_pid := pid, ch_validate_client := False\<rparr>)"
    using h2 k by (cases "ReadInt it") (simp add: deliver_def win_ops_def HandleHelloMessage_def Let_def)
  then show ?thesis using d1 w by (intro exI [of _ pid]) (simp add: t_def)
qed


text \<open>A client that does not know the secret: a frame with type 1 arrives at a server that waits for a
  hello.\<close>

lemma unauthenticated_input_witness:
  "\<exists>d. length d = 16 \<and> ch_validate_client
     (OnIOCompleted easy_os error_counter 0x10000 0x20000 True d 16 ((open_channel 7)\<lparr>ch_input_pending := True\<rparr>)) \<and>
     OnIOCompleted easy_os (error_counter\<lparr>OnMessageReceived := \<lambda>m s. s, OnChannelConnected := \<lambda>p s. s\<rparr>)
       0x10000 0x20000 True d 16 ((open_channel 7)\<lparr>ch_input_pending := True\<rparr>) =
     OnIOCompleted easy_os error_counter 0x10000 0x20000 True d 16 ((open_channel 7)\<lparr>ch_input_pending := True\<rparr>)"
proof -
  let ?s = "(open_channel 7)\<lparr>ch_input_pending := True\<rparr>"
  obtain m where m: "msg_inv m" "psize m = 0" "m_routing m = 9" "m_type m = 1"
    using fresh_message by blast
  have s: "16 + psize m < 2 ^ 31" using m(2) by simp
  then obtain d where d: "pickle_data m = Some d" using message_wire [OF m(1)] by blast
  note f = message_is_frame [OF m(1) s d]
  have l: "length d = 16" using f(2) m(2) by simp
  have "msg_type (frame_message d) = Some 1"
    using f(4) header_fields [OF msg_inv_ok [OF m(1)]] m(4) by simp
  then have "\<not> good_hello 7 (frame_message d)"
    by (simp add: good_hello_def IsHelloMessage_def HELLO_MESSAGE_TYPE_def)
  moreover have "fst (frames d) = [frame_message d]"
    using frames_concat [of "[d]"] f(1) by simp
  moreover have "keeps_validation (OnChannelError error_counter)"
    by (simp add: keeps_validation_def error_counter_def)
  ultimately show ?thesis
    using unauthenticated_input [where ia = "0x10000" and oa = "0x20000" and data = d and s = ?s and
        lst = error_counter and os = easy_os and f = "\<lambda>m s. s" and g = "\<lambda>p s. s" and n = 16] l
    by (intro exI [of _ d]) (simp add: open_channel_def kReadBufferSize_def kMaximumMessageSize_def)
qed

end
