(* ===== verification/ChannelProxy.thy ===== *)
theory ChannelProxy
  imports ChannelWin_Props
begin

text \<open>
  \<open>ipc/ipc_channel_proxy.{h,cc}\<close>: a channel that lives on the IPC thread and its proxy on the listener's
  thread.  The state is the \<open>channel\<close> of \<open>ChannelWin\<close> whose \<open>ch_user\<close> is the record \<open>proxy\<close> with the members of
  \<open>ChannelProxy::Context\<close>; while \<open>px_channel\<close> is false, \<open>channel_\<close> is null and the channel part means nothing.
  Posting a task appends it to the queue of its thread.  \<open>px_world\<close> is the state of the listener and the
  filters, which are given by the record \<open>proxy_env\<close>, with the system underneath.

  The virtual functions of \<open>Context\<close> are the record \<open>context_vt\<close>, so that \<open>SyncChannel\<close> can override
  them.  The message log of debug builds is not modelled.
\<close>

section \<open>Data\<close>

datatype ipc_task =
    TCreateChannel bytes "u32 option" u32
  | TOnChannelOpened
  | TOnChannelClosed
  | TOnSendMessage message
  | TOnAddFilter
  | TOnRemoveFilter nat
  | TOnSendTimeout i32
  | TDispatchReplies

datatype listener_task =
    TDispatchMessage message
  | TDispatchConnected
  | TDispatchError
  | TDispatchMessagesTask

record 'w proxy =
  px_listener :: bool
  px_runner :: bool
  px_filters :: "nat list"
  px_pending_filters :: "nat list"
  px_channel :: bool
  px_channel_id :: bytes
  px_connected_called :: bool
  px_peer_pid :: i32
  px_refs :: int
  px_seq :: u32
  px_ipc :: "ipc_task list"
  px_tasks :: "listener_task list"
  px_world :: 'w

type_synonym 'w px = "'w proxy channel"

record 'w mfilter =
  FilterAdded :: "'w px \<Rightarrow> 'w px"
  FilterRemoved :: "'w px \<Rightarrow> 'w px"
  FilterConnected :: "i32 \<Rightarrow> 'w px \<Rightarrow> 'w px"
  FilterError :: "'w px \<Rightarrow> 'w px"
  FilterClosing :: "'w px \<Rightarrow> 'w px"
  FilterMessage :: "message \<Rightarrow> 'w px \<Rightarrow> bool \<times> 'w px"

record 'w proxy_env =
  pe_filter :: "nat \<Rightarrow> 'w mfilter"
  pe_message :: "message \<Rightarrow> 'w px \<Rightarrow> 'w px"
  pe_connected :: "i32 \<Rightarrow> 'w px \<Rightarrow> 'w px"
  pe_error :: "'w px \<Rightarrow> 'w px"
  pe_rewrite :: "message \<Rightarrow> message"
  pe_os :: "'w proxy os_calls"
  pe_realloc :: realloc_fn
  pe_process_id :: "u32 option"
  pe_sys :: pipe_calls
  pe_input_addr :: u32
  pe_overflow_addr :: u32

record 'w context_vt =
  vt_OnMessageReceived :: "message \<Rightarrow> 'w px \<Rightarrow> 'w px"
  vt_OnChannelError :: "'w px \<Rightarrow> 'w px"
  vt_OnChannelOpened :: "'w px \<Rightarrow> 'w px"
  vt_OnChannelClosed :: "'w px \<Rightarrow> 'w px"
  vt_Clear :: "'w px \<Rightarrow> 'w px"

definition MessageFilter_default :: "'w mfilter" where
  "MessageFilter_default =
     \<lparr>FilterAdded = id, FilterRemoved = id, FilterConnected = (\<lambda>_. id), FilterError = id,
      FilterClosing = id, FilterMessage = (\<lambda>_ s. (False, s))\<rparr>"

definition on_px :: "('w proxy \<Rightarrow> 'w proxy) \<Rightarrow> 'w px \<Rightarrow> 'w px" where
  "on_px f s = s\<lparr>ch_user := f (ch_user s)\<rparr>"

definition post_ipc :: "ipc_task \<Rightarrow> 'w px \<Rightarrow> 'w px" where
  "post_ipc t = on_px (\<lambda>p. p\<lparr>px_ipc := px_ipc p @ [t]\<rparr>)"

definition post_listener :: "listener_task \<Rightarrow> 'w px \<Rightarrow> 'w px" where
  "post_listener t = on_px (\<lambda>p. p\<lparr>px_tasks := px_tasks p @ [t]\<rparr>)"

definition for_filters :: "('w mfilter \<Rightarrow> 'w px \<Rightarrow> 'w px) \<Rightarrow> 'w proxy_env \<Rightarrow> 'w px \<Rightarrow> 'w px" where
  "for_filters h env s = fold (\<lambda>f. h (pe_filter env f)) (px_filters (ch_user s)) s"

section \<open>The context on the IPC thread\<close>

fun try_filters :: "'w proxy_env \<Rightarrow> nat list \<Rightarrow> message \<Rightarrow> 'w px \<Rightarrow> bool \<times> 'w px" where
  "try_filters env [] m s = (False, s)"
| "try_filters env (f # fs) m s =
     (let (handled, s') = FilterMessage (pe_filter env f) m s
      in if handled then (True, s') else try_filters env fs m s')"

definition TryFilters :: "'w proxy_env \<Rightarrow> message \<Rightarrow> 'w px \<Rightarrow> bool \<times> 'w px" where
  "TryFilters env m s = try_filters env (px_filters (ch_user s)) m s"

definition OnMessageReceivedNoFilter :: "message \<Rightarrow> 'w px \<Rightarrow> 'w px" where
  "OnMessageReceivedNoFilter m s = post_listener (TDispatchMessage m) s"

definition Context_OnMessageReceived :: "'w proxy_env \<Rightarrow> message \<Rightarrow> 'w px \<Rightarrow> 'w px" where
  "Context_OnMessageReceived env m s =
     (let (handled, s') = TryFilters env m s
      in if \<not> handled then OnMessageReceivedNoFilter m s' else s')"

definition add_filter :: "'w proxy_env \<Rightarrow> nat \<Rightarrow> 'w px \<Rightarrow> 'w px" where
  "add_filter env f s =
     (let s1 = on_px (\<lambda>p. p\<lparr>px_filters := px_filters p @ [f]\<rparr>) s;
          s2 = (if px_channel (ch_user s1) then FilterAdded (pe_filter env f) s1 else s1)
      in if px_peer_pid (ch_user s2) \<noteq> 0
         then FilterConnected (pe_filter env f) (px_peer_pid (ch_user s2)) s2 else s2)"

definition OnAddFilter :: "'w proxy_env \<Rightarrow> 'w px \<Rightarrow> 'w px" where
  "OnAddFilter env s =
     fold (add_filter env) (px_pending_filters (ch_user s)) (on_px (\<lambda>p. p\<lparr>px_pending_filters := []\<rparr>) s)"

definition Context_OnChannelConnected :: "'w proxy_env \<Rightarrow> i32 \<Rightarrow> 'w px \<Rightarrow> 'w px" where
  "Context_OnChannelConnected env peer_pid s =
     (let s1 = OnAddFilter env s;
          s2 = on_px (\<lambda>p. p\<lparr>px_peer_pid := ch_peer_pid s1\<rparr>) s1;
          s3 = for_filters (\<lambda>f. FilterConnected f peer_pid) env s2
      in post_listener TDispatchConnected s3)"

definition Context_OnChannelError :: "'w proxy_env \<Rightarrow> 'w px \<Rightarrow> 'w px" where
  "Context_OnChannelError env s = post_listener TDispatchError (for_filters FilterError env s)"

text \<open>The context is the listener of its channel.\<close>

definition context_listener :: "'w proxy_env \<Rightarrow> 'w context_vt \<Rightarrow> 'w proxy listener" where
  "context_listener env vt =
     \<lparr>OnMessageReceived = vt_OnMessageReceived vt, OnChannelConnected = Context_OnChannelConnected env,
      OnChannelError = vt_OnChannelError vt\<rparr>"

definition CreateChannel :: "'w proxy_env \<Rightarrow> bytes \<Rightarrow> u32 option \<Rightarrow> u32 \<Rightarrow> 'w px \<Rightarrow> 'w px" where
  "CreateChannel env name handle mode s =
     (case ChannelImpl_new (pe_realloc env) (pe_process_id env) (pe_sys env) name handle mode
             (px_seq (ch_user s)) (ch_user s) of
        None \<Rightarrow> s
      | Some (c, g) \<Rightarrow> on_px (\<lambda>p. p\<lparr>px_channel_id := name, px_channel := True, px_seq := g\<rparr>) c)"

definition Context_OnChannelOpened :: "'w proxy_env \<Rightarrow> 'w context_vt \<Rightarrow> 'w px \<Rightarrow> 'w px" where
  "Context_OnChannelOpened env vt s =
     (let s1 = on_px (\<lambda>p. p\<lparr>px_refs := px_refs p + 1\<rparr>) s;
          (ok, posted, s2) = Channel_Connect (pe_os env) s1
      in if \<not> ok then vt_OnChannelError vt s2 else for_filters FilterAdded env s2)"

definition reset_channel :: "'w proxy_env \<Rightarrow> 'w context_vt \<Rightarrow> 'w px \<Rightarrow> 'w px" where
  "reset_channel env vt s =
     on_px (\<lambda>p. p\<lparr>px_channel := False\<rparr>)
       (Channel_Close (pe_os env) (context_listener env vt) (pe_input_addr env) (pe_overflow_addr env) s)"

definition Context_OnChannelClosed :: "'w proxy_env \<Rightarrow> 'w context_vt \<Rightarrow> 'w px \<Rightarrow> 'w px" where
  "Context_OnChannelClosed env vt s =
     (if \<not> px_channel (ch_user s) then s
      else
        let s1 = for_filters (\<lambda>f t. FilterRemoved f (FilterClosing f t)) env s;
            s2 = on_px (\<lambda>p. p\<lparr>px_filters := []\<rparr>) s1;
            s3 = reset_channel env vt s2
        in on_px (\<lambda>p. p\<lparr>px_refs := px_refs p - 1\<rparr>) s3)"

definition Context_Clear :: "'w px \<Rightarrow> 'w px" where
  "Context_Clear = on_px (\<lambda>p. p\<lparr>px_listener := False\<rparr>)"

definition OnSendMessage :: "'w proxy_env \<Rightarrow> 'w context_vt \<Rightarrow> message \<Rightarrow> 'w px \<Rightarrow> 'w px" where
  "OnSendMessage env vt m s =
     (if \<not> px_channel (ch_user s) then vt_OnChannelClosed vt s
      else let (ok, s') = Channel_Send (pe_os env) m s
           in if \<not> ok then vt_OnChannelError vt s' else s')"

definition OnRemoveFilter :: "'w proxy_env \<Rightarrow> nat \<Rightarrow> 'w px \<Rightarrow> 'w px" where
  "OnRemoveFilter env f s =
     (if f \<in> set (px_filters (ch_user s))
      then on_px (\<lambda>p. p\<lparr>px_filters := remove1 f (px_filters p)\<rparr>) (FilterRemoved (pe_filter env f) s)
      else s)"

section \<open>The context on the listener's thread\<close>

definition OnDispatchConnected :: "'w proxy_env \<Rightarrow> 'w px \<Rightarrow> 'w px" where
  "OnDispatchConnected env s =
     (if px_connected_called (ch_user s) then s
      else let s1 = on_px (\<lambda>p. p\<lparr>px_connected_called := True\<rparr>) s
           in if px_listener (ch_user s1) then pe_connected env (px_peer_pid (ch_user s1)) s1 else s1)"

text \<open>\<open>None\<close> is the call through the null \<open>listener_\<close>: \<open>OnChannelConnected\<close> may have closed the proxy.\<close>

definition OnDispatchMessage :: "'w proxy_env \<Rightarrow> message \<Rightarrow> 'w px \<Rightarrow> 'w px option" where
  "OnDispatchMessage env m s =
     (if \<not> px_listener (ch_user s) then Some s
      else let s1 = OnDispatchConnected env s
           in if px_listener (ch_user s1) then Some (pe_message env m s1) else None)"

definition OnDispatchError :: "'w proxy_env \<Rightarrow> 'w px \<Rightarrow> 'w px" where
  "OnDispatchError env s = (if px_listener (ch_user s) then pe_error env s else s)"

definition Context_AddFilter :: "nat \<Rightarrow> 'w px \<Rightarrow> 'w px" where
  "Context_AddFilter f s =
     post_ipc TOnAddFilter (on_px (\<lambda>p. p\<lparr>px_pending_filters := px_pending_filters p @ [f]\<rparr>) s)"

section \<open>The proxy\<close>

definition Context_new :: "u32 \<Rightarrow> 'w \<Rightarrow> 'w proxy" where
  "Context_new g w =
     \<lparr>px_listener = True, px_runner = True, px_filters = [], px_pending_filters = [],
      px_channel = False, px_channel_id = [], px_connected_called = False, px_peer_pid = 0,
      px_refs = 0, px_seq = g, px_ipc = [], px_tasks = [], px_world = w\<rparr>"

definition ChannelProxy_Init ::
    "'w proxy_env \<Rightarrow> bytes \<Rightarrow> u32 option \<Rightarrow> u32 \<Rightarrow> bool \<Rightarrow> 'w px \<Rightarrow> 'w px" where
  "ChannelProxy_Init env name handle mode create_pipe_now s =
     post_ipc TOnChannelOpened
       (if create_pipe_now then CreateChannel env name handle mode s
        else post_ipc (TCreateChannel name handle mode) s)"

definition ChannelProxy_Close :: "'w context_vt \<Rightarrow> 'w px \<Rightarrow> 'w px" where
  "ChannelProxy_Close vt s =
     (let s1 = vt_Clear vt s
      in if px_runner (ch_user s1) then post_ipc TOnChannelClosed s1 else s1)"

text \<open>The outgoing filter is the function \<open>pe_rewrite\<close> (the identity when there is none).\<close>

definition ChannelProxy_Send :: "'w proxy_env \<Rightarrow> message \<Rightarrow> 'w px \<Rightarrow> bool \<times> 'w px" where
  "ChannelProxy_Send env m s = (True, post_ipc (TOnSendMessage (pe_rewrite env m)) s)"

definition ChannelProxy_AddFilter :: "nat \<Rightarrow> 'w px \<Rightarrow> 'w px" where
  "ChannelProxy_AddFilter f s = Context_AddFilter f s"

definition ChannelProxy_RemoveFilter :: "nat \<Rightarrow> 'w px \<Rightarrow> 'w px" where
  "ChannelProxy_RemoveFilter f s = post_ipc (TOnRemoveFilter f) s"

definition ClearIPCTaskRunner :: "'w px \<Rightarrow> 'w px" where
  "ClearIPCTaskRunner = on_px (\<lambda>p. p\<lparr>px_runner := False\<rparr>)"

definition Context_vt_self :: "'w proxy_env \<Rightarrow> 'w context_vt \<Rightarrow> 'w context_vt" where
  "Context_vt_self env vt =
     \<lparr>vt_OnMessageReceived = Context_OnMessageReceived env,
      vt_OnChannelError = Context_OnChannelError env,
      vt_OnChannelOpened = Context_OnChannelOpened env vt,
      vt_OnChannelClosed = Context_OnChannelClosed env vt,
      vt_Clear = Context_Clear\<rparr>"

text \<open>\<open>Context\<close> itself: \<open>OnChannelOpened\<close> calls the virtual \<open>OnChannelError\<close>, which is its own.  (The
  channel is closed without calling its listener, \<open>Close_eq\<close>, so the table there is not used.)\<close>

definition Context_vt :: "'w proxy_env \<Rightarrow> 'w context_vt" where
  "Context_vt env =
     (let vt0 = \<lparr>vt_OnMessageReceived = Context_OnMessageReceived env,
                 vt_OnChannelError = Context_OnChannelError env, vt_OnChannelOpened = id,
                 vt_OnChannelClosed = id, vt_Clear = Context_Clear\<rparr>
      in Context_vt_self env vt0)"

text \<open>Running the first task of a thread.\<close>

definition run_ipc_task :: "'w proxy_env \<Rightarrow> 'w context_vt \<Rightarrow> ipc_task \<Rightarrow> 'w px \<Rightarrow> 'w px" where
  "run_ipc_task env vt t s =
     (case t of
        TCreateChannel name handle mode \<Rightarrow> CreateChannel env name handle mode s
      | TOnChannelOpened \<Rightarrow> vt_OnChannelOpened vt s
      | TOnChannelClosed \<Rightarrow> vt_OnChannelClosed vt s
      | TOnSendMessage m \<Rightarrow> OnSendMessage env vt m s
      | TOnAddFilter \<Rightarrow> OnAddFilter env s
      | TOnRemoveFilter f \<Rightarrow> OnRemoveFilter env f s
      | _ \<Rightarrow> s)"

definition run_listener_task :: "'w proxy_env \<Rightarrow> listener_task \<Rightarrow> 'w px \<Rightarrow> 'w px option" where
  "run_listener_task env t s =
     (case t of
        TDispatchMessage m \<Rightarrow> OnDispatchMessage env m s
      | TDispatchConnected \<Rightarrow> Some (OnDispatchConnected env s)
      | TDispatchError \<Rightarrow> Some (OnDispatchError env s)
      | TDispatchMessagesTask \<Rightarrow> Some s)"

end
