(* ===== verification/ChannelProxy_Frames.thy ===== *)
theory ChannelProxy_Frames
  imports ChannelProxy
begin

text \<open>
  What the handlers of the proxy may change: the frames of the context (locales \<open>context_frame\<close> and
  \<open>channel_frame\<close>), the completion of an operation of the channel under such a listener, and the
  step relation of the two threads.
\<close>

section \<open>Tame environments\<close>

text \<open>The listener and the filters change their own state only.\<close>

definition tame :: "('w px \<Rightarrow> 'w px) \<Rightarrow> bool" where
  "tame h \<longleftrightarrow> (\<forall>s. \<exists>w. h s = on_px (\<lambda>p. p\<lparr>px_world := w\<rparr>) s)"

definition tame_env :: "'w proxy_env \<Rightarrow> bool" where
  "tame_env env \<longleftrightarrow>
     (\<forall>f. let k = pe_filter env f in
        tame (FilterAdded k) \<and> tame (FilterRemoved k) \<and> (\<forall>pid. tame (FilterConnected k pid)) \<and>
        tame (FilterError k) \<and> tame (FilterClosing k) \<and> (\<forall>m. tame (\<lambda>s. snd (FilterMessage k m s)))) \<and>
     (\<forall>m. tame (pe_message env m)) \<and> (\<forall>pid. tame (pe_connected env pid)) \<and> tame (pe_error env)"

lemma tame_envD:
  assumes "tame_env env"
  shows "tame (FilterAdded (pe_filter env f))" "tame (FilterRemoved (pe_filter env f))"
    "tame (FilterConnected (pe_filter env f) pid)" "tame (FilterError (pe_filter env f))"
    "tame (FilterClosing (pe_filter env f))" "tame (\<lambda>s. snd (FilterMessage (pe_filter env f) m s))"
    "tame (pe_message env m)" "tame (pe_connected env pid)" "tame (pe_error env)"
  using assms by (simp_all add: tame_env_def Let_def)

text \<open>What an operation does to the context alone: it keeps the channel and the properties \<open>R\<close>.\<close>

definition local_op :: "('w proxy \<Rightarrow> 'w proxy \<Rightarrow> bool) \<Rightarrow> ('w px \<Rightarrow> 'w px) \<Rightarrow> bool" where
  "local_op R h \<longleftrightarrow> (\<forall>s. \<exists>p. h s = s\<lparr>ch_user := p\<rparr> \<and> R (ch_user s) p)"

lemma local_opI: "(\<And>s. \<exists>p. h s = s\<lparr>ch_user := p\<rparr> \<and> R (ch_user s) p) \<Longrightarrow> local_op R h"
  by (simp add: local_op_def)

lemma local_opE:
  assumes "local_op R h"
  obtains p where "h s = s\<lparr>ch_user := p\<rparr>" "R (ch_user s) p"
  using assms by (auto simp: local_op_def)

lemma local_op_on_px: "(\<And>p. R p (f p)) \<Longrightarrow> local_op R (on_px f)"
  by (auto simp: local_op_def on_px_def)

lemma local_op_comp:
  assumes "transp R" "local_op R f" "local_op R g" shows "local_op R (\<lambda>s. f (g s))"
proof (rule local_opI)
  fix s
  from assms(3) obtain p where p: "g s = s\<lparr>ch_user := p\<rparr>" "R (ch_user s) p" by (rule local_opE)
  from assms(2) obtain q where "f (g s) = (g s)\<lparr>ch_user := q\<rparr>" "R (ch_user (g s)) q" by (rule local_opE)
  then show "\<exists>p. f (g s) = s\<lparr>ch_user := p\<rparr> \<and> R (ch_user s) p"
    using p transpD [OF assms(1)] by auto
qed

lemma local_op_id: "reflp R \<Longrightarrow> local_op R (\<lambda>s. s)"
proof (rule local_opI)
  fix s :: "'a px"
  assume "reflp R"
  then show "\<exists>p. s = s\<lparr>ch_user := p\<rparr> \<and> R (ch_user s) p"
    by (intro exI [of _ "ch_user s"]) (simp add: reflpD)
qed

lemma local_op_ident: "reflp R \<Longrightarrow> local_op R id" "reflp R \<Longrightarrow> local_op R (\<lambda>s. s)"
  by (simp_all add: id_def local_op_id)

lemma local_op_if:
  "local_op R f \<Longrightarrow> local_op R g \<Longrightarrow> local_op R (\<lambda>s. if b s then f s else g s)"
  by (auto simp: local_op_def)

lemma local_op_fold:
  assumes "reflp R" "transp R" "\<And>x. local_op R (f x)" shows "local_op R (fold f xs)"
proof (induction xs)
  case Nil
  then show ?case using local_op_id [OF assms(1)] by (simp add: id_def)
next
  case (Cons x xs)
  then show ?case using local_op_comp [OF assms(2) Cons assms(3)] by (simp add: comp_def)
qed

lemma local_op_dep:
  assumes "\<And>x. local_op R (f x)" shows "local_op R (\<lambda>s. f (g s) s)"
  using assms by (simp add: local_op_def)

lemma local_op_tame: "tame h \<Longrightarrow> (\<And>p w. R p (p\<lparr>px_world := w\<rparr>)) \<Longrightarrow> local_op R h"
  by (auto simp: local_op_def tame_def on_px_def) (metis)


section \<open>Frames of the context\<close>

text \<open>The handlers of the context only change the context, by steps that \<open>R\<close> allows: \<open>R\<close> is what a
  property wants to know of them.\<close>

locale context_frame =
  fixes R :: "'w proxy \<Rightarrow> 'w proxy \<Rightarrow> bool" and env :: "'w proxy_env"
  assumes refl: "reflp R" and trans: "transp R"
    and post: "\<forall>m. t \<noteq> TDispatchMessage m \<Longrightarrow> R p (p\<lparr>px_tasks := px_tasks p @ [t]\<rparr>)"
    and set_filters: "R p (p\<lparr>px_filters := fs\<rparr>)"
    and set_pending: "R p (p\<lparr>px_pending_filters := fs\<rparr>)"
    and set_peer: "R p (p\<lparr>px_peer_pid := pid\<rparr>)"
    and set_refs: "R p (p\<lparr>px_refs := n\<rparr>)"
    and filter_added: "local_op R (FilterAdded (pe_filter env f))"
    and filter_removed: "local_op R (FilterRemoved (pe_filter env f))"
    and filter_connected: "local_op R (FilterConnected (pe_filter env f) i)"
    and filter_error: "local_op R (FilterError (pe_filter env f))"
    and filter_closing: "local_op R (FilterClosing (pe_filter env f))"
    and filter_message: "local_op R (\<lambda>s. snd (FilterMessage (pe_filter env f) m s))"
begin

lemma on_context:
  "local_op R (on_px (\<lambda>p. p\<lparr>px_filters := fs p\<rparr>))"
  "local_op R (on_px (\<lambda>p. p\<lparr>px_pending_filters := fs p\<rparr>))"
  "local_op R (on_px (\<lambda>p. p\<lparr>px_peer_pid := pid\<rparr>))"
  "local_op R (on_px (\<lambda>p. p\<lparr>px_refs := n p\<rparr>))"
  by (rule local_op_on_px, rule set_filters set_pending set_peer set_refs)+

lemma posting: "\<forall>m. t \<noteq> TDispatchMessage m \<Longrightarrow> local_op R (post_listener t)"
  unfolding post_listener_def by (rule local_op_on_px) (rule post)

lemma filters: "(\<And>f. local_op R (h (pe_filter env f))) \<Longrightarrow> local_op R (for_filters h env)"
  using local_op_fold [OF refl trans, of "\<lambda>f. h (pe_filter env f)"]
  by (simp add: for_filters_def local_op_def)

lemma try_filters: "local_op R (\<lambda>s. snd (try_filters env fs m s))"
proof (induction fs)
  case Nil
  then show ?case using local_op_id [OF refl] by simp
next
  case (Cons f fs)
  note step = local_op_comp [OF trans Cons filter_message]
  show ?case
  proof (rule local_opI)
    fix s :: "'w px"
    show "\<exists>p. snd (try_filters env (f # fs) m s) = s\<lparr>ch_user := p\<rparr> \<and> R (ch_user s) p"
    proof (cases "fst (FilterMessage (pe_filter env f) m s)")
      case True
      then show ?thesis using filter_message [of f m, unfolded local_op_def, THEN spec, of s]
        by (simp add: split_beta Let_def)
    next
      case False
      then show ?thesis using step [of f m, unfolded local_op_def, THEN spec, of s]
        by (simp add: split_beta Let_def)
    qed
  qed
qed

lemma trying_filters: "local_op R (\<lambda>s. snd (TryFilters env m s))"
  using try_filters by (simp add: TryFilters_def local_op_def)

lemma channel_error: "local_op R (Context_OnChannelError env)"
  unfolding Context_OnChannelError_def [abs_def]
  by (rule local_op_comp [OF trans posting filters]) (simp, rule filter_error)

lemma adding_filter: "local_op R (add_filter env f)"
proof -
  have a: "local_op R (\<lambda>s. if px_channel (ch_user s) then FilterAdded (pe_filter env f) s else s)"
    by (rule local_op_if [OF filter_added local_op_id [OF refl]])
  have c: "local_op R (\<lambda>s. if px_peer_pid (ch_user s) \<noteq> 0
      then FilterConnected (pe_filter env f) (px_peer_pid (ch_user s)) s else s)"
  proof (rule local_op_if [OF _ local_op_id [OF refl]])
    show "local_op R (\<lambda>s. FilterConnected (pe_filter env f) (px_peer_pid (ch_user s)) s)"
      using filter_connected by (simp add: local_op_def)
  qed
  have n: "local_op R (on_px (\<lambda>p. p\<lparr>px_filters := px_filters p @ [f]\<rparr>))" by (rule on_context)
  from local_op_comp [OF trans c local_op_comp [OF trans a n]]
  show ?thesis unfolding add_filter_def [abs_def] Let_def .
qed

lemma add_filters: "local_op R (OnAddFilter env)"
proof -
  have "local_op R (\<lambda>s. fold (add_filter env) fs (on_px (\<lambda>p. p\<lparr>px_pending_filters := []\<rparr>) s))" for fs
    by (rule local_op_comp [OF trans local_op_fold [OF refl trans adding_filter] on_context(2)])
  then show ?thesis unfolding OnAddFilter_def [abs_def] by (simp add: local_op_def)
qed

lemma channel_connected: "local_op R (Context_OnChannelConnected env pid)"
proof -
  have f: "local_op R (for_filters (\<lambda>f. FilterConnected f pid) env)"
    by (rule filters) (rule filter_connected)
  have "local_op R (\<lambda>s. on_px (\<lambda>p. p\<lparr>px_peer_pid := ch_peer_pid s\<rparr>) s)"
    using on_context(3) by (simp add: local_op_def)
  from local_op_comp [OF trans posting [of TDispatchConnected, simplified] local_op_comp [OF trans f local_op_comp [OF trans this add_filters]]]
  show ?thesis unfolding Context_OnChannelConnected_def [abs_def] Let_def .
qed

lemma remove_filter: "local_op R (OnRemoveFilter env f)"
  unfolding OnRemoveFilter_def [abs_def]
  by (rule local_op_if [OF local_op_comp [OF trans on_context(1) filter_removed] local_op_id [OF refl]])

lemma removing_filters: "local_op R (for_filters (\<lambda>f t. FilterRemoved f (FilterClosing f t)) env)"
  by (rule filters) (rule local_op_comp [OF trans filter_removed filter_closing])

end

text \<open>The completion of an operation of the channel, for a listener that only changes the context.\<close>

definition local_listener :: "('w proxy \<Rightarrow> 'w proxy \<Rightarrow> bool) \<Rightarrow> 'w proxy listener \<Rightarrow> bool" where
  "local_listener R lst \<longleftrightarrow> (\<forall>m. local_op R (OnMessageReceived lst m)) \<and>
     (\<forall>pid. local_op R (OnChannelConnected lst pid)) \<and> local_op R (OnChannelError lst)"

lemma local_op_user: "local_op R h \<Longrightarrow> R (ch_user s) (ch_user (h s))"
  by (erule local_opE [of _ _ s]) simp

lemma connect_half_user: "ch_user (snd (connect_half os s)) = ch_user s"
  using ProcessConnection_keeps [of os s]
  by (cases "ProcessConnection os s") (simp add: connect_half_def Let_def ProcessOutgoing_keeps)

lemma completion_local:
  assumes rt: "reflp R" "transp R" and l: "local_listener R lst"
  shows "R (ch_user s) (ch_user (OnIOCompleted os lst ia oa is_input data n s))"
proof -
  let ?c = "Channel_Close os lst ia oa"
  have e: "R p (ch_user (OnChannelError lst (?c u)))" if "R p (ch_user u)" for p u
  proof -
    have "R (ch_user (?c u)) (ch_user (OnChannelError lst (?c u)))"
      using l by (intro local_op_user [of R]) (simp add: local_listener_def)
    then show ?thesis using that transpD [OF rt(2)] by (simp add: Close_eq)
  qed
  have fin: "R p (ch_user (finish_io ?c lst ok u))" if "R p (ch_user u)" for p ok u
    using that e by (simp add: finish_io_def)
  have d: "R (ch_user s) (ch_user (deliver (win_ops os lst ?c) m u))" if "R (ch_user s) (ch_user u)" for m u
  proof (cases "IsHelloMessage m")
    case False
    have "R (ch_user u) (ch_user (OnMessageReceived lst m u))"
      using l by (intro local_op_user [of R]) (simp add: local_listener_def)
    then show ?thesis using False that transpD [OF rt(2)] by (simp add: deliver_def win_ops_def)
  next
    case True
    have c: "R (ch_user s) (ch_user (OnChannelConnected lst pid
        (u\<lparr>ch_peer_pid := pid, ch_validate_client := False\<rparr>)))" for pid
    proof -
      let ?u = "u\<lparr>ch_peer_pid := pid, ch_validate_client := False\<rparr>"
      have "R (ch_user ?u) (ch_user (OnChannelConnected lst pid ?u))"
        using l by (intro local_op_user [of R]) (simp add: local_listener_def)
      then show ?thesis using that transpD [OF rt(2)] by simp
    qed
    show ?thesis using True that c e [OF that]
      by (simp add: deliver_def win_ops_def HandleHelloMessage_def Let_def
          split: option.splits prod.splits)
  qed
  define s1 where "s1 = snd (connect_half os s)"
  let ?p = "s1\<lparr>ch_processing_incoming := True\<rparr>"
  have s1: "R (ch_user s) (ch_user s1)" by (simp add: s1_def connect_half_user reflpD [OF rt(1)])
  have "R (ch_user s) (ch_user (snd (read_half ?c os lst ia oa n data ?p)))"
  proof (rule read_half_keeps [where P = "\<lambda>t. R (ch_user s) (ch_user t)"])
    show "R (ch_user s) (ch_user ?p)" using s1 by simp
  qed (simp_all add: d)
  then have i: "R (ch_user s) (ch_user (finish_io ?c lst ok
      ((snd (read_half ?c os lst ia oa n data ?p))\<lparr>ch_processing_incoming := b\<rparr>)))" for ok b
    by (intro fin) simp
  have o: "R (ch_user s) (ch_user (finish_io ?c lst ok (snd (ProcessOutgoingMessages os True n s))))" for ok
    by (rule fin) (simp add: ProcessOutgoing_keeps reflpD [OF rt(1)])
  show ?thesis using i o s1
    by (cases is_input)
      (simp_all add: OnIOCompleted_def OnIOCompleted_with_def s1_def [symmetric] split_beta)
qed

section \<open>The two threads\<close>

definition messages_of :: "listener_task list \<Rightarrow> message list" where
  "messages_of ts = concat (map (\<lambda>t. case t of TDispatchMessage m \<Rightarrow> [m] | _ \<Rightarrow> []) ts)"

definition sends_of :: "ipc_task list \<Rightarrow> message list" where
  "sends_of ts = concat (map (\<lambda>t. case t of TOnSendMessage m \<Rightarrow> [m] | _ \<Rightarrow> []) ts)"

text \<open>The label of a step is the list of messages sent.\<close>

inductive proxy_step ::
    "'w proxy_env \<Rightarrow> 'w context_vt \<Rightarrow> message list \<Rightarrow> 'w px \<Rightarrow> 'w px \<Rightarrow> bool"
  for env vt where
  io: "px_channel (ch_user s) \<Longrightarrow> ch_thread_check s \<Longrightarrow>
       t = OnIOCompleted (pe_os env) (context_listener env vt) (pe_input_addr env) (pe_overflow_addr env)
             is_input data n s \<Longrightarrow>
       proxy_step env vt [] s t"
| ipc: "px_ipc (ch_user s) = task # ts \<Longrightarrow>
        t = run_ipc_task env vt task (on_px (\<lambda>p. p\<lparr>px_ipc := ts\<rparr>) s) \<Longrightarrow>
        proxy_step env vt [] s t"
| listener: "px_tasks (ch_user s) = task # ts \<Longrightarrow>
        run_listener_task env task (on_px (\<lambda>p. p\<lparr>px_tasks := ts\<rparr>) s) = Some t \<Longrightarrow>
        proxy_step env vt [] s t"
| send: "proxy_step env vt [m] s (snd (ChannelProxy_Send env m s))"
| add: "proxy_step env vt [] s (ChannelProxy_AddFilter f s)"
| remove: "proxy_step env vt [] s (ChannelProxy_RemoveFilter f s)"
| close: "proxy_step env vt [] s (ChannelProxy_Close vt s)"

inductive proxy_run ::
    "'w proxy_env \<Rightarrow> 'w context_vt \<Rightarrow> 'w px \<Rightarrow> message list \<Rightarrow> 'w px \<Rightarrow> bool"
  for env vt s where
  start: "proxy_run env vt s [] s"
| step: "proxy_run env vt s xs t \<Longrightarrow> proxy_step env vt xs' t u \<Longrightarrow>
         proxy_run env vt s (xs @ xs') u"

lemma messages_of_append [simp]: "messages_of (xs @ ys) = messages_of xs @ messages_of ys"
  by (simp add: messages_of_def)

lemma messages_of_simps [simp]:
  "messages_of [] = []" "messages_of (TDispatchMessage m # ts) = m # messages_of ts"
  "messages_of (TDispatchConnected # ts) = messages_of ts"
  "messages_of (TDispatchError # ts) = messages_of ts"
  "messages_of (TDispatchMessagesTask # ts) = messages_of ts"
  by (simp_all add: messages_of_def)

lemma sends_of_append [simp]: "sends_of (xs @ ys) = sends_of xs @ sends_of ys"
  by (simp add: sends_of_def)

lemma sends_of_Nil [simp]: "sends_of [] = []"
  by (simp add: sends_of_def)

lemma sends_of_Cons [simp]:
  "sends_of (t # ts) = (case t of TOnSendMessage m \<Rightarrow> [m] | _ \<Rightarrow> []) @ sends_of ts"
  by (simp add: sends_of_def)

lemma Context_vt_simps:
  "vt_OnMessageReceived (Context_vt env) = Context_OnMessageReceived env"
  "vt_OnChannelError (Context_vt env) = Context_OnChannelError env"
  "vt_Clear (Context_vt env) = Context_Clear"
  "ch_user (vt_OnChannelOpened (Context_vt env) s) = ch_user (Context_OnChannelOpened env (Context_vt env) s)"
  "vt_OnChannelClosed (Context_vt env) s = Context_OnChannelClosed env (Context_vt env) s"
  by (simp_all add: Context_vt_def Context_vt_self_def Let_def Context_OnChannelOpened_def
      Context_OnChannelClosed_def reset_channel_def Close_eq split: prod.splits)

lemma vt_opened: "vt_OnChannelOpened (Context_vt env) s = Context_OnChannelOpened env (Context_vt env) s"
  by (simp add: Context_vt_def Context_vt_self_def Let_def Context_OnChannelOpened_def split: prod.splits)

lemma Connect_user: "ch_user (snd (snd (Channel_Connect os s))) = ch_user s"
  by (simp add: Channel_Connect_def Let_def ProcessConnection_keeps ProcessOutgoing_keeps)

lemma Send_user: "ch_user (snd (Channel_Send os m s)) = ch_user s"
  by (simp add: Channel_Send_def Let_def ProcessOutgoing_keeps)

lemma PushHello_user:
  assumes "PushHello ra pid sys g s = Some (ok, t, g')" shows "ch_user t = ch_user s"
proof -
  obtain r2 g2 where "(if \<not> fst r2 then Some (False, s\<lparr>ch_pipe := None\<rparr>, g2)
      else Some (True, s\<lparr>ch_queue := ch_queue s @ [snd r2]\<rparr>, g2)) = Some (ok, t, g')"
    using assms by (auto simp: PushHello_def Let_def bind_eq_Some_conv simp del: split_paired_Ex)
  then show ?thesis by (auto split: if_splits)
qed

lemma OpenPipe_user: "ch_user (snd (OpenPipe sys name h mode s)) = ch_user s"
  by (cases "PipeName name"; cases h; cases "DuplicateHandle_result sys")
    (simp_all add: OpenPipe_def Let_def)

lemma CreatePipe_user:
  assumes "CreatePipe ra pid sys name h mode g s = Some (ok, t, g')" shows "ch_user t = ch_user s"
  using assms OpenPipe_user [of sys name h mode s]
  by (cases "OpenPipe sys name h mode s") (auto simp: CreatePipe_def dest!: PushHello_user split: if_splits)

lemma ChannelImpl_new_user:
  "ChannelImpl_new ra pid sys name h mode g u = Some (c, g') \<Longrightarrow> ch_user c = u"
  by (auto simp: ChannelImpl_new_def dest: CreatePipe_user split: bind_splits)

text \<open>When \<open>R\<close> also allows that a message is posted, the context is a listener that leaves the channel
  alone.\<close>

locale message_frame = context_frame +
  assumes post_message: "R p (p\<lparr>px_tasks := px_tasks p @ [TDispatchMessage m]\<rparr>)"
begin

lemma message_received: "local_op R (Context_OnMessageReceived env m)"
proof -
  have "local_op R (post_listener (TDispatchMessage m))"
    unfolding post_listener_def by (rule local_op_on_px) (rule post_message)
  note p = local_op_comp [OF trans this trying_filters]
  have "Context_OnMessageReceived env m = (\<lambda>s. if \<not> fst (TryFilters env m s)
      then post_listener (TDispatchMessage m) (snd (TryFilters env m s)) else snd (TryFilters env m s))"
    by (auto simp: Context_OnMessageReceived_def OnMessageReceivedNoFilter_def split: prod.splits)
  then show ?thesis using local_op_if [OF p trying_filters] by simp
qed

lemma listener_quiet: "quiet (context_listener env (Context_vt env))"
  using message_received channel_connected channel_error
  by (simp add: quiet_def context_listener_def Context_vt_def Context_vt_self_def Let_def local_op_def)
    blast

lemma own_listener: "local_listener R (context_listener env (Context_vt env))"
  using message_received channel_connected channel_error
  by (simp add: local_listener_def context_listener_def Context_vt_simps)

end

text \<open>The tasks of the IPC thread, when \<open>R\<close> also allows what they do to \<open>channel_\<close>.\<close>

locale channel_frame = context_frame +
  assumes set_channel: "R p (p\<lparr>px_channel := b\<rparr>)"
    and create: "R p (p\<lparr>px_channel_id := n, px_channel := True, px_seq := g\<rparr>)"
begin

lemma on_user: "local_op R h \<Longrightarrow> R (ch_user s) (ch_user (h s))"
  by (rule local_op_user)

lemma same: "R p p"
  by (rule reflpD [OF refl])

lemma via: "R p q \<Longrightarrow> R q r \<Longrightarrow> R p r"
  by (rule transpD [OF trans])

lemma closing: "R (ch_user s) (ch_user (Context_OnChannelClosed env vt s))"
proof (cases "px_channel (ch_user s)")
  case True
  define s1 where "s1 = for_filters (\<lambda>f t. FilterRemoved f (FilterClosing f t)) env s"
  define s2 where "s2 = on_px (\<lambda>p. p\<lparr>px_filters := []\<rparr>) s1"
  define s3 where "s3 = reset_channel env vt s2"
  define s4 where "s4 = on_px (\<lambda>p. p\<lparr>px_refs := px_refs p - 1\<rparr>) s3"
  have 1: "R (ch_user s) (ch_user s1)" unfolding s1_def by (rule on_user, rule removing_filters)
  have 2: "R (ch_user s1) (ch_user s2)" unfolding s2_def by (rule on_user, rule on_context)
  have 3: "R (ch_user s2) (ch_user s3)"
    using set_channel by (simp add: s3_def reset_channel_def Close_eq on_px_def)
  have 4: "R (ch_user s3) (ch_user s4)" unfolding s4_def by (rule on_user, rule on_context)
  have "Context_OnChannelClosed env vt s = s4"
    using True by (simp add: Context_OnChannelClosed_def Let_def s1_def s2_def s3_def s4_def)
  then show ?thesis using via [OF 1 via [OF 2 via [OF 3 4]]] by simp
qed (simp add: Context_OnChannelClosed_def same)

lemma error: "R (ch_user s) (ch_user (Context_OnChannelError env s))"
  by (rule on_user, rule channel_error)

lemma open_up: "R (ch_user s) (ch_user (Context_OnChannelOpened env (Context_vt env) s))"
proof -
  define s1 where "s1 = on_px (\<lambda>p. p\<lparr>px_refs := px_refs p + 1\<rparr>) s"
  define s2 where "s2 = snd (snd (Channel_Connect (pe_os env) s1))"
  have 1: "R (ch_user s) (ch_user s1)" unfolding s1_def by (rule on_user, rule on_context)
  have 2: "ch_user s2 = ch_user s1" by (simp add: s2_def Connect_user)
  have 3: "R (ch_user s2) (ch_user (for_filters FilterAdded env s2))"
    by (rule on_user, rule filters, rule filter_added)
  have "Context_OnChannelOpened env (Context_vt env) s =
      (if \<not> fst (Channel_Connect (pe_os env) s1) then Context_OnChannelError env s2
       else for_filters FilterAdded env s2)"
    by (simp add: Context_OnChannelOpened_def Let_def Context_vt_simps split_beta s1_def s2_def)
  then show ?thesis using via [OF 1] 2 3 error [of s2] by simp
qed

lemma sending: "R (ch_user s) (ch_user (OnSendMessage env (Context_vt env) m s))"
  using closing [of s "Context_vt env"] error [of "snd (Channel_Send (pe_os env) m s)"]
  by (simp add: OnSendMessage_def Let_def Context_vt_simps split_beta Send_user same)

lemma creating: "R (ch_user s) (ch_user (CreateChannel env name h mode s))"
  using create same
  by (auto simp: CreateChannel_def on_px_def dest!: ChannelImpl_new_user split: option.split)

lemma tasks: "R (ch_user s) (ch_user (run_ipc_task env (Context_vt env) task s))"
proof (cases task)
  case TOnAddFilter
  then show ?thesis using on_user [OF add_filters] by (simp add: run_ipc_task_def)
next
  case (TOnRemoveFilter f)
  then show ?thesis using on_user [OF remove_filter] by (simp add: run_ipc_task_def)
next
  case TOnChannelOpened
  then show ?thesis using open_up by (simp add: run_ipc_task_def Context_vt_simps)
next
  case TOnChannelClosed
  then show ?thesis using closing by (simp add: run_ipc_task_def Context_vt_simps)
next
  case (TOnSendMessage m)
  then show ?thesis using sending by (simp add: run_ipc_task_def)
next
  case (TCreateChannel n h mode)
  then show ?thesis using creating by (simp add: run_ipc_task_def)
qed (simp_all add: run_ipc_task_def same)

end

end
