(* ===== verification/ChannelProxy_Props.thy ===== *)
theory ChannelProxy_Props
  imports ChannelProxy_Frames
begin

text \<open>
  Properties of the proxy: the order of what the listener is told, and the order of what is sent, in
  every interleaving of the two threads.
\<close>

section \<open>What the listener is told\<close>

datatype event = Connected i32 | Received message | Failed

text \<open>What the listener was told, and what the channel handed to the context and no filter took.\<close>

record listener_log =
  lg_told :: "event list"
  lg_received :: "message list"

definition note_told :: "event \<Rightarrow> listener_log px \<Rightarrow> listener_log px" where
  "note_told e = on_px (\<lambda>p. p\<lparr>px_world := (px_world p)\<lparr>lg_told := lg_told (px_world p) @ [e]\<rparr>\<rparr>)"

definition note_received :: "message \<Rightarrow> listener_log px \<Rightarrow> listener_log px" where
  "note_received m = on_px (\<lambda>p. p\<lparr>px_world := (px_world p)\<lparr>lg_received := lg_received (px_world p) @ [m]\<rparr>\<rparr>)"

text \<open>The context with an observer at its entry: a call of \<open>OnMessageReceived\<close> by the channel is noted
  there, whatever the context then does with the message.\<close>

definition observed_vt :: "listener_log proxy_env \<Rightarrow> listener_log context_vt" where
  "observed_vt env = (Context_vt env)\<lparr>vt_OnMessageReceived := \<lambda>m s.
     (if fst (TryFilters env m s) then Context_OnMessageReceived env m s
      else note_received m (Context_OnMessageReceived env m s))\<rparr>"

definition frame_log :: "listener_log proxy \<Rightarrow> listener_log proxy \<Rightarrow> bool" where
  "frame_log p q \<longleftrightarrow> px_listener q = px_listener p \<and> px_connected_called q = px_connected_called p \<and>
     lg_told (px_world q) = lg_told (px_world p) \<and>
     (\<exists>zs. px_tasks q = px_tasks p @ zs \<and> lg_received (px_world q) = lg_received (px_world p) @ messages_of zs)"

text \<open>The listener records what it is told; the filters do not touch the record.\<close>

definition logging :: "listener_log proxy_env \<Rightarrow> bool" where
  "logging env \<longleftrightarrow> channel_frame frame_log env \<and> (\<forall>m. pe_message env m = note_told (Received m)) \<and>
     (\<forall>i. pe_connected env i = note_told (Connected i)) \<and> pe_error env = note_told Failed"

definition told :: "listener_log proxy \<Rightarrow> event list" where
  "told p = filter (\<lambda>e. e \<noteq> Failed) (lg_told (px_world p))"

definition log_inv :: "listener_log proxy \<Rightarrow> bool" where
  "log_inv p \<longleftrightarrow> (\<exists>ms zs. lg_received (px_world p) = ms @ zs \<and>
     (px_listener p \<longrightarrow> zs = messages_of (px_tasks p)) \<and>
     (if px_connected_called p
      then (\<exists>i. told p = Connected i # map Received ms) \<or> \<not> px_listener p \<and> told p = [] \<and> ms = []
      else told p = [] \<and> ms = []))"

lemma log_inv_frame:
  assumes "frame_log p q" "log_inv p" shows "log_inv q"
proof -
  obtain ts where ts: "px_tasks q = px_tasks p @ ts"
    "lg_received (px_world q) = lg_received (px_world p) @ messages_of ts"
    using assms(1) by (auto simp: frame_log_def)
  obtain ms zs where i: "lg_received (px_world p) = ms @ zs" "px_listener p \<longrightarrow> zs = messages_of (px_tasks p)"
    "if px_connected_called p
      then (\<exists>i. told p = Connected i # map Received ms) \<or> \<not> px_listener p \<and> told p = [] \<and> ms = []
      else told p = [] \<and> ms = []"
    using assms(2) unfolding log_inv_def by blast
  have "told q = told p" using assms(1) by (simp add: frame_log_def told_def)
  then show ?thesis unfolding log_inv_def
    by (intro exI [of _ ms] exI [of _ "zs @ messages_of ts"]) (use i assms(1) ts in \<open>auto simp: frame_log_def\<close>)
qed

lemma log_inv_other [simp]:
  "log_inv (p\<lparr>px_ipc := ts\<rparr>) = log_inv p" "log_inv (p\<lparr>px_pending_filters := fs\<rparr>) = log_inv p"
  by (simp_all add: log_inv_def told_def)

lemma log_listener_task:
  assumes e: "logging env" and i: "log_inv (ch_user s)" and t: "px_tasks (ch_user s) = task # ts"
    and r: "run_listener_task env task (on_px (\<lambda>p. p\<lparr>px_tasks := ts\<rparr>) s) = Some t"
  shows "log_inv (ch_user t)"
proof -
  obtain ms zs where m: "lg_received (px_world (ch_user s)) = ms @ zs"
    "px_listener (ch_user s) \<longrightarrow> zs = messages_of (px_tasks (ch_user s))"
    "if px_connected_called (ch_user s)
      then (\<exists>i. told (ch_user s) = Connected i # map Received ms) \<or>
           \<not> px_listener (ch_user s) \<and> told (ch_user s) = [] \<and> ms = []
      else told (ch_user s) = [] \<and> ms = []"
    using i unfolding log_inv_def by blast
  note ops = e [unfolded logging_def] note_told_def told_def
  have rec: "lg_received (px_world (ch_user t)) = lg_received (px_world (ch_user s))"
    using r ops by (cases task) (auto simp: run_listener_task_def OnDispatchMessage_def OnDispatchError_def
        OnDispatchConnected_def on_px_def Let_def split: if_splits)
  show ?thesis
  proof (cases "px_listener (ch_user s)")
    case False
    then have "\<not> px_listener (ch_user t) \<and> px_world (ch_user t) = px_world (ch_user s) \<and>
        (px_connected_called (ch_user s) \<longrightarrow> px_connected_called (ch_user t))"
      using r by (cases task)
        (auto simp: run_listener_task_def OnDispatchMessage_def OnDispatchError_def OnDispatchConnected_def
          on_px_def Let_def split: if_splits)
    then show ?thesis unfolding log_inv_def using m rec
      by (intro exI [of _ ms] exI [of _ zs]) (auto simp: told_def split: if_splits)
  next
    case True
    show ?thesis
    proof (cases task)
      case (TDispatchMessage q)
      then have z: "zs = q # messages_of ts" using m(2) True t by simp
      have "px_tasks (ch_user t) = ts \<and> px_listener (ch_user t) \<and> px_connected_called (ch_user t) \<and>
          (\<exists>i. told (ch_user t) = Connected i # map Received (ms @ [q]))"
        using r True m(3) ops TDispatchMessage
        by (auto simp: run_listener_task_def OnDispatchMessage_def OnDispatchConnected_def on_px_def
            Let_def split: if_splits)
      then show ?thesis unfolding log_inv_def using m(1) z rec
        by (intro exI [of _ "ms @ [q]"] exI [of _ "messages_of ts"]) auto
    qed (use r True m ops t rec in \<open>auto simp: run_listener_task_def OnDispatchConnected_def
           OnDispatchError_def on_px_def Let_def log_inv_def split: if_splits\<close>)
  qed
qed

text \<open>The observed context is a listener of the channel whose calls the frame allows.\<close>

lemma frame_log_base: "reflp frame_log" "transp frame_log"
  by (auto simp: reflp_def transp_def frame_log_def)

lemma observed_message:
  assumes "context_frame frame_log env" shows "local_op frame_log (vt_OnMessageReceived (observed_vt env) m)"
proof (rule local_opI)
  fix s
  obtain p where p: "snd (TryFilters env m s) = s\<lparr>ch_user := p\<rparr>" "frame_log (ch_user s) p"
    by (rule local_opE [OF context_frame.trying_filters [OF assms]])
  let ?q = "p\<lparr>px_tasks := px_tasks p @ [TDispatchMessage m],
    px_world := (px_world p)\<lparr>lg_received := lg_received (px_world p) @ [m]\<rparr>\<rparr>"
  have q: "frame_log (ch_user s) ?q" using p(2) by (auto simp: frame_log_def)
  show "\<exists>p. vt_OnMessageReceived (observed_vt env) m s = s\<lparr>ch_user := p\<rparr> \<and> frame_log (ch_user s) p"
  proof (cases "fst (TryFilters env m s)")
    case True
    then show ?thesis using p
      by (intro exI [of _ p]) (simp add: observed_vt_def Context_OnMessageReceived_def split_beta Let_def)
  next
    case False
    then show ?thesis using p(1) q
      by (intro exI [of _ ?q]) (simp add: observed_vt_def Context_OnMessageReceived_def split_beta Let_def
          OnMessageReceivedNoFilter_def post_listener_def note_received_def on_px_def)
  qed
qed

lemma observed_listener:
  assumes "context_frame frame_log env"
  shows "local_listener frame_log (context_listener env (observed_vt env))"
  using observed_message [OF assms] context_frame.channel_connected [OF assms] context_frame.channel_error [OF assms]
  by (simp add: local_listener_def context_listener_def observed_vt_def Context_vt_simps)

lemma observed_ipc_task: "run_ipc_task env (observed_vt env) task s = run_ipc_task env (Context_vt env) task s"
  by (cases task) (simp_all add: run_ipc_task_def observed_vt_def OnSendMessage_def split_beta)

lemma log_inv_step:
  assumes e: "logging env" and i: "log_inv (ch_user s)" and st: "proxy_step env (observed_vt env) xs s t"
  shows "log_inv (ch_user t)"
proof -
  have cf: "channel_frame frame_log env" using e by (simp add: logging_def)
  have f: "context_frame frame_log env" using cf by (rule channel_frame.axioms)
  from st show ?thesis
  proof (cases rule: proxy_step.cases)
    case (io is_input data n)
    have "frame_log (ch_user s) (ch_user t)" unfolding io(4)
      by (rule completion_local [OF frame_log_base observed_listener [OF f]])
    from log_inv_frame [OF this i] show ?thesis .
  next
    case (ipc task ts)
    let ?s = "on_px (\<lambda>p. p\<lparr>px_ipc := ts\<rparr>) s"
    have "frame_log (ch_user ?s) (ch_user t)" unfolding ipc(3) observed_ipc_task
      by (rule channel_frame.tasks [OF cf])
    moreover have "log_inv (ch_user ?s)" using i by (simp add: on_px_def)
    ultimately show ?thesis by (rule log_inv_frame)
  next
    case (listener task ts)
    then show ?thesis using log_listener_task [OF e i] by simp
  next
    case (send m)
    then show ?thesis using i by (simp add: ChannelProxy_Send_def post_ipc_def on_px_def)
  next
    case (add f)
    then show ?thesis using i
      by (simp add: ChannelProxy_AddFilter_def Context_AddFilter_def post_ipc_def on_px_def)
  next
    case (remove f)
    then show ?thesis using i by (simp add: ChannelProxy_RemoveFilter_def post_ipc_def on_px_def)
  next
    case close
    have "log_inv (p\<lparr>px_listener := False\<rparr>)" if "log_inv p" for p
      using that unfolding log_inv_def by (auto simp: told_def split: if_splits)
    then show ?thesis using close i
      by (simp add: ChannelProxy_Close_def observed_vt_def Context_vt_simps Context_Clear_def post_ipc_def on_px_def
          Let_def)
  qed
qed

lemma log_inv_run:
  assumes "proxy_run env (observed_vt env) s xs t" "logging env" "log_inv (ch_user s)"
  shows "log_inv (ch_user t)"
  using assms by (induction rule: proxy_run.induct) (auto intro: log_inv_step)

text \<open>C4: in every interleaving of the IPC thread and the listener's thread, the listener is told of
  the connection exactly once and before any message, and gets the messages that the channel handed to the
  context and no filter took, in the order in which the channel handed them over, each once; while the
  proxy is not closed, the ones not yet delivered are in the tasks of its thread.  (What the channel hands
  over is noted by an observer at the entry of \<open>OnMessageReceived\<close>.)\<close>

theorem listener_in_order:
  assumes "proxy_run env (observed_vt env) s sent t" "logging env"
    and "ch_user s = (Context_new g \<lparr>lg_told = [], lg_received = []\<rparr>)\<lparr>px_channel := c, px_ipc := ts\<rparr>"
  shows "\<exists>ms rest. lg_received (px_world (ch_user t)) = ms @ rest \<and>
    (px_listener (ch_user t) \<longrightarrow> rest = messages_of (px_tasks (ch_user t))) \<and>
    (filter (\<lambda>e. e \<noteq> Failed) (lg_told (px_world (ch_user t))) = [] \<and> ms = [] \<or>
     (\<exists>pid. filter (\<lambda>e. e \<noteq> Failed) (lg_told (px_world (ch_user t))) = Connected pid # map Received ms))"
proof -
  have "log_inv (ch_user s)" by (simp add: assms(3) Context_new_def log_inv_def told_def)
  from log_inv_run [OF assms(1,2) this] show ?thesis
    unfolding log_inv_def told_def by (auto split: if_splits)
qed


text \<open>An environment without filters whose listener records, on a system where everything succeeds.\<close>

definition plain_env :: "listener_log proxy_env" where
  "plain_env =
     \<lparr>pe_filter = \<lambda>_. MessageFilter_default,
      pe_message = \<lambda>m. note_told (Received m), pe_connected = \<lambda>i. note_told (Connected i),
      pe_error = note_told Failed, pe_rewrite = id,
      pe_os = \<lparr>os_ReadFile = \<lambda>s. (True, 0), os_WriteFile = \<lambda>s m. (False, ERROR_IO_PENDING),
        os_ConnectNamedPipe = \<lambda>s. (False, ERROR_PIPE_CONNECTED), os_CancelledInput = \<lambda>s. 0,
        os_CancelledOutput = \<lambda>s. 0\<rparr>,
      pe_realloc = zero_realloc, pe_process_id = None,
      pe_sys = \<lparr>GetNamedPipeInfo_flags = 0, DuplicateHandle_result = None,
        CreateNamedPipe_result = \<lambda>_. Some 5, CreateFile_result = \<lambda>_. Some 5, CurrentProcessId = 7\<rparr>,
      pe_input_addr = 0x10000, pe_overflow_addr = 0x20000\<rparr>"

interpretation recording: channel_frame frame_log plain_env
  by unfold_locales
    (simp_all add: plain_env_def MessageFilter_default_def frame_log_base
      local_op_ident [OF frame_log_base(1)], auto simp: frame_log_def messages_of_def split: listener_task.splits)

lemma plain_logging: "logging plain_env"
  using recording.channel_frame_axioms by (simp add: logging_def plain_env_def)

definition plain_channel :: "bytes \<Rightarrow> listener_log px" where
  "plain_channel ov =
     \<lparr>ch_input_pending = True, ch_output_pending = False, ch_pipe = Some 5, ch_peer_pid = 0,
      ch_queue = [], ch_waiting_connect = False, ch_processing_incoming = False,
      ch_validate_client = False, ch_client_secret = 0, ch_overflow = ov, ch_thread_check = True,
      ch_written = [], ch_user = (Context_new 0 \<lparr>lg_told = [], lg_received = []\<rparr>)\<lparr>px_channel := True\<rparr>\<rparr>"


section \<open>What is sent\<close>

definition frame_send :: "'w proxy \<Rightarrow> 'w proxy \<Rightarrow> bool" where
  "frame_send p q \<longleftrightarrow> px_ipc q = px_ipc p \<and> px_channel q = px_channel p"

lemma tame_frame: "tame_env env \<Longrightarrow> message_frame frame_send env"
  by unfold_locales
    (auto simp: frame_send_def reflp_def transp_def intro: local_op_tame dest: tame_envD)

lemma tame_context: "tame_env env \<Longrightarrow> context_frame frame_send env"
  by (rule message_frame.axioms(1) [OF tame_frame])

text \<open>\<open>xs\<close> are the messages sent so far.  While the channel exists and its pipe is open, they are the
  messages the channel accepted followed by those in the tasks of the IPC thread; the channel is
  connected by the first task, before anything is written.\<close>

definition send_inv :: "message list \<Rightarrow> 'w px \<Rightarrow> bool" where
  "send_inv xs s \<longleftrightarrow>
     (\<forall>n h mode. TCreateChannel n h mode \<notin> set (px_ipc (ch_user s))) \<and>
     TOnChannelOpened \<notin> set (tl (px_ipc (ch_user s))) \<and>
     (TOnChannelOpened \<in> set (px_ipc (ch_user s)) \<longrightarrow>
        px_channel (ch_user s) \<and> \<not> ch_thread_check s \<and> \<not> ch_output_pending s) \<and>
     (if px_channel (ch_user s) \<and> ch_pipe s \<noteq> None
      then \<exists>ys. out_inv ys s \<and> xs = ys @ sends_of (px_ipc (ch_user s))
      else (\<exists>zs. xs = ch_written s @ zs) \<and> (px_channel (ch_user s) \<longrightarrow> \<not> ch_output_pending s))"

lemma send_inv_user:
  assumes "send_inv xs s" "frame_send (ch_user s) p" shows "send_inv xs (s\<lparr>ch_user := p\<rparr>)"
  using assms unfolding send_inv_def frame_send_def
  by (auto simp: out_inv_def split: if_splits)

lemma send_inv_local:
  assumes "local_op frame_send h" "send_inv xs s" shows "send_inv xs (h s)"
  using assms(1) by (rule local_opE [of _ _ s]) (simp add: send_inv_user [OF assms(2)])

lemma closed_io:
  assumes "ch_pipe s = None" "\<not> ch_output_pending s"
  obtains i where "OnIOCompleted os lst ia oa is_input data n s = s\<lparr>ch_input_pending := i\<rparr>"
proof (cases is_input)
  case True
  then show ?thesis using that drain_input [OF assms(1)] by (simp add: OnIOCompleted_def)
next
  case False
  have "OnIOCompleted os lst ia oa is_input data n s = s\<lparr>ch_input_pending := ch_input_pending s\<rparr>"
    using assms False by (simp add: OnIOCompleted_def io_defs split: list.splits)
  then show ?thesis by (rule that)
qed

lemma send_inv_io:
  assumes te: "tame_env env" and i: "send_inv xs s" and c: "px_channel (ch_user s)" "ch_thread_check s"
    and t_def: "t = OnIOCompleted (pe_os env) (context_listener env (Context_vt env)) ia oa is_input data n s"
  shows "send_inv xs t"
proof (cases "ch_pipe s = None")
  case True
  then have "\<not> ch_output_pending s" using i c by (simp add: send_inv_def)
  from closed_io [OF True this] obtain b where "t = s\<lparr>ch_input_pending := b\<rparr>" unfolding t_def by blast
  then show ?thesis using i True by (simp add: send_inv_def)
next
  case False
  note f = tame_context [OF te]
  have u: "frame_send (ch_user s) (ch_user t)" unfolding t_def
    by (rule completion_local [OF context_frame.refl [OF f] context_frame.trans [OF f]
          message_frame.own_listener [OF tame_frame [OF te]]])
  obtain ys where ys: "out_inv ys s" "xs = ys @ sends_of (px_ipc (ch_user s))"
    using i c False by (auto simp: send_inv_def)
  have o: "out_inv ys t" unfolding t_def by (rule out_inv_io [OF message_frame.listener_quiet [OF tame_frame [OF te]] ys(1)])
  have no: "TOnChannelOpened \<notin> set (px_ipc (ch_user s))"
    "\<forall>n h mode. TCreateChannel n h mode \<notin> set (px_ipc (ch_user s))"
    using i c(2) by (auto simp: send_inv_def)
  then have nt: "TOnChannelOpened \<notin> set (tl (px_ipc (ch_user s)))" by (metis list.set_sel(2) tl_Nil)
  show ?thesis
  proof (cases "ch_pipe t = None")
    case True
    then obtain zs where "ys = ch_written t @ zs" "\<not> ch_output_pending t"
      using o by (auto simp: out_inv_def)
    then show ?thesis using True u no nt ys(2) by (auto simp: send_inv_def frame_send_def)
  next
    case False
    then show ?thesis using o u no nt ys(2) c(1) by (auto simp: send_inv_def frame_send_def)
  qed
qed


lemma Send_pipe: "ch_pipe (snd (Channel_Send os m s)) = ch_pipe s"
  by (simp add: Channel_Send_def Let_def ProcessOutgoing_keeps)

lemma dead_send:
  "ch_pipe s = None \<Longrightarrow> \<not> ch_output_pending s \<Longrightarrow>
   snd (Channel_Send os m s) = s\<lparr>ch_queue := ch_queue s @ [m]\<rparr>"
  by (simp add: Channel_Send_def ProcessOutgoingMessages_def Let_def split: list.splits)

lemma Connect_pipe: "ch_pipe (snd (snd (Channel_Connect os s))) = ch_pipe s"
  by (simp add: Channel_Connect_def Let_def ProcessConnection_keeps ProcessOutgoing_keeps)

text \<open>Taking the first task of the queue.\<close>

definition take_task :: "ipc_task list \<Rightarrow> 'w px \<Rightarrow> 'w px" where
  "take_task ts = on_px (\<lambda>p. p\<lparr>px_ipc := ts\<rparr>)"

lemma take_task_simps [simp]:
  "ch_pipe (take_task ts s) = ch_pipe s" "ch_output_pending (take_task ts s) = ch_output_pending s"
  "ch_thread_check (take_task ts s) = ch_thread_check s" "ch_written (take_task ts s) = ch_written s"
  "px_ipc (ch_user (take_task ts s)) = ts" "px_channel (ch_user (take_task ts s)) = px_channel (ch_user s)"
  "out_inv ys (take_task ts s) = out_inv ys s"
  by (simp_all add: take_task_def on_px_def out_inv_def)

lemma send_inv_take:
  assumes "send_inv xs s" "px_ipc (ch_user s) = t # ts" "\<forall>m. t \<noteq> TOnSendMessage m"
  shows "send_inv xs (take_task ts s)"
  using assms unfolding send_inv_def
  by (cases t; cases ts) (auto split: if_splits)

lemma send_inv_OnSend:
  assumes f: "context_frame frame_send env" and i: "send_inv xs s"
    and t: "px_ipc (ch_user s) = TOnSendMessage m # ts"
  shows "send_inv xs (OnSendMessage env (Context_vt env) m (take_task ts s))"
proof -
  let ?s = "take_task ts s"
  let ?u = "snd (Channel_Send (pe_os env) m ?s)"
  have b: "\<forall>n h mode. TCreateChannel n h mode \<notin> set ts" "TOnChannelOpened \<notin> set ts" "TOnChannelOpened \<notin> set (tl ts)"
    using i t by (auto simp: send_inv_def) (cases ts; simp)+
  show ?thesis
  proof (cases "px_channel (ch_user s)")
    case False
    then show ?thesis using i b t
      by (auto simp: OnSendMessage_def Context_vt_simps Context_OnChannelClosed_def send_inv_def)
  next
    case True
    have su: "ch_user ?u = ch_user ?s" "ch_pipe ?u = ch_pipe s" by (simp_all add: Send_user Send_pipe)
    have "send_inv xs ?u"
    proof (cases "ch_pipe s = None")
      case p: True
      then have "?u = ?s\<lparr>ch_queue := ch_queue ?s @ [m]\<rparr>"
        using i True by (intro dead_send) (simp_all add: send_inv_def)
      then show ?thesis using i b p True by (simp add: send_inv_def)
    next
      case False
      then obtain ys where ys: "out_inv ys s" "xs = ys @ m # sends_of ts"
        using i True t by (auto simp: send_inv_def)
      have "out_inv (ys @ [m]) ?u" by (rule out_inv_send) (simp add: ys(1))
      then show ?thesis using ys(2) False True su b unfolding send_inv_def
        by (auto intro: exI [of _ "ys @ [m]"])
    qed
    then show ?thesis using True send_inv_local [OF context_frame.channel_error [OF f]]
      by (simp add: OnSendMessage_def Context_vt_simps split_beta Let_def)
  qed
qed

lemma send_inv_OnOpened:
  assumes f: "context_frame frame_send env" and i: "send_inv xs s"
    and t: "px_ipc (ch_user s) = TOnChannelOpened # ts"
  shows "send_inv xs (Context_OnChannelOpened env (Context_vt env) (take_task ts s))"
proof -
  define s1 where "s1 = on_px (\<lambda>p. p\<lparr>px_refs := px_refs p + 1\<rparr>) (take_task ts s)"
  define u where "u = snd (snd (Channel_Connect (pe_os env) s1))"
  have "send_inv xs (take_task ts s)" by (rule send_inv_take [OF i t]) simp
  then have i1: "send_inv xs s1" unfolding s1_def
    by (rule send_inv_local [OF local_op_on_px, rotated]) (simp add: frame_send_def)
  have g: "px_channel (ch_user s1)" "\<not> ch_output_pending s1" "px_ipc (ch_user s1) = ts"
      "TOnChannelOpened \<notin> set ts"
    using i t by (simp_all add: send_inv_def s1_def on_px_def take_task_def)
  have uu: "ch_user u = ch_user s1" "ch_pipe u = ch_pipe s1"
    by (simp_all add: u_def Connect_user Connect_pipe)
  have "send_inv xs u"
  proof (cases "ch_pipe s1 = None")
    case True
    then have "u = s1\<lparr>ch_thread_check := True\<rparr>" by (simp add: u_def Channel_Connect_def)
    then show ?thesis using i1 g True by (simp add: send_inv_def)
  next
    case False
    then obtain ys where ys: "out_inv ys s1" "xs = ys @ sends_of ts"
      using i1 g by (auto simp: send_inv_def)
    have "out_inv ys u" unfolding u_def by (rule out_inv_Connect [OF ys(1) g(2)])
    then show ?thesis using i1 ys(2) False uu g by (auto simp: send_inv_def)
  qed
  moreover have "Context_OnChannelOpened env (Context_vt env) (take_task ts s) =
      (if \<not> fst (Channel_Connect (pe_os env) s1) then Context_OnChannelError env u
       else for_filters FilterAdded env u)"
    by (simp add: Context_OnChannelOpened_def Let_def Context_vt_simps split_beta s1_def u_def)
  moreover have "local_op frame_send (for_filters FilterAdded env)"
    by (rule context_frame.filters [OF f]) (rule context_frame.filter_added [OF f])
  ultimately show ?thesis
    using send_inv_local [OF context_frame.channel_error [OF f]]
      send_inv_local [of "for_filters FilterAdded env"] by simp
qed

lemma send_inv_OnClosed:
  assumes f: "context_frame frame_send env" and i: "send_inv xs s"
    and no: "TOnChannelOpened \<notin> set (px_ipc (ch_user s))"
  shows "send_inv xs (Context_OnChannelClosed env vt s)"
proof (cases "px_channel (ch_user s)")
  case True
  define s1 where "s1 = for_filters (\<lambda>f t. FilterRemoved f (FilterClosing f t)) env s"
  obtain p where p: "s1 = s\<lparr>ch_user := p\<rparr>" "frame_send (ch_user s) p"
    unfolding s1_def by (rule local_opE [OF context_frame.removing_filters [OF f]])
  have "\<exists>zs. xs = ch_written s @ zs" using i True
    by (auto simp: send_inv_def out_inv_def split: if_splits)
  then show ?thesis using i True no p
    by (simp add: Context_OnChannelClosed_def Let_def s1_def [symmetric] reset_channel_def Close_eq
        on_px_def send_inv_def frame_send_def)
qed (simp add: Context_OnChannelClosed_def i)


lemma send_inv_ipc:
  assumes te: "tame_env env" and i: "send_inv xs s" and t: "px_ipc (ch_user s) = task # ts"
  shows "send_inv xs (run_ipc_task env (Context_vt env) task (take_task ts s))"
proof -
  note f = tame_context [OF te]
  have k: "send_inv xs (take_task ts s)" if "\<forall>m. task \<noteq> TOnSendMessage m"
    using send_inv_take [OF i t that] .
  show ?thesis
  proof (cases task)
    case (TCreateChannel n h mode)
    then have "TCreateChannel n h mode \<in> set (px_ipc (ch_user s))" using t by simp
    then show ?thesis using i unfolding send_inv_def by blast
  next
    case TOnChannelOpened
    then show ?thesis using send_inv_OnOpened [OF f i] t by (simp add: run_ipc_task_def vt_opened)
  next
    case TOnChannelClosed
    moreover have "TOnChannelOpened \<notin> set ts" using i t by (simp add: send_inv_def)
    ultimately show ?thesis using send_inv_OnClosed [OF f k] by (simp add: run_ipc_task_def Context_vt_simps)
  next
    case (TOnSendMessage m)
    then show ?thesis using send_inv_OnSend [OF f i] t by (simp add: run_ipc_task_def)
  next
    case TOnAddFilter
    then show ?thesis using send_inv_local [OF context_frame.add_filters [OF f] k]
      by (simp add: run_ipc_task_def)
  next
    case (TOnRemoveFilter g)
    then show ?thesis using send_inv_local [OF context_frame.remove_filter [OF f] k]
      by (simp add: run_ipc_task_def)
  qed (use k in \<open>simp_all add: run_ipc_task_def\<close>)
qed

lemma send_inv_post:
  assumes "send_inv xs s" "sends_of [t] = []" "t \<noteq> TOnChannelOpened" "\<forall>n h mode. t \<noteq> TCreateChannel n h mode"
  shows "send_inv xs (post_ipc t s)"
  using assms unfolding send_inv_def post_ipc_def on_px_def
  by (cases "px_ipc (ch_user s)") (auto simp: out_inv_def split: if_splits)

lemma send_inv_Send: "send_inv xs s \<Longrightarrow> send_inv (xs @ [pe_rewrite env m]) (snd (ChannelProxy_Send env m s))"
  unfolding send_inv_def ChannelProxy_Send_def post_ipc_def on_px_def
  by (cases "px_ipc (ch_user s)") (auto simp: out_inv_def split: if_splits)

lemma send_inv_listener:
  assumes te: "tame_env env" and i: "send_inv xs s"
    and r: "run_listener_task env task (on_px (\<lambda>p. p\<lparr>px_tasks := ts\<rparr>) s) = Some t"
  shows "send_inv xs t"
proof -
  have l: "send_inv xs (h s)" if "send_inv xs s" "tame h" for h and s :: "'a px"
    by (rule send_inv_local [OF _ that(1)], rule local_op_tame [OF that(2)]) (simp add: frame_send_def)
  have o: "send_inv xs (on_px f s)" if "send_inv xs s" "\<And>p. frame_send p (f p)" for f and s :: "'a px"
    by (rule send_inv_local [OF local_op_on_px that(1)]) (rule that(2))
  have 1: "send_inv xs (on_px (\<lambda>p. p\<lparr>px_tasks := ts\<rparr>) s)" by (rule o [OF i]) (simp add: frame_send_def)
  have c: "send_inv xs (OnDispatchConnected env s)" if "send_inv xs s" for s
    using l o that tame_envD [OF te] by (simp add: OnDispatchConnected_def frame_send_def Let_def)
  show ?thesis using r 1 c l tame_envD [OF te]
    by (cases task) (auto simp: run_listener_task_def OnDispatchMessage_def OnDispatchError_def Let_def
        split: if_splits)
qed

lemma send_inv_step:
  assumes te: "tame_env env" and i: "send_inv xs s"
    and st: "proxy_step env (Context_vt env) ys s t"
  shows "send_inv (xs @ map (pe_rewrite env) ys) t"
  using st
proof (cases rule: proxy_step.cases)
  case (io is_input data n)
  then show ?thesis using send_inv_io [OF te i io(2,3) io(4)] by simp
next
  case (ipc task ts)
  then show ?thesis using send_inv_ipc [OF te i ipc(2)] by (simp add: take_task_def)
next
  case (listener task ts)
  then show ?thesis using send_inv_listener [OF te i listener(3)] by simp
next
  case (send m)
  then show ?thesis using send_inv_Send [OF i] by simp
next
  case (add f)
  have "send_inv xs (on_px (\<lambda>p. p\<lparr>px_pending_filters := px_pending_filters p @ [f]\<rparr>) s)"
    by (rule send_inv_local [OF local_op_on_px i]) (simp add: frame_send_def)
  then show ?thesis using add
    by (simp add: ChannelProxy_AddFilter_def Context_AddFilter_def send_inv_post)
next
  case (remove f)
  then show ?thesis using send_inv_post [OF i] by (simp add: ChannelProxy_RemoveFilter_def)
next
  case close
  have "send_inv xs (Context_Clear s)" unfolding Context_Clear_def
    by (rule send_inv_local [OF local_op_on_px i]) (simp add: frame_send_def)
  then show ?thesis using close
    by (simp add: ChannelProxy_Close_def Context_vt_simps Let_def send_inv_post)
qed

lemma send_inv_run:
  assumes "proxy_run env (Context_vt env) s xs t" "tame_env env" "send_inv zs s"
  shows "send_inv (zs @ map (pe_rewrite env) xs) t"
  using assms
proof (induction rule: proxy_run.induct)
  case (step xs t xs' u)
  then show ?case using send_inv_step [OF step.prems(1) _ step.hyps(2)] by (metis append.assoc map_append)
qed simp

text \<open>C10: in every interleaving of the two threads, of the completions of the channel and of closing,
  what is written to the pipe is a prefix of what was queued in the channel (the hello) followed by the
  messages sent through the proxy, in the order of the calls of \<open>Send\<close>; while the pipe is open nothing
  is lost: the rest is in the queue of the channel and then in the tasks of the IPC thread.\<close>

theorem proxy_sends_in_order:
  assumes "proxy_run env (Context_vt env) s sent t" "tame_env env"
    and "px_channel (ch_user s)" "px_ipc (ch_user s) = [TOnChannelOpened]" "ch_pipe s \<noteq> None"
    and "ch_written s = []" "\<not> ch_output_pending s" "\<not> ch_thread_check s"
  shows "\<exists>rest. ch_queue s @ map (pe_rewrite env) sent = ch_written t @ rest \<and>
    (px_channel (ch_user t) \<and> ch_pipe t \<noteq> None \<longrightarrow>
       rest = (if ch_output_pending t then tl (ch_queue t) else ch_queue t) @ sends_of (px_ipc (ch_user t)))"
proof -
  have "send_inv (ch_queue s) s" using assms(3-8) by (auto simp: send_inv_def out_inv_def)
  from send_inv_run [OF assms(1,2) this] have i: "send_inv (ch_queue s @ map (pe_rewrite env) sent) t" .
  show ?thesis
  proof (cases "px_channel (ch_user t) \<and> ch_pipe t \<noteq> None")
    case True
    then obtain ys where "out_inv ys t"
      "ch_queue s @ map (pe_rewrite env) sent = ys @ sends_of (px_ipc (ch_user t))"
      using i by (auto simp: send_inv_def)
    then show ?thesis using True by (auto simp: out_inv_def)
  next
    case False
    then show ?thesis using i by (auto simp: send_inv_def)
  qed
qed


lemma tame_plain: "tame_env plain_env"
proof -
  have "\<exists>w. s = s\<lparr>ch_user := ch_user s\<lparr>px_world := w\<rparr>\<rparr>" for s :: "listener_log px"
    by (intro exI [of _ "px_world (ch_user s)"]) simp
  then show ?thesis
    by (auto simp: tame_env_def plain_env_def MessageFilter_default_def tame_def note_told_def on_px_def Let_def)
qed

text \<open>A proxy that was just created, with a hello \<open>m\<close> queued.\<close>

definition plain_start :: "message \<Rightarrow> listener_log px" where
  "plain_start m = (plain_channel [])\<lparr>ch_input_pending := False, ch_thread_check := False,
     ch_queue := [m], ch_user := (Context_new 0 \<lparr>lg_told = [], lg_received = []\<rparr>)\<lparr>px_channel := True, px_ipc := [TOnChannelOpened]\<rparr>\<rparr>"

lemma proxy_sends_in_order_witness:
  "\<forall>h m. \<exists>t. proxy_run plain_env (Context_vt plain_env) (plain_start h) [m] t \<and> ch_written t = [h] \<and>
       px_ipc (ch_user t) = [TOnSendMessage m]"
proof (rule allI, rule allI)
  fix h m
  let ?s = "plain_start h"
  let ?u = "run_ipc_task plain_env (Context_vt plain_env) TOnChannelOpened (on_px (\<lambda>p. p\<lparr>px_ipc := []\<rparr>) ?s)"
  let ?t = "snd (ChannelProxy_Send plain_env m ?u)"
  note d = plain_start_def plain_channel_def plain_env_def on_px_def
  have u: "ch_written ?u = [h]" "ch_pipe ?u = Some 5" "px_ipc (ch_user ?u) = []" "px_channel (ch_user ?u)"
      "ch_queue ?u = [h]" "ch_output_pending ?u" "px_tasks (ch_user ?u) = []"
    by (simp_all add: run_ipc_task_def vt_opened Context_OnChannelOpened_def Channel_Connect_def
        ProcessOutgoingMessages_def d for_filters_def Context_new_def Let_def)
  have "proxy_step plain_env (Context_vt plain_env) [] ?s ?u"
    by (rule proxy_step.ipc [OF _ refl]) (simp add: d)
  from proxy_run.step [OF proxy_run.start this]
  have "proxy_run plain_env (Context_vt plain_env) ?s ([] @ []) ?u" by simp
  from proxy_run.step [OF this proxy_step.send [of plain_env "Context_vt plain_env" m ?u]]
  have r: "proxy_run plain_env (Context_vt plain_env) ?s [m] ?t" by simp
  have w: "pe_rewrite plain_env = id" by (simp add: plain_env_def)
  obtain rest where "[h, m] = ch_written ?t @ rest"
      "px_channel (ch_user ?t) \<and> ch_pipe ?t \<noteq> None \<longrightarrow>
       rest = (if ch_output_pending ?t then tl (ch_queue ?t) else ch_queue ?t) @ sends_of (px_ipc (ch_user ?t))"
    using proxy_sends_in_order [OF r tame_plain] w by (auto simp: d Context_new_def)
  moreover have "px_ipc (ch_user ?t) = [TOnSendMessage m]" "px_channel (ch_user ?t)" "ch_pipe ?t = Some 5"
      "ch_queue ?t = [h]" "ch_output_pending ?t"
    using u w by (simp_all add: ChannelProxy_Send_def post_ipc_def on_px_def)
  ultimately have "ch_written ?t = [h] \<and> px_ipc (ch_user ?t) = [TOnSendMessage m]" by simp
  with r show "\<exists>t. proxy_run plain_env (Context_vt plain_env) ?s [m] t \<and> ch_written t = [h] \<and>
      px_ipc (ch_user t) = [TOnSendMessage m]" by blast
qed


text \<open>A message arrives and is handed to the listener.\<close>

lemma listener_in_order_witness:
  "\<exists>d t. length d = 16 \<and>
     proxy_run plain_env (observed_vt plain_env) (plain_channel []) [] t \<and>
     (\<exists>pid. lg_told (px_world (ch_user t)) = [Connected pid, Received (frame_message d)])"
proof -
  obtain m where m: "msg_inv m" "psize m = 0" "m_routing m = 9" "m_type m = 1"
    using fresh_message by blast
  have s: "16 + psize m < 2 ^ 31" using m(2) by simp
  then obtain d where d: "pickle_data m = Some d" using message_wire [OF m(1)] by blast
  note f = message_is_frame [OF m(1) s d]
  have l: "length d = 16" using f(2) m(2) by simp
  have ty: "msg_type (frame_message d) = Some 1"
    using f(4) header_fields [OF msg_inv_ok [OF m(1)]] m(4) by simp
  then have nh: "\<not> IsHelloMessage (frame_message d)"
    by (simp add: IsHelloMessage_def HELLO_MESSAGE_TYPE_def)
  have fr: "frames d = ([frame_message d], [])" using frames_concat [of "[d]"] f(1) by simp
  let ?vt = "observed_vt plain_env" and ?lst = "context_listener plain_env (observed_vt plain_env)"
  let ?s = "(plain_channel []) :: listener_log px"
  let ?t = "OnIOCompleted (pe_os plain_env) ?lst 0x10000 0x20000 True d 16 ?s"
  let ?c = "Channel_Close (pe_os plain_env) ?lst 0x10000 0x20000"
  have D: "DispatchInputData (win_ops (pe_os plain_env) ?lst ?c) 0x10000 0x20000 d [] u =
      (True, [], note_received (frame_message d) (post_listener (TDispatchMessage (frame_message d)) u))"
    if "\<not> ch_validate_client u" "px_filters (ch_user u) = []" for u
    using that nh l
    by (subst win.dispatch_exact)
      (simp_all add: kReadBufferSize_def fr deliver_def win_ops_def WillDispatchInputMessage_def
        context_listener_def observed_vt_def Context_OnMessageReceived_def TryFilters_def
        OnMessageReceivedNoFilter_def)
  have rd: "os_ReadFile (pe_os plain_env) x = (True, 0)" for x by (simp add: plain_env_def)
  have rw: "ReadData (win_ops os lst c) = Win_ReadData os" for os :: "listener_log proxy os_calls" and lst c
    by (simp add: win_ops_def)
  have t: "px_tasks (ch_user ?t) = [TDispatchMessage (frame_message d)]" "px_listener (ch_user ?t)"
      "\<not> px_connected_called (ch_user ?t)" "px_world (ch_user ?t) = \<lparr>lg_told = [], lg_received = [frame_message d]\<rparr>"
    by (simp_all add: OnIOCompleted_def OnIOCompleted_with_def connect_half_def plain_channel_def
        read_half_def ProcessIncoming_win AsyncReadComplete_def D Context_new_def store_input_def
        Win_ReadData_def rd rw finish_io_def Let_def post_listener_def note_received_def on_px_def)
  have io: "proxy_step plain_env ?vt [] ?s ?t"
    by (rule proxy_step.io [where is_input = True and n = 16 and data = d])
      (simp_all add: plain_channel_def plain_env_def)
  have r1: "proxy_run plain_env ?vt ?s [] ?t" using proxy_run.step [OF proxy_run.start io] by simp
  obtain u where u: "run_listener_task plain_env (TDispatchMessage (frame_message d))
      (on_px (\<lambda>p. p\<lparr>px_tasks := []\<rparr>) ?t) = Some u" "px_tasks (ch_user u) = []" "px_listener (ch_user u)"
      "lg_received (px_world (ch_user u)) = [frame_message d]" "lg_told (px_world (ch_user u)) \<noteq> []"
      "filter (\<lambda>e. e \<noteq> Failed) (lg_told (px_world (ch_user u))) = lg_told (px_world (ch_user u))"
    using t by (simp add: run_listener_task_def OnDispatchMessage_def OnDispatchConnected_def on_px_def
        plain_env_def note_told_def Let_def)
  from proxy_run.step [OF r1 proxy_step.listener [OF t(1) u(1)]]
  have r2: "proxy_run plain_env ?vt ?s [] u" by simp
  have "ch_user ?s = (Context_new 0 \<lparr>lg_told = [], lg_received = []\<rparr>)\<lparr>px_channel := True, px_ipc := []\<rparr>"
    by (simp add: plain_channel_def Context_new_def)
  from listener_in_order [OF r2 plain_logging this] obtain ms rest pid where
    "[frame_message d] = ms @ rest" "rest = []"
    "lg_told (px_world (ch_user u)) = Connected pid # map Received ms"
    using u by auto
  then have "lg_told (px_world (ch_user u)) = [Connected pid, Received (frame_message d)]" by auto
  with r2 l show ?thesis by blast
qed

end
