(* ===== verification/SyncMessage_Props.thy ===== *)
theory SyncMessage_Props
  imports Message_Props
begin

text \<open>
  Synchronous messages: the id written in front of the payload, the reply that repeats it, and the
  iterator behind it.
\<close>

section \<open>The id in front of the payload\<close>

text \<open>\<open>carries i cs m\<close>: the payload of \<open>m\<close> is the id \<open>i\<close> followed by the chunks \<open>cs\<close>.\<close>

definition carries :: "i32 \<Rightarrow> bytes list \<Rightarrow> message \<Rightarrow> bool" where
  "carries i cs m \<longleftrightarrow> msg_ok m \<and> payload m = wire0 (bytes32 i # cs)"

lemma ReadSyncHeader_id: "carries i cs m \<Longrightarrow> ReadSyncHeader m = Some (Some i)"
proof -
  assume c: "carries i cs m"
  obtain it where it: "PickleIterator m = Some it" "positioned it (bytes32 i # cs)"
    using payload_iterator c unfolding carries_def by blast
  obtain it' where "ReadInt it = (Some i, it')"
    using prim_reads(1) [of i cs] it(2) unfolding reads_def by blast
  then show ?thesis using it(1) by (simp add: ReadSyncHeader_def)
qed

lemma GetMessageId_id:
  assumes "carries i cs m" "is_sync m = Some True \<or> is_reply m = Some True"
  shows "GetMessageId m = Some i"
proof -
  have "\<exists>s r. is_sync m = Some s \<and> is_reply m = Some r"
    using header_fields(5) assms(1) by (auto simp: carries_def is_sync_def is_reply_def)
  then show ?thesis using assms ReadSyncHeader_id by (auto simp: GetMessageId_def)
qed

lemma GetDataIterator_positioned:
  assumes "carries i cs m" shows "\<exists>it. GetDataIterator m = Some it \<and> positioned it cs"
proof -
  obtain it where it: "PickleIterator m = Some it" "positioned it (bytes32 i # cs)"
    using payload_iterator assms unfolding carries_def by blast
  obtain it' where "SkipBytes 4 it = (Some (), it')" "positioned it' cs"
    using SkipBytes_reads [of 4 "bytes32 i" cs] it(2) unfolding reads_def by auto
  then show ?thesis using it(1) by (auto simp: GetDataIterator_def kSyncMessageHeaderSize_def)
qed

lemma WriteSyncHeader_carries:
  assumes "realloc_ok ra" "alloc_total ra" "msg_inv m" "psize m = 0"
  obtains m' where "WriteSyncHeader ra i m = Some (True, m')" "msg_inv m'" "carries i [] m'"
    "\<forall>off. mword off m' = mword off m" "psize m' = 4"
proof -
  have p: "pickle_inv m" "hsize m = 16" using assms(3) by (simp_all add: msg_inv_def)
  have "room [bytes32 i] m" using p assms(4) by (simp add: room_def align4_def)
  then obtain m' where m': "WriteInt ra i m = Some (True, m')" "pickle_inv m'"
    "appends [bytes32 i] m m'"
    using writesD [OF prim_writes(1) assms(1,2) p(1)] by blast
  note h = appends_header [OF assms(3) m'(2,3)]
  have "payload m = []" using assms(4) by (simp add: payload_def)
  then have "payload m' = wire0 [bytes32 i]" using appends_payload [OF p(1) m'(3)] assms(4) by simp
  moreover have "psize m' = 4" using m'(3) assms(4) by (simp add: appends_def align4_def)
  ultimately show thesis
    using that [of m'] m'(1) h msg_inv_ok by (simp add: WriteSyncHeader_def carries_def)
qed

lemma carries_wire:
  assumes "carries i cs m" "msg_inv m" "16 + psize m < 2 ^ 31"
  obtains d q where "pickle_data m = Some d" "Message_from_data d (of_nat (length d)) = Some q"
    "carries i cs q" "routing_id q = routing_id m" "msg_type q = msg_type m" "flags q = flags m"
  using message_wire [OF assms(2,3)] assms(1) by (auto simp: carries_def)

section \<open>Requests and replies\<close>

lemma SyncMessage_new_spec:
  fixes des :: "'d option"
  assumes ra: "realloc_ok ra" "alloc_total ra" and prio: "prio \<le> 3"
  shows "\<exists>s :: ('d, 'e) sync_message.
     SyncMessage_new ra pid routing type prio des g_ref g_id = Some (s, g_ref + 1, g_id + 1) \<and>
     msg_inv (sm_msg s) \<and> carries g_id [] (sm_msg s) \<and> psize (sm_msg s) = 4 \<and>
     m_routing (sm_msg s) = routing \<and> m_type (sm_msg s) = type \<and>
     m_flags (sm_msg s) = (prio OR fst (GetRefNumUpper24 pid g_ref)) OR (SYNC_BIT OR UNBLOCK_BIT) \<and>
     sm_deserializer s = des"
proof -
  obtain m0 where m0: "Message_new ra pid routing type prio g_ref = Some (m0, g_ref + 1)"
    "msg_inv m0" "m_routing m0 = routing" "m_type m0 = type"
    "m_flags m0 = prio OR fst (GetRefNumUpper24 pid g_ref)" "psize m0 = 0"
    using Message_new_spec [OF ra] by blast
  obtain m1 where m1: "set_sync m0 = Some m1"
    "updates m0 m1 (m_routing m0) (m_type m0) (m_flags m0 OR SYNC_BIT)"
    using flag_on_updates [OF m0(2)] by (auto simp: set_sync_def)
  obtain m2 where m2: "set_unblock True m1 = Some m2"
    "updates m1 m2 (m_routing m1) (m_type m1) (m_flags m1 OR UNBLOCK_BIT)"
    using flag_on_updates [OF updates_inv [OF m1(2)]] by (auto simp: set_unblock_def)
  have z: "psize m2 = 0" using m0(6) m1(2) m2(2) by (simp add: updates_def)
  obtain m3 where m3: "WriteSyncHeader ra g_id m2 = Some (True, m3)" "msg_inv m3"
    "carries g_id [] m3" "\<forall>off. mword off m3 = mword off m2" "psize m3 = 4"
    by (rule WriteSyncHeader_carries [OF ra updates_inv [OF m2(2)] z, of g_id])
  have "SyncMessage_new ra pid routing type prio des g_ref g_id =
      Some (\<lparr>sm_msg = m3, sm_deserializer = des, sm_pump_event = None\<rparr>, g_ref + 1, g_id + 1)"
    using m0(1) m1(1) m2(1) m3(1) by (simp add: SyncMessage_new_def GetNext_def)
  then show ?thesis using m0 m1(2) m2(2) m3(2-5)
    by (intro exI [of _ "\<lparr>sm_msg = m3, sm_deserializer = des, sm_pump_event = None\<rparr>"])
       (simp add: updates_def or.assoc)
qed

lemma sync_flags:
  assumes "prio \<le> 3" "f = (prio OR fst (GetRefNumUpper24 pid g)) OR (SYNC_BIT OR UNBLOCK_BIT)"
  shows "f AND SYNC_BIT \<noteq> 0" "f AND UNBLOCK_BIT \<noteq> 0" "f AND REPLY_BIT = 0"
    "f AND PUMPING_MSGS_BIT = 0" "f AND PRIORITY_MASK = prio"
  using Message_new_flags [OF assms(1), of pid g]
  unfolding assms(2) bit.conj_disj_distrib2 by (auto simp: flag_bits)

text \<open>a new synchronous message is marked synchronous and unblocking, is no reply, keeps its
  routing id, type and priority, and its id is the next number of the process's sequence.\<close>

theorem new_sync_message:
  assumes "realloc_ok ra" "alloc_total ra" "prio \<le> 3"
  shows "\<exists>s :: ('d, 'e) sync_message.
     SyncMessage_new ra pid routing type prio des g_ref g_id = Some (s, g_ref + 1, g_id + 1) \<and>
     is_sync (sm_msg s) = Some True \<and> should_unblock (sm_msg s) = Some True \<and>
     is_reply (sm_msg s) = Some False \<and> is_caller_pumping_messages (sm_msg s) = Some False \<and>
     routing_id (sm_msg s) = Some routing \<and> msg_type (sm_msg s) = Some type \<and>
     priority (sm_msg s) = Some prio \<and> GetMessageId (sm_msg s) = Some g_id"
proof -
  obtain s :: "('d, 'e) sync_message" where s:
    "SyncMessage_new ra pid routing type prio des g_ref g_id = Some (s, g_ref + 1, g_id + 1)"
    "msg_inv (sm_msg s)" "carries g_id [] (sm_msg s)"
    "m_routing (sm_msg s) = routing" "m_type (sm_msg s) = type"
    "m_flags (sm_msg s) = (prio OR fst (GetRefNumUpper24 pid g_ref)) OR (SYNC_BIT OR UNBLOCK_BIT)"
    using SyncMessage_new_spec [OF assms] by blast
  note h = header_fields [OF msg_inv_ok [OF s(2)]]
  have "is_sync (sm_msg s) = Some True" using h sync_flags [OF assms(3) s(6)] by (simp add: is_sync_def)
  then show ?thesis
    using s h sync_flags [OF assms(3) s(6)] GetMessageId_id [OF s(3)] by (auto simp: is_flag_defs)
qed

lemma new_sync_message_witness:
  "\<exists>s :: (nat, nat) sync_message. SyncMessage_new zero_realloc None 3 70001 2 None 10 7 = Some (s, 11, 8) \<and>
      GetMessageId (sm_msg s) = Some 7"
  using new_sync_message [OF zero_realloc_ok, of 2 None 3 70001 None 10 7] by auto

lemma GenerateReply_spec:
  assumes ra: "realloc_ok ra" "alloc_total ra" and c: "carries i cs m" and s: "is_sync m = Some True"
  shows "\<exists>r. GenerateReply ra pid m g = Some (r, g + 1) \<and> msg_inv r \<and> carries i [] r \<and>
     psize r = 4 \<and> m_routing r = m_routing m \<and> m_type r = IPC_REPLY_ID \<and>
     m_flags r AND PRIORITY_MASK = m_flags m AND PRIORITY_MASK \<and>
     is_reply r = Some True \<and> is_sync r = Some False \<and> is_reply_error r = Some False"
proof -
  let ?p = "m_flags m AND PRIORITY_MASK"
  have mok: "msg_ok m" using c by (simp add: carries_def)
  note hm = header_fields [OF mok]
  have "?p \<le> 3" by (simp add: PRIORITY_MASK_def word_and_le1)
  note fl = Message_new_flags [OF this, of pid g]
  obtain r0 where r0: "Message_new ra pid (m_routing m) IPC_REPLY_ID ?p g = Some (r0, g + 1)"
    "msg_inv r0" "m_routing r0 = m_routing m" "m_type r0 = IPC_REPLY_ID"
    "m_flags r0 = ?p OR fst (GetRefNumUpper24 pid g)" "psize r0 = 0"
    using Message_new_spec [OF ra] by blast
  obtain r1 where r1: "set_reply r0 = Some r1"
    "updates r0 r1 (m_routing r0) (m_type r0) (m_flags r0 OR REPLY_BIT)"
    using flag_on_updates [OF r0(2)] by (auto simp: set_reply_def)
  have z: "psize r1 = 0" using r0(6) r1(2) by (simp add: updates_def)
  obtain r2 where r2: "WriteSyncHeader ra i r1 = Some (True, r2)" "msg_inv r2"
    "carries i [] r2" "\<forall>off. mword off r2 = mword off r1" "psize r2 = 4"
    by (rule WriteSyncHeader_carries [OF ra updates_inv [OF r1(2)] z, of i])
  have G: "GenerateReply ra pid m g = Some (r2, g + 1)"
    using hm(1,4) r0(1) r1(1) r2(1) GetMessageId_id [OF c] s by (simp add: GenerateReply_def)
  have f: "m_flags r2 = (?p OR fst (GetRefNumUpper24 pid g)) OR REPLY_BIT"
    using r0(5) r1(2) r2(4) by (simp add: updates_def)
  have "m_flags r2 AND REPLY_BIT \<noteq> 0" "m_flags r2 AND SYNC_BIT = 0" "m_flags r2 AND PRIORITY_MASK = ?p"
    "m_flags r2 AND REPLY_ERROR_BIT = 0"
    unfolding f bit.conj_disj_distrib2 [of _ REPLY_BIT] fl by (simp_all add: flag_bits)
  then show ?thesis
    using G r0(3,4) r1(2) r2 header_fields [OF msg_inv_ok [OF r2(2)]]
    by (intro exI [of _ r2]) (simp add: updates_def is_flag_defs)
qed

lemma reply_matches:
  assumes "carries i cs r" "is_reply r = Some True"
  shows "IsMessageReplyTo r j = Some (j = i)"
  using GetMessageId_id [OF assms(1)] assms(2) by (auto simp: IsMessageReplyTo_def)

text \<open>a synchronous call across the wire.  The request is sent as bytes, the receiver generates
  a reply to what it received, the reply is sent as bytes, and the caller recognises it as the reply
  to its own request and to no other; routing id and priority are those of the request.\<close>

theorem sync_call_pairs:
  assumes ra: "realloc_ok ra" "alloc_total ra" and prio: "prio \<le> 3"
  shows "\<exists>(s :: ('d, 'e) sync_message) d q r e a.
     SyncMessage_new ra pid routing type prio des g_ref g_id = Some (s, g_ref + 1, g_id + 1) \<and>
     pickle_data (sm_msg s) = Some d \<and> Message_from_data d (of_nat (length d)) = Some q \<and>
     GenerateReply ra pid' q g' = Some (r, g' + 1) \<and>
     pickle_data r = Some e \<and> Message_from_data e (of_nat (length e)) = Some a \<and>
     (\<forall>j. IsMessageReplyTo a j = Some (j = g_id)) \<and> msg_type a = Some IPC_REPLY_ID \<and>
     routing_id a = Some routing \<and> priority a = Some prio"
proof -
  obtain s :: "('d, 'e) sync_message" where s:
    "SyncMessage_new ra pid routing type prio des g_ref g_id = Some (s, g_ref + 1, g_id + 1)"
    "msg_inv (sm_msg s)" "carries g_id [] (sm_msg s)" "psize (sm_msg s) = 4"
    "m_routing (sm_msg s) = routing"
    "m_flags (sm_msg s) = (prio OR fst (GetRefNumUpper24 pid g_ref)) OR (SYNC_BIT OR UNBLOCK_BIT)"
    using SyncMessage_new_spec [OF assms] by blast
  have "16 + psize (sm_msg s) < 2 ^ 31" using s(4) by simp
  then obtain d q where q: "pickle_data (sm_msg s) = Some d"
    "Message_from_data d (of_nat (length d)) = Some q" "carries g_id [] q"
    "routing_id q = routing_id (sm_msg s)" "flags q = flags (sm_msg s)"
    using carries_wire [OF s(3,2)] by blast
  have okq: "msg_ok q" using q(3) by (simp add: carries_def)
  have fq: "m_flags q = m_flags (sm_msg s)" "m_routing q = routing"
    using q(4,5) s(5) header_fields [OF okq] header_fields [OF msg_inv_ok [OF s(2)]] by simp_all
  note fl = sync_flags [OF prio s(6)]
  have "is_sync q = Some True" using header_fields [OF okq] fq fl by (simp add: is_sync_def)
  then obtain r where r: "GenerateReply ra pid' q g' = Some (r, g' + 1)" "msg_inv r"
    "carries g_id [] r" "psize r = 4" "m_routing r = m_routing q" "m_type r = IPC_REPLY_ID"
    "m_flags r AND PRIORITY_MASK = m_flags q AND PRIORITY_MASK" "is_reply r = Some True"
    using GenerateReply_spec [OF ra q(3)] by blast
  have "16 + psize r < 2 ^ 31" using r(4) by simp
  then obtain e a where a: "pickle_data r = Some e"
    "Message_from_data e (of_nat (length e)) = Some a" "carries g_id [] a"
    "routing_id a = routing_id r" "msg_type a = msg_type r" "flags a = flags r"
    using carries_wire [OF r(3,2)] by blast
  have "is_reply a = Some True" using a(6) r(8) by (simp add: is_reply_def has_flag_def)
  then have m: "\<forall>j. IsMessageReplyTo a j = Some (j = g_id)"
    using reply_matches [OF a(3)] by blast
  have "priority a = Some prio" "routing_id a = Some routing" "msg_type a = Some IPC_REPLY_ID"
    using a(4-6) r(5-7) fq fl(5) header_fields [OF msg_inv_ok [OF r(2)]]
    by (simp_all add: priority_def)
  then show ?thesis using s(1) q(1,2) r(1) a(1,2) m by blast
qed

lemma sync_call_pairs_witness:
  "\<exists>(s :: (nat, nat) sync_message) q r e a.
     SyncMessage_new zero_realloc None 3 70001 2 None 0 41 = Some (s, 1, 42) \<and>
     GenerateReply zero_realloc (Some 8) q 5 = Some (r, 6) \<and> pickle_data r = Some e \<and>
     Message_from_data e (of_nat (length e)) = Some a \<and>
     IsMessageReplyTo a 41 = Some True \<and> IsMessageReplyTo a 40 = Some False"
proof -
  have "(40 :: u32) \<noteq> 41" by simp
  then show ?thesis
    using sync_call_pairs [where ?'d = nat and ?'e = nat, OF zero_realloc_ok,
      of 2 None 3 70001 None 0 41 "Some 8" 5] by force
qed

end
