(* ===== verification/SyncChannel.thy ===== *)
theory SyncChannel
  imports ChannelProxy_Props SyncMessage_Props
begin

text \<open>
  \<open>ipc/ipc_sync_channel.{h,cc}\<close>: synchronous calls over a proxy.  The state is that of one listener's
  thread: its sync channels are numbered, \<open>sy_ctx c\<close> has the members of \<open>SyncContext\<close> of channel \<open>c\<close>
  and \<open>sy_px c\<close> the proxy (\<open>ChannelProxy\<close>) it extends; \<open>sy_queue\<close> is the \<open>ReceivedSyncMsgQueue\<close> they
  share.  A \<open>WaitableEvent\<close> is a Boolean.  \<open>'r\<close> is what a reply deserializer delivers.

  \<open>Send\<close> blocks, so it is cut where it waits: \<open>Send_begin\<close> is the part before \<open>WaitForReply\<close>, \<open>wait_step\<close>
  one round of its loop and \<open>Context_Pop\<close> what follows.  The virtual functions of \<open>Context\<close> that
  \<open>SyncContext\<close> overrides are called directly in the operations of the base class that call them.
\<close>

section \<open>Data\<close>

record 'r pending_send =
  ps_id :: i32
  ps_reader :: "iter \<Rightarrow> 'r option"
  ps_done :: bool
  ps_send_result :: bool
  ps_output :: "'r option"

record 'r sync_ctx =
  sc_deserializers :: "'r pending_send list"
  sc_group :: int
  sc_watching :: bool

record msg_queue =
  rq_messages :: "(message \<times> nat) list"
  rq_version :: u32
  rq_replies :: "(message \<times> nat) list"
  rq_dispatch_event :: bool
  rq_task_pending :: bool
  rq_listener_count :: int
  rq_top_watcher :: "nat option"

record ('r, 'w) sync_state =
  sy_ctx :: "nat \<Rightarrow> 'r sync_ctx"
  sy_px :: "nat \<Rightarrow> 'w px"
  sy_queue :: msg_queue
  sy_tls :: bool
  sy_shutdown :: bool
  sy_quit :: bool

definition kRestrictDispatchGroup_None :: int where "kRestrictDispatchGroup_None = 0"
definition kNoTimeout :: int where "kNoTimeout = -1"

definition on_ctx ::
    "nat \<Rightarrow> ('r sync_ctx \<Rightarrow> 'r sync_ctx) \<Rightarrow> ('r, 'w) sync_state \<Rightarrow> ('r, 'w) sync_state" where
  "on_ctx c f s = s\<lparr>sy_ctx := (sy_ctx s)(c := f (sy_ctx s c))\<rparr>"

definition on_proxy :: "nat \<Rightarrow> ('w px \<Rightarrow> 'w px) \<Rightarrow> ('r, 'w) sync_state \<Rightarrow> ('r, 'w) sync_state" where
  "on_proxy c f s = s\<lparr>sy_px := (sy_px s)(c := f (sy_px s c))\<rparr>"

definition on_queue :: "(msg_queue \<Rightarrow> msg_queue) \<Rightarrow> ('r, 'w) sync_state \<Rightarrow> ('r, 'w) sync_state" where
  "on_queue f s = s\<lparr>sy_queue := f (sy_queue s)\<rparr>"

definition new_queue :: msg_queue where
  "new_queue = \<lparr>rq_messages = [], rq_version = 0, rq_replies = [], rq_dispatch_event = False,
     rq_task_pending = False, rq_listener_count = 0, rq_top_watcher = None\<rparr>"

section \<open>The queue of the thread\<close>

text \<open>The contexts of an earlier queue of the same thread, all removed, are not followed.\<close>

definition AddContext :: "('r, 'w) sync_state \<Rightarrow> ('r, 'w) sync_state" where
  "AddContext s =
     (let s1 = (if \<not> sy_tls s then s\<lparr>sy_tls := True, sy_queue := new_queue\<rparr> else s)
      in on_queue (\<lambda>q. q\<lparr>rq_listener_count := rq_listener_count q + 1\<rparr>) s1)"

definition QueueMessage :: "message \<Rightarrow> nat \<Rightarrow> ('r, 'w) sync_state \<Rightarrow> ('r, 'w) sync_state" where
  "QueueMessage m c s =
     (let was_task_pending = rq_task_pending (sy_queue s);
          s1 = on_queue (\<lambda>q. q\<lparr>rq_task_pending := True, rq_messages := rq_messages q @ [(m, c)],
                               rq_version := rq_version q + 1\<rparr>) s;
          s2 = on_queue (\<lambda>q. q\<lparr>rq_dispatch_event := True\<rparr>) s1
      in if \<not> was_task_pending then on_proxy c (post_listener TDispatchMessagesTask) s2 else s2)"

definition QueueReply :: "message \<Rightarrow> nat \<Rightarrow> ('r, 'w) sync_state \<Rightarrow> ('r, 'w) sync_state" where
  "QueueReply m c = on_queue (\<lambda>q. q\<lparr>rq_replies := rq_replies q @ [(m, c)]\<rparr>)"

text \<open>The scan \<open>for (; it != message_queue_.end(); it++)\<close> from position \<open>i\<close>: the first position whose
  context is in no group or in the dispatching one.\<close>

definition eligible :: "(nat \<Rightarrow> int) \<Rightarrow> int \<Rightarrow> message \<times> nat \<Rightarrow> bool" where
  "eligible group_of g e \<longleftrightarrow>
     group_of (snd e) = kRestrictDispatchGroup_None \<or> group_of (snd e) = g"

fun scan_from :: "(message \<times> nat \<Rightarrow> bool) \<Rightarrow> nat \<Rightarrow> (message \<times> nat) list \<Rightarrow> nat option" where
  "scan_from P i [] = None"
| "scan_from P i (e # es) =
     (if i = 0 then (if P e then Some 0 else map_option Suc (scan_from P 0 es))
      else map_option Suc (scan_from P (i - 1) es))"

lemma scan_from_bound: "scan_from P i es = Some k \<Longrightarrow> i \<le> k \<and> k < length es \<and> P (es ! k)"
proof (induction P i es arbitrary: k rule: scan_from.induct)
  case (2 P i e es)
  then show ?case by (cases i) (auto split: if_splits)
qed simp

text \<open>The loop of \<open>DispatchMessages\<close>: \<open>first\<close>, \<open>expected\<close> and \<open>i\<close> are \<open>first_time\<close>, \<open>expected_version\<close> and the
  iterator \<open>it\<close>; \<open>None\<close> is a call on a null listener.  The lock is not held while a message is dispatched:
  \<open>others\<close> lists what happens to the state then, round by round (the IPC thread queues messages, the
  handler dispatches or removes some itself); in the rounds after its end nothing does.\<close>

fun meanwhile :: "('s \<Rightarrow> 's) list \<Rightarrow> 's \<Rightarrow> 's" where
  "meanwhile [] s = s"
| "meanwhile (f # fs) s = f s"

function dispatch_messages ::
    "(nat \<Rightarrow> 'w proxy_env) \<Rightarrow> (('r, 'w) sync_state \<Rightarrow> ('r, 'w) sync_state) list \<Rightarrow> nat \<Rightarrow> bool \<Rightarrow> u32 \<Rightarrow> nat \<Rightarrow>
     ('r, 'w) sync_state \<Rightarrow> ('r, 'w) sync_state option"
  where
  "dispatch_messages env others c first expected i s =
     (let q = sy_queue s;
          it = (if first \<or> rq_version q \<noteq> expected then 0 else i);
          group_of = (\<lambda>d. sc_group (sy_ctx s d))
      in case scan_from (eligible group_of (group_of c)) it (rq_messages q) of
           None \<Rightarrow> Some s
         | Some k \<Rightarrow>
             let (m, d) = rq_messages q ! k;
                 s1 = on_queue (\<lambda>q. q\<lparr>rq_messages := take k (rq_messages q) @ drop (Suc k) (rq_messages q),
                                      rq_version := rq_version q + 1\<rparr>) s
             in case OnDispatchMessage (env d) m (sy_px s1 d) of
                  None \<Rightarrow> None
                | Some p \<Rightarrow>
                    dispatch_messages env (tl others) c False (rq_version (sy_queue s1)) k
                      (meanwhile others (on_proxy d (\<lambda>_. p) s1)))"
  by auto
termination
proof (relation "measures [\<lambda>(_, others, _). length others, \<lambda>(_, _, _, _, _, _, s). length (rq_messages (sy_queue s))]",
    goal_cases)
  case (2 env others)
  then show ?case by (cases others) (auto simp: on_queue_def on_proxy_def dest!: scan_from_bound)
qed simp

declare dispatch_messages.simps [simp del]

definition Queue_DispatchMessages ::
    "(nat \<Rightarrow> 'w proxy_env) \<Rightarrow> (('r, 'w) sync_state \<Rightarrow> ('r, 'w) sync_state) list \<Rightarrow> nat \<Rightarrow> ('r, 'w) sync_state
      \<Rightarrow> ('r, 'w) sync_state option" where
  "Queue_DispatchMessages env others c s = dispatch_messages env others c True 0 0 s"

text \<open>In the runs of the two threads (\<open>sync_run\<close>) dispatching is one step, and what handlers and the IPC
  thread do meanwhile are the steps after it.\<close>

definition Context_DispatchMessages ::
    "(nat \<Rightarrow> 'w proxy_env) \<Rightarrow> nat \<Rightarrow> ('r, 'w) sync_state \<Rightarrow> ('r, 'w) sync_state option" where
  "Context_DispatchMessages env c s = Queue_DispatchMessages env [] c s"

definition DispatchMessagesTask ::
    "(nat \<Rightarrow> 'w proxy_env) \<Rightarrow> nat \<Rightarrow> ('r, 'w) sync_state \<Rightarrow> ('r, 'w) sync_state option" where
  "DispatchMessagesTask env c s =
     Context_DispatchMessages env c (on_queue (\<lambda>q. q\<lparr>rq_task_pending := False\<rparr>) s)"

definition RemoveContext :: "nat \<Rightarrow> ('r, 'w) sync_state \<Rightarrow> ('r, 'w) sync_state" where
  "RemoveContext c s =
     (let q = sy_queue s;
          kept = filter (\<lambda>e. snd e \<noteq> c) (rq_messages q);
          s1 = on_queue (\<lambda>q. q\<lparr>rq_messages := kept,
                  rq_version := rq_version q + of_nat (length (rq_messages q) - length kept),
                  rq_listener_count := rq_listener_count q - 1\<rparr>) s
      in if rq_listener_count (sy_queue s1) = 0 then s1\<lparr>sy_tls := False\<rparr> else s1)"

section \<open>The context\<close>

text \<open>The innermost pending message is the last one of \<open>deserializers_\<close>.\<close>

definition Context_Push ::
    "nat \<Rightarrow> i32 \<Rightarrow> (iter \<Rightarrow> 'r option) \<Rightarrow> ('r, 'w) sync_state \<Rightarrow> ('r, 'w) sync_state" where
  "Context_Push c message_id reader =
     on_ctx c (\<lambda>x. x\<lparr>sc_deserializers := sc_deserializers x @
       [\<lparr>ps_id = message_id, ps_reader = reader, ps_done = False, ps_send_result = False,
         ps_output = None\<rparr>]\<rparr>)"

definition Context_Pop ::
    "nat \<Rightarrow> ('r, 'w) sync_state \<Rightarrow> (bool \<times> 'r option \<times> ('r, 'w) sync_state) option" where
  "Context_Pop c s =
     (if sc_deserializers (sy_ctx s c) = [] then None
      else let p = last (sc_deserializers (sy_ctx s c));
               s1 = on_ctx c (\<lambda>x. x\<lparr>sc_deserializers := butlast (sc_deserializers x)\<rparr>) s
           in Some (ps_send_result p, ps_output p, on_proxy c (post_ipc TDispatchReplies) s1))"

text \<open>An answer for the pending message \<open>p\<close>: the outputs are written unless it is an error reply.\<close>

definition accept_reply :: "message \<Rightarrow> 'r pending_send \<Rightarrow> 'r pending_send" where
  "accept_reply m p =
     (if is_reply_error m \<noteq> Some True
      then (case SerializeOutputParameters (ps_reader p) m of
              None \<Rightarrow> p\<lparr>ps_send_result := False, ps_done := True\<rparr>
            | Some out \<Rightarrow> p\<lparr>ps_send_result := (out \<noteq> None), ps_output := out, ps_done := True\<rparr>)
      else p\<lparr>ps_done := True\<rparr>)"

definition TryToUnblockListener ::
    "nat \<Rightarrow> message \<Rightarrow> ('r, 'w) sync_state \<Rightarrow> bool \<times> ('r, 'w) sync_state" where
  "TryToUnblockListener c m s =
     (let ds = sc_deserializers (sy_ctx s c)
      in if ds = [] \<or> IsMessageReplyTo m (ps_id (last ds)) \<noteq> Some True then (False, s)
         else (True, on_ctx c (\<lambda>x. x\<lparr>sc_deserializers := butlast ds @ [accept_reply m (last ds)]\<rparr>) s))"

text \<open>\<open>DispatchReplies\<close>: the first queued reply that unblocks its context is removed, and that ends it.\<close>

fun dispatch_replies ::
    "(message \<times> nat) list \<Rightarrow> ('r, 'w) sync_state \<Rightarrow> (message \<times> nat) list \<times> ('r, 'w) sync_state" where
  "dispatch_replies [] s = ([], s)"
| "dispatch_replies ((m, c) # rs) s =
     (let (ok, s') = TryToUnblockListener c m s
      in if ok then (rs, s') else let (rs', t) = dispatch_replies rs s in ((m, c) # rs', t))"

definition DispatchReplies :: "('r, 'w) sync_state \<Rightarrow> ('r, 'w) sync_state" where
  "DispatchReplies s =
     (let (rs, s') = dispatch_replies (rq_replies (sy_queue s)) s
      in on_queue (\<lambda>q. q\<lparr>rq_replies := rs\<rparr>) s')"

definition CancelPendingSends :: "nat \<Rightarrow> ('r, 'w) sync_state \<Rightarrow> ('r, 'w) sync_state" where
  "CancelPendingSends c =
     on_ctx c (\<lambda>x. x\<lparr>sc_deserializers := map (\<lambda>p. p\<lparr>ps_done := True\<rparr>) (sc_deserializers x)\<rparr>)"

fun signal_first :: "i32 \<Rightarrow> 'r pending_send list \<Rightarrow> 'r pending_send list" where
  "signal_first i [] = []"
| "signal_first i (p # ps) = (if ps_id p = i then p\<lparr>ps_done := True\<rparr> # ps else p # signal_first i ps)"

definition OnSendTimeout :: "nat \<Rightarrow> i32 \<Rightarrow> ('r, 'w) sync_state \<Rightarrow> ('r, 'w) sync_state" where
  "OnSendTimeout c message_id =
     on_ctx c (\<lambda>x. x\<lparr>sc_deserializers := signal_first message_id (sc_deserializers x)\<rparr>)"

definition Sync_Clear :: "nat \<Rightarrow> ('r, 'w) sync_state \<Rightarrow> ('r, 'w) sync_state" where
  "Sync_Clear c s = on_proxy c Context_Clear (RemoveContext c (CancelPendingSends c s))"

definition Sync_OnMessageReceived ::
    "(nat \<Rightarrow> 'w proxy_env) \<Rightarrow> nat \<Rightarrow> message \<Rightarrow> ('r, 'w) sync_state \<Rightarrow> ('r, 'w) sync_state" where
  "Sync_OnMessageReceived env c m s =
     (let (handled, p) = TryFilters (env c) m (sy_px s c);
          s1 = on_proxy c (\<lambda>_. p) s
      in if handled then s1
         else let (unblocked, s2) = TryToUnblockListener c m s1
              in if unblocked then s2
                 else if is_reply m = Some True then QueueReply m c s1
                 else if should_unblock m = Some True then QueueMessage m c s1
                 else on_proxy c (OnMessageReceivedNoFilter m) s1)"

definition Sync_OnChannelError ::
    "(nat \<Rightarrow> 'w proxy_env) \<Rightarrow> nat \<Rightarrow> ('r, 'w) sync_state \<Rightarrow> ('r, 'w) sync_state" where
  "Sync_OnChannelError env c s =
     on_proxy c (Context_OnChannelError (env c))
       (on_ctx c (\<lambda>x. x\<lparr>sc_watching := False\<rparr>) (CancelPendingSends c s))"

definition Sync_OnChannelOpened ::
    "(nat \<Rightarrow> 'w proxy_env) \<Rightarrow> nat \<Rightarrow> ('r, 'w) sync_state \<Rightarrow> ('r, 'w) sync_state" where
  "Sync_OnChannelOpened env c s =
     (let s1 = on_ctx c (\<lambda>x. x\<lparr>sc_watching := True\<rparr>) s;
          p1 = on_px (\<lambda>p. p\<lparr>px_refs := px_refs p + 1\<rparr>) (sy_px s1 c);
          (ok, posted, p2) = Channel_Connect (pe_os (env c)) p1;
          s2 = on_proxy c (\<lambda>_. p2) s1
      in if \<not> ok then Sync_OnChannelError env c s2
         else on_proxy c (for_filters FilterAdded (env c)) s2)"

definition Sync_OnChannelClosed ::
    "(nat \<Rightarrow> 'w proxy_env) \<Rightarrow> nat \<Rightarrow> ('r, 'w) sync_state \<Rightarrow> ('r, 'w) sync_state" where
  "Sync_OnChannelClosed env c s =
     on_proxy c (Context_OnChannelClosed (env c) (Context_vt (env c)))
       (on_ctx c (\<lambda>x. x\<lparr>sc_watching := False\<rparr>) (CancelPendingSends c s))"

definition Sync_OnSendMessage ::
    "(nat \<Rightarrow> 'w proxy_env) \<Rightarrow> nat \<Rightarrow> message \<Rightarrow> ('r, 'w) sync_state \<Rightarrow> ('r, 'w) sync_state" where
  "Sync_OnSendMessage env c m s =
     (if \<not> px_channel (ch_user (sy_px s c)) then Sync_OnChannelClosed env c s
      else let (ok, p) = Channel_Send (pe_os (env c)) m (sy_px s c);
               s1 = on_proxy c (\<lambda>_. p) s
           in if \<not> ok then Sync_OnChannelError env c s1 else s1)"

text \<open>The callback of the two kinds of watcher: the shutdown event, or a send-done event.\<close>

definition Sync_OnWaitableEventSignaled ::
    "nat \<Rightarrow> bool \<Rightarrow> ('r, 'w) sync_state \<Rightarrow> ('r, 'w) sync_state" where
  "Sync_OnWaitableEventSignaled c is_shutdown s =
     (if is_shutdown then CancelPendingSends c s else s\<lparr>sy_quit := True\<rparr>)"

section \<open>The channel\<close>

definition SetRestrictDispatchChannelGroup :: "nat \<Rightarrow> int \<Rightarrow> ('r, 'w) sync_state \<Rightarrow> ('r, 'w) sync_state" where
  "SetRestrictDispatchChannelGroup c g = on_ctx c (\<lambda>x. x\<lparr>sc_group := g\<rparr>)"

definition SyncChannel_new ::
    "(nat \<Rightarrow> 'w proxy_env) \<Rightarrow> nat \<Rightarrow> bytes \<Rightarrow> u32 option \<Rightarrow> u32 \<Rightarrow> bool \<Rightarrow> u32 \<Rightarrow> 'w \<Rightarrow> ('r, 'w) sync_state
      \<Rightarrow> ('r, 'w) sync_state" where
  "SyncChannel_new env c name handle mode create_pipe_now g w s =
     (let s1 = AddContext s;
          s2 = on_ctx c (\<lambda>_. \<lparr>sc_deserializers = [], sc_group = kRestrictDispatchGroup_None,
                              sc_watching = False\<rparr>) s1;
          s3 = on_proxy c (\<lambda>p. p\<lparr>ch_user := Context_new g w\<rparr>) s2
      in on_proxy c (ChannelProxy_Init (env c) name handle mode create_pipe_now) s3)"

datatype send_state = Returned bool | Waiting

text \<open>\<open>SendWithTimeout\<close> up to \<open>WaitForReply\<close>; \<open>None\<close>: a header that cannot be read, or no deserializer.\<close>

definition Send_begin ::
    "(nat \<Rightarrow> 'w proxy_env) \<Rightarrow> nat \<Rightarrow> (iter \<Rightarrow> 'r option, 'e) sync_message \<Rightarrow> int \<Rightarrow> ('r, 'w) sync_state
      \<Rightarrow> (send_state \<times> ('r, 'w) sync_state) option" where
  "Send_begin env c sm timeout_ms s = do {
     sync \<leftarrow> is_sync (sm_msg sm);
     (if \<not> sync
      then Some (Returned True, on_proxy c (\<lambda>p. snd (ChannelProxy_Send (env c) (sm_msg sm) p)) s)
      else if sy_shutdown s then Some (Returned False, s)
      else do {
        message_id \<leftarrow> GetMessageId (sm_msg sm);
        reader \<leftarrow> fst (GetReplyDeserializer sm);
        let s1 = Context_Push c message_id reader s;
        let s2 = on_proxy c (\<lambda>p. snd (ChannelProxy_Send (env c) (sm_msg sm) p)) s1;
        let s3 = (if timeout_ms \<noteq> kNoTimeout
                  then on_proxy c (post_ipc (TOnSendTimeout message_id)) s2 else s2);
        Some (Waiting, s3) }) }"

text \<open>\<open>WaitMany\<close> returns the first event that is set; \<open>None\<close> means that the thread blocks.\<close>

definition GetSendDoneEvent :: "nat \<Rightarrow> ('r, 'w) sync_state \<Rightarrow> bool" where
  "GetSendDoneEvent c s = ps_done (last (sc_deserializers (sy_ctx s c)))"

definition WaitMany3 :: "nat \<Rightarrow> bool option \<Rightarrow> ('r, 'w) sync_state \<Rightarrow> nat option" where
  "WaitMany3 c pump s =
     (if rq_dispatch_event (sy_queue s) then Some 0
      else if GetSendDoneEvent c s then Some 1
      else if pump = Some True then Some 2 else None)"

datatype wait_state = Blocked | Again | Pump | Finished

definition wait_step ::
    "(nat \<Rightarrow> 'w proxy_env) \<Rightarrow> nat \<Rightarrow> bool option \<Rightarrow> ('r, 'w) sync_state
      \<Rightarrow> (wait_state \<times> ('r, 'w) sync_state) option" where
  "wait_step env c pump s =
     (case WaitMany3 c pump s of
        None \<Rightarrow> Some (Blocked, s)
      | Some r \<Rightarrow>
          if r = 0
          then map_option (Pair Again)
                 (Context_DispatchMessages env c (on_queue (\<lambda>q. q\<lparr>rq_dispatch_event := False\<rparr>) s))
          else if r = 2 then Some (Pump, s) else Some (Finished, s))"

text \<open>\<open>WaitForReply\<close> while no other thread takes a step: dispatching resets the event, so three rounds
  are enough (\<open>wait_rounds_enough\<close>).\<close>

fun wait_rounds ::
    "nat \<Rightarrow> (nat \<Rightarrow> 'w proxy_env) \<Rightarrow> nat \<Rightarrow> bool option \<Rightarrow> ('r, 'w) sync_state
      \<Rightarrow> (wait_state \<times> ('r, 'w) sync_state) option" where
  "wait_rounds 0 env c pump s = Some (Again, s)"
| "wait_rounds (Suc n) env c pump s =
     (case wait_step env c pump s of
        Some (Again, s') \<Rightarrow> wait_rounds n env c pump s'
      | r \<Rightarrow> r)"

definition WaitForReply ::
    "(nat \<Rightarrow> 'w proxy_env) \<Rightarrow> nat \<Rightarrow> bool option \<Rightarrow> ('r, 'w) sync_state
      \<Rightarrow> (wait_state \<times> ('r, 'w) sync_state) option" where
  "WaitForReply env c pump s = do { s1 \<leftarrow> Context_DispatchMessages env c s; wait_rounds 3 env c pump s1 }"

text \<open>\<open>WaitForReplyWithNestedMessageLoop\<close> before and after it runs the loop; watchers are named by the
  channel that watches.\<close>

definition enter_nested :: "nat \<Rightarrow> ('r, 'w) sync_state \<Rightarrow> nat option \<times> ('r, 'w) sync_state" where
  "enter_nested c s =
     (rq_top_watcher (sy_queue s), (on_queue (\<lambda>q. q\<lparr>rq_top_watcher := Some c\<rparr>) s)\<lparr>sy_quit := False\<rparr>)"

definition leave_nested :: "nat option \<Rightarrow> ('r, 'w) sync_state \<Rightarrow> ('r, 'w) sync_state" where
  "leave_nested old s = on_queue (\<lambda>q. q\<lparr>rq_top_watcher := old\<rparr>) s"

text \<open>The watcher of the dispatch event, outside of \<open>Send\<close>.\<close>

definition Channel_OnWaitableEventSignaled ::
    "(nat \<Rightarrow> 'w proxy_env) \<Rightarrow> nat \<Rightarrow> ('r, 'w) sync_state \<Rightarrow> ('r, 'w) sync_state option" where
  "Channel_OnWaitableEventSignaled env c s =
     Context_DispatchMessages env c (on_queue (\<lambda>q. q\<lparr>rq_dispatch_event := False\<rparr>) s)"

definition SyncChannel_Close :: "nat \<Rightarrow> ('r, 'w) sync_state \<Rightarrow> ('r, 'w) sync_state" where
  "SyncChannel_Close c s =
     (let s1 = Sync_Clear c s
      in if px_runner (ch_user (sy_px s1 c)) then on_proxy c (post_ipc TOnChannelClosed) s1 else s1)"

text \<open>The tasks of the IPC thread.\<close>

definition Sync_run_ipc ::
    "(nat \<Rightarrow> 'w proxy_env) \<Rightarrow> nat \<Rightarrow> ipc_task \<Rightarrow> ('r, 'w) sync_state \<Rightarrow> ('r, 'w) sync_state" where
  "Sync_run_ipc env c t s =
     (case t of
        TOnChannelOpened \<Rightarrow> Sync_OnChannelOpened env c s
      | TOnChannelClosed \<Rightarrow> Sync_OnChannelClosed env c s
      | TOnSendMessage m \<Rightarrow> Sync_OnSendMessage env c m s
      | TOnSendTimeout i \<Rightarrow> OnSendTimeout c i s
      | TDispatchReplies \<Rightarrow> DispatchReplies s
      | _ \<Rightarrow> on_proxy c (run_ipc_task (env c) (Context_vt (env c)) t) s)"

end
