(* ===== verification/SyncChannel_Props.thy ===== *)
theory SyncChannel_Props
  imports SyncChannel
begin

text \<open>
  Properties of synchronous channels: dispatching incoming calls while blocked, the pairing of calls
  and replies in nested calls over several channels, and the return of every call after a shutdown.
\<close>

section \<open>Dispatching incoming synchronous messages\<close>

text \<open>The reference: the given messages are handed to the listeners of their contexts one by one.\<close>

fun dispatch_list ::
    "(nat \<Rightarrow> 'w proxy_env) \<Rightarrow> (message \<times> nat) list \<Rightarrow> ('r, 'w) sync_state \<Rightarrow> ('r, 'w) sync_state option"
  where
  "dispatch_list env [] s = Some s"
| "dispatch_list env ((m, d) # es) s =
     (case OnDispatchMessage (env d) m (sy_px s d) of
        None \<Rightarrow> None
      | Some p \<Rightarrow> dispatch_list env es (on_proxy d (\<lambda>_. p) s))"

lemma sync_updates [simp]:
  "sy_queue (on_proxy d f s) = sy_queue s" "sy_ctx (on_proxy d f s) = sy_ctx s"
  "sy_px (on_queue g s) = sy_px s" "sy_ctx (on_queue g s) = sy_ctx s"
  "sy_queue (on_queue g s) = g (sy_queue s)" "sy_queue (on_ctx c h s) = sy_queue s"
  "sy_px (on_ctx c h s) = sy_px s" "sy_ctx (on_ctx c h s) = (sy_ctx s)(c := h (sy_ctx s c))"
  "sy_px (on_proxy d f s) = (sy_px s)(d := f (sy_px s d))"
  "sy_shutdown (on_proxy d f s) = sy_shutdown s" "sy_shutdown (on_queue g s) = sy_shutdown s"
  "sy_shutdown (on_ctx c h s) = sy_shutdown s"
  by (simp_all add: on_proxy_def on_queue_def on_ctx_def)

lemma on_queue_proxy: "on_queue g (on_proxy d f s) = on_proxy d f (on_queue g s)"
  by (simp add: on_queue_def on_proxy_def)

lemma on_queue_twice: "on_queue g (on_queue h s) = on_queue (\<lambda>q. g (h q)) s"
  by (simp add: on_queue_def)

lemma on_queue_cong: "g (sy_queue s) = h (sy_queue s) \<Longrightarrow> on_queue g s = on_queue h s"
  by (simp add: on_queue_def)

lemma dispatch_list_queue:
  "dispatch_list env es (on_queue g s) = map_option (on_queue g) (dispatch_list env es s)"
proof (induction es arbitrary: s)
  case (Cons e es)
  then show ?case
    by (cases e) (simp add: on_queue_proxy [symmetric] split: option.split)
qed simp

lemma dispatch_list_keeps:
  "dispatch_list env es s = Some t \<Longrightarrow> sy_queue t = sy_queue s \<and> sy_ctx t = sy_ctx s"
proof (induction es arbitrary: s)
  case (Cons e es)
  then show ?case by (cases e) (fastforce split: option.splits)
qed simp

lemma scan_from_None: "scan_from P i es = None \<Longrightarrow> filter P (drop i es) = []"
proof (induction P i es rule: scan_from.induct)
  case (2 P i e es)
  then show ?case by (cases i) (auto split: if_splits)
qed simp

lemma scan_from_first:
  "scan_from P i es = Some k \<Longrightarrow> filter P (drop i es) = es ! k # filter P (drop (Suc k) es) \<and>
     filter P (drop i (take k es)) = []"
proof (induction P i es arbitrary: k rule: scan_from.induct)
  case (2 P i e es)
  then show ?case by (cases i) (auto split: if_splits)
qed simp

text \<open>The loop from a position before which nothing is eligible.\<close>

lemma dispatch_loop_list:
  fixes s :: "('r, 'w) sync_state"
  assumes "filter (eligible (\<lambda>d. sc_group (sy_ctx s d)) (sc_group (sy_ctx s c)))
      (take (if first \<or> rq_version (sy_queue s) \<noteq> expected then 0 else i) (rq_messages (sy_queue s))) = []"
  shows "dispatch_messages env [] c first expected i s =
    (let P = eligible (\<lambda>d. sc_group (sy_ctx s d)) (sc_group (sy_ctx s c));
         q = sy_queue s
     in map_option (on_queue (\<lambda>q'. q'\<lparr>rq_messages := filter (\<lambda>e. \<not> P e) (rq_messages q),
            rq_version := rq_version q + of_nat (length (filter P (rq_messages q)))\<rparr>))
          (dispatch_list env (filter P (rq_messages q)) s))"
  using assms
proof (induction env "[] :: (('r, 'w) sync_state \<Rightarrow> ('r, 'w) sync_state) list" c first expected i s rule: dispatch_messages.induct)
  case (1 env c first expected i s)
  define P where "P = eligible (\<lambda>d. sc_group (sy_ctx s d)) (sc_group (sy_ctx s c))"
  define q where "q = sy_queue s"
  define it where "it = (if first \<or> rq_version q \<noteq> expected then 0 else i)"
  let ?ms = "rq_messages q"
  have pre: "filter P (take it ?ms) = []" using 1(2) by (simp add: P_def q_def it_def)
  have split: "filter P ?ms = filter P (drop it ?ms)"
    using pre filter_append [of P "take it ?ms" "drop it ?ms"] by simp
  show ?case
  proof (cases "scan_from P it ?ms")
    case None
    then have e: "filter P ?ms = []" using scan_from_None split by metis
    then have "filter (\<lambda>e. \<not> P e) ?ms = ?ms" by (auto simp: filter_empty_conv intro: filter_True)
    moreover have "on_queue (\<lambda>q'. q'\<lparr>rq_messages := ?ms, rq_version := rq_version q\<rparr>) s = s"
      by (simp add: on_queue_def q_def)
    ultimately show ?thesis using None e
      by (simp add: dispatch_messages.simps [of env "[]" c] Let_def P_def [symmetric] q_def [symmetric]
          it_def [symmetric])
  next
    case (Some k)
    obtain m d where e: "?ms ! k = (m, d)" by (cases "?ms ! k")
    note fi = scan_from_first [OF Some] and bd = scan_from_bound [OF Some]
    define ms' where "ms' = take k ?ms @ drop (Suc k) ?ms"
    have tk: "filter P (take k ?ms) = []"
    proof -
      have "take k ?ms = take it ?ms @ drop it (take k ?ms)"
        using bd by (metis append_take_drop_id min.absorb1 take_take)
      then show ?thesis using pre fi by (metis append_Nil filter_append)
    qed
    have f1: "filter P ?ms = (m, d) # filter P ms'" using split fi e tk by (simp add: ms'_def)
    have f2: "filter (\<lambda>e. \<not> P e) ?ms = filter (\<lambda>e. \<not> P e) ms'"
    proof -
      have "?ms = take k ?ms @ (m, d) # drop (Suc k) ?ms" using id_take_nth_drop [of k ?ms] bd e by simp
      moreover have "P (m, d)" using bd e by simp
      ultimately show ?thesis unfolding ms'_def
        by (metis (no_types, lifting) filter.simps(2) filter_append)
    qed
    define s1 where "s1 = on_queue (\<lambda>q. q\<lparr>rq_messages := take k (rq_messages q) @ drop (Suc k) (rq_messages q),
        rq_version := rq_version q + 1\<rparr>) s"
    have s1: "rq_messages (sy_queue s1) = ms'" "rq_version (sy_queue s1) = rq_version q + 1"
      "sy_px s1 = sy_px s" "sy_ctx s1 = sy_ctx s"
      by (simp_all add: s1_def ms'_def q_def)
    have L: "dispatch_messages env [] c first expected i s =
        (case OnDispatchMessage (env d) m (sy_px s d) of None \<Rightarrow> None
         | Some p \<Rightarrow> dispatch_messages env [] c False (rq_version (sy_queue s1)) k (on_proxy d (\<lambda>_. p) s1))"
      using Some e s1(3)
      by (simp add: dispatch_messages.simps [of env "[]" c first] Let_def P_def [symmetric] q_def [symmetric]
          it_def [symmetric] s1_def [symmetric] split: option.split)
    show ?thesis
    proof (cases "OnDispatchMessage (env d) m (sy_px s d)")
      case None
      then show ?thesis using L f1 by (simp add: P_def [symmetric] q_def [symmetric])
    next
      case p: (Some p)
      let ?t = "on_proxy d (\<lambda>_. p) s1"
      have "take k ms' = take k ?ms" using bd by (simp add: ms'_def)
      then have "filter P (take k (rq_messages (sy_queue ?t))) = []" using tk s1 by simp
      then have IH: "dispatch_messages env [] c False (rq_version (sy_queue s1)) k ?t =
          map_option (on_queue (\<lambda>q'. q'\<lparr>rq_messages := filter (\<lambda>e. \<not> P e) ms',
              rq_version := rq_version q + 1 + of_nat (length (filter P ms'))\<rparr>))
            (dispatch_list env (filter P ms') ?t)"
        using 1(1) [OF q_def it_def refl Some [unfolded P_def] e [symmetric] refl s1_def, of p] p s1
        by (simp add: P_def Let_def)
      have t: "?t = on_queue (\<lambda>q. q\<lparr>rq_messages := take k (rq_messages q) @ drop (Suc k) (rq_messages q),
          rq_version := rq_version q + 1\<rparr>) (on_proxy d (\<lambda>_. p) s)"
        by (simp add: s1_def on_queue_proxy)
      show ?thesis
        using L p IH f1 f2
        by (simp add: P_def [symmetric] q_def [symmetric] t dispatch_list_queue option.map_comp comp_def
            on_queue_twice add.assoc)
    qed
  qed
qed


text \<open>With nobody else at work the loop hands on the eligible messages in order and keeps the others.\<close>

lemma dispatch_alone:
  "Queue_DispatchMessages env [] c s =
    (let P = eligible (\<lambda>d. sc_group (sy_ctx s d)) (sc_group (sy_ctx s c));
         q = sy_queue s
     in map_option (on_queue (\<lambda>q'. q'\<lparr>rq_messages := filter (\<lambda>e. \<not> P e) (rq_messages q),
            rq_version := rq_version q + of_nat (length (filter P (rq_messages q)))\<rparr>))
          (dispatch_list env (filter P (rq_messages q)) s))"
  unfolding Queue_DispatchMessages_def by (rule dispatch_loop_list) simp

text \<open>The reference: take the oldest message of a channel in no group or in the dispatching one, wherever it
  is in the queue as it is now, hand it on, and begin again; no iterator, no version.\<close>

function oldest_first ::
    "(nat \<Rightarrow> 'w proxy_env) \<Rightarrow> (('r, 'w) sync_state \<Rightarrow> ('r, 'w) sync_state) list \<Rightarrow> nat \<Rightarrow> ('r, 'w) sync_state
      \<Rightarrow> ('r, 'w) sync_state option" where
  "oldest_first env others c s =
     (case List.extract (eligible (\<lambda>d. sc_group (sy_ctx s d)) (sc_group (sy_ctx s c))) (rq_messages (sy_queue s)) of
        None \<Rightarrow> Some s
      | Some (older, (m, d), newer) \<Rightarrow>
          (case OnDispatchMessage (env d) m (sy_px s d) of
             None \<Rightarrow> None
           | Some p \<Rightarrow>
               oldest_first env (tl others) c
                 (meanwhile others
                   (on_proxy d (\<lambda>_. p)
                     (on_queue (\<lambda>q. q\<lparr>rq_messages := older @ newer, rq_version := rq_version q + 1\<rparr>) s)))))"
  by auto
termination
proof (relation "measures [\<lambda>(_, others, _). length others, \<lambda>(_, _, _, s). length (rq_messages (sy_queue s))]",
    goal_cases)
  case (2 env others)
  then show ?case by (cases others) (auto simp: extract_Some_iff)
qed simp

declare oldest_first.simps [simp del]

lemma scan_extract:
  "List.extract P es = map_option (\<lambda>k. (take k es, es ! k, drop (Suc k) es)) (scan_from P 0 es)"
proof (induction es)
  case (Cons e es)
  then show ?case by (cases "scan_from P 0 es") (auto simp: extract_Cons_code)
qed (simp add: extract_Nil_code)

lemma scan_from_later: "filter P (take i es) = [] \<Longrightarrow> scan_from P i es = scan_from P 0 es"
proof (induction P i es rule: scan_from.induct)
  case (2 P i e es)
  show ?case
  proof (cases i)
    case (Suc j)
    then have "\<not> P e" "scan_from P j es = scan_from P 0 es" using 2 by (auto split: if_splits)
    then show ?thesis using Suc by simp
  qed simp
qed simp

text \<open>A change of the queue is seen in its version, and dispatch groups stay.  (The version has 32 bits; a
  change by fewer than \<open>2 ^ 32\<close> is seen.)\<close>

definition bumps :: "('r, 'w) sync_state \<Rightarrow> ('r, 'w) sync_state \<Rightarrow> bool" where
  "bumps s t \<longleftrightarrow> (\<forall>d. sc_group (sy_ctx t d) = sc_group (sy_ctx s d)) \<and>
     (rq_version (sy_queue t) = rq_version (sy_queue s) \<longrightarrow> rq_messages (sy_queue t) = rq_messages (sy_queue s))"

lemma QueueMessage_bumps: "bumps s (QueueMessage m c s)"
  by (simp add: bumps_def QueueMessage_def Let_def)

lemma of_nat_u32_zero: "n < 2 ^ 32 \<Longrightarrow> (of_nat n :: u32) = 0 \<longleftrightarrow> n = 0"
  by (simp add: of_nat_eq_0_iff nat_dvd_not_less word_of_nat_eq_0_iff) (auto dest: nat_dvd_not_less)

lemma RemoveContext_bumps:
  assumes "length (rq_messages (sy_queue s)) < 2 ^ 32" shows "bumps s (RemoveContext c s)"
proof -
  let ?ms = "rq_messages (sy_queue s)" and ?kept = "filter (\<lambda>e. snd e \<noteq> c) (rq_messages (sy_queue s))"
  have "length ?ms - length ?kept < 2 ^ 32" using assms by linarith
  moreover have "?kept = ?ms" if "length ?ms - length ?kept = 0"
    using that length_filter_less [of _ ?ms "\<lambda>e. snd e \<noteq> c"] by (intro filter_True) (metis diff_is_0_eq not_le)
  ultimately show ?thesis using of_nat_u32_zero [of "length ?ms - length ?kept"]
    by (simp add: bumps_def RemoveContext_def Let_def)
qed

lemma dispatch_reference:
  assumes "\<forall>f\<in>set others. \<forall>s. bumps s (f s)"
    and "filter (eligible (\<lambda>d. sc_group (sy_ctx s d)) (sc_group (sy_ctx s c)))
      (take (if first \<or> rq_version (sy_queue s) \<noteq> expected then 0 else i) (rq_messages (sy_queue s))) = []"
  shows "dispatch_messages env others c first expected i s = oldest_first env others c s"
  using assms
proof (induction env others c first expected i s rule: dispatch_messages.induct)
  case (1 env others c first expected i s)
  define P where "P = eligible (\<lambda>d. sc_group (sy_ctx s d)) (sc_group (sy_ctx s c))"
  define q where "q = sy_queue s"
  define it where "it = (if first \<or> rq_version q \<noteq> expected then 0 else i)"
  have sc: "scan_from P it (rq_messages q) = scan_from P 0 (rq_messages q)"
    by (rule scan_from_later) (use 1(3) in \<open>simp add: P_def q_def it_def\<close>)
  show ?case
  proof (cases "scan_from P 0 (rq_messages q)")
    case None
    then show ?thesis using sc
      by (simp add: dispatch_messages.simps [of env others] oldest_first.simps [of env others] scan_extract Let_def
          P_def [symmetric] q_def [symmetric] it_def [symmetric])
  next
    case (Some k)
    obtain m d where e: "rq_messages q ! k = (m, d)" by fastforce
    define s1 where "s1 = on_queue (\<lambda>q. q\<lparr>rq_messages := take k (rq_messages q) @ drop (Suc k) (rq_messages q),
        rq_version := rq_version q + 1\<rparr>) s"
    have s1: "s1 = on_queue (\<lambda>r. r\<lparr>rq_messages := take k (rq_messages q) @ drop (Suc k) (rq_messages q),
        rq_version := rq_version r + 1\<rparr>) s"
      unfolding s1_def q_def by (rule on_queue_cong) simp
    have px: "sy_px s1 = sy_px s" by (simp add: s1_def)
    show ?thesis
    proof (cases "OnDispatchMessage (env d) m (sy_px s d)")
      case None
      then show ?thesis using sc Some e px
        by (simp add: dispatch_messages.simps [of env others] oldest_first.simps [of env others] scan_extract Let_def
            P_def [symmetric] q_def [symmetric] it_def [symmetric] s1_def [symmetric])
    next
      case p: (Some p)
      define u where "u = on_proxy d (\<lambda>_. p) s1"
      have u: "sy_queue u = sy_queue s1" "sy_ctx u = sy_ctx s" by (simp_all add: u_def s1_def)
      have L: "dispatch_messages env others c first expected i s =
          dispatch_messages env (tl others) c False (rq_version (sy_queue s1)) k (meanwhile others u)"
        using sc Some e px p
        by (simp add: dispatch_messages.simps [of env others] Let_def P_def [symmetric] q_def [symmetric]
            it_def [symmetric] s1_def [symmetric] u_def)
      have R: "oldest_first env others c s = oldest_first env (tl others) c (meanwhile others u)"
        using Some e px p
        by (simp add: oldest_first.simps [of env others] scan_extract P_def [symmetric] q_def [symmetric] s1 [symmetric]
            u_def)
      have b: "bumps u (meanwhile others u)" using 1(2) by (cases others) (simp_all add: bumps_def)
      have "filter P (take k (take k (rq_messages q) @ drop (Suc k) (rq_messages q))) = []"
        using scan_from_first [OF Some] scan_from_bound [OF Some] by simp
      then have "filter (eligible (\<lambda>d. sc_group (sy_ctx (meanwhile others u) d)) (sc_group (sy_ctx (meanwhile others u) c)))
          (take (if False \<or> rq_version (sy_queue (meanwhile others u)) \<noteq> rq_version (sy_queue s1) then 0 else k)
            (rq_messages (sy_queue (meanwhile others u)))) = []"
        using b u by (simp add: bumps_def P_def s1_def q_def)
      moreover have "\<forall>f\<in>set (tl others). \<forall>s. bumps s (f s)" using 1(2) by (cases others) auto
      ultimately have "dispatch_messages env (tl others) c False (rq_version (sy_queue s1)) k (meanwhile others u) =
          oldest_first env (tl others) c (meanwhile others u)"
        using 1(1) [OF q_def it_def refl _ e [symmetric] refl s1_def, of p] sc Some p px
        unfolding P_def u_def by simp
      then show ?thesis using L R by simp
    qed
  qed
qed

lemma oldest_first_complete:
  "oldest_first env others c s = Some t \<Longrightarrow>
     filter (eligible (\<lambda>d. sc_group (sy_ctx t d)) (sc_group (sy_ctx t c))) (rq_messages (sy_queue t)) = []"
proof (induction env others c s rule: oldest_first.induct)
  case (1 env others c s)
  then show ?case
    by (subst (asm) (2) oldest_first.simps)
      (fastforce simp: extract_None_iff filter_empty_conv split: option.splits prod.splits)
qed

text \<open>C21: while a call is blocked, or from its task, the queue of the thread hands on, one by one, the oldest
  incoming message of a channel in no dispatch group or in the group of the blocked channel, each to the
  listener of its own channel, whatever happens to the queue while a message is being dispatched (the IPC
  thread queues more, the handler dispatches some itself or removes those of a channel), and leaves no such
  message behind; when nothing else happens it hands on exactly those in the queue, in the order of their
  arrival, and keeps the others in order.  (The dispatch groups do not change meanwhile.)\<close>

theorem dispatch_in_order:
  assumes "\<forall>f\<in>set others. \<forall>s. bumps s (f s)"
  shows "Queue_DispatchMessages env others c s = oldest_first env others c s \<and>
    (\<forall>t. Queue_DispatchMessages env others c s = Some t \<longrightarrow>
       filter (eligible (\<lambda>d. sc_group (sy_ctx t d)) (sc_group (sy_ctx t c))) (rq_messages (sy_queue t)) = []) \<and>
    Queue_DispatchMessages env [] c s =
      (let P = eligible (\<lambda>d. sc_group (sy_ctx s d)) (sc_group (sy_ctx s c));
           q = sy_queue s
       in map_option (on_queue (\<lambda>q'. q'\<lparr>rq_messages := filter (\<lambda>e. \<not> P e) (rq_messages q),
              rq_version := rq_version q + of_nat (length (filter P (rq_messages q)))\<rparr>))
            (dispatch_list env (filter P (rq_messages q)) s))"
proof -
  have r: "Queue_DispatchMessages env others c s = oldest_first env others c s"
    unfolding Queue_DispatchMessages_def by (rule dispatch_reference [OF assms]) simp
  show ?thesis unfolding dispatch_alone r using oldest_first_complete by blast
qed

lemma dispatch_spec:
  assumes "Context_DispatchMessages env c s = Some t"
  shows "sy_ctx t = sy_ctx s" "rq_replies (sy_queue t) = rq_replies (sy_queue s)"
    "rq_dispatch_event (sy_queue t) = rq_dispatch_event (sy_queue s)"
    "rq_task_pending (sy_queue t) = rq_task_pending (sy_queue s)"
proof -
  let ?P = "eligible (\<lambda>d. sc_group (sy_ctx s d)) (sc_group (sy_ctx s c))"
  obtain u where u: "dispatch_list env (filter ?P (rq_messages (sy_queue s))) s = Some u"
    "t = on_queue (\<lambda>q'. q'\<lparr>rq_messages := filter (\<lambda>e. \<not> ?P e) (rq_messages (sy_queue s)),
       rq_version := rq_version (sy_queue s) + of_nat (length (filter ?P (rq_messages (sy_queue s))))\<rparr>) u"
    using assms dispatch_loop_list [of s c True 0 0 env]
    by (auto simp: Context_DispatchMessages_def Queue_DispatchMessages_def Let_def)
  note k = dispatch_list_keeps [OF u(1)]
  show "sy_ctx t = sy_ctx s" "rq_replies (sy_queue t) = rq_replies (sy_queue s)"
    "rq_dispatch_event (sy_queue t) = rq_dispatch_event (sy_queue s)"
    "rq_task_pending (sy_queue t) = rq_task_pending (sy_queue s)"
    using k by (simp_all add: u(2))
qed

text \<open>Blocked rounds end: after the event is reset nothing sets it again on this thread.\<close>

lemma wait_rounds_off:
  assumes "\<not> rq_dispatch_event (sy_queue s)" "wait_rounds (Suc n) env c pump s = Some (r, t)"
  shows "r \<noteq> Again"
proof (cases "wait_step env c pump s")
  case (Some x)
  obtain w u where x: "x = (w, u)" by (cases x)
  have "w \<noteq> Again"
    using Some x assms(1) by (auto simp: wait_step_def WaitMany3_def split: option.splits if_splits)
  then show ?thesis using assms(2) Some x by (cases w) auto
qed (use assms(2) in simp)

lemma wait_rounds_enough:
  assumes "WaitForReply env c pump s = Some (r, t)" shows "r \<noteq> Again"
proof -
  obtain s1 where s1: "wait_rounds 3 env c pump s1 = Some (r, t)"
    using assms by (auto simp: WaitForReply_def bind_eq_Some_conv)
  show ?thesis
  proof (cases "rq_dispatch_event (sy_queue s1)")
    case False
    then show ?thesis using s1 wait_rounds_off by (simp only: numeral_3_eq_3)
  next
    case True
    then have "wait_step env c pump s1 = map_option (Pair Again)
        (Context_DispatchMessages env c (on_queue (\<lambda>q. q\<lparr>rq_dispatch_event := False\<rparr>) s1))"
      by (simp add: wait_step_def WaitMany3_def)
    then obtain u where "wait_step env c pump s1 = Some (Again, u)"
      "Context_DispatchMessages env c (on_queue (\<lambda>q. q\<lparr>rq_dispatch_event := False\<rparr>) s1) = Some u"
      using s1 by (cases "Context_DispatchMessages env c (on_queue (\<lambda>q. q\<lparr>rq_dispatch_event := False\<rparr>) s1)")
        (simp_all add: numeral_3_eq_3)
    then have "wait_rounds 2 env c pump u = Some (r, t)" "\<not> rq_dispatch_event (sy_queue u)"
      using s1 dispatch_spec(3) [of env c _ u] by (simp_all add: numeral_3_eq_3 numeral_2_eq_2)
    then show ?thesis using wait_rounds_off by (simp only: numeral_2_eq_2)
  qed
qed

section \<open>Calls, replies and nesting\<close>

text \<open>\<open>m\<close> answers the call \<open>i\<close> with the output \<open>out\<close>.\<close>

definition answers :: "message \<Rightarrow> i32 \<Rightarrow> (iter \<Rightarrow> 'r option) \<Rightarrow> 'r option \<Rightarrow> bool" where
  "answers m i reader out \<longleftrightarrow> IsMessageReplyTo m i = Some True \<and> is_reply_error m \<noteq> Some True \<and>
     out \<noteq> None \<and> SerializeOutputParameters reader m = Some out"

datatype 'r call_event =
    Got nat message
  | Begun nat i32 "iter \<Rightarrow> 'r option"
  | Ended nat i32 bool "'r option"

type_synonym 'r call_stack = "(nat \<times> i32 \<times> (iter \<Rightarrow> 'r option)) list"

text \<open>The steps of the two threads.  The first component is the stack of the blocked calls of the
  listener's thread, the innermost first: a call may begin at any time (the listener may call while it
  handles a message), only the innermost one may go on.\<close>

inductive sync_step ::
    "(nat \<Rightarrow> 'w proxy_env) \<Rightarrow> 'r call_event list \<Rightarrow> 'r call_stack \<Rightarrow> ('r, 'w) sync_state \<Rightarrow>
     'r call_stack \<Rightarrow> ('r, 'w) sync_state \<Rightarrow> bool"
  for env where
  got: "sync_step env [Got c m] st s st (Sync_OnMessageReceived env c m s)"
| failed: "sync_step env [] st s st (Sync_OnChannelError env c s)"
| ipc: "px_ipc (ch_user (sy_px s c)) = t # ts \<Longrightarrow>
        sync_step env [] st s st (Sync_run_ipc env c t (on_proxy c (take_task ts) s))"
| shutdown: "sync_step env [] st s st (s\<lparr>sy_shutdown := True\<rparr>)"
| cancel: "sy_shutdown s \<Longrightarrow> sync_step env [] st s st (Sync_OnWaitableEventSignaled c True s)"
| begin_call: "Send_begin env c (sm :: (iter \<Rightarrow> 'r option, bool) sync_message) tmo s = Some (Waiting, s') \<Longrightarrow> GetMessageId (sm_msg sm) = Some i \<Longrightarrow>
        sm_deserializer sm = Some reader \<Longrightarrow>
        sync_step env [Begun c i reader] st s ((c, i, reader) # st) s'"
| begin_other: "Send_begin env c (sm :: (iter \<Rightarrow> 'r option, bool) sync_message) tmo s = Some (Returned b, s') \<Longrightarrow> sync_step env [] st s st s'"
| wait: "st = (c, i, reader) # st' \<Longrightarrow> wait_step env c pump s = Some (Again, s') \<Longrightarrow>
        sync_step env [] st s st s'"
| finish: "st = (c, i, reader) # st' \<Longrightarrow> wait_step env c pump s = Some (Finished, s1) \<Longrightarrow>
        Context_Pop c s1 = Some (b, out, s') \<Longrightarrow> sync_step env [Ended c i b out] st s st' s'"
| pumped: "st = (c, i, reader) # st' \<Longrightarrow> sy_quit s \<Longrightarrow> Context_Pop c s = Some (b, out, s') \<Longrightarrow>
        sync_step env [Ended c i b out] st s st' s'"
| quit: "sync_step env [] st s st (Sync_OnWaitableEventSignaled c False s)"
| nested: "sync_step env [] st s st (snd (enter_nested c s))"
| unnested: "sync_step env [] st s st (leave_nested w s)"
| dispatch: "DispatchMessagesTask env c s = Some s' \<Longrightarrow> sync_step env [] st s st s'"
| watched: "Channel_OnWaitableEventSignaled env c s = Some s' \<Longrightarrow> sync_step env [] st s st s'"
| closing: "sync_step env [] st s st (SyncChannel_Close c s)"

inductive sync_run ::
    "(nat \<Rightarrow> 'w proxy_env) \<Rightarrow> 'r call_event list \<Rightarrow> 'r call_stack \<Rightarrow> ('r, 'w) sync_state \<Rightarrow>
     'r call_stack \<Rightarrow> ('r, 'w) sync_state \<Rightarrow> bool"
  for env where
  start: "sync_run env [] st s st s"
| step: "sync_run env tr st s st1 s1 \<Longrightarrow> sync_step env es st1 s1 st2 s2 \<Longrightarrow>
         sync_run env (tr @ es) st s st2 s2"

abbreviation calls_of :: "('r, 'w) sync_state \<Rightarrow> nat \<Rightarrow> 'r pending_send list" where
  "calls_of s c \<equiv> sc_deserializers (sy_ctx s c)"

text \<open>The invariant: the pending messages of each channel are its calls on the stack; a result comes
  from an answer that was received; queued replies were received; calls on the stack were begun; and
  the calls that ended did so as the theorem below says.\<close>

definition nested_calls :: "'r call_stack \<Rightarrow> ('r, 'w) sync_state \<Rightarrow> bool" where
  "nested_calls st s \<longleftrightarrow>
     (\<forall>c. map (\<lambda>p. (ps_id p, ps_reader p)) (calls_of s c) = rev (map snd (filter (\<lambda>e. fst e = c) st)))"

definition answered_calls :: "'r call_event list \<Rightarrow> ('r, 'w) sync_state \<Rightarrow> bool" where
  "answered_calls tr s \<longleftrightarrow> (\<forall>c p. p \<in> set (calls_of s c) \<longrightarrow> ps_send_result p \<longrightarrow>
     (\<exists>m. Got c m \<in> set tr \<and> answers m (ps_id p) (ps_reader p) (ps_output p)))"

definition queued_replies :: "'r call_event list \<Rightarrow> ('r, 'w) sync_state \<Rightarrow> bool" where
  "queued_replies tr s \<longleftrightarrow> (\<forall>m c. (m, c) \<in> set (rq_replies (sy_queue s)) \<longrightarrow> Got c m \<in> set tr)"

definition begun_calls :: "'r call_event list \<Rightarrow> 'r call_stack \<Rightarrow> bool" where
  "begun_calls tr st \<longleftrightarrow> (\<forall>c i reader. (c, i, reader) \<in> set st \<longrightarrow> Begun c i reader \<in> set tr)"

definition ended_calls :: "'r call_event list \<Rightarrow> bool" where
  "ended_calls tr \<longleftrightarrow> (\<forall>c i b out. Ended c i b out \<in> set tr \<longrightarrow>
     (\<exists>reader. Begun c i reader \<in> set tr \<and>
        (b \<longrightarrow> (\<exists>m. Got c m \<in> set tr \<and> answers m i reader out))))"

definition sync_inv :: "'r call_event list \<Rightarrow> 'r call_stack \<Rightarrow> ('r, 'w) sync_state \<Rightarrow> bool" where
  "sync_inv tr st s \<longleftrightarrow> nested_calls st s \<and> answered_calls tr s \<and> queued_replies tr s \<and>
     begun_calls tr st \<and> ended_calls tr"

lemma sync_inv_more:
  assumes "sync_inv tr st s" shows "answered_calls (tr @ es) s" "queued_replies (tr @ es) s"
    "begun_calls (tr @ es) st"
  using assms unfolding sync_inv_def answered_calls_def queued_replies_def begun_calls_def set_append
  by blast+

lemma ended_calls_more:
  assumes "ended_calls tr" "\<And>c i b out. Ended c i b out \<in> set es \<Longrightarrow>
     \<exists>reader. Begun c i reader \<in> set (tr @ es) \<and>
        (b \<longrightarrow> (\<exists>m. Got c m \<in> set (tr @ es) \<and> answers m i reader out))"
  shows "ended_calls (tr @ es)"
proof -
  have "\<exists>reader. Begun c i reader \<in> set (tr @ es) \<and>
      (b \<longrightarrow> (\<exists>m. Got c m \<in> set (tr @ es) \<and> answers m i reader out))"
    if "Ended c i b out \<in> set (tr @ es)" for c i b out
  proof (cases "Ended c i b out \<in> set es")
    case False
    then have "Ended c i b out \<in> set tr" using that by simp
    then show ?thesis using assms(1) unfolding ended_calls_def by (metis UnI1 set_append)
  qed (rule assms(2))
  then show ?thesis unfolding ended_calls_def by blast
qed

text \<open>What may happen to a pending call without a change of the stack: it is signalled, or it is
  answered by a message that was received.\<close>

definition call_upd :: "'r call_event list \<Rightarrow> nat \<Rightarrow> 'r pending_send \<Rightarrow> 'r pending_send \<Rightarrow> bool" where
  "call_upd tr c p p' \<longleftrightarrow> ps_id p' = ps_id p \<and> ps_reader p' = ps_reader p \<and>
     (ps_send_result p' \<longrightarrow> ps_send_result p \<and> ps_output p' = ps_output p \<or>
        (\<exists>m. Got c m \<in> set tr \<and> answers m (ps_id p) (ps_reader p) (ps_output p')))"

definition calls_upd :: "'r call_event list \<Rightarrow> ('r, 'w) sync_state \<Rightarrow> ('r, 'w) sync_state \<Rightarrow> bool" where
  "calls_upd tr s t \<longleftrightarrow> (\<forall>c. list_all2 (call_upd tr c) (calls_of s c) (calls_of t c)) \<and>
     (\<forall>m c. (m, c) \<in> set (rq_replies (sy_queue t)) \<longrightarrow>
        (m, c) \<in> set (rq_replies (sy_queue s)) \<or> Got c m \<in> set tr)"

lemma call_upd_refl [simp]: "call_upd tr c p p"
  by (simp add: call_upd_def)

lemma list_all2_call_refl [simp]: "list_all2 (call_upd tr c) ps ps"
  by (simp add: list_all2_refl)

lemma calls_updI:
  "calls_of t = calls_of s \<Longrightarrow> rq_replies (sy_queue t) = rq_replies (sy_queue s) \<Longrightarrow> calls_upd tr s t"
  unfolding calls_upd_def by (metis list_all2_call_refl)

lemma calls_upd_trans:
  assumes "calls_upd tr s t" "calls_upd tr t u" shows "calls_upd tr s u"
proof -
  have "list_all2 (call_upd tr c) (calls_of s c) (calls_of u c)" for c
  proof (rule list_all2_trans [of "call_upd tr c" "call_upd tr c" "call_upd tr c"])
    show "list_all2 (call_upd tr c) (calls_of s c) (calls_of t c)"
      "list_all2 (call_upd tr c) (calls_of t c) (calls_of u c)"
      using assms by (simp_all add: calls_upd_def)
  qed (auto simp: call_upd_def)
  then show ?thesis using assms unfolding calls_upd_def by blast
qed

lemma sync_inv_upd:
  assumes i: "sync_inv tr st s" and u: "calls_upd (tr @ es) s t"
    and es: "\<forall>e \<in> set es. \<exists>c m. e = Got c m"
  shows "sync_inv (tr @ es) st t"
proof -
  have u2: "list_all2 (call_upd (tr @ es) c) (calls_of s c) (calls_of t c)" for c
    using u by (simp add: calls_upd_def)
  have "map (\<lambda>p. (ps_id p, ps_reader p)) (calls_of t c) = map (\<lambda>p. (ps_id p, ps_reader p)) (calls_of s c)" for c
    using u2 [of c] by (induction rule: list_all2_induct) (auto simp: call_upd_def)
  then have 1: "nested_calls st t" using i by (simp add: sync_inv_def nested_calls_def)
  have "\<exists>m. Got c m \<in> set (tr @ es) \<and> answers m (ps_id p) (ps_reader p) (ps_output p)"
    if p: "p \<in> set (calls_of t c)" "ps_send_result p" for c p
  proof -
    obtain p0 where p0: "p0 \<in> set (calls_of s c)" "call_upd (tr @ es) c p0 p"
      using u2 [of c] p(1) by (metis in_set_conv_nth list_all2_conv_all_nth)
    show ?thesis
    proof (cases "ps_send_result p0 \<and> ps_output p = ps_output p0")
      case True
      then show ?thesis using sync_inv_more(1) [OF i, of es] p0
        unfolding answered_calls_def call_upd_def by metis
    next
      case False
      then show ?thesis using p0(2) p(2) by (auto simp: call_upd_def)
    qed
  qed
  then have 2: "answered_calls (tr @ es) t" unfolding answered_calls_def by blast
  have 3: "queued_replies (tr @ es) t"
    using sync_inv_more(2) [OF i, of es] u unfolding queued_replies_def calls_upd_def by blast
  have 4: "ended_calls (tr @ es)"
    using i es by (intro ended_calls_more) (auto simp: sync_inv_def)
  show ?thesis using 1 2 3 4 sync_inv_more(3) [OF i] by (simp add: sync_inv_def)
qed


lemma calls_upd_ctx:
  assumes "list_all2 (call_upd tr c) (calls_of s c) (sc_deserializers (f (sy_ctx s c)))"
  shows "calls_upd tr s (on_ctx c f s)"
  using assms by (simp add: calls_upd_def)

lemma calls_upd_map:
  assumes "\<And>p. call_upd tr c p (f p)" shows "list_all2 (call_upd tr c) ps (map f ps)"
  using assms by (simp add: list_all2_conv_all_nth)

lemma calls_upd_proxy [simp]: "calls_upd tr s (on_proxy c f s)"
  by (rule calls_updI) simp_all

lemma calls_upd_cancel: "calls_upd tr s (CancelPendingSends c s)"
  unfolding CancelPendingSends_def
  by (rule calls_upd_ctx) (simp add: calls_upd_map call_upd_def)

lemma calls_upd_timeout: "calls_upd tr s (OnSendTimeout c i s)"
proof -
  have "list_all2 (call_upd tr c) ps (signal_first i ps)" for ps :: "'a pending_send list"
    by (induction ps) (auto simp: call_upd_def list_all2_refl)
  then show ?thesis unfolding OnSendTimeout_def by (intro calls_upd_ctx) simp
qed

lemma call_upd_accept:
  assumes "IsMessageReplyTo m (ps_id p) = Some True" "Got c m \<in> set tr"
  shows "call_upd tr c p (accept_reply m p)"
  using assms by (auto simp: accept_reply_def call_upd_def answers_def split: option.splits)

lemma calls_upd_unblock:
  assumes "Got c m \<in> set tr" shows "calls_upd tr s (snd (TryToUnblockListener c m s))"
proof (cases "calls_of s c = [] \<or> IsMessageReplyTo m (ps_id (last (calls_of s c))) \<noteq> Some True")
  case True
  then show ?thesis by (auto simp: TryToUnblockListener_def Let_def intro: calls_updI)
next
  case False
  then have "call_upd tr c (last (calls_of s c)) (accept_reply m (last (calls_of s c)))"
    using assms by (intro call_upd_accept) auto
  moreover have "calls_of s c = butlast (calls_of s c) @ [last (calls_of s c)]" using False by simp
  ultimately have "list_all2 (call_upd tr c) (calls_of s c)
      (butlast (calls_of s c) @ [accept_reply m (last (calls_of s c))])"
    by (metis list_all2_Cons list_all2_Nil list_all2_appendI list_all2_call_refl)
  then show ?thesis using False
    by (simp add: TryToUnblockListener_def Let_def calls_upd_ctx)
qed

lemma unblock_replies: "rq_replies (sy_queue (snd (TryToUnblockListener c m s))) = rq_replies (sy_queue s)"
  by (simp add: TryToUnblockListener_def Let_def)

lemma dispatch_replies_upd:
  assumes "\<And>m c. (m, c) \<in> set rs \<Longrightarrow> Got c m \<in> set tr"
  shows "calls_upd tr s (snd (dispatch_replies rs s)) \<and> set (fst (dispatch_replies rs s)) \<subseteq> set rs"
  using assms
proof (induction rs s rule: dispatch_replies.induct)
  case (1 s)
  then show ?case by (simp add: calls_updI)
next
  case (2 m c rs s)
  have u: "calls_upd tr s (snd (TryToUnblockListener c m s))" by (rule calls_upd_unblock) (simp add: 2(2))
  obtain ok s' where t: "TryToUnblockListener c m s = (ok, s')" by (cases "TryToUnblockListener c m s")
  show ?case
  proof (cases ok)
    case True
    then show ?thesis using t u by auto
  next
    case False
    obtain rs' v where d: "dispatch_replies rs s = (rs', v)" by (cases "dispatch_replies rs s")
    have "calls_upd tr s v \<and> set rs' \<subseteq> set rs"
      using 2(1) [OF t [symmetric] refl False] 2(2) d by simp
    then show ?thesis using t d False by auto
  qed
qed

lemma calls_upd_replies:
  assumes "queued_replies tr s" shows "calls_upd tr s (DispatchReplies s)"
proof -
  obtain rs t where d: "dispatch_replies (rq_replies (sy_queue s)) s = (rs, t)"
    by (cases "dispatch_replies (rq_replies (sy_queue s)) s")
  have "calls_upd tr s t" "set rs \<subseteq> set (rq_replies (sy_queue s))"
    using dispatch_replies_upd [of "rq_replies (sy_queue s)" tr s] assms d
    by (auto simp: queued_replies_def)
  then show ?thesis using assms d by (auto simp: DispatchReplies_def calls_upd_def queued_replies_def)
qed

lemma calls_upd_got:
  assumes "Got c m \<in> set tr" shows "calls_upd tr s (Sync_OnMessageReceived env c m s)"
proof -
  obtain h p where t: "TryFilters (env c) m (sy_px s c) = (h, p)" by (cases "TryFilters (env c) m (sy_px s c)")
  define s1 where "s1 = on_proxy c (\<lambda>_. p) s"
  have 1: "calls_upd tr s s1" by (simp add: s1_def)
  have 2: "calls_upd tr s1 (snd (TryToUnblockListener c m s1))" by (rule calls_upd_unblock [OF assms])
  have 3: "calls_upd tr s1 (QueueReply m c s1)"
    using assms by (auto simp: calls_upd_def QueueReply_def)
  have 4: "calls_upd tr s1 (QueueMessage m c s1)"
    by (rule calls_updI) (simp_all add: QueueMessage_def Let_def)
  have "Sync_OnMessageReceived env c m s =
      (if h then s1 else if fst (TryToUnblockListener c m s1) then snd (TryToUnblockListener c m s1)
       else if is_reply m = Some True then QueueReply m c s1
       else if should_unblock m = Some True then QueueMessage m c s1
       else on_proxy c (OnMessageReceivedNoFilter m) s1)"
    by (simp add: Sync_OnMessageReceived_def t s1_def Let_def split_beta)
  then show ?thesis using 1 calls_upd_trans [OF 1] 2 3 4 by simp
qed

lemma calls_upd_watching: "calls_upd tr s (on_ctx c (\<lambda>x. x\<lparr>sc_watching := b\<rparr>) s)"
  by (rule calls_upd_ctx) simp

lemma calls_upd_error: "calls_upd tr s (Sync_OnChannelError env c s)"
  unfolding Sync_OnChannelError_def
  by (rule calls_upd_trans [OF calls_upd_trans [OF calls_upd_cancel calls_upd_watching] calls_upd_proxy])

lemma calls_upd_closed: "calls_upd tr s (Sync_OnChannelClosed env c s)"
  unfolding Sync_OnChannelClosed_def
  by (rule calls_upd_trans [OF calls_upd_trans [OF calls_upd_cancel calls_upd_watching] calls_upd_proxy])

lemma calls_upd_ipc:
  assumes "queued_replies tr s" shows "calls_upd tr s (Sync_run_ipc env c t s)"
proof (cases t)
  case TOnChannelOpened
  define s1 where "s1 = on_ctx c (\<lambda>x. x\<lparr>sc_watching := True\<rparr>) s"
  have 1: "calls_upd tr s (on_proxy c f s1)" for f
    unfolding s1_def by (rule calls_upd_trans [OF calls_upd_watching calls_upd_proxy])
  show ?thesis using TOnChannelOpened calls_upd_trans [OF 1 calls_upd_error]
      calls_upd_trans [OF 1 calls_upd_proxy]
    by (simp add: Sync_run_ipc_def Sync_OnChannelOpened_def s1_def Let_def split_beta)
next
  case (TOnSendMessage m)
  then show ?thesis
    by (simp add: Sync_run_ipc_def Sync_OnSendMessage_def calls_upd_closed Let_def split_beta
        calls_upd_trans [OF calls_upd_proxy calls_upd_error])
qed (simp_all add: Sync_run_ipc_def calls_upd_closed calls_upd_timeout calls_upd_replies assms)

lemma calls_upd_dispatch: "Context_DispatchMessages env c s = Some t \<Longrightarrow> calls_upd tr s t"
  using dispatch_spec [of env c s t] by (intro calls_updI) auto

lemma calls_upd_queue: "(\<And>q. rq_replies (g q) = rq_replies q) \<Longrightarrow> calls_upd tr s (on_queue g s)"
  by (rule calls_updI) simp_all

lemma calls_upd_wait:
  assumes "wait_step env c pump s = Some (r, t)" shows "calls_upd tr s t"
proof -
  have e: "calls_upd tr s (on_queue (\<lambda>q. q\<lparr>rq_dispatch_event := False\<rparr>) s)" by (rule calls_upd_queue) simp
  show ?thesis using assms calls_upd_trans [OF e calls_upd_dispatch]
    by (auto simp: wait_step_def calls_updI split: option.splits if_splits)
qed

lemma calls_upd_close: "calls_upd tr s (SyncChannel_Close c s)"
proof -
  have r: "calls_upd tr u (RemoveContext c u)" for u :: "('a, 'b) sync_state"
    by (rule calls_updI) (simp_all add: RemoveContext_def Let_def)
  have "calls_upd tr s (Sync_Clear c s)"
    unfolding Sync_Clear_def by (rule calls_upd_trans [OF calls_upd_trans [OF calls_upd_cancel r] calls_upd_proxy])
  then show ?thesis
    by (simp add: SyncChannel_Close_def Let_def calls_upd_trans [OF _ calls_upd_proxy])
qed


lemma sync_inv_silent: "sync_inv tr st s \<Longrightarrow> calls_upd tr s t \<Longrightarrow> sync_inv tr st t"
  using sync_inv_upd [of tr st s "[]" t] by simp

lemma Send_begin_waiting:
  assumes "Send_begin env c sm tmo s = Some (Waiting, t)" "GetMessageId (sm_msg sm) = Some i"
    "sm_deserializer sm = Some reader"
  shows "calls_of t = (calls_of (Context_Push c i reader s))" "sy_queue t = sy_queue s" "\<not> sy_shutdown s"
  using assms
  by (auto simp: Send_begin_def GetReplyDeserializer_def Let_def Context_Push_def bind_eq_Some_conv
      split: if_splits)

lemma Send_begin_returned:
  assumes "Send_begin env c sm tmo s = Some (Returned b, t)"
  shows "calls_of t = calls_of s" "sy_queue t = sy_queue s"
  using assms by (auto simp: Send_begin_def Let_def bind_eq_Some_conv split: if_splits)

lemma sync_inv_begin:
  assumes i: "sync_inv tr st s" and s: "Send_begin env c sm tmo s = Some (Waiting, t)"
    "GetMessageId (sm_msg sm) = Some k" "sm_deserializer sm = Some reader"
  shows "sync_inv (tr @ [Begun c k reader]) ((c, k, reader) # st) t"
proof -
  note b = Send_begin_waiting [OF s]
  have d: "calls_of t d = (if d = c then calls_of s c @ [\<lparr>ps_id = k, ps_reader = reader, ps_done = False,
      ps_send_result = False, ps_output = None\<rparr>] else calls_of s d)" for d
    by (simp add: b(1) [THEN fun_cong, of d] Context_Push_def)
  have n: "nested_calls ((c, k, reader) # st) t" using i by (auto simp: nested_calls_def sync_inv_def d)
  have "answered_calls (tr @ [Begun c k reader]) t"
    using sync_inv_more(1) [OF i, of "[Begun c k reader]"]
    by (auto simp: answered_calls_def d split: if_splits)
  moreover have "queued_replies (tr @ [Begun c k reader]) t"
    using sync_inv_more(2) [OF i, of "[Begun c k reader]"] by (simp add: queued_replies_def b(2))
  moreover have "begun_calls (tr @ [Begun c k reader]) ((c, k, reader) # st)"
    using sync_inv_more(3) [OF i] by (auto simp: begun_calls_def)
  moreover have "ended_calls (tr @ [Begun c k reader])"
    using i by (intro ended_calls_more) (auto simp: sync_inv_def)
  ultimately show ?thesis using n by (simp add: sync_inv_def)
qed

lemma sync_inv_pop:
  assumes i: "sync_inv tr ((c, k, reader) # st) s" and p: "Context_Pop c s = Some (b, out, t)"
  shows "sync_inv (tr @ [Ended c k b out]) st t"
proof -
  have ne: "calls_of s c \<noteq> []" and t: "b = ps_send_result (last (calls_of s c))"
      "out = ps_output (last (calls_of s c))"
      "\<And>d. calls_of t d = (if d = c then butlast (calls_of s c) else calls_of s d)"
      "sy_queue t = sy_queue s"
    using p by (auto simp: Context_Pop_def Let_def split: if_splits)
  have m: "map (\<lambda>p. (ps_id p, ps_reader p)) (calls_of s d) =
      rev (map snd (filter (\<lambda>e. fst e = d) ((c, k, reader) # st)))" for d
    using i by (simp add: sync_inv_def nested_calls_def)
  have l: "(ps_id (last (calls_of s c)), ps_reader (last (calls_of s c))) = (k, reader)"
    using m [of c] ne last_map [of "calls_of s c" "\<lambda>p. (ps_id p, ps_reader p)"] by simp
  have "map (\<lambda>p. (ps_id p, ps_reader p)) (calls_of t d) = rev (map snd (filter (\<lambda>e. fst e = d) st))" for d
    using m [of d] by (cases "d = c") (simp_all add: t(3) map_butlast)
  then have n: "nested_calls st t" by (simp add: nested_calls_def)
  have "answered_calls (tr @ [Ended c k b out]) t"
    using sync_inv_more(1) [OF i] unfolding answered_calls_def
    by (metis in_set_butlastD t(3))
  moreover have "queued_replies (tr @ [Ended c k b out]) t"
    using sync_inv_more(2) [OF i, of "[Ended c k b out]"] by (simp add: queued_replies_def t(4))
  moreover have "begun_calls (tr @ [Ended c k b out]) st"
    using sync_inv_more(3) [OF i, of "[Ended c k b out]"] by (simp add: begun_calls_def)
  moreover have "ended_calls (tr @ [Ended c k b out])"
  proof (rule ended_calls_more)
    fix c' i' b' out'
    assume "Ended c' i' b' out' \<in> set [Ended c k b out]"
    then have e: "c' = c" "i' = k" "b' = b" "out' = out" by simp_all
    have "Begun c k reader \<in> set tr" using i by (simp add: sync_inv_def begun_calls_def)
    moreover have "b \<longrightarrow> (\<exists>m. Got c m \<in> set tr \<and> answers m k reader out)"
      using i ne l t(1,2) by (force simp: sync_inv_def answered_calls_def)
    ultimately show "\<exists>reader. Begun c' i' reader \<in> set (tr @ [Ended c k b out]) \<and>
        (b' \<longrightarrow> (\<exists>m. Got c' m \<in> set (tr @ [Ended c k b out]) \<and> answers m i' reader out'))"
      using e by auto
  qed (use i in \<open>simp add: sync_inv_def\<close>)
  ultimately show ?thesis using n by (simp add: sync_inv_def)
qed

lemma sync_inv_step:
  assumes "sync_step env es st s st' s'" "sync_inv tr st s"
  shows "sync_inv (tr @ es) st' s'"
  using assms
proof (induction rule: sync_step.induct)
  case (got c m st s)
  show ?case by (rule sync_inv_upd [OF got]) (simp_all add: calls_upd_got)
next
  case (ipc s c t ts st)
  have "queued_replies tr s" using ipc by (simp add: sync_inv_def)
  then have "queued_replies tr (on_proxy c (take_task ts) s)" by (simp add: queued_replies_def)
  then show ?case using sync_inv_silent [OF ipc(2) calls_upd_trans [OF calls_upd_proxy calls_upd_ipc]] by simp
next
  case (cancel s st c)
  then show ?case using sync_inv_silent calls_upd_cancel
    by (metis Sync_OnWaitableEventSignaled_def append_Nil2)
next
  case (begin_call c sm tmo s s' i reader st)
  then show ?case using sync_inv_begin by blast
next
  case (begin_other c sm tmo s b s' st)
  have "calls_upd tr s s'" using Send_begin_returned [OF begin_other(1)] by (intro calls_updI) auto
  from sync_inv_silent [OF begin_other(2) this] show ?case by simp
next
  case (wait st c i reader st' pump s s')
  then show ?case using sync_inv_silent calls_upd_wait by (metis append_Nil2)
next
  case (finish st c i reader st' pump s s1 b out s')
  then show ?case using sync_inv_silent calls_upd_wait sync_inv_pop by metis
next
  case (pumped st c i reader st' s b out s')
  then show ?case using sync_inv_pop by blast
next
  case (dispatch c s s' st)
  have "calls_upd tr s (on_queue (\<lambda>q. q\<lparr>rq_task_pending := False\<rparr>) s)" by (rule calls_upd_queue) simp
  from calls_upd_trans [OF this calls_upd_dispatch] sync_inv_silent [OF dispatch(2)] dispatch(1)
  show ?case by (simp add: DispatchMessagesTask_def)
next
  case (watched c s s' st)
  have "calls_upd tr s (on_queue (\<lambda>q. q\<lparr>rq_dispatch_event := False\<rparr>) s)" by (rule calls_upd_queue) simp
  from calls_upd_trans [OF this calls_upd_dispatch] sync_inv_silent [OF watched(2)] watched(1)
  show ?case by (simp add: Channel_OnWaitableEventSignaled_def)
next
  case (failed st s c)
  from sync_inv_silent [OF failed calls_upd_error] show ?case by simp
next
  case (closing st s c)
  from sync_inv_silent [OF closing calls_upd_close] show ?case by simp
next
  case (shutdown st s)
  then show ?case using sync_inv_silent [OF shutdown calls_updI [of "s\<lparr>sy_shutdown := True\<rparr>" s]] by simp
next
  case (quit st s c)
  from sync_inv_silent [OF quit calls_updI [of "Sync_OnWaitableEventSignaled c False s" s]]
  show ?case by (simp add: Sync_OnWaitableEventSignaled_def)
next
  case (nested st s c)
  from sync_inv_silent [OF nested calls_updI [of "snd (enter_nested c s)" s]]
  show ?case by (simp add: enter_nested_def on_queue_def)
next
  case (unnested st s w)
  from sync_inv_silent [OF unnested calls_updI [of "leave_nested w s" s]]
  show ?case by (simp add: leave_nested_def)
qed

lemma sync_inv_run:
  assumes "sync_run env tr st s st' s'" "sync_inv tr0 st s"
  shows "sync_inv (tr0 @ tr) st' s'"
  using assms
proof (induction rule: sync_run.induct)
  case (step tr st s st1 s1 es st2 s2)
  then show ?case using sync_inv_step [OF step.hyps(2)] by (metis append.assoc)
qed simp

text \<open>C2: calls and replies.  In every run of the two threads, with calls nested to any depth over any
  number of channels that share the thread, a call that ends was begun on that channel, and if \<open>Send\<close>
  returns true, its outputs are what its own deserializer read from a message that this channel
  received, that is a reply to its own id and not an error reply.\<close>

theorem calls_get_their_replies:
  assumes "sync_run env tr [] s st t" "\<forall>c. calls_of s c = []" "rq_replies (sy_queue s) = []"
    and "Ended c i b out \<in> set tr"
  shows "\<exists>reader. Begun c i reader \<in> set tr \<and>
    (b \<longrightarrow> (\<exists>m. Got c m \<in> set tr \<and> IsMessageReplyTo m i = Some True \<and>
       is_reply_error m \<noteq> Some True \<and> out \<noteq> None \<and> SerializeOutputParameters reader m = Some out))"
proof -
  have "sync_inv [] [] s"
    using assms(2,3) by (simp add: sync_inv_def nested_calls_def answered_calls_def queued_replies_def
        begun_calls_def ended_calls_def)
  from sync_inv_run [OF assms(1) this] assms(4) show ?thesis
    by (simp add: sync_inv_def ended_calls_def answers_def)
qed


section \<open>Shutdown\<close>

lemma tame_listener:
  assumes "tame h" shows "px_listener (ch_user (h s)) = px_listener (ch_user s)"
proof -
  obtain w where "h s = on_px (\<lambda>p. p\<lparr>px_world := w\<rparr>) s" using assms by (auto simp: tame_def)
  then show ?thesis by (simp add: on_px_def)
qed

lemma tame_dispatch:
  assumes "tame_env env" shows "OnDispatchMessage env m s \<noteq> None"
proof -
  have "px_listener (ch_user (OnDispatchConnected env s)) = px_listener (ch_user s)"
    using tame_listener [OF tame_envD(8) [OF assms]] by (simp add: OnDispatchConnected_def on_px_def Let_def)
  then show ?thesis by (simp add: OnDispatchMessage_def Let_def)
qed

lemma tame_dispatch_messages:
  assumes "\<forall>c. tame_env (env c)" shows "\<exists>t. Context_DispatchMessages env c s = Some t"
proof -
  have "\<exists>t. dispatch_list env es s = Some t" for es s
  proof (induction es arbitrary: s)
    case (Cons e es)
    obtain m d where e: "e = (m, d)" by (cases e)
    have "OnDispatchMessage (env d) m (sy_px s d) \<noteq> None" using assms by (intro tame_dispatch) simp
    then show ?case using Cons e by auto
  qed simp
  then show ?thesis
    using dispatch_loop_list [of s c True 0 0 env]
    by (simp add: Context_DispatchMessages_def Queue_DispatchMessages_def Let_def)
qed

lemma sync_run_one: "sync_step env es st s st' s' \<Longrightarrow> sync_run env es st s st' s'"
  using sync_run.step [OF sync_run.start] by fastforce

text \<open>What unblocks the calls of a channel: the shutdown event is signalled to it, its pipe fails, or it is
  closed on the IPC thread.\<close>

datatype unblock_event = ShutdownSignalled nat | ChannelFailed nat | ChannelClosed nat

fun channel_of :: "unblock_event \<Rightarrow> nat" where
  "channel_of (ShutdownSignalled c) = c"
| "channel_of (ChannelFailed c) = c"
| "channel_of (ChannelClosed c) = c"

fun unblock :: "(nat \<Rightarrow> 'w proxy_env) \<Rightarrow> unblock_event \<Rightarrow> ('r, 'w) sync_state \<Rightarrow> ('r, 'w) sync_state" where
  "unblock env (ShutdownSignalled c) s = Sync_OnWaitableEventSignaled c True s"
| "unblock env (ChannelFailed c) s = Sync_OnChannelError env c s"
| "unblock env (ChannelClosed c) s = Sync_OnChannelClosed env c s"

text \<open>The listener's thread on its own: the innermost call goes on with the loop of \<open>WaitForReply\<close>, with its
  \<open>pump_messages_event\<close> in any state; when the loop is left because of the send-done event, \<open>Pop\<close> ends
  the call, and the next one goes on.  \<open>None\<close>: some call does not return.\<close>

fun return_calls ::
    "(nat \<Rightarrow> 'w proxy_env) \<Rightarrow> (nat \<Rightarrow> bool option) \<Rightarrow> 'r call_stack \<Rightarrow> ('r, 'w) sync_state
      \<Rightarrow> ((nat \<times> i32 \<times> bool) list \<times> ('r, 'w) sync_state) option" where
  "return_calls env pump [] s = Some ([], s)"
| "return_calls env pump ((c, i, reader) # st) s =
     (case wait_rounds 3 env c (pump c) s of
        Some (Finished, s1) \<Rightarrow>
          (case Context_Pop c s1 of
             Some (b, out, s2) \<Rightarrow>
               map_option (\<lambda>(rs, t). ((c, i, b) # rs, t)) (return_calls env pump st s2)
           | None \<Rightarrow> None)
      | _ \<Rightarrow> None)"

lemma unblock_calls:
  "calls_of (unblock env e s) d =
     (if d = channel_of e then map (\<lambda>p. p\<lparr>ps_done := True\<rparr>) (calls_of s d) else calls_of s d)"
  by (cases e) (simp_all add: Sync_OnWaitableEventSignaled_def CancelPendingSends_def Sync_OnChannelError_def
      Sync_OnChannelClosed_def)

lemma unblock_all:
  "calls_of (fold (unblock env) es s) d =
     (if d \<in> channel_of ` set es then map (\<lambda>p. p\<lparr>ps_done := True\<rparr>) (calls_of s d) else calls_of s d)"
proof (induction es arbitrary: s)
  case (Cons e es)
  then show ?case by (auto simp: unblock_calls)
qed simp

text \<open>The wait of a call that has been signalled ends, with the event of the queue set or not.\<close>

lemma signalled_wait:
  fixes s :: "('r, 'w) sync_state"
  assumes te: "\<forall>c. tame_env (env c)" and d: "GetSendDoneEvent c s"
  obtains t where "wait_rounds 3 env c pump s = Some (Finished, t)" "sy_ctx t = sy_ctx s"
proof (cases "rq_dispatch_event (sy_queue s)")
  case False
  then have "wait_rounds 3 env c pump s = Some (Finished, s)"
    using d by (simp add: numeral_3_eq_3 wait_step_def WaitMany3_def)
  then show thesis by (rule that) simp
next
  case True
  obtain v where v: "Context_DispatchMessages env c (on_queue (\<lambda>q. q\<lparr>rq_dispatch_event := False\<rparr>) s) = Some v"
    using tame_dispatch_messages [OF te] by blast
  have c: "sy_ctx v = sy_ctx s" "\<not> rq_dispatch_event (sy_queue v)" using dispatch_spec [OF v] by simp_all
  have "wait_step env c pump s = Some (Again, v)" using True v by (simp add: wait_step_def WaitMany3_def)
  moreover have "wait_step env c pump v = Some (Finished, v)"
    using d c by (simp add: wait_step_def WaitMany3_def GetSendDoneEvent_def)
  ultimately have "wait_rounds 3 env c pump s = Some (Finished, v)" by (simp add: numeral_3_eq_3)
  then show thesis by (rule that) (rule c(1))
qed

text \<open>The calls on the stack all pending and signalled, they return from the inside out; a call returns the
  result its reply left, failure if none came.\<close>

definition results_of :: "'r call_stack \<Rightarrow> ('r, 'w) sync_state \<Rightarrow> (nat \<times> i32 \<times> bool) list \<Rightarrow> bool" where
  "results_of st s rs \<longleftrightarrow> map (\<lambda>(c, i, b). (c, i)) rs = map (\<lambda>(c, i, reader). (c, i)) st \<and>
     (\<forall>c. map (\<lambda>(c, i, b). b) (filter (\<lambda>(d, i, b). d = c) rs) = rev (map ps_send_result (calls_of s c)))"

lemma unwind:
  fixes s :: "('r, 'w) sync_state"
  assumes te: "\<forall>c. tame_env (env c)"
  shows "nested_calls st s \<Longrightarrow> \<forall>e \<in> set st. \<forall>p \<in> set (calls_of s (fst e)). ps_done p \<Longrightarrow>
    \<exists>rs t. return_calls env pump st s = Some (rs, t) \<and> (\<forall>c. calls_of t c = []) \<and> results_of st s rs"
proof (induction st arbitrary: s)
  case Nil
  then show ?case by (auto simp: nested_calls_def results_of_def)
next
  case (Cons e st)
  obtain c i reader where e: "e = (c, i, reader)" by (cases e)
  let ?ps = "calls_of s c"
  have ne: "?ps \<noteq> []"
  proof
    assume "?ps = []"
    then show False using Cons.prems(1) by (auto simp: nested_calls_def e dest: spec [of _ c])
  qed
  then have "GetSendDoneEvent c s" using Cons.prems(2) by (simp add: GetSendDoneEvent_def e)
  then obtain u where u: "wait_rounds 3 env c (pump c) s = Some (Finished, u)" "sy_ctx u = sy_ctx s"
    by (rule signalled_wait [OF te])
  define t where "t = on_proxy c (post_ipc TDispatchReplies)
    (on_ctx c (\<lambda>x. x\<lparr>sc_deserializers := butlast (sc_deserializers x)\<rparr>) u)"
  have t: "Context_Pop c u = Some (ps_send_result (last ?ps), ps_output (last ?ps), t)"
    "calls_of t d = (if d = c then butlast ?ps else calls_of s d)" for d
    using ne by (simp_all add: Context_Pop_def Let_def u(2) t_def)
  have "map (\<lambda>p. (ps_id p, ps_reader p)) (calls_of t d) = rev (map snd (filter (\<lambda>e. fst e = d) st))" for d
    using Cons.prems(1) t(2) by (auto simp: nested_calls_def e map_butlast dest: spec [of _ d])
  then have "nested_calls st t" by (simp add: nested_calls_def)
  moreover have "\<forall>e \<in> set st. \<forall>p \<in> set (calls_of t (fst e)). ps_done p"
    using Cons.prems(2) t(2) by (auto dest: in_set_butlastD split: if_splits)
  ultimately obtain rs v where v: "return_calls env pump st t = Some (rs, v)" "\<forall>c. calls_of v c = []"
    "results_of st t rs" using Cons.IH by blast
  have "rev (map ps_send_result (butlast ?ps @ [last ?ps])) = ps_send_result (last ?ps) # rev (map ps_send_result (butlast ?ps))"
    by simp
  then have "rev (map ps_send_result ?ps) = ps_send_result (last ?ps) # rev (map ps_send_result (butlast ?ps))"
    unfolding append_butlast_last_id [OF ne] .
  then have "results_of (e # st) s ((c, i, ps_send_result (last ?ps)) # rs)"
    using v(3) t(2) by (simp add: results_of_def e)
  then show ?case using u(1) t(1) v by (simp add: e)
qed

text \<open>C8: a shutdown, an error of a channel and its closing unblock the calls.  However deep calls are nested
  over whatever channels, and whatever messages, replies and timeouts came before: once each channel with a
  blocked call has been signalled the shutdown event, has failed or has been closed, in any order, every
  call that is blocked in \<open>WaitForReply\<close> returns, the innermost first, without the help of any other thread,
  with the result its reply left, failure if none had come.  (Listener and filters are tame; a call that
  pumps messages in a nested loop is left to its watcher.)\<close>

theorem shutdown_unblocks:
  assumes "sync_run env tr [] s0 st s" "\<forall>c. calls_of s0 c = []" "rq_replies (sy_queue s0) = []"
    and "\<forall>c. tame_env (env c)" "fst ` set st \<subseteq> channel_of ` set es"
  shows "\<exists>rs t. return_calls env pump st (fold (unblock env) es s) = Some (rs, t) \<and>
    (\<forall>c. calls_of t c = []) \<and> results_of st s rs"
proof -
  have "sync_inv [] [] s0"
    using assms(2,3) by (simp add: sync_inv_def nested_calls_def answered_calls_def queued_replies_def
        begun_calls_def ended_calls_def)
  from sync_inv_run [OF assms(1) this] have "nested_calls st s" by (simp add: sync_inv_def)
  then have "nested_calls st (fold (unblock env) es s)"
    by (simp add: nested_calls_def unblock_all comp_def)
  moreover have "\<forall>e \<in> set st. \<forall>p \<in> set (calls_of (fold (unblock env) es s) (fst e)). ps_done p"
    using assms(5) by (auto simp: unblock_all)
  moreover have "map ps_send_result (calls_of (fold (unblock env) es s) c) = map ps_send_result (calls_of s c)" for c
    by (simp add: unblock_all comp_def)
  then have "results_of st (fold (unblock env) es s) rs = results_of st s rs" for rs
    by (simp add: results_of_def)
  ultimately show ?thesis using unwind [OF assms(4)] by metis
qed


section \<open>A call and its reply\<close>

definition idle_state :: "(nat, listener_log) sync_state" where
  "idle_state = \<lparr>sy_ctx = \<lambda>_. \<lparr>sc_deserializers = [], sc_group = 0, sc_watching = True\<rparr>,
     sy_px = \<lambda>_. plain_channel [], sy_queue = new_queue, sy_tls = True, sy_shutdown = False,
     sy_quit = False\<rparr>"

lemma call_and_reply:
  obtains sm :: "(iter \<Rightarrow> nat option, bool) sync_message" and r where
    "is_sync (sm_msg sm) = Some True" "GetMessageId (sm_msg sm) = Some 7"
    "sm_deserializer sm = Some (\<lambda>_. Some 5)" "IsMessageReplyTo r 7 = Some True"
    "is_reply_error r = Some False" "SerializeOutputParameters (\<lambda>_. Some 5) r = Some (Some (5 :: nat))"
proof -
  have p: "(2 :: u32) \<le> 3" by simp
  obtain sm :: "(iter \<Rightarrow> nat option, bool) sync_message" where sm:
    "SyncMessage_new zero_realloc None 3 70001 2 (Some (\<lambda>_. Some 5)) 10 7 = Some (sm, 11, 8)"
    "msg_inv (sm_msg sm)" "carries 7 [] (sm_msg sm)"
    "m_flags (sm_msg sm) = (2 OR fst (GetRefNumUpper24 None 10)) OR (SYNC_BIT OR UNBLOCK_BIT)"
    using SyncMessage_new_spec [OF zero_realloc_ok p, of None 3 70001 "Some (\<lambda>_. Some 5)" 10 7] by auto
  have sy: "is_sync (sm_msg sm) = Some True"
    using header_fields [OF msg_inv_ok [OF sm(2)]] sm(4) sync_flags [OF p sm(4)] by (simp add: is_sync_def)
  have d: "sm_deserializer sm = Some (\<lambda>_. Some 5)"
    using sm(1) by (auto simp: SyncMessage_new_def Let_def bind_eq_Some_conv GetNext_def)
  obtain r where r: "carries 7 [] r" "is_reply r = Some True" "is_reply_error r = Some False"
    using GenerateReply_spec [OF zero_realloc_ok sm(3) sy] by blast
  have "IsMessageReplyTo r 7 = Some True" using reply_matches [OF r(1,2)] by simp
  moreover have "SerializeOutputParameters (\<lambda>_. Some 5) r = Some (Some (5 :: nat))"
    using GetDataIterator_positioned [OF r(1)] by (auto simp: SerializeOutputParameters_def)
  ultimately show thesis using that sy GetMessageId_id [OF sm(3)] d r(3) by blast
qed

lemma call_waits:
  fixes sm :: "(iter \<Rightarrow> nat option, bool) sync_message"
  assumes "is_sync (sm_msg sm) = Some True" "GetMessageId (sm_msg sm) = Some 7"
    "sm_deserializer sm = Some (\<lambda>_. Some 5)"
  obtains s where "sync_run (\<lambda>_. plain_env) [Begun 0 7 (\<lambda>_. Some 5)] [] idle_state [(0, 7, \<lambda>_. Some 5)] s"
    "calls_of s 0 = [\<lparr>ps_id = 7, ps_reader = \<lambda>_. Some (5 :: nat), ps_done = False, ps_send_result = False,
       ps_output = None\<rparr>]" "sy_queue s = new_queue" "px_filters (ch_user (sy_px s 0)) = []"
proof -
  obtain s where s: "Send_begin (\<lambda>_. plain_env) 0 sm kNoTimeout idle_state = Some (Waiting, s)"
    "px_filters (ch_user (sy_px s 0)) = []"
    using assms by (simp add: Send_begin_def Context_Push_def idle_state_def GetReplyDeserializer_def Let_def
        ChannelProxy_Send_def post_ipc_def on_px_def plain_channel_def Context_new_def)
  note b = Send_begin_waiting [OF s(1) assms(2,3)]
  have "calls_of s 0 = calls_of (Context_Push 0 7 (\<lambda>_. Some 5) idle_state) 0"
    by (rule b(1) [THEN fun_cong])
  then show thesis
    using that [OF sync_run_one [OF sync_step.begin_call [OF s(1) assms(2,3)]]] b(2) s(2)
    by (simp add: Context_Push_def idle_state_def)
qed

lemma calls_get_their_replies_witness:
  "\<exists>tr t. sync_run (\<lambda>_. plain_env) tr [] idle_state [] t \<and> Ended 0 7 True (Some 5) \<in> set tr \<and>
     (\<exists>m. Got 0 m \<in> set tr \<and> IsMessageReplyTo m 7 = Some True)"
proof -
  obtain sm :: "(iter \<Rightarrow> nat option, bool) sync_message" and r where sm:
    "is_sync (sm_msg sm) = Some True" "GetMessageId (sm_msg sm) = Some 7"
    "sm_deserializer sm = Some (\<lambda>_. Some 5)" and r: "IsMessageReplyTo r 7 = Some True"
    "is_reply_error r = Some False" "SerializeOutputParameters (\<lambda>_. Some 5) r = Some (Some (5 :: nat))"
    by (rule call_and_reply)
  let ?p = "\<lparr>ps_id = 7, ps_reader = \<lambda>_. Some (5 :: nat), ps_done = False, ps_send_result = False,
    ps_output = None\<rparr>"
  obtain s where s: "sync_run (\<lambda>_. plain_env) [Begun 0 7 (\<lambda>_. Some 5)] [] idle_state [(0, 7, \<lambda>_. Some 5)] s"
    "calls_of s 0 = [?p]" "sy_queue s = new_queue" "px_filters (ch_user (sy_px s 0)) = []"
    by (rule call_waits [OF sm])
  define u where "u = Sync_OnMessageReceived (\<lambda>_. plain_env) 0 r s"
  have u: "calls_of u 0 = [?p\<lparr>ps_send_result := True, ps_output := Some 5, ps_done := True\<rparr>]"
      "sy_queue u = new_queue"
    using s r
    by (simp_all add: u_def Sync_OnMessageReceived_def TryFilters_def TryToUnblockListener_def
        accept_reply_def Let_def)
  have g: "sync_run (\<lambda>_. plain_env) ([Begun 0 7 (\<lambda>_. Some 5)] @ [Got 0 r]) [] idle_state
      [(0, 7, \<lambda>_. Some 5)] u"
    unfolding u_def by (rule sync_run.step [OF s(1) sync_step.got])
  have w: "wait_step (\<lambda>_. plain_env) 0 None u = Some (Finished, u)"
    using u by (simp add: wait_step_def WaitMany3_def GetSendDoneEvent_def new_queue_def)
  obtain v where "Context_Pop 0 u = Some (True, Some 5, v)" using u by (simp add: Context_Pop_def Let_def)
  from sync_run.step [OF g sync_step.finish [OF refl w this]]
  have run: "sync_run (\<lambda>_. plain_env) [Begun 0 7 (\<lambda>_. Some 5), Got 0 r, Ended 0 7 True (Some 5)] []
      idle_state [] v" by simp
  have "\<exists>m. Got 0 m \<in> set [Begun 0 7 (\<lambda>_. Some 5), Got 0 r, Ended 0 7 True (Some (5 :: nat))] \<and>
      IsMessageReplyTo m 7 = Some True"
    using calls_get_their_replies [where env = "\<lambda>_. plain_env" and c = 0 and i = 7 and b = True and out = "Some 5" and st = "[]"
        and t = v and s = idle_state and tr = "[Begun 0 7 (\<lambda>_. Some 5), Got 0 r, Ended 0 7 True (Some 5)]"] run
    by (simp add: idle_state_def new_queue_def)
  with run show ?thesis by (intro exI [of _ "[Begun 0 7 (\<lambda>_. Some 5), Got 0 r, Ended 0 7 True (Some 5)]"]) auto
qed

lemma shutdown_unblocks_witness:
  "\<exists>(s :: (nat, listener_log) sync_state) t. calls_of s 0 \<noteq> [] \<and>
     wait_rounds 3 (\<lambda>_. plain_env) 0 None s = Some (Blocked, s) \<and>
     return_calls (\<lambda>_. plain_env) (\<lambda>_. None) [(0, 7, \<lambda>_. Some 5)] (Sync_OnChannelError (\<lambda>_. plain_env) 0 s) =
       Some ([(0, 7, False)], t)"
proof -
  obtain sm :: "(iter \<Rightarrow> nat option, bool) sync_message" and r where sm:
    "is_sync (sm_msg sm) = Some True" "GetMessageId (sm_msg sm) = Some 7"
    "sm_deserializer sm = Some (\<lambda>_. Some 5)"
    by (rule call_and_reply)
  obtain s where s: "sync_run (\<lambda>_. plain_env) [Begun 0 7 (\<lambda>_. Some 5)] [] idle_state [(0, 7, \<lambda>_. Some 5)] s"
    "calls_of s 0 = [\<lparr>ps_id = 7, ps_reader = \<lambda>_. Some (5 :: nat), ps_done = False, ps_send_result = False,
       ps_output = None\<rparr>]" "sy_queue s = new_queue"
    by (rule call_waits [OF sm])
  have b: "wait_rounds 3 (\<lambda>_. plain_env) 0 None s = Some (Blocked, s)"
    using s by (simp add: numeral_3_eq_3 wait_step_def WaitMany3_def GetSendDoneEvent_def new_queue_def)
  obtain rs t where r: "return_calls (\<lambda>_. plain_env) (\<lambda>_. None) [(0, 7, \<lambda>_. Some 5)]
      (Sync_OnChannelError (\<lambda>_. plain_env) 0 s) = Some (rs, t)" "results_of [(0, 7, \<lambda>_. Some 5)] s rs"
    using shutdown_unblocks [OF s(1), of "[ChannelFailed 0]" "\<lambda>_. None"] tame_plain
    by (auto simp: idle_state_def new_queue_def)
  from r(2) obtain x where "rs = [x]" "fst x = 0" "fst (snd x) = 7"
    by (cases rs) (auto simp: results_of_def split: prod.splits)
  moreover from this have "snd (snd x) = False"
    using r(2) s(2) by (auto simp: results_of_def split: prod.splits dest: spec [of _ 0])
  ultimately have "rs = [(0, 7, False)]" by (cases x) simp
  with s(2) b r(1) show ?thesis by (metis list.distinct(1))
qed

lemma dispatch_in_order_witness:
  "\<forall>m. \<exists>t. Queue_DispatchMessages (\<lambda>_. plain_env) [QueueMessage m 0] 0 (QueueMessage m 0 idle_state) = Some t \<and>
     rq_messages (sy_queue t) = [] \<and>
     filter (\<lambda>e. e \<noteq> Failed \<and> (\<forall>pid. e \<noteq> Connected pid)) (lg_told (px_world (ch_user (sy_px t 0)))) = [Received m, Received m]"
proof
  fix m
  let ?s = "QueueMessage m 0 idle_state"
  have b: "\<forall>f\<in>set [QueueMessage m 0]. \<forall>s. bumps s (f s)" by (simp add: QueueMessage_bumps)
  note r = conjunct1 [OF dispatch_in_order [OF b, of "\<lambda>_. plain_env" 0 ?s]]
  show "\<exists>t. Queue_DispatchMessages (\<lambda>_. plain_env) [QueueMessage m 0] 0 ?s = Some t \<and>
      rq_messages (sy_queue t) = [] \<and>
      filter (\<lambda>e. e \<noteq> Failed \<and> (\<forall>pid. e \<noteq> Connected pid)) (lg_told (px_world (ch_user (sy_px t 0)))) =
        [Received m, Received m]"
    unfolding r
    by (simp add: oldest_first.simps extract_Cons_code extract_Nil_code QueueMessage_def idle_state_def new_queue_def
        eligible_def kRestrictDispatchGroup_None_def OnDispatchMessage_def OnDispatchConnected_def plain_env_def
        plain_channel_def Context_new_def note_told_def on_px_def post_listener_def Let_def)
qed

end
