(* ===== verification/SyncMessageFilter.thy ===== *)
theory SyncMessageFilter
  imports SyncChannel_Props
begin

text \<open>
  \<open>ipc/ipc_sync_message_filter.{h,cc}\<close>: synchronous calls from threads other than the listener's.
  \<open>smf_pending\<close> is \<open>pending_sync_messages_\<close>, a set of pointers iterated by address: an association list
  sorted by the address of the \<open>PendingSyncMsg\<close> on the stack of the caller.  \<open>smf_posted\<close> are the
  messages of the tasks posted to the IO thread, \<open>smf_wire\<close> those given to \<open>channel_->Send\<close>.
  \<open>Send\<close> blocks in the middle, so it is cut there.
\<close>

section \<open>The filter\<close>

record 'r smf =
  smf_channel :: bool
  smf_io_loop :: bool
  smf_pending :: "(nat \<times> 'r pending_send) list"
  smf_posted :: "message list"
  smf_wire :: "message list"
  smf_shutdown :: bool

definition SyncMessageFilter_new :: "'r smf" where
  "SyncMessageFilter_new = \<lparr>smf_channel = False, smf_io_loop = False, smf_pending = [], smf_posted = [],
     smf_wire = [], smf_shutdown = False\<rparr>"

fun insert_pending ::
    "nat \<Rightarrow> 'r pending_send \<Rightarrow> (nat \<times> 'r pending_send) list \<Rightarrow> (nat \<times> 'r pending_send) list" where
  "insert_pending a p [] = [(a, p)]"
| "insert_pending a p ((b, q) # ps) =
     (if a < b then (a, p) # (b, q) # ps
      else if a = b then (b, q) # ps else (b, q) # insert_pending a p ps)"

definition SignalAllEvents :: "'r smf \<Rightarrow> 'r smf" where
  "SignalAllEvents s = s\<lparr>smf_pending := map (\<lambda>(a, p). (a, p\<lparr>ps_done := True\<rparr>)) (smf_pending s)\<rparr>"

text \<open>\<open>Send\<close> up to \<open>WaitMany\<close>; the pending message lies at the address \<open>a\<close>.\<close>

definition Filter_Send_begin ::
    "nat \<Rightarrow> (iter \<Rightarrow> 'r option, 'e) sync_message \<Rightarrow> 'r smf \<Rightarrow> (send_state \<times> 'r smf) option" where
  "Filter_Send_begin a sm s =
     (if \<not> smf_io_loop s then Some (Returned False, s)
      else do {
        sync \<leftarrow> is_sync (sm_msg sm);
        (if \<not> sync then Some (Returned True, s\<lparr>smf_posted := smf_posted s @ [sm_msg sm]\<rparr>)
         else do {
           i \<leftarrow> GetMessageId (sm_msg sm);
           reader \<leftarrow> fst (GetReplyDeserializer sm);
           let p = \<lparr>ps_id = i, ps_reader = reader, ps_done = False, ps_send_result = False,
                    ps_output = None\<rparr>;
           let s1 = s\<lparr>smf_pending := insert_pending a p (smf_pending s)\<rparr>;
           Some (Waiting, s1\<lparr>smf_posted := smf_posted s1 @ [sm_msg sm]\<rparr>) }) })"

text \<open>\<open>WaitMany\<close> returns when the shutdown event or the event of the message at \<open>a\<close> is set.\<close>

definition Filter_may_return :: "nat \<Rightarrow> 'r smf \<Rightarrow> bool" where
  "Filter_may_return a s \<longleftrightarrow> smf_shutdown s \<or>
     (case map_of (smf_pending s) a of None \<Rightarrow> False | Some p \<Rightarrow> ps_done p)"

definition Filter_Send_end :: "nat \<Rightarrow> 'r smf \<Rightarrow> bool \<times> 'r option \<times> 'r smf" where
  "Filter_Send_end a s =
     (let s' = s\<lparr>smf_pending := filter (\<lambda>(b, _). b \<noteq> a) (smf_pending s)\<rparr>
      in case map_of (smf_pending s) a of
           None \<Rightarrow> (False, None, s') | Some p \<Rightarrow> (ps_send_result p, ps_output p, s'))"

definition Filter_OnFilterAdded :: "'r smf \<Rightarrow> 'r smf" where
  "Filter_OnFilterAdded s = s\<lparr>smf_channel := True, smf_io_loop := True\<rparr>"

definition Filter_OnChannelError :: "'r smf \<Rightarrow> 'r smf" where
  "Filter_OnChannelError s = SignalAllEvents (s\<lparr>smf_channel := False\<rparr>)"

definition Filter_OnChannelClosing :: "'r smf \<Rightarrow> 'r smf" where
  "Filter_OnChannelClosing s = SignalAllEvents (s\<lparr>smf_channel := False\<rparr>)"

fun answer_first ::
    "message \<Rightarrow> (nat \<times> 'r pending_send) list \<Rightarrow> bool \<times> (nat \<times> 'r pending_send) list" where
  "answer_first m [] = (False, [])"
| "answer_first m ((a, p) # ps) =
     (if IsMessageReplyTo m (ps_id p) = Some True then (True, (a, accept_reply m p) # ps)
      else let (b, qs) = answer_first m ps in (b, (a, p) # qs))"

definition Filter_OnMessageReceived :: "message \<Rightarrow> 'r smf \<Rightarrow> bool \<times> 'r smf" where
  "Filter_OnMessageReceived m s =
     (let (b, ps) = answer_first m (smf_pending s) in (b, s\<lparr>smf_pending := ps\<rparr>))"

definition SendOnIOThread :: "message \<Rightarrow> 'r smf \<Rightarrow> 'r smf" where
  "SendOnIOThread m s =
     (if smf_channel s then s\<lparr>smf_wire := smf_wire s @ [m]\<rparr>
      else if is_sync m = Some True then SignalAllEvents s else s)"

section \<open>Runs\<close>

text \<open>The steps of the calling threads (each with its own address \<open>a\<close>) and of the IO thread.  \<open>got\<close>
  collects the messages received.\<close>

inductive smf_step :: "message list \<Rightarrow> 'r smf \<Rightarrow> message list \<Rightarrow> 'r smf \<Rightarrow> bool" where
  send: "Filter_Send_begin a (sm :: (iter \<Rightarrow> 'r option, bool) sync_message) s = Some (r, t) \<Longrightarrow>
         a \<notin> fst ` set (smf_pending s) \<Longrightarrow> smf_step got s got t"
| return: "Filter_may_return a s \<Longrightarrow> smf_step got s got (snd (snd (Filter_Send_end a s)))"
| added: "smf_step got s got (Filter_OnFilterAdded s)"
| error: "smf_step got s got (Filter_OnChannelError s)"
| close: "smf_step got s got (Filter_OnChannelClosing s)"
| received: "smf_step got s (got @ [m]) (snd (Filter_OnMessageReceived m s))"
| posted: "smf_posted s = m # ms \<Longrightarrow> smf_step got s got (SendOnIOThread m (s\<lparr>smf_posted := ms\<rparr>))"
| shutdown: "smf_step got s got (s\<lparr>smf_shutdown := True\<rparr>)"

inductive smf_reachable :: "message list \<Rightarrow> 'r smf \<Rightarrow> bool" where
  start: "smf_reachable [] SyncMessageFilter_new"
| step: "smf_reachable got s \<Longrightarrow> smf_step got s got' t \<Longrightarrow> smf_reachable got' t"

definition filter_answer :: "message list \<Rightarrow> 'r pending_send \<Rightarrow> bool" where
  "filter_answer got p \<longleftrightarrow> (\<exists>m \<in> set got. answers m (ps_id p) (ps_reader p) (ps_output p))"

definition smf_inv :: "message list \<Rightarrow> 'r smf \<Rightarrow> bool" where
  "smf_inv got s \<longleftrightarrow>
     (\<forall>a p. (a, p) \<in> set (smf_pending s) \<longrightarrow> ps_send_result p \<longrightarrow> filter_answer got p) \<and>
     (\<not> smf_channel s \<longrightarrow> (\<forall>m \<in> set (smf_posted s). is_sync m \<noteq> Some True) \<longrightarrow>
        (\<forall>a p. (a, p) \<in> set (smf_pending s) \<longrightarrow> ps_done p))"

lemma set_insert_pending: "set (insert_pending a p ps) \<subseteq> insert (a, p) (set ps)"
  by (induction a p ps rule: insert_pending.induct) auto

lemma answer_first_cases:
  "(a, q) \<in> set (snd (answer_first m ps)) \<Longrightarrow>
   (a, q) \<in> set ps \<or> (\<exists>p. (a, p) \<in> set ps \<and> IsMessageReplyTo m (ps_id p) = Some True \<and> q = accept_reply m p)"
proof (induction m ps rule: answer_first.induct)
  case (2 m b p ps)
  then show ?case by (cases "answer_first m ps") (auto split: if_splits)
qed simp

lemma smf_inv_signal:
  assumes "smf_inv got s" "smf_pending t = smf_pending s" shows "smf_inv got (SignalAllEvents t)"
  using assms by (auto simp: smf_inv_def SignalAllEvents_def filter_answer_def)

lemma smf_inv_more: "smf_inv got s \<Longrightarrow> smf_inv (got @ ms) s"
  unfolding smf_inv_def filter_answer_def by (metis UnI1 set_append)

lemma smf_inv_send:
  assumes i: "smf_inv got s" and s: "Filter_Send_begin a sm s = Some (r, t)"
  shows "smf_inv got t"
proof -
  consider "t = s" | "t = s\<lparr>smf_posted := smf_posted s @ [sm_msg sm]\<rparr>"
    | i rd where "is_sync (sm_msg sm) = Some True"
        "t = s\<lparr>smf_pending := insert_pending a \<lparr>ps_id = i, ps_reader = rd, ps_done = False,
             ps_send_result = False, ps_output = None\<rparr> (smf_pending s),
             smf_posted := smf_posted s @ [sm_msg sm]\<rparr>"
    using s by (auto simp: Filter_Send_begin_def Let_def bind_eq_Some_conv split: if_splits)
  then show ?thesis
  proof cases
    case 3
    then show ?thesis using i set_insert_pending [of a _ "smf_pending s"]
      by (fastforce simp: smf_inv_def)
  qed (use i in \<open>auto simp: smf_inv_def\<close>)
qed

lemma smf_inv_fewer:
  assumes "smf_inv got s" "set (smf_pending t) \<subseteq> set (smf_pending s)" "smf_posted t = smf_posted s"
    "smf_channel t = smf_channel s"
  shows "smf_inv got t"
proof -
  have m: "(b, p) \<in> set (smf_pending s)" if "(b, p) \<in> set (smf_pending t)" for b p
    using assms(2) that by (rule subsetD)
  show ?thesis using assms(1) m unfolding smf_inv_def assms(3,4) by meson
qed

lemma Filter_Send_end_fields:
  "set (smf_pending (snd (snd (Filter_Send_end a s)))) \<subseteq> set (smf_pending s)"
  "smf_posted (snd (snd (Filter_Send_end a s))) = smf_posted s"
  "smf_channel (snd (snd (Filter_Send_end a s))) = smf_channel s"
  by (cases "map_of (smf_pending s) a", simp_all add: Filter_Send_end_def Let_def filter_is_subset)+

lemma smf_inv_return:
  "smf_inv got s \<Longrightarrow> smf_inv got (snd (snd (Filter_Send_end a s)))"
  by (rule smf_inv_fewer [OF _ Filter_Send_end_fields])

lemma smf_inv_received:
  assumes "smf_inv got s" shows "smf_inv (got @ [m]) (snd (Filter_OnMessageReceived m s))"
proof -
  have e: "snd (Filter_OnMessageReceived m s) = s\<lparr>smf_pending := snd (answer_first m (smf_pending s))\<rparr>"
    by (cases "answer_first m (smf_pending s)") (simp add: Filter_OnMessageReceived_def)
  have a: "filter_answer (got @ [m]) (accept_reply m p)"
    if "ps_send_result p \<longrightarrow> filter_answer (got @ [m]) p" "IsMessageReplyTo m (ps_id p) = Some True"
      "ps_send_result (accept_reply m p)" for p
    using that by (auto simp: accept_reply_def filter_answer_def answers_def split: option.splits if_splits)
  have d: "ps_done (accept_reply m p)" for p :: "'a pending_send"
    by (simp add: accept_reply_def split: option.split)
  have i: "smf_inv (got @ [m]) s" by (rule smf_inv_more [OF assms])
  have 1: "filter_answer (got @ [m]) q"
    if "(b, q) \<in> set (snd (answer_first m (smf_pending s)))" "ps_send_result q" for b q
    using answer_first_cases [OF that(1)] i that(2) a unfolding smf_inv_def by metis
  have 2: "ps_done q" if "\<not> smf_channel s" "\<forall>m \<in> set (smf_posted s). is_sync m \<noteq> Some True"
      "(b, q) \<in> set (snd (answer_first m (smf_pending s)))" for b q
    using answer_first_cases [OF that(3)] i that(1,2) d unfolding smf_inv_def by metis
  show ?thesis unfolding e smf_inv_def using 1 2 by simp
qed

lemma smf_inv_posted:
  assumes i: "smf_inv got s" and p: "smf_posted s = m # ms"
  shows "smf_inv got (SendOnIOThread m (s\<lparr>smf_posted := ms\<rparr>))"
proof (cases "smf_channel s \<or> is_sync m \<noteq> Some True")
  case True
  then have a: "\<not> smf_channel s \<Longrightarrow> is_sync m \<noteq> Some True" by blast
  define t where "t = SendOnIOThread m (s\<lparr>smf_posted := ms\<rparr>)"
  have t: "smf_pending t = smf_pending s" "smf_posted t = ms" "smf_channel t = smf_channel s"
    using True by (auto simp: t_def SendOnIOThread_def)
  show ?thesis using i a p unfolding smf_inv_def t_def [symmetric] t by simp
next
  case False
  then have "SendOnIOThread m (s\<lparr>smf_posted := ms\<rparr>) = SignalAllEvents (s\<lparr>smf_posted := ms\<rparr>)"
    by (simp add: SendOnIOThread_def)
  then show ?thesis using smf_inv_signal [OF i] by simp
qed

lemma smf_inv_added: "smf_inv got s \<Longrightarrow> smf_inv got (Filter_OnFilterAdded s)"
  by (simp add: smf_inv_def Filter_OnFilterAdded_def)

lemma smf_inv_gone:
  assumes "smf_inv got s"
  shows "smf_inv got (Filter_OnChannelError s)" "smf_inv got (Filter_OnChannelClosing s)"
  unfolding Filter_OnChannelError_def Filter_OnChannelClosing_def
  by (rule smf_inv_signal [OF assms], simp)+

lemma smf_inv_shutdown: "smf_inv got s \<Longrightarrow> smf_inv got (s\<lparr>smf_shutdown := True\<rparr>)"
  by (simp add: smf_inv_def)

lemma smf_inv_step: "smf_step got s got' t \<Longrightarrow> smf_inv got s \<Longrightarrow> smf_inv got' t"
  by (induction rule: smf_step.induct)
    (simp_all only: smf_inv_send smf_inv_return smf_inv_added smf_inv_gone smf_inv_received smf_inv_posted
      smf_inv_shutdown)

lemma smf_reachable_inv: "smf_reachable got s \<Longrightarrow> smf_inv got s"
proof (induction rule: smf_reachable.induct)
  case start
  then show ?case by (simp add: smf_inv_def SyncMessageFilter_new_def)
qed (rule smf_inv_step)

text \<open>C18: calls from other threads.  A call that returns true has the outputs its own deserializer
  read from a message that was received as a reply to its id and was no error reply; and once the
  channel is gone and the tasks posted before have run, no call is left blocked.\<close>

theorem filter_calls:
  assumes "smf_reachable got s"
  shows "(Filter_Send_end a s = (True, out, t) \<longrightarrow>
      (\<exists>p m. map_of (smf_pending s) a = Some p \<and> m \<in> set got \<and> IsMessageReplyTo m (ps_id p) = Some True \<and>
         is_reply_error m \<noteq> Some True \<and> out \<noteq> None \<and>
         SerializeOutputParameters (ps_reader p) m = Some out)) \<and>
    (\<not> smf_channel s \<and> smf_posted s = [] \<and> map_of (smf_pending s) a \<noteq> None \<longrightarrow> Filter_may_return a s)"
proof (intro conjI impI)
  have i: "smf_inv got s" by (rule smf_reachable_inv [OF assms])
  {
    assume e: "Filter_Send_end a s = (True, out, t)"
    then obtain p where p: "map_of (smf_pending s) a = Some p" "ps_send_result p" "out = ps_output p"
      by (auto simp: Filter_Send_end_def Let_def split: option.splits)
    then have "filter_answer got p" using i map_of_SomeD [OF p(1)] by (auto simp: smf_inv_def)
    then show "\<exists>p m. map_of (smf_pending s) a = Some p \<and> m \<in> set got \<and> IsMessageReplyTo m (ps_id p) = Some True \<and>
         is_reply_error m \<noteq> Some True \<and> out \<noteq> None \<and> SerializeOutputParameters (ps_reader p) m = Some out"
      using p(1,3) by (auto simp: filter_answer_def answers_def)
  }
  assume c: "\<not> smf_channel s \<and> smf_posted s = [] \<and> map_of (smf_pending s) a \<noteq> None"
  then obtain p where p: "map_of (smf_pending s) a = Some p" by blast
  then have "ps_done p" using i c map_of_SomeD [OF p] by (auto simp: smf_inv_def)
  then show "Filter_may_return a s" using p by (simp add: Filter_may_return_def)
qed

text \<open>A call is begun, the channel fails, its task runs: the call returns.\<close>

lemma filter_calls_witness:
  "\<exists>got (s :: nat smf). smf_reachable got s \<and> fst ` set (smf_pending s) = {3} \<and> \<not> smf_channel s \<and> Filter_may_return 3 s"
proof -
  obtain sm :: "(iter \<Rightarrow> nat option, bool) sync_message" and r where sm:
    "is_sync (sm_msg sm) = Some True" "GetMessageId (sm_msg sm) = Some 7"
    "sm_deserializer sm = Some (\<lambda>_. Some 5)"
    by (rule call_and_reply)
  let ?p = "\<lparr>ps_id = 7, ps_reader = \<lambda>_. Some (5 :: nat), ps_done = False, ps_send_result = False,
    ps_output = None\<rparr>"
  let ?s1 = "Filter_OnFilterAdded (SyncMessageFilter_new :: nat smf)"
  let ?s2 = "?s1\<lparr>smf_pending := [(3, ?p)], smf_posted := [sm_msg sm]\<rparr>"
  let ?s3 = "SendOnIOThread (sm_msg sm) ((Filter_OnChannelError ?s2)\<lparr>smf_posted := []\<rparr>)"
  have "Filter_Send_begin 3 sm ?s1 = Some (Waiting, ?s2)"
    using sm by (simp add: Filter_Send_begin_def Filter_OnFilterAdded_def SyncMessageFilter_new_def
        GetReplyDeserializer_def Let_def)
  then have "smf_step [] ?s1 [] ?s2"
    by (rule smf_step.send) (simp add: Filter_OnFilterAdded_def SyncMessageFilter_new_def)
  then have "smf_reachable [] ?s2"
    by (rule smf_reachable.step [OF smf_reachable.step [OF smf_reachable.start smf_step.added]])
  then have "smf_reachable [] (Filter_OnChannelError ?s2)" by (rule smf_reachable.step [OF _ smf_step.error])
  then have r: "smf_reachable [] ?s3"
    by (rule smf_reachable.step [OF _ smf_step.posted])
      (simp add: Filter_OnChannelError_def SignalAllEvents_def)
  have "\<not> smf_channel ?s3" "smf_posted ?s3 = []" "map_of (smf_pending ?s3) 3 \<noteq> None" "fst ` set (smf_pending ?s3) = {3}"
    using sm(1) by (simp_all add: SendOnIOThread_def Filter_OnChannelError_def SignalAllEvents_def)
  with filter_calls [OF r, of 3] r show ?thesis by blast
qed

end
