(* ===== verification/MessageLoop.thy ===== *)
theory MessageLoop
  imports Ipc_Prelude
begin

unbundle bit_operations_syntax

text \<open>
  \<open>base/message_loop.{h,cc}\<close>, \<open>base/pending_task.{h,cc}\<close>, \<open>base/run_loop.cc\<close>,
  \<open>base/message_pump_default.cc\<close> and the IO pump of \<open>base/message_pump_win.cc\<close>: the loop that runs the
  tasks the channels post.  A closure is a value of the type \<open>'k\<close>, its identity what \<open>Callback::Equals\<close>
  compares; \<open>'w\<close> is the rest of the world, with the clock.  \<open>TimeTicks\<close> is a signed 64-bit count of
  microseconds, \<open>0\<close> the null time.  \<open>ml_posted\<close> and \<open>ml_ran\<close> are the trace events of the code
  (\<open>MessageLoop::PostTask\<close> and \<open>MessageLoop::RunTask\<close>), the second with the start time \<open>RunTask\<close> takes.
\<close>

type_synonym i64 = "64 word"

section \<open>Pending tasks\<close>

record 'k pending_task =
  pt_task :: 'k
  pt_delayed_run_time :: i64
  pt_sequence_num :: i32
  pt_nestable :: bool

definition PendingTask_new :: "'k \<Rightarrow> i64 \<Rightarrow> bool \<Rightarrow> 'k pending_task" where
  "PendingTask_new task delayed_run_time nestable =
     \<lparr>pt_task = task, pt_delayed_run_time = delayed_run_time, pt_sequence_num = 0, pt_nestable = nestable\<rparr>"

definition PendingTask_less :: "'k pending_task \<Rightarrow> 'k pending_task \<Rightarrow> bool" where
  "PendingTask_less a b =
     (if pt_delayed_run_time a <s pt_delayed_run_time b then False
      else if pt_delayed_run_time b <s pt_delayed_run_time a then True
      else 0 <s pt_sequence_num a - pt_sequence_num b)"

text \<open>\<open>std::priority_queue<PendingTask>\<close>, the greatest element first.\<close>

fun queue_push :: "'k pending_task \<Rightarrow> 'k pending_task list \<Rightarrow> 'k pending_task list" where
  "queue_push t [] = [t]"
| "queue_push t (u # q) = (if PendingTask_less u t then t # u # q else u # queue_push t q)"

section \<open>The state\<close>

record run_loop =
  rl_run_depth :: int
  rl_run_called :: bool
  rl_quit_called :: bool
  rl_running :: bool
  rl_quit_when_idle :: bool

text \<open>A completion packet of the port: the one of \<open>ScheduleWork\<close>, or an I/O completion.  \<open>io_context\<close> is
  \<open>None\<close> where \<open>has_valid_io_context\<close> is false.\<close>

record io_item =
  io_handler :: nat
  io_context :: "nat option"
  io_bytes :: u32
  io_error :: u32

datatype port_packet = Wake | Completion io_item

record default_pump =
  dp_keep_running :: bool
  dp_event :: bool

text \<open>\<open>ip_states\<close> is the chain of \<open>RunState\<close>s, the innermost first: their \<open>should_quit\<close>.\<close>

record io_pump =
  ip_have_work :: bool
  ip_port :: "port_packet list"
  ip_completed :: "io_item list"
  ip_states :: "bool list"

datatype message_pump = PumpDefault default_pump | PumpForIO io_pump

record ('k, 'w) msg_loop =
  ml_work :: "'k pending_task list"
  ml_delayed :: "'k pending_task list"
  ml_deferred :: "'k pending_task list"
  ml_incoming :: "'k pending_task list"
  ml_recent_time :: i64
  ml_nestable_allowed :: bool
  ml_run_loops :: "run_loop list"
  ml_next_seq :: i32
  ml_high_res_expiration :: i64
  ml_delayed_work_time :: i64
  ml_pump :: message_pump
  ml_posted :: "'k pending_task list"
  ml_ran :: "(i64 \<times> 'k pending_task) list"
  ml_world :: 'w

text \<open>What is outside: the clock; whether \<open>PostQueuedCompletionStatus\<close> succeeds; the high resolution
  timer; what a task, an I/O handler and the destructor of a closure do (the last: the tasks it posts,
  with their delay and whether they are nestable); whether the handler of a context is still there.\<close>

record ('k, 'w) loop_env =
  le_now :: "'w \<Rightarrow> i64"
  le_post :: "'w \<Rightarrow> bool"
  le_activate :: "bool \<Rightarrow> 'w \<Rightarrow> bool \<times> 'w"
  le_run :: "'k \<Rightarrow> ('k, 'w) msg_loop \<Rightarrow> ('k, 'w) msg_loop"
  le_io :: "io_item \<Rightarrow> ('k, 'w) msg_loop \<Rightarrow> ('k, 'w) msg_loop"
  le_drop :: "'k \<Rightarrow> ('k \<times> i64 \<times> bool) list"
  le_context_alive :: "nat \<Rightarrow> 'w \<Rightarrow> bool"

abbreviation now :: "('k, 'w) loop_env \<Rightarrow> ('k, 'w) msg_loop \<Rightarrow> i64" where
  "now env s \<equiv> le_now env (ml_world s)"

definition default_pump_new :: message_pump where
  "default_pump_new = PumpDefault \<lparr>dp_keep_running = True, dp_event = False\<rparr>"

definition io_pump_new :: message_pump where
  "io_pump_new = PumpForIO \<lparr>ip_have_work = False, ip_port = [], ip_completed = [], ip_states = []\<rparr>"

definition MessageLoop_new :: "message_pump \<Rightarrow> 'w \<Rightarrow> ('k, 'w) msg_loop" where
  "MessageLoop_new p w =
     \<lparr>ml_work = [], ml_delayed = [], ml_deferred = [], ml_incoming = [], ml_recent_time = 0,
      ml_nestable_allowed = True, ml_run_loops = [], ml_next_seq = 0, ml_high_res_expiration = 0,
      ml_delayed_work_time = 0, ml_pump = p, ml_posted = [], ml_ran = [], ml_world = w\<rparr>"

section \<open>The pump seen from the loop\<close>

definition ScheduleWork :: "('k, 'w) loop_env \<Rightarrow> ('k, 'w) msg_loop \<Rightarrow> ('k, 'w) msg_loop" where
  "ScheduleWork env s =
     (case ml_pump s of
        PumpDefault p \<Rightarrow> s\<lparr>ml_pump := PumpDefault (p\<lparr>dp_event := True\<rparr>)\<rparr>
      | PumpForIO p \<Rightarrow>
          if ip_have_work p then s
          else if le_post env (ml_world s)
          then s\<lparr>ml_pump := PumpForIO (p\<lparr>ip_have_work := True, ip_port := ip_port p @ [Wake]\<rparr>)\<rparr>
          else s\<lparr>ml_pump := PumpForIO (p\<lparr>ip_have_work := False\<rparr>)\<rparr>)"

definition ScheduleDelayedWork :: "i64 \<Rightarrow> ('k, 'w) msg_loop \<Rightarrow> ('k, 'w) msg_loop" where
  "ScheduleDelayedWork t s = s\<lparr>ml_delayed_work_time := t\<rparr>"

definition Pump_Quit :: "('k, 'w) msg_loop \<Rightarrow> ('k, 'w) msg_loop" where
  "Pump_Quit s =
     (case ml_pump s of
        PumpDefault p \<Rightarrow> s\<lparr>ml_pump := PumpDefault (p\<lparr>dp_keep_running := False\<rparr>)\<rparr>
      | PumpForIO p \<Rightarrow> s\<lparr>ml_pump := PumpForIO (p\<lparr>ip_states := (ip_states p)[0 := True]\<rparr>)\<rparr>)"

definition should_quit :: "('k, 'w) msg_loop \<Rightarrow> bool" where
  "should_quit s =
     (case ml_pump s of
        PumpDefault p \<Rightarrow> \<not> dp_keep_running p
      | PumpForIO p \<Rightarrow> ip_states p \<noteq> [] \<and> hd (ip_states p))"

section \<open>Posting\<close>

definition kHighResolutionTimerModeLeaseTimeMs :: int where
  "kHighResolutionTimerModeLeaseTimeMs = 1000"

definition kMinLowResolutionThresholdMs :: int where
  "kMinLowResolutionThresholdMs = 16"

definition activate_timer ::
    "('k, 'w) loop_env \<Rightarrow> bool \<Rightarrow> ('k, 'w) msg_loop \<Rightarrow> bool \<times> ('k, 'w) msg_loop" where
  "activate_timer env on s =
     (let (ok, w) = le_activate env on (ml_world s) in (ok, s\<lparr>ml_world := w\<rparr>))"

text \<open>\<open>InMilliseconds\<close> divides by 1000, toward zero; it is only used of positive delays.\<close>

definition CalculateDelayedRuntime ::
    "('k, 'w) loop_env \<Rightarrow> i64 \<Rightarrow> ('k, 'w) msg_loop \<Rightarrow> i64 \<times> ('k, 'w) msg_loop" where
  "CalculateDelayedRuntime env delay s =
     (let t = (if 0 <s delay then now env s + delay else 0);
          s1 = (if 0 <s delay \<and> ml_high_res_expiration s = 0 \<and>
                   sint delay div 1000 < 2 * kMinLowResolutionThresholdMs
                then let (ok, s') = activate_timer env True s
                     in if ok
                        then s'\<lparr>ml_high_res_expiration :=
                               now env s' + of_int (kHighResolutionTimerModeLeaseTimeMs * 1000)\<rparr>
                        else s'
                else s);
          s2 = (if ml_high_res_expiration s1 \<noteq> 0 \<and> ml_high_res_expiration s1 <s now env s1
                then (snd (activate_timer env False s1))\<lparr>ml_high_res_expiration := 0\<rparr>
                else s1)
      in (t, s2))"

definition AddToIncomingQueue ::
    "('k, 'w) loop_env \<Rightarrow> 'k pending_task \<Rightarrow> ('k, 'w) msg_loop \<Rightarrow> ('k, 'w) msg_loop" where
  "AddToIncomingQueue env t s =
     (let t' = t\<lparr>pt_sequence_num := ml_next_seq s\<rparr>;
          s1 = s\<lparr>ml_next_seq := ml_next_seq s + 1, ml_posted := ml_posted s @ [t'],
                 ml_incoming := ml_incoming s @ [t']\<rparr>
      in if ml_incoming s \<noteq> [] then s1 else ScheduleWork env s1)"

definition post_task ::
    "('k, 'w) loop_env \<Rightarrow> 'k \<Rightarrow> i64 \<Rightarrow> bool \<Rightarrow> ('k, 'w) msg_loop \<Rightarrow> ('k, 'w) msg_loop" where
  "post_task env task delay nestable s =
     (let (t, s1) = CalculateDelayedRuntime env delay s
      in AddToIncomingQueue env (PendingTask_new task t nestable) s1)"

definition PostTask :: "('k, 'w) loop_env \<Rightarrow> 'k \<Rightarrow> ('k, 'w) msg_loop \<Rightarrow> ('k, 'w) msg_loop" where
  "PostTask env task = post_task env task 0 True"

definition PostDelayedTask ::
    "('k, 'w) loop_env \<Rightarrow> 'k \<Rightarrow> i64 \<Rightarrow> ('k, 'w) msg_loop \<Rightarrow> ('k, 'w) msg_loop" where
  "PostDelayedTask env task delay = post_task env task delay True"

definition PostNonNestableTask ::
    "('k, 'w) loop_env \<Rightarrow> 'k \<Rightarrow> ('k, 'w) msg_loop \<Rightarrow> ('k, 'w) msg_loop" where
  "PostNonNestableTask env task = post_task env task 0 False"

definition PostNonNestableDelayedTask ::
    "('k, 'w) loop_env \<Rightarrow> 'k \<Rightarrow> i64 \<Rightarrow> ('k, 'w) msg_loop \<Rightarrow> ('k, 'w) msg_loop" where
  "PostNonNestableDelayedTask env task delay = post_task env task delay False"

definition DeleteSoonInternal ::
    "('k, 'w) loop_env \<Rightarrow> ('o \<Rightarrow> 'k) \<Rightarrow> 'o \<Rightarrow> ('k, 'w) msg_loop \<Rightarrow> ('k, 'w) msg_loop" where
  "DeleteSoonInternal env deleter object = PostNonNestableTask env (deleter object)"

definition ReleaseSoonInternal ::
    "('k, 'w) loop_env \<Rightarrow> ('o \<Rightarrow> 'k) \<Rightarrow> 'o \<Rightarrow> ('k, 'w) msg_loop \<Rightarrow> ('k, 'w) msg_loop" where
  "ReleaseSoonInternal env releaser object = PostNonNestableTask env (releaser object)"

section \<open>Quitting and nesting\<close>

text \<open>\<open>run_loop_\<close> is the head of \<open>ml_run_loops\<close>, \<open>previous_run_loop_\<close> the next one.  Outside \<open>Run\<close> the
  two quits only log.\<close>

definition QuitWhenIdle :: "('k, 'w) msg_loop \<Rightarrow> ('k, 'w) msg_loop" where
  "QuitWhenIdle s =
     (case ml_run_loops s of
        [] \<Rightarrow> s | r # rs \<Rightarrow> s\<lparr>ml_run_loops := r\<lparr>rl_quit_when_idle := True\<rparr> # rs\<rparr>)"

definition QuitNow :: "('k, 'w) msg_loop \<Rightarrow> ('k, 'w) msg_loop" where
  "QuitNow s = (if ml_run_loops s \<noteq> [] then Pump_Quit s else s)"

definition SetNestableTasksAllowed ::
    "('k, 'w) loop_env \<Rightarrow> bool \<Rightarrow> ('k, 'w) msg_loop \<Rightarrow> ('k, 'w) msg_loop" where
  "SetNestableTasksAllowed env allowed s =
     (if ml_nestable_allowed s \<noteq> allowed
      then let s1 = s\<lparr>ml_nestable_allowed := allowed\<rparr> in if \<not> allowed then s1 else ScheduleWork env s1
      else s)"

definition run_depth :: "('k, 'w) msg_loop \<Rightarrow> int" where
  "run_depth s = (case ml_run_loops s of [] \<Rightarrow> 0 | r # _ \<Rightarrow> rl_run_depth r)"

definition IsNested :: "('k, 'w) msg_loop \<Rightarrow> bool" where
  "IsNested s \<longleftrightarrow> 1 < run_depth s"

definition is_running :: "('k, 'w) msg_loop \<Rightarrow> bool" where
  "is_running s \<longleftrightarrow> ml_run_loops s \<noteq> []"

section \<open>Run loops\<close>

definition RunLoop_new :: run_loop where
  "RunLoop_new = \<lparr>rl_run_depth = 0, rl_run_called = False, rl_quit_called = False, rl_running = False,
     rl_quit_when_idle = False\<rparr>"

definition BeforeRun :: "run_loop \<Rightarrow> ('k, 'w) msg_loop \<Rightarrow> bool \<times> ('k, 'w) msg_loop" where
  "BeforeRun r s =
     (if rl_quit_called r then (False, s)
      else let d = (case ml_run_loops s of [] \<Rightarrow> 1 | p # _ \<Rightarrow> rl_run_depth p + 1)
           in (True, s\<lparr>ml_run_loops :=
                 r\<lparr>rl_run_called := True, rl_run_depth := d, rl_running := True\<rparr> # ml_run_loops s\<rparr>))"

definition AfterRun :: "('k, 'w) msg_loop \<Rightarrow> ('k, 'w) msg_loop" where
  "AfterRun s =
     (let s1 = s\<lparr>ml_run_loops := tl (ml_run_loops s)\<rparr>
      in case ml_run_loops s1 of
           [] \<Rightarrow> s1 | p # _ \<Rightarrow> if rl_quit_called p then QuitNow s1 else s1)"

text \<open>\<open>RunLoop::Quit\<close> of the \<open>n\<close>-th enclosing run loop.\<close>

definition RunLoop_Quit :: "nat \<Rightarrow> ('k, 'w) msg_loop \<Rightarrow> ('k, 'w) msg_loop" where
  "RunLoop_Quit n s =
     (if n < length (ml_run_loops s)
      then let r = ml_run_loops s ! n;
               s1 = s\<lparr>ml_run_loops := (ml_run_loops s)[n := r\<lparr>rl_quit_called := True\<rparr>]\<rparr>
           in if rl_running r \<and> n = 0 then QuitNow s1 else s1
      else s)"

section \<open>Running tasks\<close>

definition RunTask :: "('k, 'w) loop_env \<Rightarrow> 'k pending_task \<Rightarrow> ('k, 'w) msg_loop \<Rightarrow> ('k, 'w) msg_loop" where
  "RunTask env t s =
     (let s1 = s\<lparr>ml_nestable_allowed := False, ml_ran := ml_ran s @ [(now env s, t)]\<rparr>
      in (le_run env (pt_task t) s1)\<lparr>ml_nestable_allowed := True\<rparr>)"

definition DeferOrRunPendingTask ::
    "('k, 'w) loop_env \<Rightarrow> 'k pending_task \<Rightarrow> ('k, 'w) msg_loop \<Rightarrow> bool \<times> ('k, 'w) msg_loop" where
  "DeferOrRunPendingTask env t s =
     (if pt_nestable t \<or> run_depth s = 1 then (True, RunTask env t s)
      else (False, s\<lparr>ml_deferred := ml_deferred s @ [t]\<rparr>))"

definition ProcessNextDelayedNonNestableTask ::
    "('k, 'w) loop_env \<Rightarrow> ('k, 'w) msg_loop \<Rightarrow> bool \<times> ('k, 'w) msg_loop" where
  "ProcessNextDelayedNonNestableTask env s =
     (if run_depth s \<noteq> 1 then (False, s)
      else case ml_deferred s of
             [] \<Rightarrow> (False, s) | t # q \<Rightarrow> (True, RunTask env t (s\<lparr>ml_deferred := q\<rparr>)))"

definition AddToDelayedWorkQueue :: "'k pending_task \<Rightarrow> ('k, 'w) msg_loop \<Rightarrow> ('k, 'w) msg_loop" where
  "AddToDelayedWorkQueue t s = s\<lparr>ml_delayed := queue_push t (ml_delayed s)\<rparr>"

definition ReloadWorkQueue :: "('k, 'w) msg_loop \<Rightarrow> ('k, 'w) msg_loop" where
  "ReloadWorkQueue s =
     (if ml_work s \<noteq> [] then s
      else if ml_incoming s = [] then s else s\<lparr>ml_work := ml_incoming s, ml_incoming := []\<rparr>)"

text \<open>The inner loop of \<open>DoWork\<close>, one task of the work queue: run (\<open>True\<close>), or moved aside.\<close>

definition work_task ::
    "('k, 'w) loop_env \<Rightarrow> 'k pending_task \<Rightarrow> ('k, 'w) msg_loop \<Rightarrow> bool \<times> ('k, 'w) msg_loop" where
  "work_task env t s =
     (if pt_delayed_run_time t \<noteq> 0
      then let s1 = AddToDelayedWorkQueue t s
           in (False, if pt_task (hd (ml_delayed s1)) = pt_task t
                      then ScheduleDelayedWork (pt_delayed_run_time t) s1 else s1)
      else DeferOrRunPendingTask env t s)"

lemma work_task_False: "work_task env t s = (False, s') \<Longrightarrow> ml_work s' = ml_work s \<and> ml_incoming s' = ml_incoming s"
  by (auto simp: work_task_def Let_def DeferOrRunPendingTask_def AddToDelayedWorkQueue_def
      ScheduleDelayedWork_def split: if_splits)

function work_loop :: "('k, 'w) loop_env \<Rightarrow> ('k, 'w) msg_loop \<Rightarrow> bool \<times> ('k, 'w) msg_loop" where
  "work_loop env s =
     (case ml_work s of
        [] \<Rightarrow> (False, s)
      | t # q \<Rightarrow>
          (case work_task env t (s\<lparr>ml_work := q\<rparr>) of
             (True, s1) \<Rightarrow> (True, s1) | (False, s1) \<Rightarrow> work_loop env s1))"
  by auto
termination
  by (relation "measure (\<lambda>(_, s). length (ml_work s))") (auto dest!: work_task_False [OF sym])

declare work_loop.simps [simp del]

lemma work_loop_False: "work_loop env s = (False, s') \<Longrightarrow> ml_work s' = [] \<and> ml_incoming s' = ml_incoming s"
proof (induction env s rule: work_loop.induct)
  case (1 env s)
  show ?case
  proof (cases "ml_work s")
    case Nil
    then show ?thesis using 1(2) by (simp add: work_loop.simps)
  next
    case (Cons t q)
    obtain b s1 where w: "work_task env t (s\<lparr>ml_work := q\<rparr>) = (b, s1)" by fastforce
    then have "\<not> b" using 1(2) Cons by (auto simp: work_loop.simps split: bool.splits)
    then show ?thesis using 1 Cons w work_task_False [of env t "s\<lparr>ml_work := q\<rparr>" s1]
      by (simp add: work_loop.simps [of env s])
  qed
qed

text \<open>The outer loop: it ends because the queues it empties are refilled by \<open>ReloadWorkQueue\<close> only.\<close>

function reload_loop :: "('k, 'w) loop_env \<Rightarrow> ('k, 'w) msg_loop \<Rightarrow> bool \<times> ('k, 'w) msg_loop" where
  "reload_loop env s =
     (let s1 = ReloadWorkQueue s
      in if ml_work s1 = [] then (False, s1)
         else case work_loop env s1 of (True, s2) \<Rightarrow> (True, s2) | (False, s2) \<Rightarrow> reload_loop env s2)"
  by auto
termination
  by (relation "measure (\<lambda>(_, s). length (ml_work s) + length (ml_incoming s))")
    (auto simp: ReloadWorkQueue_def split: if_splits dest!: work_loop_False [OF sym])

declare reload_loop.simps [simp del]

definition DoWork :: "('k, 'w) loop_env \<Rightarrow> ('k, 'w) msg_loop \<Rightarrow> bool \<times> ('k, 'w) msg_loop" where
  "DoWork env s = (if \<not> ml_nestable_allowed s then (False, s) else reload_loop env s)"

text \<open>\<open>next_delayed_work_time\<close> points at \<open>delayed_work_time_\<close> of the pump.\<close>

definition run_delayed :: "('k, 'w) loop_env \<Rightarrow> ('k, 'w) msg_loop \<Rightarrow> bool \<times> ('k, 'w) msg_loop" where
  "run_delayed env s =
     (let t = hd (ml_delayed s);
          s1 = s\<lparr>ml_delayed := tl (ml_delayed s)\<rparr>;
          s2 = (if ml_delayed s1 \<noteq> []
                then s1\<lparr>ml_delayed_work_time := pt_delayed_run_time (hd (ml_delayed s1))\<rparr> else s1)
      in DeferOrRunPendingTask env t s2)"

definition DoDelayedWork :: "('k, 'w) loop_env \<Rightarrow> ('k, 'w) msg_loop \<Rightarrow> bool \<times> ('k, 'w) msg_loop" where
  "DoDelayedWork env s =
     (if \<not> ml_nestable_allowed s \<or> ml_delayed s = []
      then (False, s\<lparr>ml_recent_time := 0, ml_delayed_work_time := 0\<rparr>)
      else let next_run_time = pt_delayed_run_time (hd (ml_delayed s));
               s1 = (if ml_recent_time s <s next_run_time then s\<lparr>ml_recent_time := now env s\<rparr> else s)
           in if ml_recent_time s1 <s next_run_time
              then (False, s1\<lparr>ml_delayed_work_time := next_run_time\<rparr>)
              else run_delayed env s1)"

definition DoIdleWork :: "('k, 'w) loop_env \<Rightarrow> ('k, 'w) msg_loop \<Rightarrow> bool \<times> ('k, 'w) msg_loop" where
  "DoIdleWork env s =
     (case ProcessNextDelayedNonNestableTask env s of
        (True, s1) \<Rightarrow> (True, s1)
      | (False, s1) \<Rightarrow>
          (False, if ml_run_loops s1 \<noteq> [] \<and> rl_quit_when_idle (hd (ml_run_loops s1))
                  then Pump_Quit s1 else s1))"

section \<open>Destruction\<close>

text \<open>Dropping a task runs the destructor of its closure, which may post.  A delayed task of the work
  queue is moved to the delayed queue and dropped with the others.\<close>

definition drop_task :: "('k, 'w) loop_env \<Rightarrow> 'k pending_task \<Rightarrow> ('k, 'w) msg_loop \<Rightarrow> ('k, 'w) msg_loop" where
  "drop_task env t = fold (\<lambda>(k, d, n). post_task env k d n) (le_drop env (pt_task t))"

definition drop_work :: "('k, 'w) loop_env \<Rightarrow> 'k pending_task \<Rightarrow> ('k, 'w) msg_loop \<Rightarrow> ('k, 'w) msg_loop" where
  "drop_work env t s =
     (if pt_delayed_run_time t \<noteq> 0 then AddToDelayedWorkQueue t s else drop_task env t s)"

definition DeletePendingTasks :: "('k, 'w) loop_env \<Rightarrow> ('k, 'w) msg_loop \<Rightarrow> bool \<times> ('k, 'w) msg_loop" where
  "DeletePendingTasks env s =
     (let s1 = fold (drop_work env) (ml_work s) (s\<lparr>ml_work := []\<rparr>);
          s2 = fold (drop_task env) (ml_deferred s1) (s1\<lparr>ml_deferred := []\<rparr>);
          s3 = fold (drop_task env) (ml_delayed s2) (s2\<lparr>ml_delayed := []\<rparr>)
      in (ml_work s \<noteq> [] \<or> ml_deferred s1 \<noteq> [] \<or> ml_delayed s2 \<noteq> [], s3))"

text \<open>The loop of the destructor, with the number of rounds left; the result says whether work was left
  over at the limit of 100.\<close>

fun delete_rounds :: "('k, 'w) loop_env \<Rightarrow> nat \<Rightarrow> ('k, 'w) msg_loop \<Rightarrow> bool \<times> ('k, 'w) msg_loop" where
  "delete_rounds env 0 s = (True, s)"
| "delete_rounds env (Suc n) s =
     (let s1 = ReloadWorkQueue (snd (DeletePendingTasks env s));
          (did_work, s2) = DeletePendingTasks env s1
      in if \<not> did_work then (False, s2) else delete_rounds env n s2)"

definition MessageLoop_delete :: "('k, 'w) loop_env \<Rightarrow> ('k, 'w) msg_loop \<Rightarrow> bool \<times> ('k, 'w) msg_loop" where
  "MessageLoop_delete env s =
     (let (left, s1) = delete_rounds env 100 s
      in (left, if ml_high_res_expiration s1 \<noteq> 0
                then (snd (activate_timer env False s1))\<lparr>ml_high_res_expiration := 0\<rparr> else s1))"

section \<open>The pumps\<close>

text \<open>\<open>MatchCompletedIOItem\<close>: the first saved completion for the filter.\<close>

fun match_completed :: "nat option \<Rightarrow> io_item list \<Rightarrow> (io_item \<times> io_item list) option" where
  "match_completed f [] = None"
| "match_completed f (i # is) =
     (if f = None \<or> f = Some (io_handler i) then Some (i, is)
      else map_option (\<lambda>(j, js). (j, i # js)) (match_completed f is))"

text \<open>The end of \<open>WaitForIOCompletion\<close>: the item is kept for later, handed to its handler, or, when the
  handler of its context is gone, dropped.\<close>

definition on_io_pump :: "(io_pump \<Rightarrow> io_pump) \<Rightarrow> ('k, 'w) msg_loop \<Rightarrow> ('k, 'w) msg_loop" where
  "on_io_pump f s =
     (case ml_pump s of PumpForIO p \<Rightarrow> s\<lparr>ml_pump := PumpForIO (f p)\<rparr> | PumpDefault _ \<Rightarrow> s)"

definition handle_io_item ::
    "('k, 'w) loop_env \<Rightarrow> nat option \<Rightarrow> io_item \<Rightarrow> ('k, 'w) msg_loop \<Rightarrow> ('k, 'w) msg_loop" where
  "handle_io_item env f i s =
     (if (case io_context i of None \<Rightarrow> True | Some c \<Rightarrow> le_context_alive env c (ml_world s))
      then if f \<noteq> None \<and> f \<noteq> Some (io_handler i)
           then on_io_pump (\<lambda>p. p\<lparr>ip_completed := ip_completed p @ [i]\<rparr>) s
           else le_io env i s
      else s)"

text \<open>The completion key carries the handler and, in its lowest bit, whether the context is no
  \<open>OVERLAPPED\<close>.  The model keeps the decoded items; nothing is lost because handlers are aligned.\<close>

definition HandlerToKey :: "u32 \<Rightarrow> bool \<Rightarrow> u32" where
  "HandlerToKey handler has_valid_io_context = (if \<not> has_valid_io_context then handler OR 1 else handler)"

definition KeyToHandler :: "u32 \<Rightarrow> u32 \<times> bool" where
  "KeyToHandler key = (key AND NOT 1, key AND 1 = 0)"

lemma key_roundtrip:
  assumes "handler AND 1 = 0" shows "KeyToHandler (HandlerToKey handler v) = (handler, v)"
proof -
  have z: "\<not> bit handler 0" using arg_cong [OF assms, of "\<lambda>w. bit w 0"] by (simp add: bit_simps)
  have n: "handler AND NOT 1 = handler" "(handler OR 1) AND NOT 1 = handler"
    by (rule bit_word_eqI, use z in \<open>auto simp: bit_simps gr0_conv_Suc\<close>, (metis bit_0 not0_implies_Suc)?)+
  have "(handler OR 1) AND 1 = 1" by (rule bit_word_eqI) (auto simp: bit_simps)
  then show ?thesis using n assms by (simp add: HandlerToKey_def KeyToHandler_def)
qed

text \<open>\<open>GetIOItem\<close> returns the next packet of the port, or nothing when the time is up.\<close>

definition WaitForIOCompletion ::
    "('k, 'w) loop_env \<Rightarrow> nat option \<Rightarrow> ('k, 'w) msg_loop \<Rightarrow> bool \<times> ('k, 'w) msg_loop" where
  "WaitForIOCompletion env f s =
     (case ml_pump s of
        PumpDefault _ \<Rightarrow> (False, s)
      | PumpForIO p \<Rightarrow>
          (case match_completed f (ip_completed p) of
             Some (i, rest) \<Rightarrow> (True, handle_io_item env f i (on_io_pump (\<lambda>p. p\<lparr>ip_completed := rest\<rparr>) s))
           | None \<Rightarrow>
               (case ip_port p of
                  [] \<Rightarrow> (False, s)
                | Wake # q \<Rightarrow> (True, on_io_pump (\<lambda>p. p\<lparr>ip_have_work := False, ip_port := q\<rparr>) s)
                | Completion i # q \<Rightarrow>
                    (True, handle_io_item env f i (on_io_pump (\<lambda>p. p\<lparr>ip_port := q\<rparr>) s)))))"

text \<open>\<open>GetCurrentDelay\<close>: milliseconds, rounded up; the conversion of a too large \<open>double\<close> gives the
  smallest integer.\<close>

definition GetCurrentDelay :: "('k, 'w) loop_env \<Rightarrow> ('k, 'w) msg_loop \<Rightarrow> int" where
  "GetCurrentDelay env s =
     (if ml_delayed_work_time s = 0 then -1
      else let timeout = - (- sint (ml_delayed_work_time s - now env s) div 1000);
               delay = (if - (2 ^ 31) \<le> timeout \<and> timeout < 2 ^ 31 then timeout else - (2 ^ 31))
           in if delay < 0 then 0 else delay)"

text \<open>Where the loop of the pump stands; the flag is \<open>did_work\<close> or \<open>more_work_is_plausible\<close>.\<close>

datatype pump_pc = AtWork | AtIO bool | AtDelayed bool | AtIdle | AtWait | Stopped

text \<open>One call of the loop.  \<open>Wait\<close> and \<open>TimedWait\<close> of the default pump clear the event;
  \<open>WaitForWork\<close> of the IO pump waits for a completion.\<close>

definition pump_wait :: "('k, 'w) loop_env \<Rightarrow> ('k, 'w) msg_loop \<Rightarrow> ('k, 'w) msg_loop" where
  "pump_wait env s =
     (case ml_pump s of
        PumpForIO _ \<Rightarrow> snd (WaitForIOCompletion env None s)
      | PumpDefault p \<Rightarrow>
          if ml_delayed_work_time s = 0 \<or> 0 <s ml_delayed_work_time s - now env s
          then s\<lparr>ml_pump := PumpDefault (p\<lparr>dp_event := False\<rparr>)\<rparr>
          else s\<lparr>ml_delayed_work_time := 0\<rparr>)"

fun pump_step :: "('k, 'w) loop_env \<Rightarrow> pump_pc \<Rightarrow> ('k, 'w) msg_loop \<Rightarrow> pump_pc \<times> ('k, 'w) msg_loop" where
  "pump_step env AtWork s =
     (let (r, s1) = DoWork env s
      in (if should_quit s1 then Stopped
          else case ml_pump s1 of PumpForIO _ \<Rightarrow> AtIO r | PumpDefault _ \<Rightarrow> AtDelayed r, s1))"
| "pump_step env (AtIO w) s =
     (let (r, s1) = WaitForIOCompletion env None s
      in (if should_quit s1 then Stopped else AtDelayed (w \<or> r), s1))"
| "pump_step env (AtDelayed w) s =
     (let (r, s1) = DoDelayedWork env s
      in (if should_quit s1 then Stopped else if w \<or> r then AtWork else AtIdle, s1))"
| "pump_step env AtIdle s =
     (let (r, s1) = DoIdleWork env s
      in (if should_quit s1 then Stopped else if r then AtWork else AtWait, s1))"
| "pump_step env AtWait s = (AtWork, pump_wait env s)"
| "pump_step env Stopped s = (Stopped, s)"

text \<open>The thread sleeps: nothing to wake it, and no time is set.\<close>

definition wake_pending :: "('k, 'w) msg_loop \<Rightarrow> bool" where
  "wake_pending s =
     (case ml_pump s of PumpDefault p \<Rightarrow> dp_event p | PumpForIO p \<Rightarrow> ip_port p \<noteq> [] \<or> ip_completed p \<noteq> [])"

definition asleep :: "pump_pc \<Rightarrow> ('k, 'w) msg_loop \<Rightarrow> bool" where
  "asleep pc s \<longleftrightarrow> pc = AtWait \<and> \<not> wake_pending s"

text \<open>\<open>Run\<close> of the two pumps, around their loops.\<close>

definition Pump_begin :: "('k, 'w) msg_loop \<Rightarrow> ('k, 'w) msg_loop" where
  "Pump_begin = on_io_pump (\<lambda>p. p\<lparr>ip_states := False # ip_states p\<rparr>)"

definition Pump_end :: "('k, 'w) msg_loop \<Rightarrow> ('k, 'w) msg_loop" where
  "Pump_end s =
     (case ml_pump s of
        PumpDefault p \<Rightarrow> s\<lparr>ml_pump := PumpDefault (p\<lparr>dp_keep_running := True\<rparr>)\<rparr>
      | PumpForIO p \<Rightarrow> s\<lparr>ml_pump := PumpForIO (p\<lparr>ip_states := tl (ip_states p)\<rparr>)\<rparr>)"

definition pump_runs ::
    "('k, 'w) loop_env \<Rightarrow> nat \<Rightarrow> ('k, 'w) msg_loop \<Rightarrow> pump_pc \<times> ('k, 'w) msg_loop" where
  "pump_runs env n s = ((\<lambda>(pc, s). pump_step env pc s) ^^ n) (AtWork, Pump_begin s)"

text \<open>\<open>RunLoop::Run\<close>, \<open>RunUntilIdle\<close>, with a bound on the calls of the pump; \<open>None\<close>: still running.\<close>

definition RunLoop_Run ::
    "('k, 'w) loop_env \<Rightarrow> nat \<Rightarrow> run_loop \<Rightarrow> ('k, 'w) msg_loop \<Rightarrow> ('k, 'w) msg_loop option" where
  "RunLoop_Run env n r s =
     (case BeforeRun r s of
        (False, s1) \<Rightarrow> Some s1
      | (True, s1) \<Rightarrow>
          (case pump_runs env n s1 of
             (Stopped, s2) \<Rightarrow> Some (AfterRun (Pump_end s2)) | _ \<Rightarrow> None))"

definition RunUntilIdle ::
    "('k, 'w) loop_env \<Rightarrow> nat \<Rightarrow> ('k, 'w) msg_loop \<Rightarrow> ('k, 'w) msg_loop option" where
  "RunUntilIdle env n = RunLoop_Run env n (RunLoop_new\<lparr>rl_quit_when_idle := True\<rparr>)"

end
