(* ===== verification/MessageLoop_Props.thy ===== *)
theory MessageLoop_Props
  imports MessageLoop "HOL-Library.Multiset" "HOL-Library.Sublist"
begin

text \<open>
  What the message loop guarantees.  A call of the loop is broken into small steps (\<open>micro\<close>): what a
  task, an I/O handler or another thread can do to the loop (\<open>loop_move\<close>) and the moves of tasks between
  the queues.  Every call of a pump is a sequence of them (\<open>pump_step_micro\<close>), so an invariant is checked
  against the small steps only.  Tasks that run a nested loop are not among the moves.
\<close>

section \<open>Small steps\<close>

inductive loop_move :: "('k, 'w) loop_env \<Rightarrow> ('k, 'w) msg_loop \<Rightarrow> ('k, 'w) msg_loop \<Rightarrow> bool"
  for env where
  move_post: "loop_move env s (post_task env k d n s)"
| move_quit: "loop_move env s (Pump_Quit s)"
| move_idle: "loop_move env s (QuitWhenIdle s)"
| move_loop: "loop_move env s (RunLoop_Quit i s)"
| move_world: "\<not> le_now env w <s now env s \<Longrightarrow> loop_move env s (s\<lparr>ml_world := w\<rparr>)"
| move_wake: "ml_pump s = PumpForIO p \<Longrightarrow> ip_port p = Wake # q \<Longrightarrow>
    loop_move env s (s\<lparr>ml_pump := PumpForIO (p\<lparr>ip_have_work := False, ip_port := q\<rparr>)\<rparr>)"
| move_taken: "ml_pump s = PumpForIO p \<Longrightarrow> ip_port p = Completion i # q \<Longrightarrow>
    loop_move env s (s\<lparr>ml_pump := PumpForIO (p\<lparr>ip_port := q\<rparr>)\<rparr>)"
| move_saved: "ml_pump s = PumpForIO p \<Longrightarrow>
    loop_move env s (s\<lparr>ml_pump := PumpForIO (p\<lparr>ip_completed := is\<rparr>)\<rparr>)"
| move_arrived: "ml_pump s = PumpForIO p \<Longrightarrow>
    loop_move env s (s\<lparr>ml_pump := PumpForIO (p\<lparr>ip_port := ip_port p @ [Completion i]\<rparr>)\<rparr>)"

text \<open>What other threads and the system do: post, let time pass, complete an I/O operation.\<close>

inductive outer_move :: "('k, 'w) loop_env \<Rightarrow> ('k, 'w) msg_loop \<Rightarrow> ('k, 'w) msg_loop \<Rightarrow> bool"
  for env where
  outer_post: "outer_move env s (post_task env k d n s)"
| outer_world: "\<not> le_now env w <s now env s \<Longrightarrow> outer_move env s (s\<lparr>ml_world := w\<rparr>)"
| outer_arrived: "ml_pump s = PumpForIO p \<Longrightarrow>
    outer_move env s (s\<lparr>ml_pump := PumpForIO (p\<lparr>ip_port := ip_port p @ [Completion i]\<rparr>)\<rparr>)"

lemma outer_is_move: "outer_move env s t \<Longrightarrow> loop_move env s t"
  by (induction rule: outer_move.induct) (auto intro: loop_move.intros)

definition sound_env :: "('k, 'w) loop_env \<Rightarrow> bool" where
  "sound_env env \<longleftrightarrow>
     (\<forall>k s. rtranclp (loop_move env) s (le_run env k s)) \<and>
     (\<forall>i s. rtranclp (loop_move env) s (le_io env i s)) \<and>
     (\<forall>b w. \<not> le_now env (snd (le_activate env b w)) <s le_now env w) \<and>
     (\<forall>w. \<not> le_now env w <s 0)"

inductive micro :: "('k, 'w) loop_env \<Rightarrow> ('k, 'w) msg_loop \<Rightarrow> ('k, 'w) msg_loop \<Rightarrow> bool"
  for env where
  micro_move: "loop_move env s t \<Longrightarrow> micro env s t"
| micro_reload: "ml_work s = [] \<Longrightarrow> micro env s (s\<lparr>ml_work := ml_incoming s, ml_incoming := []\<rparr>)"
| micro_delay: "ml_work s = t # q \<Longrightarrow> pt_delayed_run_time t \<noteq> 0 \<Longrightarrow>
    micro env s (s\<lparr>ml_work := q, ml_delayed := queue_push t (ml_delayed s)\<rparr>)"
| micro_time: "micro env s (s\<lparr>ml_delayed_work_time := x\<rparr>)"
| micro_recent: "y = 0 \<or> y = now env s \<Longrightarrow> micro env s (s\<lparr>ml_recent_time := y\<rparr>)"
| micro_event: "ml_pump s = PumpDefault p \<Longrightarrow>
    micro env s (s\<lparr>ml_pump := PumpDefault (p\<lparr>dp_event := False\<rparr>)\<rparr>)"
| micro_defer: "ml_work s = t # q \<Longrightarrow> pt_delayed_run_time t = 0 \<Longrightarrow> \<not> pt_nestable t \<Longrightarrow>
    micro env s (s\<lparr>ml_work := q, ml_deferred := ml_deferred s @ [t]\<rparr>)"
| micro_defer_delayed: "ml_delayed s = t # q \<Longrightarrow> \<not> ml_recent_time s <s pt_delayed_run_time t \<Longrightarrow>
    \<not> pt_nestable t \<Longrightarrow>
    micro env s (s\<lparr>ml_delayed := q, ml_deferred := ml_deferred s @ [t]\<rparr>)"
| micro_run: "ml_work s = t # q \<Longrightarrow> pt_delayed_run_time t = 0 \<Longrightarrow>
    micro env s (s\<lparr>ml_work := q, ml_nestable_allowed := False, ml_ran := ml_ran s @ [(now env s, t)]\<rparr>)"
| micro_run_delayed: "ml_delayed s = t # q \<Longrightarrow> \<not> ml_recent_time s <s pt_delayed_run_time t \<Longrightarrow>
    micro env s (s\<lparr>ml_delayed := q, ml_nestable_allowed := False, ml_ran := ml_ran s @ [(now env s, t)]\<rparr>)"
| micro_run_deferred: "ml_deferred s = t # q \<Longrightarrow>
    micro env s (s\<lparr>ml_deferred := q, ml_nestable_allowed := False, ml_ran := ml_ran s @ [(now env s, t)]\<rparr>)"
| micro_done: "micro env s (s\<lparr>ml_nestable_allowed := True\<rparr>)"

abbreviation micros :: "('k, 'w) loop_env \<Rightarrow> ('k, 'w) msg_loop \<Rightarrow> ('k, 'w) msg_loop \<Rightarrow> bool" where
  "micros env \<equiv> rtranclp (micro env)"

lemma micros_moves: "rtranclp (loop_move env) s t \<Longrightarrow> micros env s t"
  by (induction rule: rtranclp_induct) (auto intro: micro_move rtranclp.rtrancl_into_rtrancl)

lemma micros_one: "micro env s t \<Longrightarrow> micros env s t"
  by (rule r_into_rtranclp)

lemma run_tail:
  assumes "sound_env env" shows "micros env s ((le_run env k s)\<lparr>ml_nestable_allowed := True\<rparr>)"
  by (rule rtranclp.rtrancl_into_rtrancl [OF micros_moves micro_done]) (use assms in \<open>simp add: sound_env_def\<close>)

lemma RunTask_micros:
  assumes "sound_env env"
    and "micro env s (s'\<lparr>ml_nestable_allowed := False, ml_ran := ml_ran s' @ [(now env s', t)]\<rparr>)"
  shows "micros env s (RunTask env t s')"
  unfolding RunTask_def Let_def by (rule converse_rtranclp_into_rtranclp [OF assms(2) run_tail [OF assms(1)]])

lemma reload_micros: "micros env s (ReloadWorkQueue s)"
  by (auto simp: ReloadWorkQueue_def intro: micros_one micro_reload)

lemma work_task_micros:
  assumes e: "sound_env env" and w: "ml_work s = t # q"
  shows "micros env s (snd (work_task env t (s\<lparr>ml_work := q\<rparr>)))"
proof (cases "pt_delayed_run_time t = 0")
  case False
  then have d: "micro env s (s\<lparr>ml_work := q, ml_delayed := queue_push t (ml_delayed s)\<rparr>)"
    by (rule micro_delay [OF w])
  then have "micros env s (s\<lparr>ml_work := q, ml_delayed := queue_push t (ml_delayed s),
      ml_delayed_work_time := x\<rparr>)" for x
    by (rule converse_rtranclp_into_rtranclp [OF _ micros_one [OF micro_time]])
  then show ?thesis using False micros_one [OF d]
    by (simp add: work_task_def AddToDelayedWorkQueue_def ScheduleDelayedWork_def Let_def)
next
  case True
  have "micros env s (RunTask env t (s\<lparr>ml_work := q\<rparr>))"
    by (rule RunTask_micros [OF e]) (use micro_run [OF w True, of env] in simp)
  then show ?thesis using True micros_one [OF micro_defer [OF w True, of env]]
    by (simp add: work_task_def DeferOrRunPendingTask_def)
qed

lemma work_loop_micros: "sound_env env \<Longrightarrow> micros env s (snd (work_loop env s))"
proof (induction env s rule: work_loop.induct)
  case (1 env s)
  show ?case
  proof (cases "ml_work s")
    case Nil
    then show ?thesis by (simp add: work_loop.simps)
  next
    case (Cons t q)
    obtain b s1 where w: "work_task env t (s\<lparr>ml_work := q\<rparr>) = (b, s1)" by fastforce
    have m: "micros env s s1" using work_task_micros [OF 1(2) Cons] w by simp
    show ?thesis
    proof (cases b)
      case True
      then show ?thesis using m Cons w by (simp add: work_loop.simps [of env s])
    next
      case False
      have "micros env s1 (snd (work_loop env s1))" by (rule 1(1) [OF Cons w [symmetric] _ 1(2)]) (simp add: False)
      then have "micros env s (snd (work_loop env s1))" by (rule rtranclp_trans [OF m])
      then show ?thesis using False Cons w by (simp add: work_loop.simps [of env s])
    qed
  qed
qed

lemma reload_loop_micros: "sound_env env \<Longrightarrow> micros env s (snd (reload_loop env s))"
proof (induction env s rule: reload_loop.induct)
  case (1 env s)
  let ?s1 = "ReloadWorkQueue s"
  show ?case
  proof (cases "ml_work ?s1 = []")
    case True
    then show ?thesis using reload_micros [of env s] by (simp add: reload_loop.simps Let_def)
  next
    case False
    obtain b s2 where w: "work_loop env ?s1 = (b, s2)" by fastforce
    have m: "micros env s s2"
      using rtranclp_trans [OF reload_micros work_loop_micros [OF 1(2)], of s ] w by (metis snd_conv)
    show ?thesis
    proof (cases b)
      case True
      then show ?thesis using m False w by (simp add: reload_loop.simps [of env s] Let_def)
    next
      case b: False
      have "micros env s2 (snd (reload_loop env s2))"
        by (rule 1(1) [OF refl False w [symmetric] _ 1(2)]) (simp add: b)
      then have "micros env s (snd (reload_loop env s2))" by (rule rtranclp_trans [OF m])
      then show ?thesis using b False w by (simp add: reload_loop.simps [of env s] Let_def)
    qed
  qed
qed

lemma DoWork_micros: "sound_env env \<Longrightarrow> micros env s (snd (DoWork env s))"
  by (simp add: DoWork_def reload_loop_micros)

lemma run_delayed_micros:
  assumes e: "sound_env env" and d: "ml_delayed s = t # q" and r: "\<not> ml_recent_time s <s pt_delayed_run_time t"
  shows "micros env s (snd (run_delayed env s))"
proof -
  define s1 where "s1 = (if q \<noteq> [] then s\<lparr>ml_delayed_work_time := pt_delayed_run_time (hd q)\<rparr> else s)"
  have m: "micros env s s1" by (auto simp: s1_def intro: micros_one micro_time)
  have s1: "ml_delayed s1 = t # q" "\<not> ml_recent_time s1 <s pt_delayed_run_time t" "now env s1 = now env s"
    "ml_ran s1 = ml_ran s" "ml_deferred s1 = ml_deferred s" "run_depth s1 = run_depth s"
    using d r by (auto simp: s1_def run_depth_def)
  have e1: "run_delayed env s = DeferOrRunPendingTask env t (s1\<lparr>ml_delayed := q\<rparr>)"
    by (cases "q = []") (use d in \<open>auto simp: run_delayed_def s1_def Let_def
      intro!: arg_cong [where f = "DeferOrRunPendingTask env t"]\<close>)
  have "micros env s1 (RunTask env t (s1\<lparr>ml_delayed := q\<rparr>))"
    by (rule RunTask_micros [OF e]) (use micro_run_delayed [OF s1(1,2), of env] in simp)
  then have "micros env s1 (snd (run_delayed env s))"
    using micros_one [OF micro_defer_delayed [OF s1(1,2), of env]]
    by (simp add: e1 DeferOrRunPendingTask_def)
  then show ?thesis by (rule rtranclp_trans [OF m])
qed

lemma DoDelayedWork_micros:
  assumes e: "sound_env env" shows "micros env s (snd (DoDelayedWork env s))"
proof (cases "\<not> ml_nestable_allowed s \<or> ml_delayed s = []")
  case True
  have "micros env s (s\<lparr>ml_recent_time := 0, ml_delayed_work_time := 0\<rparr>)"
    by (rule converse_rtranclp_into_rtranclp [OF _ micros_one [OF micro_time]]) (simp add: micro_recent)
  then show ?thesis using True by (simp add: DoDelayedWork_def)
next
  case False
  then obtain t q where d: "ml_delayed s = t # q" by (cases "ml_delayed s") auto
  define s1 where "s1 = (if ml_recent_time s <s pt_delayed_run_time t then s\<lparr>ml_recent_time := now env s\<rparr> else s)"
  have m: "micros env s s1" by (auto simp: s1_def intro: micros_one micro_recent)
  have d1: "ml_delayed s1 = t # q" using d by (simp add: s1_def)
  have "micros env s1 (snd (DoDelayedWork env s))"
  proof (cases "ml_recent_time s1 <s pt_delayed_run_time t")
    case True
    have "micros env s1 (s1\<lparr>ml_delayed_work_time := pt_delayed_run_time t\<rparr>)"
      by (rule micros_one [OF micro_time])
    then show ?thesis using True False d by (simp add: DoDelayedWork_def Let_def s1_def split del: if_split)
  next
    case r: False
    then show ?thesis using False d run_delayed_micros [OF e d1 r]
      by (simp add: DoDelayedWork_def Let_def s1_def split del: if_split)
  qed
  then show ?thesis by (rule rtranclp_trans [OF m])
qed

lemma DoIdleWork_micros:
  assumes e: "sound_env env" shows "micros env s (snd (DoIdleWork env s))"
proof (cases "run_depth s = 1 \<and> ml_deferred s \<noteq> []")
  case True
  then obtain t q where d: "ml_deferred s = t # q" by (cases "ml_deferred s") auto
  have "micros env s (RunTask env t (s\<lparr>ml_deferred := q\<rparr>))"
    by (rule RunTask_micros [OF e]) (use micro_run_deferred [OF d, of env] in simp)
  then show ?thesis using True d by (simp add: DoIdleWork_def ProcessNextDelayedNonNestableTask_def)
next
  case False
  then have "ProcessNextDelayedNonNestableTask env s = (False, s)"
    by (auto simp: ProcessNextDelayedNonNestableTask_def)
  then show ?thesis using micros_one [OF micro_move [OF move_quit, of env s]] by (simp add: DoIdleWork_def)
qed

lemma handle_io_micros:
  assumes "sound_env env" "ml_pump s = PumpForIO p"
  shows "micros env s (handle_io_item env f i s)"
  using assms micros_moves [of env s "le_io env i s"] micros_one [OF micro_move [OF move_saved [OF assms(2)]]]
  by (auto simp: handle_io_item_def on_io_pump_def sound_env_def split: option.split)

lemma WaitForIOCompletion_micros:
  assumes e: "sound_env env" shows "micros env s (snd (WaitForIOCompletion env f s))"
proof (cases "ml_pump s")
  case (PumpForIO p)
  have h: "micros env s (handle_io_item env f i s')" if "micro env s s'" "ml_pump s' = PumpForIO p'" for i s' p'
    by (rule converse_rtranclp_into_rtranclp [OF that(1) handle_io_micros [OF e that(2)]])
  show ?thesis
  proof (cases "match_completed f (ip_completed p)")
    case None
    show ?thesis
    proof (cases "ip_port p")
      case (Cons x q)
      show ?thesis
      proof (cases x)
        case Wake
        then show ?thesis using PumpForIO None Cons micros_one [OF micro_move [OF move_wake [OF PumpForIO, of q]]]
          by (simp add: WaitForIOCompletion_def on_io_pump_def)
      next
        case (Completion i)
        then show ?thesis using PumpForIO None Cons h [OF micro_move [OF move_taken [OF PumpForIO, of i q]]]
          by (simp add: WaitForIOCompletion_def on_io_pump_def)
      qed
    qed (simp add: WaitForIOCompletion_def PumpForIO None)
  next
    case (Some a)
    then show ?thesis using PumpForIO h [OF micro_move [OF move_saved [OF PumpForIO]]]
      by (simp add: WaitForIOCompletion_def on_io_pump_def split: prod.split)
  qed
qed (simp add: WaitForIOCompletion_def)

lemma pump_wait_micros:
  assumes e: "sound_env env" shows "micros env s (pump_wait env s)"
  using WaitForIOCompletion_micros [OF e, of s None] micros_one [OF micro_event [of s _ env]]
    micros_one [OF micro_time [of env s 0]]
  by (auto simp: pump_wait_def split: message_pump.split)

lemma pump_step_micros:
  assumes e: "sound_env env" shows "micros env s (snd (pump_step env pc s))"
  using DoWork_micros [OF e, of s] DoDelayedWork_micros [OF e, of s] DoIdleWork_micros [OF e, of s]
    WaitForIOCompletion_micros [OF e, of s None] pump_wait_micros [OF e, of s]
  by (cases pc) (auto simp: Let_def split: prod.splits)

section \<open>Runs of a loop\<close>

text \<open>The outermost run of a new loop.  A pump that sleeps goes on when the time it waits for is over.\<close>

inductive loop_reachable ::
    "('k, 'w) loop_env \<Rightarrow> message_pump \<Rightarrow> pump_pc \<Rightarrow> ('k, 'w) msg_loop \<Rightarrow> bool" for env pump where
  reach_start: "loop_reachable env pump AtWork
     (Pump_begin (snd (BeforeRun r (MessageLoop_new pump w))))"
  if "r = RunLoop_new \<or> r = RunLoop_new\<lparr>rl_quit_when_idle := True\<rparr>"
| reach_pump: "loop_reachable env pump (fst (pump_step env pc s)) (snd (pump_step env pc s))"
  if "loop_reachable env pump pc s" "\<not> asleep pc s \<or> ml_delayed_work_time s \<noteq> 0"
| reach_outer: "loop_reachable env pump pc t" if "loop_reachable env pump pc s" "outer_move env s t"

definition new_run :: "message_pump \<Rightarrow> ('k, 'w) msg_loop \<Rightarrow> bool" where
  "new_run pump s \<longleftrightarrow>
     ml_work s = [] \<and> ml_delayed s = [] \<and> ml_deferred s = [] \<and> ml_incoming s = [] \<and>
     ml_posted s = [] \<and> ml_ran s = [] \<and> ml_recent_time s = 0 \<and> ml_nestable_allowed s \<and> run_depth s = 1 \<and>
     ml_next_seq s = 0 \<and>
     ml_pump s = (case pump of PumpDefault p \<Rightarrow> PumpDefault p
       | PumpForIO p \<Rightarrow> PumpForIO (p\<lparr>ip_states := False # ip_states p\<rparr>))"

lemma new_run_start:
  assumes "r = RunLoop_new \<or> r = RunLoop_new\<lparr>rl_quit_when_idle := True\<rparr>"
  shows "new_run pump (Pump_begin (snd (BeforeRun r (MessageLoop_new pump w))))"
  using assms by (auto simp: new_run_def BeforeRun_def RunLoop_new_def MessageLoop_new_def Pump_begin_def
      on_io_pump_def run_depth_def split: message_pump.split)

text \<open>An invariant of the small steps that holds of a new run holds always.\<close>

lemma micro_invariant:
  assumes r: "loop_reachable env pump pc s" and e: "sound_env env"
    and start: "\<And>s. new_run pump s \<Longrightarrow> I s"
    and step: "\<And>s t. micro env s t \<Longrightarrow> I s \<Longrightarrow> I t"
  shows "I s"
proof -
  have ms: "I t" if "micros env s t" "I s" for s t
    using that by (induction rule: rtranclp_induct) (auto intro: step)
  from r show ?thesis
  proof (induction rule: loop_reachable.induct)
    case (reach_start r w)
    then show ?case by (intro start new_run_start)
  next
    case (reach_pump pc s)
    then show ?case using ms [OF pump_step_micros [OF e]] by blast
  next
    case (reach_outer pc s t)
    then show ?case using step [OF micro_move [OF outer_is_move]] by blast
  qed
qed

section \<open>Posting\<close>

text \<open>What posting changes: one task at the end of the incoming queue, the pump and the world.\<close>

lemma ScheduleWork_fields [simp]:
  "ml_work (ScheduleWork env s) = ml_work s" "ml_delayed (ScheduleWork env s) = ml_delayed s"
  "ml_deferred (ScheduleWork env s) = ml_deferred s" "ml_incoming (ScheduleWork env s) = ml_incoming s"
  "ml_posted (ScheduleWork env s) = ml_posted s" "ml_ran (ScheduleWork env s) = ml_ran s"
  "ml_recent_time (ScheduleWork env s) = ml_recent_time s" "ml_world (ScheduleWork env s) = ml_world s"
  "ml_run_loops (ScheduleWork env s) = ml_run_loops s" "ml_next_seq (ScheduleWork env s) = ml_next_seq s"
  "ml_nestable_allowed (ScheduleWork env s) = ml_nestable_allowed s"
  "ml_delayed_work_time (ScheduleWork env s) = ml_delayed_work_time s"
  by (auto simp: ScheduleWork_def split: message_pump.split)

lemma CalculateDelayedRuntime_world:
  "\<exists>w h. snd (CalculateDelayedRuntime env d s) = s\<lparr>ml_high_res_expiration := h, ml_world := w\<rparr> \<and>
     (sound_env env \<longrightarrow> \<not> le_now env w <s now env s)"
proof -
  define upd where "upd u \<longleftrightarrow> u\<lparr>ml_high_res_expiration := ml_high_res_expiration s, ml_world := ml_world s\<rparr> = s \<and>
     (sound_env env \<longrightarrow> \<not> now env u <s now env s)" for u
  have s: "upd s" by (simp add: upd_def)
  have h: "upd (u\<lparr>ml_high_res_expiration := x\<rparr>)" if "upd u" for u x
    using that by (simp add: upd_def)
  have a: "upd (snd (activate_timer env b u))" if "upd u" for u b
  proof -
    obtain ok w' where w': "le_activate env b (ml_world u) = (ok, w')" by fastforce
    have "sound_env env \<longrightarrow> \<not> le_now env w' <s now env u"
      using w' unfolding sound_env_def by (metis snd_conv)
    then show ?thesis using that w' by (auto simp: upd_def activate_timer_def word_sless_alt)
  qed
  obtain ok s1 where s1: "activate_timer env True s = (ok, s1)" by fastforce
  have t: "upd s1" using a [OF s, of True] s1 by simp
  have "upd (snd (CalculateDelayedRuntime env d s))"
    unfolding CalculateDelayedRuntime_def Let_def s1 using s t h [OF a, of _ 0 False] h [OF t] h [OF a [OF h [OF t]]]
    by simp
  moreover have "u = s\<lparr>ml_high_res_expiration := ml_high_res_expiration u, ml_world := ml_world u\<rparr>" if "upd u" for u
  proof -
    have "u\<lparr>ml_high_res_expiration := ml_high_res_expiration s, ml_world := ml_world s\<rparr> = s"
      using that by (simp add: upd_def)
    then have "s\<lparr>ml_high_res_expiration := ml_high_res_expiration u, ml_world := ml_world u\<rparr> =
      u\<lparr>ml_high_res_expiration := ml_high_res_expiration s, ml_world := ml_world s,
        ml_high_res_expiration := ml_high_res_expiration u, ml_world := ml_world u\<rparr>" by simp
    then show ?thesis by simp
  qed
  ultimately show ?thesis unfolding upd_def by blast
qed

lemma Pump_Quit_fields [simp]:
  "ml_work (Pump_Quit s) = ml_work s" "ml_delayed (Pump_Quit s) = ml_delayed s"
  "ml_deferred (Pump_Quit s) = ml_deferred s" "ml_incoming (Pump_Quit s) = ml_incoming s"
  "ml_posted (Pump_Quit s) = ml_posted s" "ml_ran (Pump_Quit s) = ml_ran s"
  "ml_recent_time (Pump_Quit s) = ml_recent_time s" "ml_world (Pump_Quit s) = ml_world s"
  "ml_run_loops (Pump_Quit s) = ml_run_loops s" "ml_nestable_allowed (Pump_Quit s) = ml_nestable_allowed s"
  "ml_delayed_work_time (Pump_Quit s) = ml_delayed_work_time s"
  by (auto simp: Pump_Quit_def split: message_pump.split)

text \<open>The fields an invariant of the queues looks at, and the moves that leave them alone.\<close>

definition same_queues :: "('k, 'w) msg_loop \<Rightarrow> ('k, 'w) msg_loop \<Rightarrow> bool" where
  "same_queues s t \<longleftrightarrow>
     ml_work t = ml_work s \<and> ml_delayed t = ml_delayed s \<and> ml_deferred t = ml_deferred s \<and>
     ml_ran t = ml_ran s \<and> ml_recent_time t = ml_recent_time s \<and>
     ml_nestable_allowed t = ml_nestable_allowed s \<and> ml_delayed_work_time t = ml_delayed_work_time s \<and>
     run_depth t = run_depth s"

lemma post_task_cases:
  obtains w t where
    "same_queues s (post_task env k d n s)" "sound_env env \<longrightarrow> \<not> now env (post_task env k d n s) <s now env s"
    "ml_posted (post_task env k d n s) = ml_posted s @ [t]"
    "ml_incoming (post_task env k d n s) = ml_incoming s @ [t]"
    "ml_pump (post_task env k d n s) =
       (if ml_incoming s \<noteq> [] then ml_pump s else ml_pump (ScheduleWork env (s\<lparr>ml_world := w\<rparr>)))"
proof -
  obtain w h where c: "snd (CalculateDelayedRuntime env d s) = s\<lparr>ml_high_res_expiration := h, ml_world := w\<rparr>"
    "sound_env env \<longrightarrow> \<not> le_now env w <s now env s"
    using CalculateDelayedRuntime_world [of env d s] by (elim exE conjE)
  obtain t0 s1 where e: "CalculateDelayedRuntime env d s = (t0, s1)" by fastforce
  have s1: "s1 = s\<lparr>ml_high_res_expiration := h, ml_world := w\<rparr>" using c(1) unfolding e by simp
  define t where "t = (PendingTask_new k t0 n)\<lparr>pt_sequence_num := ml_next_seq s\<rparr>"
  define u where "u = s\<lparr>ml_high_res_expiration := h, ml_world := w, ml_next_seq := ml_next_seq s + 1,
    ml_posted := ml_posted s @ [t], ml_incoming := ml_incoming s @ [t]\<rparr>"
  have p: "post_task env k d n s = (if ml_incoming s \<noteq> [] then u else ScheduleWork env u)"
    unfolding post_task_def e prod.case AddToIncomingQueue_def Let_def s1 u_def t_def by simp
  have f: "ml_work u = ml_work s" "ml_delayed u = ml_delayed s" "ml_deferred u = ml_deferred s"
    "ml_ran u = ml_ran s" "ml_recent_time u = ml_recent_time s" "ml_world u = w" "ml_pump u = ml_pump s"
    "ml_nestable_allowed u = ml_nestable_allowed s" "ml_delayed_work_time u = ml_delayed_work_time s"
    "ml_run_loops u = ml_run_loops s" "ml_posted u = ml_posted s @ [t]" "ml_incoming u = ml_incoming s @ [t]"
    by (simp_all add: u_def)
  have q: "ml_pump (ScheduleWork env u) = ml_pump (ScheduleWork env (s\<lparr>ml_world := w\<rparr>))"
    by (simp add: ScheduleWork_def f split: message_pump.split)
  have g: "same_queues s v" "now env v = le_now env w" "ml_posted v = ml_posted s @ [t]"
    "ml_incoming v = ml_incoming s @ [t]" if "v = u \<or> v = ScheduleWork env u" for v
    using that by (auto simp: same_queues_def run_depth_def f)
  have v: "post_task env k d n s = u \<or> post_task env k d n s = ScheduleWork env u" by (simp add: p)
  show ?thesis
  proof (rule that [of t w])
    show "same_queues s (post_task env k d n s)" by (rule g(1) [OF v])
    show "sound_env env \<longrightarrow> \<not> now env (post_task env k d n s) <s now env s" using c(2) unfolding g(2) [OF v] .
    show "ml_posted (post_task env k d n s) = ml_posted s @ [t]" by (rule g(3) [OF v])
    show "ml_incoming (post_task env k d n s) = ml_incoming s @ [t]" by (rule g(4) [OF v])
    show "ml_pump (post_task env k d n s) =
        (if ml_incoming s \<noteq> [] then ml_pump s else ml_pump (ScheduleWork env (s\<lparr>ml_world := w\<rparr>)))"
      by (simp add: p q f)
  qed
qed

lemma loop_move_cases:
  assumes "loop_move env s t" "sound_env env"
  shows "same_queues s t \<and> \<not> now env t <s now env s \<and>
    (ml_posted t = ml_posted s \<and> ml_incoming t = ml_incoming s \<or>
     (\<exists>x. ml_posted t = ml_posted s @ [x] \<and> ml_incoming t = ml_incoming s @ [x]))"
  using assms(1)
proof (cases rule: loop_move.cases)
  case (move_post k d n)
  then show ?thesis using assms(2) post_task_cases [of s env k d n thesis for thesis] by metis
next
  case move_idle
  then show ?thesis by (auto simp: QuitWhenIdle_def same_queues_def run_depth_def split: list.split)
next
  case (move_loop i)
  then show ?thesis
    by (cases "ml_run_loops s"; cases i)
      (auto simp: RunLoop_Quit_def QuitNow_def same_queues_def run_depth_def Let_def)
qed (auto simp: same_queues_def run_depth_def)

section \<open>Every task once, and in order\<close>

text \<open>Tasks that are neither delayed nor bound to the outermost loop.\<close>

definition immediate :: "'k pending_task \<Rightarrow> bool" where
  "immediate t \<longleftrightarrow> pt_delayed_run_time t = 0 \<and> pt_nestable t"

abbreviation ran_tasks :: "('k, 'w) msg_loop \<Rightarrow> 'k pending_task list" where
  "ran_tasks s \<equiv> map snd (ml_ran s)"

definition task_inv :: "('k, 'w) msg_loop \<Rightarrow> bool" where
  "task_inv s \<longleftrightarrow>
     filter immediate (ml_posted s) =
       filter immediate (ran_tasks s) @ filter immediate (ml_work s) @ filter immediate (ml_incoming s) \<and>
     mset (ml_posted s) = mset (ran_tasks s) + mset (ml_work s) + mset (ml_incoming s) +
       mset (ml_delayed s) + mset (ml_deferred s) \<and>
     (\<forall>t \<in> set (ml_delayed s). pt_delayed_run_time t \<noteq> 0) \<and> (\<forall>t \<in> set (ml_deferred s). \<not> pt_nestable t)"

lemma mset_queue_push [simp]: "mset (queue_push t q) = add_mset t (mset q)"
  by (induction t q rule: queue_push.induct) auto

lemma set_queue_push [simp]: "set (queue_push t q) = insert t (set q)"
  by (induction t q rule: queue_push.induct) auto

lemma task_inv_start: "new_run pump s \<Longrightarrow> task_inv s"
  by (simp add: new_run_def task_inv_def)

lemma task_inv_move:
  assumes m: "loop_move env s t" and e: "sound_env env" and i: "task_inv s" shows "task_inv t"
proof -
  have q: "same_queues s t" using loop_move_cases [OF m e] by blast
  consider "ml_posted t = ml_posted s" "ml_incoming t = ml_incoming s"
    | x where "ml_posted t = ml_posted s @ [x]" "ml_incoming t = ml_incoming s @ [x]"
    using loop_move_cases [OF m e] by blast
  then show ?thesis
  proof cases
    case 1
    then show ?thesis using i q by (simp add: task_inv_def same_queues_def)
  next
    case 2
    then show ?thesis using i q unfolding task_inv_def same_queues_def by simp
  qed
qed

lemma task_inv_micro:
  assumes m: "micro env s t" and e: "sound_env env" and i: "task_inv s" shows "task_inv t"
  using m
proof (cases rule: micro.cases)
  case micro_move
  then show ?thesis by (rule task_inv_move [OF _ e i])
qed (use i in \<open>simp_all add: task_inv_def immediate_def\<close>)

lemma task_inv_reachable: "loop_reachable env pump pc s \<Longrightarrow> sound_env env \<Longrightarrow> task_inv s"
  by (erule micro_invariant) (auto intro: task_inv_start task_inv_micro)

lemma tasks_mset:
  assumes "loop_reachable env pump pc s" "sound_env env" shows "mset (ran_tasks s) \<subseteq># mset (ml_posted s)"
  using task_inv_reachable [OF assms] by (simp add: task_inv_def)

text \<open>Nothing starts before its time: \<open>recent_time_\<close> is a past value of the clock.\<close>

definition early_inv :: "('k, 'w) loop_env \<Rightarrow> ('k, 'w) msg_loop \<Rightarrow> bool" where
  "early_inv env s \<longleftrightarrow> sint (ml_recent_time s) \<le> sint (now env s) \<and>
     (\<forall>(start, t) \<in> set (ml_ran s). pt_delayed_run_time t = 0 \<or> sint (pt_delayed_run_time t) \<le> sint start) \<and>
     (\<forall>t \<in> set (ml_deferred s). pt_delayed_run_time t = 0 \<or> sint (pt_delayed_run_time t) \<le> sint (now env s))"

lemma clock_nonneg:
  assumes "sound_env env" shows "0 \<le> sint (le_now env w)"
proof -
  have "\<not> le_now env w <s 0" using assms unfolding sound_env_def by blast
  then show ?thesis by (simp add: word_sless_alt)
qed

lemma early_inv_start: "new_run pump s \<Longrightarrow> sound_env env \<Longrightarrow> early_inv env s"
  by (simp add: new_run_def early_inv_def clock_nonneg)

lemma early_inv_move:
  assumes m: "loop_move env s t" and e: "sound_env env" and i: "early_inv env s" shows "early_inv env t"
proof -
  have q: "same_queues s t" and n: "sint (now env s) \<le> sint (now env t)"
    using loop_move_cases [OF m e] by (auto simp: word_sless_alt)
  have "sint (pt_delayed_run_time x) \<le> sint (now env t)"
    if "sint (pt_delayed_run_time x) \<le> sint (now env s)" for x :: "'a pending_task"
    using that n by simp
  then show ?thesis using i q n unfolding early_inv_def same_queues_def by auto
qed

lemma early_inv_micro:
  assumes m: "micro env s t" and e: "sound_env env" and i: "early_inv env s" shows "early_inv env t"
  using m
proof (cases rule: micro.cases)
  case micro_move
  then show ?thesis by (rule early_inv_move [OF _ e i])
next
  case (micro_recent y)
  then show ?thesis using i clock_nonneg [OF e] by (auto simp: early_inv_def)
next
  case (micro_defer_delayed x q)
  then show ?thesis using i unfolding early_inv_def by (simp add: word_sless_alt)
next
  case (micro_run_delayed x q)
  then show ?thesis using i unfolding early_inv_def by (simp add: word_sless_alt)
next
  case (micro_run_deferred x q)
  then show ?thesis using i unfolding early_inv_def by simp
qed (use i in \<open>simp_all add: early_inv_def\<close>)

section \<open>Waking up\<close>

text \<open>\<open>have_work_\<close> is set only while the packet of \<open>ScheduleWork\<close> is in the port.\<close>

definition woken :: "('k, 'w) msg_loop \<Rightarrow> bool" where
  "woken s \<longleftrightarrow> (case ml_pump s of PumpDefault p \<Rightarrow> dp_event p | PumpForIO p \<Rightarrow> Wake \<in> set (ip_port p))"

definition sched_inv :: "('k, 'w) msg_loop \<Rightarrow> bool" where
  "sched_inv s \<longleftrightarrow> run_depth s = 1 \<and> (case ml_pump s of PumpDefault p \<Rightarrow> True
     | PumpForIO p \<Rightarrow> ip_have_work p \<longrightarrow> Wake \<in> set (ip_port p))"

lemma sched_ScheduleWork: "sched_inv s \<Longrightarrow> sched_inv (ScheduleWork env s)"
  by (auto simp: sched_inv_def ScheduleWork_def run_depth_def split: message_pump.splits)

lemma woken_ScheduleWork:
  "sched_inv s \<Longrightarrow> \<forall>w. le_post env w \<Longrightarrow> woken (ScheduleWork env s)"
  by (auto simp: sched_inv_def woken_def ScheduleWork_def split: message_pump.splits)

lemma sched_inv_post:
  assumes "sched_inv s" shows "sched_inv (post_task env k d n s)"
proof -
  obtain w t where q: "same_queues s (post_task env k d n s)" "ml_pump (post_task env k d n s) =
      (if ml_incoming s \<noteq> [] then ml_pump s else ml_pump (ScheduleWork env (s\<lparr>ml_world := w\<rparr>)))"
    by (rule post_task_cases)
  have "sched_inv (ScheduleWork env (s\<lparr>ml_world := w\<rparr>))"
    using assms by (intro sched_ScheduleWork) (simp add: sched_inv_def run_depth_def)
  then show ?thesis using assms q unfolding sched_inv_def same_queues_def by (simp split: if_splits)
qed

lemma sched_inv_move:
  assumes "loop_move env s t" "sched_inv s" shows "sched_inv t"
  using assms(1)
proof (cases rule: loop_move.cases)
  case move_post
  then show ?thesis using sched_inv_post [OF assms(2)] by simp
next
  case move_quit
  then show ?thesis using assms(2)
    by (simp add: sched_inv_def run_depth_def Pump_Quit_def split: message_pump.splits)
next
  case move_idle
  then show ?thesis using assms(2)
    by (simp add: sched_inv_def run_depth_def QuitWhenIdle_def split: list.splits)
next
  case (move_loop i)
  then show ?thesis using assms(2)
    by (cases "ml_run_loops s"; cases i)
      (auto simp: sched_inv_def run_depth_def RunLoop_Quit_def QuitNow_def Let_def Pump_Quit_def
        split: message_pump.splits)
qed (use assms(2) in \<open>auto simp: sched_inv_def run_depth_def\<close>)

lemma sched_inv_micro:
  assumes "micro env s t" "sched_inv s" shows "sched_inv t"
  using assms(1)
proof (cases rule: micro.cases)
  case micro_move
  then show ?thesis by (rule sched_inv_move [OF _ assms(2)])
qed (use assms(2) in \<open>auto simp: sched_inv_def run_depth_def\<close>)

lemma sched_inv_start: "new_run pump s \<Longrightarrow> pump \<in> {default_pump_new, io_pump_new} \<Longrightarrow> sched_inv s"
  by (auto simp: new_run_def sched_inv_def default_pump_new_def io_pump_new_def)

lemma moves_nestable:
  assumes "rtranclp (loop_move env) s t" "sound_env env" shows "ml_nestable_allowed t = ml_nestable_allowed s"
  using assms(1)
proof (induction rule: rtranclp_induct)
  case (step t u)
  then show ?case using loop_move_cases [OF step(2) assms(2)] by (simp add: same_queues_def)
qed simp

lemma RunTask_nestable [simp]: "ml_nestable_allowed (RunTask env t s)"
  by (simp add: RunTask_def Let_def)

lemma DeferOrRun_outermost:
  "run_depth s = 1 \<Longrightarrow> DeferOrRunPendingTask env t s = (True, RunTask env t s)"
  by (simp add: DeferOrRunPendingTask_def)

lemma work_task_nestable: "ml_nestable_allowed s \<Longrightarrow> ml_nestable_allowed (snd (work_task env t s))"
  by (auto simp: work_task_def Let_def AddToDelayedWorkQueue_def ScheduleDelayedWork_def DeferOrRunPendingTask_def)

lemma work_loop_nestable: "ml_nestable_allowed s \<Longrightarrow> ml_nestable_allowed (snd (work_loop env s))"
proof (induction env s rule: work_loop.induct)
  case (1 env s)
  show ?case
  proof (cases "ml_work s")
    case (Cons t q)
    obtain b s1 where w: "work_task env t (s\<lparr>ml_work := q\<rparr>) = (b, s1)" by fastforce
    have n: "ml_nestable_allowed s1"
      using work_task_nestable [of "s\<lparr>ml_work := q\<rparr>" env t] 1(2) w by simp
    show ?thesis
    proof (cases b)
      case False
      have "ml_nestable_allowed (snd (work_loop env s1))"
        by (rule 1(1) [OF Cons w [symmetric] _ n]) (simp add: False)
      then show ?thesis using Cons w False by (simp add: work_loop.simps [of env s])
    qed (use Cons w n in \<open>simp add: work_loop.simps [of env s]\<close>)
  qed (use 1(2) in \<open>simp add: work_loop.simps\<close>)
qed

lemma reload_loop_spec:
  "ml_nestable_allowed s \<Longrightarrow> ml_nestable_allowed (snd (reload_loop env s)) \<and>
    (\<not> fst (reload_loop env s) \<longrightarrow> ml_work (snd (reload_loop env s)) = [] \<and> ml_incoming (snd (reload_loop env s)) = [])"
proof (induction env s rule: reload_loop.induct)
  case (1 env s)
  let ?s1 = "ReloadWorkQueue s"
  have n: "ml_nestable_allowed ?s1" using 1(2) by (simp add: ReloadWorkQueue_def)
  show ?case
  proof (cases "ml_work ?s1 = []")
    case True
    then have "ml_incoming ?s1 = []" by (auto simp: ReloadWorkQueue_def split: if_splits)
    then show ?thesis using True n by (simp add: reload_loop.simps Let_def)
  next
    case False
    obtain b s2 where w: "work_loop env ?s1 = (b, s2)" by fastforce
    have n2: "ml_nestable_allowed s2" using work_loop_nestable [OF n, of env] w by simp
    show ?thesis
    proof (cases b)
      case True
      then show ?thesis using False w n2 by (simp add: reload_loop.simps [of env s] Let_def)
    next
      case b: False
      have "reload_loop env s = reload_loop env s2"
        using False w b by (simp add: reload_loop.simps [of env s] Let_def)
      then show ?thesis using 1(1) [OF refl False w [symmetric] _ n2] b by simp
    qed
  qed
qed

lemma DoWork_spec:
  "ml_nestable_allowed s \<Longrightarrow> ml_nestable_allowed (snd (DoWork env s)) \<and>
    (\<not> fst (DoWork env s) \<longrightarrow> ml_work (snd (DoWork env s)) = [] \<and> ml_incoming (snd (DoWork env s)) = [])"
  using reload_loop_spec by (simp add: DoWork_def)

lemma handle_io_nestable:
  "sound_env env \<Longrightarrow> ml_nestable_allowed (handle_io_item env f i s) = ml_nestable_allowed s"
  using moves_nestable [of env s "le_io env i s"]
  by (auto simp: handle_io_item_def on_io_pump_def sound_env_def split: option.split message_pump.split)

lemma on_io_pump_nestable [simp]: "ml_nestable_allowed (on_io_pump f s) = ml_nestable_allowed s"
  by (simp add: on_io_pump_def split: message_pump.split)

lemma WaitForIO_spec:
  assumes "sound_env env"
  shows "ml_nestable_allowed (snd (WaitForIOCompletion env f s)) = ml_nestable_allowed s"
    and "\<not> fst (WaitForIOCompletion env f s) \<Longrightarrow> snd (WaitForIOCompletion env f s) = s"
  by (auto simp: WaitForIOCompletion_def handle_io_nestable [OF assms]
      split: message_pump.split option.split list.split port_packet.split)

text \<open>The delayed tasks have their alarm: the time of the earliest is the one the pump waits for.\<close>

definition alarm_set :: "('k, 'w) msg_loop \<Rightarrow> bool" where
  "alarm_set s \<longleftrightarrow> (ml_delayed s \<noteq> [] \<longrightarrow> ml_delayed_work_time s = pt_delayed_run_time (hd (ml_delayed s)))"

lemma DoDelayedWork_spec:
  assumes "run_depth s = 1" "ml_nestable_allowed s"
  shows "ml_nestable_allowed (snd (DoDelayedWork env s))"
    and "\<not> fst (DoDelayedWork env s) \<Longrightarrow> alarm_set (snd (DoDelayedWork env s)) \<and>
      (\<exists>x y. snd (DoDelayedWork env s) = s\<lparr>ml_recent_time := x, ml_delayed_work_time := y\<rparr>)"
proof -
  have d: "run_delayed env u = (True, RunTask env (hd (ml_delayed u)) v)"
    if "run_depth u = 1" "v = (let s1 = u\<lparr>ml_delayed := tl (ml_delayed u)\<rparr> in if ml_delayed s1 \<noteq> []
      then s1\<lparr>ml_delayed_work_time := pt_delayed_run_time (hd (ml_delayed s1))\<rparr> else s1)" for u v
    using that by (simp add: run_delayed_def Let_def DeferOrRun_outermost run_depth_def)
  have r: "run_depth (s\<lparr>ml_recent_time := x\<rparr>) = 1" for x using assms by (simp add: run_depth_def)
  show "ml_nestable_allowed (snd (DoDelayedWork env s))"
    using assms d [OF assms(1) refl] d [OF r refl] by (auto simp: DoDelayedWork_def Let_def)
  have e: "s\<lparr>ml_delayed_work_time := y\<rparr> = s\<lparr>ml_recent_time := ml_recent_time s, ml_delayed_work_time := y\<rparr>" for y
    by simp
  show "alarm_set (snd (DoDelayedWork env s)) \<and>
      (\<exists>x y. snd (DoDelayedWork env s) = s\<lparr>ml_recent_time := x, ml_delayed_work_time := y\<rparr>)"
    if "\<not> fst (DoDelayedWork env s)"
    using that assms d [OF assms(1) refl] d [OF r refl] e
    by (auto simp: DoDelayedWork_def Let_def alarm_set_def split: if_splits)
qed

lemma DoIdleWork_spec:
  assumes "run_depth s = 1" "ml_nestable_allowed s"
  shows "ml_nestable_allowed (snd (DoIdleWork env s))"
    and "\<not> fst (DoIdleWork env s) \<Longrightarrow> ml_deferred s = [] \<and>
      (snd (DoIdleWork env s) = s \<or> snd (DoIdleWork env s) = Pump_Quit s)"
  using assms by (auto simp: DoIdleWork_def ProcessNextDelayedNonNestableTask_def split: list.splits)

text \<open>No work is left over that nothing will wake the pump for.\<close>

definition ready :: "('k, 'w) msg_loop \<Rightarrow> bool" where
  "ready s \<longleftrightarrow> ml_work s = [] \<and> (ml_incoming s \<noteq> [] \<longrightarrow> woken s)"

definition wake_inv :: "pump_pc \<Rightarrow> ('k, 'w) msg_loop \<Rightarrow> bool" where
  "wake_inv pc s \<longleftrightarrow> sched_inv s \<and> ml_nestable_allowed s \<and>
     (case pc of
        AtIO w \<Rightarrow> w \<or> ready s
      | AtDelayed w \<Rightarrow> w \<or> ready s
      | AtIdle \<Rightarrow> ready s \<and> alarm_set s
      | AtWait \<Rightarrow> ready s \<and> alarm_set s \<and> ml_deferred s = []
      | _ \<Rightarrow> True)"

lemma outer_ready:
  assumes m: "outer_move env s t" and i: "sched_inv s" and p: "\<forall>w. le_post env w" and r: "ready s"
  shows "ready t"
  using m
proof (cases rule: outer_move.cases)
  case (outer_post k d n)
  obtain w x where q: "same_queues s (post_task env k d n s)"
    "ml_incoming (post_task env k d n s) = ml_incoming s @ [x]"
    "ml_pump (post_task env k d n s) =
      (if ml_incoming s \<noteq> [] then ml_pump s else ml_pump (ScheduleWork env (s\<lparr>ml_world := w\<rparr>)))"
    by (rule post_task_cases)
  have i2: "sched_inv (s\<lparr>ml_world := w\<rparr>)" using i by (simp add: sched_inv_def run_depth_def)
  have "woken t"
    using woken_ScheduleWork [OF i2 p] r q outer_post by (auto simp: woken_def ready_def split: if_splits)
  then show ?thesis using r q outer_post by (simp add: ready_def same_queues_def)
qed (use r in \<open>auto simp: ready_def woken_def\<close>)

lemma wake_inv_outer:
  assumes m: "outer_move env s t" and e: "sound_env env" and p: "\<forall>w. le_post env w" and i: "wake_inv pc s"
  shows "wake_inv pc t"
proof -
  have s: "sched_inv s" using i by (simp add: wake_inv_def)
  have q: "same_queues s t" using loop_move_cases [OF outer_is_move [OF m] e] by blast
  have "alarm_set t = alarm_set s" using q by (simp add: alarm_set_def same_queues_def)
  then show ?thesis using i q sched_inv_move [OF outer_is_move [OF m] s] outer_ready [OF m s p]
    by (auto simp: wake_inv_def same_queues_def split: pump_pc.splits)
qed

lemma sched_micros: "micros env s t \<Longrightarrow> sched_inv s \<Longrightarrow> sched_inv t"
  by (induction rule: rtranclp_induct) (auto intro: sched_inv_micro)

lemma ready_Pump_Quit [simp]: "ready (Pump_Quit s) = ready s"
  by (simp add: ready_def woken_def) (simp add: Pump_Quit_def split: message_pump.split)

lemma alarm_Pump_Quit [simp]: "alarm_set (Pump_Quit s) = alarm_set s"
  by (simp add: alarm_set_def)

lemma wake_inv_step:
  assumes e: "sound_env env" and i: "wake_inv pc s"
  shows "wake_inv (fst (pump_step env pc s)) (snd (pump_step env pc s))"
proof -
  have s: "sched_inv (snd (pump_step env pc s))"
    by (rule sched_micros [OF pump_step_micros [OF e]]) (use i in \<open>simp add: wake_inv_def\<close>)
  have n: "ml_nestable_allowed s" and d: "run_depth s = 1" using i by (simp_all add: wake_inv_def sched_inv_def)
  show ?thesis
  proof (cases pc)
    case AtWork
    obtain r s1 where w: "DoWork env s = (r, s1)" by fastforce
    have "ml_nestable_allowed s1" "r \<or> ready s1" using DoWork_spec [OF n, of env] w by (auto simp: ready_def)
    then show ?thesis using s w AtWork by (auto simp: wake_inv_def split: message_pump.split)
  next
    case (AtIO b)
    obtain r s1 where w: "WaitForIOCompletion env None s = (r, s1)" by fastforce
    have "ml_nestable_allowed s1" "r \<or> s1 = s" using WaitForIO_spec [OF e, of None s] n w by auto
    then show ?thesis using s w AtIO i by (auto simp: wake_inv_def)
  next
    case (AtDelayed b)
    obtain r s1 where w: "DoDelayedWork env s = (r, s1)" by fastforce
    have "ml_nestable_allowed s1" "r \<or> alarm_set s1 \<and> ready s1 = ready s"
      using DoDelayedWork_spec [OF d n, of env] w by (auto simp: ready_def woken_def)
    then show ?thesis using s w AtDelayed i by (auto simp: wake_inv_def)
  next
    case AtIdle
    obtain r s1 where w: "DoIdleWork env s = (r, s1)" by fastforce
    have "ml_nestable_allowed s1" "r \<or> ml_deferred s1 = [] \<and> ready s1 = ready s \<and> alarm_set s1 = alarm_set s"
      using DoIdleWork_spec [OF d n, of env] w by auto
    then show ?thesis using s w AtIdle i by (auto simp: wake_inv_def)
  next
    case AtWait
    have "ml_nestable_allowed (pump_wait env s)"
      using WaitForIO_spec(1) [OF e, of None s] n by (simp add: pump_wait_def split: message_pump.split)
    then show ?thesis using s AtWait by (simp add: wake_inv_def)
  next
    case Stopped
    then show ?thesis using i by simp
  qed
qed

lemma wake_inv_start:
  "new_run pump s \<Longrightarrow> pump \<in> {default_pump_new, io_pump_new} \<Longrightarrow> wake_inv AtWork s"
  by (frule (1) sched_inv_start) (simp add: wake_inv_def new_run_def)

lemma wake_inv_reachable:
  assumes r: "loop_reachable env pump pc s" and e: "sound_env env" and p: "\<forall>w. le_post env w"
    and n: "pump \<in> {default_pump_new, io_pump_new}"
  shows "wake_inv pc s"
  using r
proof (induction rule: loop_reachable.induct)
  case (reach_start r w)
  show ?case by (rule wake_inv_start [OF new_run_start [OF reach_start] n])
next
  case (reach_pump pc s)
  show ?case by (rule wake_inv_step [OF e reach_pump.IH])
next
  case (reach_outer pc s t)
  show ?case by (rule wake_inv_outer [OF reach_outer(2) e p reach_outer.IH])
qed

section \<open>The order of the delayed queue\<close>

text \<open>Tasks with the number of their post.  The sequence number of a task is that number, rolled over.\<close>

definition before :: "nat \<times> 'k pending_task \<Rightarrow> nat \<times> 'k pending_task \<Rightarrow> bool" where
  "before a b \<longleftrightarrow> sint (pt_delayed_run_time (snd a)) < sint (pt_delayed_run_time (snd b)) \<or>
     sint (pt_delayed_run_time (snd a)) = sint (pt_delayed_run_time (snd b)) \<and> fst a < fst b"

definition numbered :: "nat \<Rightarrow> (nat \<times> 'k pending_task) set \<Rightarrow> bool" where
  "numbered m ts \<longleftrightarrow> (\<forall>(n, t) \<in> ts. pt_sequence_num t = of_nat n \<and> m \<le> n \<and> n < m + 2 ^ 31)"

fun push_numbered ::
    "nat \<times> 'k pending_task \<Rightarrow> (nat \<times> 'k pending_task) list \<Rightarrow> (nat \<times> 'k pending_task) list" where
  "push_numbered a [] = [a]"
| "push_numbered a (b # q) = (if before a b then a # b # q else b # push_numbered a q)"

lemma sint_diff_window:
  assumes "m \<le> i" "i < m + 2 ^ 31" "m \<le> j" "j < m + 2 ^ 31"
  shows "sint (of_nat i - of_nat j :: i32) = int i - int j"
proof -
  have w: "of_nat i - of_nat j = (of_int (int i - int j) :: i32)" by simp
  have "- (2 ^ 31) \<le> int i - int j" "int i - int j < 2 ^ 31" using assms by simp_all
  then have "signed_take_bit 31 (int i - int j) = int i - int j"
    by (intro signed_take_bit_int_eq_self) simp_all
  then show ?thesis unfolding w by (simp only: signed_of_int) simp
qed

lemma less_before:
  assumes "numbered m {a, b}" shows "PendingTask_less (snd b) (snd a) = before a b"
proof -
  have "sint (pt_sequence_num (snd b) - pt_sequence_num (snd a)) = int (fst b) - int (fst a)"
    using assms sint_diff_window [of m "fst b" "fst a"] by (auto simp: numbered_def)
  then show ?thesis by (auto simp: PendingTask_less_def before_def word_sless_alt)
qed

lemma push_is_queue_push:
  "numbered m (insert a (set q)) \<Longrightarrow> map snd (push_numbered a q) = queue_push (snd a) (map snd q)"
proof (induction q)
  case (Cons b q)
  have "PendingTask_less (snd b) (snd a) = before a b"
    by (rule less_before [of m]) (use Cons.prems in \<open>simp add: numbered_def\<close>)
  then show ?case using Cons by (simp add: numbered_def)
qed simp

lemma mset_push_numbered [simp]: "mset (push_numbered a q) = add_mset a (mset q)"
  by (induction a q rule: push_numbered.induct) auto

lemma set_push_numbered [simp]: "set (push_numbered a q) = insert a (set q)"
  by (induction a q rule: push_numbered.induct) auto

lemma before_trans: "before a b \<Longrightarrow> before b c \<Longrightarrow> before a c"
  by (auto simp: before_def)

lemma before_total: "fst a \<noteq> fst b \<Longrightarrow> \<not> before a b \<Longrightarrow> before b a"
  by (auto simp: before_def)

lemma sorted_push:
  "sorted_wrt before q \<Longrightarrow> fst a \<notin> fst ` set q \<Longrightarrow> sorted_wrt before (push_numbered a q)"
proof (induction q)
  case (Cons b q)
  then show ?case using before_total [of a b] by (auto intro: before_trans)
qed simp

lemma pushes_sorted:
  assumes "numbered m (set ts \<union> set q)" "distinct (map fst ts)" "sorted_wrt before q"
    "fst ` set ts \<inter> fst ` set q = {}"
  shows "sorted_wrt before (fold push_numbered ts q) \<and> mset (fold push_numbered ts q) = mset ts + mset q \<and>
    map snd (fold push_numbered ts q) = fold queue_push (map snd ts) (map snd q)"
  using assms
proof (induction ts arbitrary: q)
  case (Cons a ts)
  have "numbered m (insert a (set q))" using Cons.prems(1) by (simp add: numbered_def)
  then have p: "map snd (push_numbered a q) = queue_push (snd a) (map snd q)" by (rule push_is_queue_push)
  have s: "sorted_wrt before (push_numbered a q)"
    by (rule sorted_push [OF Cons.prems(3)]) (use Cons.prems(4) in auto)
  show ?case using Cons.IH [of "push_numbered a q"] Cons.prems s p by (auto simp: numbered_def)
qed simp

section \<open>The properties\<close>

text \<open>C11: the message loop runs every posted task at most once and loses none.  What has been posted
  is, at any moment, what has started plus what waits in the four queues; and the tasks that are not
  delayed and not bound to the outermost loop start in the order in which they were posted, whatever the
  tasks themselves and other threads post meanwhile.\<close>

theorem tasks_in_order:
  assumes "loop_reachable env pump pc s" "sound_env env"
  shows "filter immediate (ml_posted s) =
      filter immediate (ran_tasks s) @ filter immediate (ml_work s) @ filter immediate (ml_incoming s) \<and>
    mset (ml_posted s) = mset (ran_tasks s) + mset (ml_work s) + mset (ml_incoming s) +
      mset (ml_delayed s) + mset (ml_deferred s)"
proof -
  have "task_inv s" by (rule task_inv_reachable [OF assms])
  then show ?thesis by (simp add: task_inv_def)
qed

text \<open>no delayed task starts before its time.\<close>

theorem never_early:
  assumes "loop_reachable env pump pc s" "sound_env env" "(start, t) \<in> set (ml_ran s)"
    "pt_delayed_run_time t \<noteq> 0"
  shows "sint (pt_delayed_run_time t) \<le> sint start"
proof -
  have "early_inv env s"
    by (rule micro_invariant [OF assms(1,2) early_inv_start [OF _ assms(2)] early_inv_micro [OF _ assms(2)]])
  then show ?thesis using assms(3,4) by (auto simp: early_inv_def)
qed

text \<open>C7: no lost wake-up.  When the pump sleeps with nothing to wake it, every posted task has been
  started but the delayed ones, and for these the pump waits only until the earliest is due.\<close>

theorem no_lost_wakeup:
  assumes "loop_reachable env pump pc s" "sound_env env" "\<forall>w. le_post env w"
    "pump \<in> {default_pump_new, io_pump_new}" "asleep pc s"
  shows "mset (ml_posted s) = mset (ran_tasks s) + mset (ml_delayed s) \<and>
    (ml_delayed s \<noteq> [] \<longrightarrow> ml_delayed_work_time s \<noteq> 0 \<and>
       ml_delayed_work_time s = pt_delayed_run_time (hd (ml_delayed s)))"
proof -
  have t: "task_inv s" by (rule task_inv_reachable [OF assms(1,2)])
  have "wake_inv pc s" by (rule wake_inv_reachable [OF assms(1-4)])
  then have w: "ready s" "alarm_set s" "ml_deferred s = []"
    using assms(5) by (auto simp: wake_inv_def asleep_def)
  have "\<not> woken s" using assms(5) by (auto simp: asleep_def wake_pending_def woken_def split: message_pump.splits)
  then have "ml_work s = []" "ml_incoming s = []" using w(1) by (auto simp: ready_def)
  then show ?thesis using t w(2,3) by (cases "ml_delayed s") (auto simp: task_inv_def alarm_set_def)
qed

text \<open>C20: the queue of delayed tasks implements the order by time, and by the order of posting among
  equal times, even when the 32-bit sequence number rolls over, as long as fewer than \<open>2 ^ 31\<close> tasks are
  posted between the first and the last of the queue.\<close>

theorem delayed_queue_order:
  assumes "\<forall>(n, t) \<in> set ts. pt_sequence_num t = of_nat n \<and> m \<le> n \<and> n < m + 2 ^ 31"
    "distinct (map fst ts)"
  shows "\<exists>us. sorted_wrt before us \<and> mset us = mset ts \<and> map snd us = fold queue_push (map snd ts) []"
  using pushes_sorted [of m ts "[]"] assms by (auto simp: numbered_def)

section \<open>A loop on the IO pump\<close>

text \<open>The clock stands at 5 or, in the world \<open>True\<close>, at 70000.  Task 1 is posted with a delay of 50
  milliseconds and task 2 without.\<close>

definition demo_env :: "(nat, bool) loop_env" where
  "demo_env = \<lparr>le_now = (\<lambda>w. if w then 70000 else 5), le_post = (\<lambda>_. True),
     le_activate = (\<lambda>_ w. (False, w)), le_run = (\<lambda>_ s. s), le_io = (\<lambda>_ s. s), le_drop = (\<lambda>_. []),
     le_context_alive = (\<lambda>_ _. True)\<rparr>"

definition demo_start :: "(nat, bool) msg_loop" where
  "demo_start = Pump_begin (snd (BeforeRun RunLoop_new (MessageLoop_new io_pump_new False)))"

definition demo_posted :: "(nat, bool) msg_loop" where
  "demo_posted = post_task demo_env 2 0 True (post_task demo_env 1 50000 True demo_start)"

fun pump_awake ::
    "('k, 'w) loop_env \<Rightarrow> nat \<Rightarrow> pump_pc \<times> ('k, 'w) msg_loop \<Rightarrow> (pump_pc \<times> ('k, 'w) msg_loop) option" where
  "pump_awake env 0 (pc, s) = Some (pc, s)"
| "pump_awake env (Suc n) (pc, s) =
     (if asleep pc s \<and> ml_delayed_work_time s = 0 then None else pump_awake env n (pump_step env pc s))"

lemma pump_awake_reachable:
  "pump_awake env n c = Some (pc', s') \<Longrightarrow> loop_reachable env pump (fst c) (snd c) \<Longrightarrow>
     loop_reachable env pump pc' s'"
proof (induction env n c rule: pump_awake.induct)
  case (2 env n pc s)
  then have a: "\<not> asleep pc s \<or> ml_delayed_work_time s \<noteq> 0" by (auto split: if_splits)
  have "loop_reachable env pump (fst (pump_step env pc s)) (snd (pump_step env pc s))"
    by (rule reach_pump [OF _ a]) (use 2(3) in simp)
  then show ?case using 2 a by (auto split: if_splits)
qed simp

lemma sound_demo: "sound_env demo_env"
  by (simp add: sound_env_def demo_env_def word_sless_alt)

lemma demo_posted_reachable: "loop_reachable demo_env io_pump_new AtWork demo_posted"
proof -
  have "loop_reachable demo_env io_pump_new AtWork demo_start"
    unfolding demo_start_def by (rule reach_start) simp
  then show ?thesis unfolding demo_posted_def by (meson reach_outer outer_post)
qed

lemma demo_sleeps:
  obtains s where "loop_reachable demo_env io_pump_new AtWait s" "asleep AtWait s"
    "map pt_task (ran_tasks s) = [2]" "map pt_task (ml_delayed s) = [1]" "ml_delayed_work_time s = 50005"
proof -
  have "(case pump_awake demo_env 7 (AtWork, demo_posted) of None \<Rightarrow> False
    | Some (pc, s) \<Rightarrow> pc = AtWait \<and> asleep pc s \<and> map pt_task (ran_tasks s) = [2] \<and>
        map pt_task (ml_delayed s) = [1] \<and> ml_delayed_work_time s = 50005)"
    by code_simp
  then obtain s where "pump_awake demo_env 7 (AtWork, demo_posted) = Some (AtWait, s)" "asleep AtWait s"
    "map pt_task (ran_tasks s) = [2]" "map pt_task (ml_delayed s) = [1]" "ml_delayed_work_time s = 50005"
    by (auto split: option.splits)
  then show ?thesis using demo_posted_reachable by (intro that) (auto intro: pump_awake_reachable)
qed

text \<open>Time passes, and the pump, whose wait is over, runs the delayed task.\<close>

lemma demo_wakes:
  obtains pc s where "loop_reachable demo_env io_pump_new pc s" "map pt_task (ran_tasks s) = [2, 1]"
    "map fst (ml_ran s) = [5, 70000]" "map pt_delayed_run_time (ran_tasks s) = [0, 50005]"
proof -
  obtain s0 where r: "loop_reachable demo_env io_pump_new AtWait s0"
    and s0: "pump_awake demo_env 7 (AtWork, demo_posted) = Some (AtWait, s0)"
  proof -
    have "(case pump_awake demo_env 7 (AtWork, demo_posted) of None \<Rightarrow> False | Some (pc, s) \<Rightarrow> pc = AtWait)"
      by code_simp
    then obtain s where s: "pump_awake demo_env 7 (AtWork, demo_posted) = Some (AtWait, s)"
      by (auto split: option.splits)
    have "loop_reachable demo_env io_pump_new AtWait s"
      by (rule pump_awake_reachable [OF s]) (simp add: demo_posted_reachable)
    then show ?thesis using s by (rule that)
  qed
  have w: "loop_reachable demo_env io_pump_new AtWait (s0\<lparr>ml_world := True\<rparr>)"
    by (rule reach_outer [OF r outer_world]) (simp add: demo_env_def word_sless_alt)
  have "(case pump_awake demo_env 7 (AtWork, demo_posted) of None \<Rightarrow> False | Some (_, s0) \<Rightarrow>
      (case pump_awake demo_env 4 (AtWait, s0\<lparr>ml_world := True\<rparr>) of None \<Rightarrow> False | Some (pc, s) \<Rightarrow>
        map pt_task (ran_tasks s) = [2, 1] \<and> map fst (ml_ran s) = [5, 70000] \<and>
        map pt_delayed_run_time (ran_tasks s) = [0, 50005]))"
    by code_simp
  then obtain pc s where s: "pump_awake demo_env 4 (AtWait, s0\<lparr>ml_world := True\<rparr>) = Some (pc, s)"
    "map pt_task (ran_tasks s) = [2, 1]" "map fst (ml_ran s) = [5, 70000]"
    "map pt_delayed_run_time (ran_tasks s) = [0, 50005]"
    by (auto simp: s0 split: option.splits)
  have "loop_reachable demo_env io_pump_new pc s" by (rule pump_awake_reachable [OF s(1)]) (simp add: w)
  then show ?thesis using s by (intro that)
qed

lemma tasks_in_order_witness:
  "\<exists>pc s. loop_reachable demo_env io_pump_new pc s \<and> length (ml_ran s) = 2 \<and>
     mset (ml_posted s) = mset (ran_tasks s) + mset (ml_work s) + mset (ml_incoming s) +
       mset (ml_delayed s) + mset (ml_deferred s)"
proof -
  obtain pc s where r: "loop_reachable demo_env io_pump_new pc s" "map pt_task (ran_tasks s) = [2, 1]"
    by (rule demo_wakes)
  have "length (ml_ran s) = 2" using arg_cong [OF r(2), of length] by simp
  then show ?thesis using tasks_in_order [OF r(1) sound_demo] r(1) by blast
qed

lemma never_early_witness:
  "\<exists>pc s t. loop_reachable demo_env io_pump_new pc s \<and> (70000, t) \<in> set (ml_ran s) \<and>
     pt_delayed_run_time t = 50005 \<and> sint (pt_delayed_run_time t) \<le> sint (70000 :: i64)"
proof -
  obtain pc s where r: "loop_reachable demo_env io_pump_new pc s" "map fst (ml_ran s) = [5, 70000]"
    "map pt_delayed_run_time (ran_tasks s) = [0, 50005]"
    by (rule demo_wakes)
  then obtain t where t: "(70000, t) \<in> set (ml_ran s)" "pt_delayed_run_time t = 50005"
    by (cases "ml_ran s"; cases "tl (ml_ran s)") auto
  have "pt_delayed_run_time t \<noteq> 0" using t(2) by simp
  then show ?thesis using never_early [OF r(1) sound_demo t(1)] r(1) t by blast
qed

lemma no_lost_wakeup_witness:
  "\<exists>s. asleep AtWait s \<and> map pt_task (ran_tasks s) = [2] \<and> length (ml_delayed s) = 1 \<and>
     mset (ml_posted s) = mset (ran_tasks s) + mset (ml_delayed (s :: (nat, bool) msg_loop)) \<and>
     ml_delayed_work_time s = pt_delayed_run_time (hd (ml_delayed s))"
proof -
  obtain s where s: "loop_reachable demo_env io_pump_new AtWait s" "asleep AtWait s"
    "map pt_task (ran_tasks s) = [2]" "map pt_task (ml_delayed s) = [1]"
    by (rule demo_sleeps)
  have l: "length (ml_delayed s) = 1" using arg_cong [OF s(4), of length] by simp
  then have "ml_delayed s \<noteq> []" by auto
  moreover have "\<forall>w. le_post demo_env w" by (simp add: demo_env_def)
  ultimately show ?thesis using no_lost_wakeup [OF s(1) sound_demo _ _ s(2)] s l by auto
qed

text \<open>Three tasks for the same time around the roll-over of the sequence number.\<close>

lemma delayed_queue_order_witness:
  "let t = (\<lambda>n :: nat. \<lparr>pt_task = (), pt_delayed_run_time = 9, pt_sequence_num = of_nat n, pt_nestable = True\<rparr>);
       ts = map (\<lambda>n. (n, t n)) [4294967296, 4294967294, 4294967295]
   in \<exists>us. sorted_wrt before us \<and> mset us = mset ts \<and> map snd us = fold queue_push (map snd ts) []"
  unfolding Let_def by (rule delayed_queue_order [of _ 4294967290]) simp_all

end
