(* ===== verification/MessageLoop_Idle.thy ===== *)
theory MessageLoop_Idle
  imports MessageLoop_Props
begin

text \<open>
  Runs of a loop end.  The tasks and I/O handlers do not use the loop themselves, but some tasks, picked
  by \<open>quits\<close>, call \<open>QuitWhenIdle\<close>.  Every call of the pump then runs a task, takes a completion, or moves
  on toward the idle work (\<open>rounds_left\<close> decreases), which quits if it was asked to; what is left are
  delayed tasks that are not due.  \<open>RunUntilIdle\<close> and the end of a thread are instances.
\<close>

definition quiet_env :: "('k \<Rightarrow> bool) \<Rightarrow> ('k, 'w) loop_env \<Rightarrow> bool" where
  "quiet_env quits env \<longleftrightarrow>
     (\<forall>k s. \<exists>w. le_run env k s = (if quits k then QuitWhenIdle (s\<lparr>ml_world := w\<rparr>) else s\<lparr>ml_world := w\<rparr>)) \<and>
     (\<forall>i s. \<exists>w. le_io env i s = s\<lparr>ml_world := w\<rparr>)"

text \<open>The outermost run, and whether it was asked to quit when idle.\<close>

definition single :: "('k, 'w) msg_loop \<Rightarrow> bool" where
  "single s \<longleftrightarrow> (\<exists>r. ml_run_loops s = [r])"

definition quit_flag :: "('k, 'w) msg_loop \<Rightarrow> bool" where
  "quit_flag s \<longleftrightarrow> ml_run_loops s \<noteq> [] \<and> rl_quit_when_idle (hd (ml_run_loops s))"

definition flag_inv :: "('k \<Rightarrow> bool) \<Rightarrow> ('k, 'w) msg_loop \<Rightarrow> bool" where
  "flag_inv quits s \<longleftrightarrow> (\<forall>t \<in> set (ran_tasks s). quits (pt_task t) \<longrightarrow> quit_flag s)"

definition flag_why :: "('k \<Rightarrow> bool) \<Rightarrow> ('k, 'w) msg_loop \<Rightarrow> bool" where
  "flag_why quits s \<longleftrightarrow> (quit_flag s \<longrightarrow> (\<exists>t \<in> set (ran_tasks s). quits (pt_task t)))"

text \<open>What a call of the loop that runs a task, or none, keeps.\<close>

definition ran_one :: "('k \<Rightarrow> bool) \<Rightarrow> bool \<Rightarrow> ('k, 'w) msg_loop \<Rightarrow> ('k, 'w) msg_loop \<Rightarrow> bool" where
  "ran_one quits b s t \<longleftrightarrow> ml_posted t = ml_posted s \<and> ml_pump t = ml_pump s \<and>
     length (ml_ran t) = length (ml_ran s) + of_bool b \<and>
     (ml_nestable_allowed s \<longrightarrow> ml_nestable_allowed t) \<and>
     (single s \<longrightarrow> single t \<and> run_depth t = run_depth s \<and> (quit_flag s \<longrightarrow> quit_flag t) \<and>
        (flag_inv quits s \<longrightarrow> flag_inv quits t) \<and> (flag_why quits s \<longrightarrow> flag_why quits t))"

lemma ran_one_trans: "ran_one quits False s t \<Longrightarrow> ran_one quits b t u \<Longrightarrow> ran_one quits b s u"
  by (simp add: ran_one_def)

lemma flags_update [simp]:
  "single (s\<lparr>ml_work := x_work\<rparr>) = single s"
  "single (s\<lparr>ml_delayed := x_delayed\<rparr>) = single s"
  "single (s\<lparr>ml_deferred := x_deferred\<rparr>) = single s"
  "single (s\<lparr>ml_incoming := x_incoming\<rparr>) = single s"
  "single (s\<lparr>ml_recent_time := x_recent_time\<rparr>) = single s"
  "single (s\<lparr>ml_delayed_work_time := x_delayed_work_time\<rparr>) = single s"
  "single (s\<lparr>ml_world := x_world\<rparr>) = single s"
  "single (s\<lparr>ml_nestable_allowed := x_nestable_allowed\<rparr>) = single s"
  "quit_flag (s\<lparr>ml_work := x_work\<rparr>) = quit_flag s"
  "quit_flag (s\<lparr>ml_delayed := x_delayed\<rparr>) = quit_flag s"
  "quit_flag (s\<lparr>ml_deferred := x_deferred\<rparr>) = quit_flag s"
  "quit_flag (s\<lparr>ml_incoming := x_incoming\<rparr>) = quit_flag s"
  "quit_flag (s\<lparr>ml_recent_time := x_recent_time\<rparr>) = quit_flag s"
  "quit_flag (s\<lparr>ml_delayed_work_time := x_delayed_work_time\<rparr>) = quit_flag s"
  "quit_flag (s\<lparr>ml_world := x_world\<rparr>) = quit_flag s"
  "quit_flag (s\<lparr>ml_nestable_allowed := x_nestable_allowed\<rparr>) = quit_flag s"
  "flag_inv quits (s\<lparr>ml_work := x_work\<rparr>) = flag_inv quits s"
  "flag_inv quits (s\<lparr>ml_delayed := x_delayed\<rparr>) = flag_inv quits s"
  "flag_inv quits (s\<lparr>ml_deferred := x_deferred\<rparr>) = flag_inv quits s"
  "flag_inv quits (s\<lparr>ml_incoming := x_incoming\<rparr>) = flag_inv quits s"
  "flag_inv quits (s\<lparr>ml_recent_time := x_recent_time\<rparr>) = flag_inv quits s"
  "flag_inv quits (s\<lparr>ml_delayed_work_time := x_delayed_work_time\<rparr>) = flag_inv quits s"
  "flag_inv quits (s\<lparr>ml_world := x_world\<rparr>) = flag_inv quits s"
  "flag_inv quits (s\<lparr>ml_nestable_allowed := x_nestable_allowed\<rparr>) = flag_inv quits s"
  "flag_why quits (s\<lparr>ml_work := x_work\<rparr>) = flag_why quits s"
  "flag_why quits (s\<lparr>ml_delayed := x_delayed\<rparr>) = flag_why quits s"
  "flag_why quits (s\<lparr>ml_deferred := x_deferred\<rparr>) = flag_why quits s"
  "flag_why quits (s\<lparr>ml_incoming := x_incoming\<rparr>) = flag_why quits s"
  "flag_why quits (s\<lparr>ml_recent_time := x_recent_time\<rparr>) = flag_why quits s"
  "flag_why quits (s\<lparr>ml_delayed_work_time := x_delayed_work_time\<rparr>) = flag_why quits s"
  "flag_why quits (s\<lparr>ml_world := x_world\<rparr>) = flag_why quits s"
  "flag_why quits (s\<lparr>ml_nestable_allowed := x_nestable_allowed\<rparr>) = flag_why quits s"
  "run_depth (s\<lparr>ml_work := x_work\<rparr>) = run_depth s"
  "run_depth (s\<lparr>ml_delayed := x_delayed\<rparr>) = run_depth s"
  "run_depth (s\<lparr>ml_deferred := x_deferred\<rparr>) = run_depth s"
  "run_depth (s\<lparr>ml_incoming := x_incoming\<rparr>) = run_depth s"
  "run_depth (s\<lparr>ml_recent_time := x_recent_time\<rparr>) = run_depth s"
  "run_depth (s\<lparr>ml_delayed_work_time := x_delayed_work_time\<rparr>) = run_depth s"
  "run_depth (s\<lparr>ml_world := x_world\<rparr>) = run_depth s"
  "run_depth (s\<lparr>ml_nestable_allowed := x_nestable_allowed\<rparr>) = run_depth s"
  by (simp_all add: single_def quit_flag_def flag_inv_def flag_why_def run_depth_def)

lemma QuitWhenIdle_fields [simp]:
  "ml_posted (QuitWhenIdle s) = ml_posted s" "ml_pump (QuitWhenIdle s) = ml_pump s"
  "ml_ran (QuitWhenIdle s) = ml_ran s"
  by (simp_all add: QuitWhenIdle_def split: list.split)

lemma RunTask_ran_one:
  assumes "quiet_env quits env" shows "ran_one quits True s (RunTask env t s)"
proof -
  let ?s = "s\<lparr>ml_nestable_allowed := False, ml_ran := ml_ran s @ [(now env s, t)]\<rparr>"
  obtain w where w: "le_run env (pt_task t) ?s =
      (if quits (pt_task t) then QuitWhenIdle (?s\<lparr>ml_world := w\<rparr>) else ?s\<lparr>ml_world := w\<rparr>)"
    using assms unfolding quiet_env_def by blast
  show ?thesis
  proof (cases "ml_run_loops s")
    case Nil
    then show ?thesis using w
      by (cases "quits (pt_task t)") (simp_all add: RunTask_def ran_one_def single_def QuitWhenIdle_def)
  next
    case (Cons r rs)
    then show ?thesis using w
      by (cases "quits (pt_task t)")
        (auto simp: RunTask_def ran_one_def single_def quit_flag_def flag_inv_def flag_why_def run_depth_def
          QuitWhenIdle_def)
  qed
qed

lemma DeferOrRun_ran_one:
  assumes "quiet_env quits env"
  shows "ran_one quits (fst (DeferOrRunPendingTask env t s)) s (snd (DeferOrRunPendingTask env t s))"
  using RunTask_ran_one [OF assms, of s t] by (simp add: DeferOrRunPendingTask_def ran_one_def)

lemma work_task_ran_one:
  assumes "quiet_env quits env" shows "ran_one quits (fst (work_task env t s)) s (snd (work_task env t s))"
  using DeferOrRun_ran_one [OF assms, of t s]
  by (simp add: work_task_def Let_def AddToDelayedWorkQueue_def ScheduleDelayedWork_def ran_one_def)

lemma work_loop_ran_one:
  "quiet_env quits env \<Longrightarrow> ran_one quits (fst (work_loop env s)) s (snd (work_loop env s))"
proof (induction env s rule: work_loop.induct)
  case (1 env s)
  show ?case
  proof (cases "ml_work s")
    case (Cons t q)
    obtain b s1 where w: "work_task env t (s\<lparr>ml_work := q\<rparr>) = (b, s1)" by fastforce
    have m: "ran_one quits b s s1" using work_task_ran_one [OF 1(2), of t "s\<lparr>ml_work := q\<rparr>"] w by (simp add: ran_one_def)
    show ?thesis
    proof (cases b)
      case False
      have "ran_one quits (fst (work_loop env s1)) s1 (snd (work_loop env s1))"
        by (rule 1(1) [OF Cons w [symmetric] _ 1(2)]) (simp add: False)
      then show ?thesis using ran_one_trans [of quits s s1] m False Cons w by (simp add: work_loop.simps [of env s])
    qed (use m Cons w in \<open>simp add: work_loop.simps [of env s]\<close>)
  qed (simp add: work_loop.simps ran_one_def)
qed

lemma reload_ran_one: "ran_one quits False s (ReloadWorkQueue s)"
  by (simp add: ReloadWorkQueue_def ran_one_def)

lemma reload_loop_ran_one:
  "quiet_env quits env \<Longrightarrow> ran_one quits (fst (reload_loop env s)) s (snd (reload_loop env s))"
proof (induction env s rule: reload_loop.induct)
  case (1 env s)
  let ?s1 = "ReloadWorkQueue s"
  show ?case
  proof (cases "ml_work ?s1 = []")
    case True
    then show ?thesis using reload_ran_one [of quits s] by (simp add: reload_loop.simps Let_def)
  next
    case False
    obtain b s2 where w: "work_loop env ?s1 = (b, s2)" by fastforce
    have m: "ran_one quits b s s2"
      using ran_one_trans [OF reload_ran_one, of quits b s s2] work_loop_ran_one [OF 1(2), of ?s1] w by simp
    show ?thesis
    proof (cases b)
      case True
      then show ?thesis using m False w by (simp add: reload_loop.simps [of env s] Let_def)
    next
      case b: False
      have e: "reload_loop env s = reload_loop env s2"
        using False w b by (simp add: reload_loop.simps [of env s] Let_def)
      show ?thesis unfolding e
        by (rule ran_one_trans [OF m [unfolded b [THEN eq_False [THEN iffD2]]]
              1(1) [OF refl False w [symmetric] _ 1(2)]]) (simp add: b)
    qed
  qed
qed

lemma DoWork_ran_one: "quiet_env quits env \<Longrightarrow> ran_one quits (fst (DoWork env s)) s (snd (DoWork env s))"
  by (cases "ml_nestable_allowed s") (simp_all add: DoWork_def reload_loop_ran_one, simp add: ran_one_def)

lemma DoDelayedWork_ran_one:
  assumes "quiet_env quits env" shows "ran_one quits (fst (DoDelayedWork env s)) s (snd (DoDelayedWork env s))"
proof -
  have r: "ran_one quits (fst (run_delayed env u)) u (snd (run_delayed env u))" for u
    using DeferOrRun_ran_one [OF assms] by (simp add: run_delayed_def Let_def ran_one_def)
  show ?thesis using r [of s] r [of "s\<lparr>ml_recent_time := now env s\<rparr>"]
    by (auto simp: DoDelayedWork_def Let_def ran_one_def)
qed

lemma DoIdleWork_ran_one:
  assumes "quiet_env quits env" "fst (DoIdleWork env s)" shows "ran_one quits True s (snd (DoIdleWork env s))"
proof -
  obtain t q where d: "run_depth s = 1" "ml_deferred s = t # q"
    using assms(2) by (auto simp: DoIdleWork_def ProcessNextDelayedNonNestableTask_def split: if_splits list.splits)
  have "ran_one quits True s (RunTask env t (s\<lparr>ml_deferred := q\<rparr>))"
    using RunTask_ran_one [OF assms(1), of "s\<lparr>ml_deferred := q\<rparr>" t] by (simp add: ran_one_def)
  then show ?thesis using d by (simp add: DoIdleWork_def ProcessNextDelayedNonNestableTask_def)
qed

text \<open>Taking a completion.\<close>

definition packets :: "('k, 'w) msg_loop \<Rightarrow> nat" where
  "packets s = (case ml_pump s of PumpDefault _ \<Rightarrow> 0 | PumpForIO p \<Rightarrow> length (ip_port p) + length (ip_completed p))"

lemma match_completed_length: "match_completed f is = Some (i, rest) \<Longrightarrow> length is = Suc (length rest)"
  by (induction f "is" arbitrary: i rest rule: match_completed.induct) (auto split: if_splits)

lemma handle_io_none:
  assumes "quiet_env quits env" obtains w where "handle_io_item env None i s = s\<lparr>ml_world := w\<rparr>"
proof -
  obtain w where "le_io env i s = s\<lparr>ml_world := w\<rparr>" using assms unfolding quiet_env_def by blast
  moreover have "s = s\<lparr>ml_world := ml_world s\<rparr>" by simp
  ultimately show ?thesis using that by (metis handle_io_item_def)
qed

lemma WaitForIO_quiet:
  assumes "quiet_env quits env"
  shows "let (r, t) = WaitForIOCompletion env None s in
    packets t + of_bool r = packets s \<and> should_quit t = should_quit s \<and> ml_posted t = ml_posted s \<and>
    ml_ran t = ml_ran s \<and> ml_run_loops t = ml_run_loops s \<and> ml_nestable_allowed t = ml_nestable_allowed s \<and>
    ml_work t = ml_work s \<and> ml_incoming t = ml_incoming s"
proof (cases "ml_pump s")
  case (PumpForIO p)
  have h: "\<exists>w. handle_io_item env None i u = u\<lparr>ml_world := w\<rparr>" for i u
    by (rule handle_io_none [OF assms]) blast
  show ?thesis
  proof (cases "ip_completed p")
    case c: Nil
    show ?thesis
    proof (cases "ip_port p")
      case Nil
      then show ?thesis using PumpForIO c by (simp add: WaitForIOCompletion_def packets_def)
    next
      case (Cons x q)
      show ?thesis
      proof (cases x)
        case Wake
        then show ?thesis using PumpForIO c Cons
          by (simp add: WaitForIOCompletion_def packets_def on_io_pump_def should_quit_def)
      next
        case (Completion i)
        obtain w where "handle_io_item env None i (s\<lparr>ml_pump := PumpForIO (p\<lparr>ip_port := q\<rparr>)\<rparr>) =
            s\<lparr>ml_pump := PumpForIO (p\<lparr>ip_port := q\<rparr>), ml_world := w\<rparr>" using h by blast
        then show ?thesis using PumpForIO c Cons Completion
          by (simp add: WaitForIOCompletion_def packets_def on_io_pump_def should_quit_def)
      qed
    qed
  next
    case (Cons i rest)
    obtain w where "handle_io_item env None i (s\<lparr>ml_pump := PumpForIO (p\<lparr>ip_completed := rest\<rparr>)\<rparr>) =
        s\<lparr>ml_pump := PumpForIO (p\<lparr>ip_completed := rest\<rparr>), ml_world := w\<rparr>" using h by blast
    then show ?thesis using PumpForIO Cons
      by (simp add: WaitForIOCompletion_def packets_def on_io_pump_def should_quit_def)
  qed
qed (simp add: WaitForIOCompletion_def packets_def)

section \<open>The run\<close>

definition due_later :: "('k, 'w) loop_env \<Rightarrow> ('k, 'w) msg_loop \<Rightarrow> bool" where
  "due_later env s \<longleftrightarrow> (ml_delayed s \<noteq> [] \<longrightarrow> now env s <s pt_delayed_run_time (hd (ml_delayed s)))"

lemma DoDelayedWork_later:
  assumes "run_depth s = 1" "ml_nestable_allowed s" "\<not> fst (DoDelayedWork env s)"
  shows "due_later env (snd (DoDelayedWork env s)) \<and>
    ml_work (snd (DoDelayedWork env s)) = ml_work s \<and> ml_incoming (snd (DoDelayedWork env s)) = ml_incoming s"
proof -
  have r: "fst (run_delayed env u)" if "run_depth u = 1" for u
    using that by (simp add: run_delayed_def Let_def DeferOrRunPendingTask_def run_depth_def)
  have "fst (run_delayed env s)" "fst (run_delayed env (s\<lparr>ml_recent_time := now env s\<rparr>))"
    using assms(1) by (auto intro!: r simp: run_depth_def)
  then show ?thesis using assms by (auto simp: DoDelayedWork_def Let_def due_later_def split: if_splits)
qed

definition idle_inv ::
    "('k \<Rightarrow> bool) \<Rightarrow> ('k, 'w) loop_env \<Rightarrow> 'k pending_task list \<Rightarrow> pump_pc \<Rightarrow> ('k, 'w) msg_loop \<Rightarrow> bool" where
  "idle_inv quits env posted pc s \<longleftrightarrow>
     task_inv s \<and> ml_posted s = posted \<and> ml_nestable_allowed s \<and> single s \<and> run_depth s = 1 \<and>
     flag_inv quits s \<and> (quit_flag s \<or> (\<exists>t \<in> set posted. quits (pt_task t) \<and> immediate t)) \<and>
     should_quit (Pump_Quit s) \<and> (pc \<noteq> Stopped \<longrightarrow> \<not> should_quit s) \<and>
     (pc \<in> {AtIO False, AtDelayed False, AtIdle, Stopped} \<longrightarrow> ml_work s = [] \<and> ml_incoming s = []) \<and>
     (pc \<in> {AtIdle, Stopped} \<longrightarrow> due_later env s) \<and> (pc = Stopped \<longrightarrow> ml_deferred s = [])"

text \<open>When the queues are empty the task that quits has run.\<close>

lemma idle_flagged:
  assumes "idle_inv quits env posted AtIdle s" shows "quit_flag s"
proof -
  have f: "filter immediate posted = filter immediate (ran_tasks s)"
    using assms by (auto simp: idle_inv_def task_inv_def)
  have "t \<in> set (ran_tasks s)" if "t \<in> set posted" "immediate t" for t
  proof -
    have "t \<in> set (filter immediate (ran_tasks s))" unfolding f [symmetric] using that by simp
    then show ?thesis by simp
  qed
  then show ?thesis using assms unfolding idle_inv_def flag_inv_def by blast
qed

fun rank :: "pump_pc \<Rightarrow> nat" where
  "rank (AtIO w) = (if w then 6 else 3)"
| "rank (AtDelayed w) = (if w then 5 else 2)"
| "rank AtWork = 4"
| "rank AtIdle = 1"
| "rank AtWait = 5"
| "rank Stopped = 0"

definition rounds_left :: "pump_pc \<Rightarrow> ('k, 'w) msg_loop \<Rightarrow> nat" where
  "rounds_left pc s = 8 * (length (ml_posted s) - length (ml_ran s) + packets s) + rank pc"

lemma task_inv_bound:
  assumes "task_inv s" shows "length (ml_ran s) \<le> length (ml_posted s)"
proof -
  have "mset (ml_posted s) = mset (ran_tasks s) + mset (ml_work s) + mset (ml_incoming s) +
      mset (ml_delayed s) + mset (ml_deferred s)" using assms by (simp add: task_inv_def)
  from arg_cong [OF this, of size] show ?thesis by simp
qed

lemma pump_Pump_Quit:
  "ml_pump (Pump_Quit s) = (case ml_pump s of
     PumpDefault p \<Rightarrow> PumpDefault (p\<lparr>dp_keep_running := False\<rparr>)
   | PumpForIO p \<Rightarrow> PumpForIO (p\<lparr>ip_states := (ip_states p)[0 := True]\<rparr>))"
  unfolding Pump_Quit_def by (cases "ml_pump s") simp_all

lemma should_quit_Pump_Quit:
  "should_quit (Pump_Quit s) = (case ml_pump s of PumpDefault _ \<Rightarrow> True | PumpForIO p \<Rightarrow> ip_states p \<noteq> [])"
proof (cases "ml_pump s")
  case (PumpForIO p)
  then show ?thesis unfolding should_quit_def pump_Pump_Quit by (cases "ip_states p") simp_all
qed (simp add: should_quit_def pump_Pump_Quit)

lemma should_quit_same:
  assumes "ml_pump t = ml_pump s"
  shows "should_quit t = should_quit s" "should_quit (Pump_Quit t) = should_quit (Pump_Quit s)"
    "packets t = packets s"
  unfolding should_quit_Pump_Quit unfolding should_quit_def packets_def assms by (rule refl)+

lemma handle_io_pump:
  assumes "quiet_env quits env" shows "ml_pump (handle_io_item env None i s) = ml_pump s"
proof -
  obtain w where "handle_io_item env None i s = s\<lparr>ml_world := w\<rparr>" by (rule handle_io_none [OF assms])
  then show ?thesis by simp
qed

lemma quit_after_wait:
  assumes "quiet_env quits env" "WaitForIOCompletion env None s = (r, t)" "should_quit (Pump_Quit s)"
  shows "should_quit (Pump_Quit t)"
proof (cases "ml_pump s")
  case (PumpDefault p)
  then show ?thesis using assms by (simp add: WaitForIOCompletion_def)
next
  case (PumpForIO p)
  obtain q where "ml_pump t = PumpForIO q" "ip_states q = ip_states p"
    using assms(2) PumpForIO
    by (auto simp: WaitForIOCompletion_def handle_io_pump [OF assms(1)] on_io_pump_def
        split: option.splits list.splits port_packet.splits)
  then show ?thesis using assms(3) PumpForIO by (simp add: should_quit_Pump_Quit)
qed

lemma pump_wait_quiet:
  assumes "quiet_env quits env"
  shows "packets (pump_wait env s) \<le> packets s \<and> should_quit (pump_wait env s) = should_quit s \<and>
    ml_posted (pump_wait env s) = ml_posted s \<and> ml_ran (pump_wait env s) = ml_ran s \<and>
    ml_run_loops (pump_wait env s) = ml_run_loops s \<and>
    ml_nestable_allowed (pump_wait env s) = ml_nestable_allowed s \<and>
    (should_quit (Pump_Quit s) \<longrightarrow> should_quit (Pump_Quit (pump_wait env s)))"
proof (cases "ml_pump s")
  case (PumpDefault p)
  then show ?thesis unfolding should_quit_Pump_Quit by (simp add: pump_wait_def packets_def should_quit_def)
next
  case (PumpForIO p)
  obtain r t where w: "WaitForIOCompletion env None s = (r, t)" by fastforce
  show ?thesis using WaitForIO_quiet [OF assms, of s] quit_after_wait [OF assms w] w PumpForIO
    by (auto simp: pump_wait_def)
qed

lemma idle_step:
  assumes e: "sound_env env" and q: "quiet_env quits env" and i: "idle_inv quits env posted pc s"
    and n: "pc \<noteq> Stopped"
  shows "idle_inv quits env posted (fst (pump_step env pc s)) (snd (pump_step env pc s)) \<and>
    rounds_left (fst (pump_step env pc s)) (snd (pump_step env pc s)) < rounds_left pc s \<and>
    fst (pump_step env pc s) \<noteq> AtWait"
proof -
  have d: "run_depth s = 1" and a: "ml_nestable_allowed s" and nq: "\<not> should_quit s"
    and qq: "should_quit (Pump_Quit s)" and ps: "ml_posted s = posted" and sg: "single s" "flag_inv quits s"
    and fl: "quit_flag s \<or> (\<exists>t \<in> set posted. quits (pt_task t) \<and> immediate t)"
    using i n by (auto simp: idle_inv_def)
  have "task_inv t" if "micros env s t" for t
    using that i by (induction rule: rtranclp_induct) (auto simp: idle_inv_def intro: task_inv_micro [OF _ e])
  then have t: "task_inv (snd (pump_step env pc s))" using pump_step_micros [OF e] by blast
  have ran: "\<lbrakk>ran_one quits b s s1; task_inv s1\<rbrakk> \<Longrightarrow> \<not> should_quit s1 \<and> should_quit (Pump_Quit s1) \<and>
      ml_posted s1 = posted \<and> ml_nestable_allowed s1 \<and> single s1 \<and> run_depth s1 = 1 \<and> flag_inv quits s1 \<and>
      (quit_flag s1 \<or> (\<exists>t \<in> set posted. quits (pt_task t) \<and> immediate t)) \<and>
      8 * (length (ml_posted s1) - length (ml_ran s1) + packets s1) + 8 * of_bool b =
        8 * (length (ml_posted s) - length (ml_ran s) + packets s)" for b s1
    using should_quit_same [of s1 s] nq qq a d sg fl ps task_inv_bound [of s1] unfolding ran_one_def
    by (cases b) auto
  have same: "\<lbrakk>ml_ran s1 = ml_ran s; ml_run_loops s1 = ml_run_loops s\<rbrakk> \<Longrightarrow> single s1 \<and> run_depth s1 = 1 \<and>
      flag_inv quits s1 \<and> (quit_flag s1 \<or> (\<exists>t \<in> set posted. quits (pt_task t) \<and> immediate t))" for s1
    using d sg fl by (simp add: single_def run_depth_def flag_inv_def quit_flag_def)
  show ?thesis
  proof (cases pc)
    case AtWork
    obtain b s1 where w: "DoWork env s = (b, s1)" by fastforce
    have o: "ran_one quits b s s1" using DoWork_ran_one [OF q, of s] w by simp
    have "b \<or> ml_work s1 = [] \<and> ml_incoming s1 = []" using DoWork_spec [OF a, of env] w by auto
    then show ?thesis using ran [OF o] t w AtWork
      by (cases b; cases "ml_pump s1") (simp_all add: idle_inv_def rounds_left_def)
  next
    case (AtIO x)
    obtain b s1 where w: "WaitForIOCompletion env None s = (b, s1)" by fastforce
    have o: "packets s1 + of_bool b = packets s" "should_quit s1 = should_quit s" "ml_posted s1 = ml_posted s"
      "ml_ran s1 = ml_ran s" "ml_run_loops s1 = ml_run_loops s" "ml_nestable_allowed s1 = ml_nestable_allowed s"
      "ml_work s1 = ml_work s" "ml_incoming s1 = ml_incoming s"
      using WaitForIO_quiet [OF q, of s] w by simp_all
    show ?thesis using o same [OF o(4,5)] quit_after_wait [OF q w qq] t w AtIO nq a ps i
      by (cases b; cases x) (simp_all add: idle_inv_def rounds_left_def)
  next
    case (AtDelayed x)
    obtain b s1 where w: "DoDelayedWork env s = (b, s1)" by fastforce
    have o: "ran_one quits b s s1" using DoDelayedWork_ran_one [OF q, of s] w by simp
    have "b \<or> due_later env s1 \<and> ml_work s1 = ml_work s \<and> ml_incoming s1 = ml_incoming s"
      using DoDelayedWork_later [OF d a, of env] w by auto
    then show ?thesis using ran [OF o] t w AtDelayed i
      by (cases b; cases x) (simp_all add: idle_inv_def rounds_left_def)
  next
    case AtIdle
    obtain b s1 where w: "DoIdleWork env s = (b, s1)" by fastforce
    show ?thesis
    proof (cases b)
      case True
      have o: "ran_one quits True s s1" using DoIdleWork_ran_one [OF q, of s] w True by simp
      have "task_inv s1" using t w AtIdle True by simp
      note r = ran [OF o this]
      have "rounds_left AtWork s1 < rounds_left AtIdle s"
        using r [THEN conjunct2, THEN conjunct2, THEN conjunct2, THEN conjunct2, THEN conjunct2, THEN conjunct2,
            THEN conjunct2, THEN conjunct2] by (simp add: rounds_left_def)
      then show ?thesis using r t w AtIdle True by (simp add: idle_inv_def)
    next
      case False
      have df: "ml_deferred s = []" using DoIdleWork_spec(2) [OF d a, of env] w False by auto
      have f: "quit_flag s" by (rule idle_flagged) (use i AtIdle in simp)
      have s1: "s1 = Pump_Quit s"
        using w df d f by (auto simp: DoIdleWork_def ProcessNextDelayedNonNestableTask_def quit_flag_def)
      have k: "packets s1 = packets s" unfolding s1 packets_def pump_Pump_Quit by (cases "ml_pump s") simp_all
      have "should_quit (Pump_Quit s1)"
        using qq unfolding s1 should_quit_Pump_Quit pump_Pump_Quit by (cases "ml_pump s") simp_all
      then show ?thesis using k same [of s1] t w AtIdle i qq df s1 False
        by (simp add: idle_inv_def rounds_left_def due_later_def)
    qed
  next
    case AtWait
    have o: "packets (pump_wait env s) \<le> packets s" "should_quit (pump_wait env s) = should_quit s"
      "ml_posted (pump_wait env s) = ml_posted s" "ml_ran (pump_wait env s) = ml_ran s"
      "ml_run_loops (pump_wait env s) = ml_run_loops s"
      "ml_nestable_allowed (pump_wait env s) = ml_nestable_allowed s" "should_quit (Pump_Quit (pump_wait env s))"
      using pump_wait_quiet [OF q, of s] qq by simp_all
    show ?thesis using o same [OF o(4,5)] t AtWait i by (simp add: idle_inv_def rounds_left_def)
  qed (use n in simp)
qed

lemma idle_runs:
  assumes e: "sound_env env" and q: "quiet_env quits env" and i: "idle_inv quits env posted pc s"
    and w: "\<not> asleep pc s \<or> ml_delayed_work_time s \<noteq> 0"
  shows "\<exists>n s'. pump_awake env n (pc, s) = Some (Stopped, s') \<and> idle_inv quits env posted Stopped s'"
  using i w
proof (induction "rounds_left pc s" arbitrary: pc s rule: less_induct)
  case less
  show ?case
  proof (cases "pc = Stopped")
    case True
    then show ?thesis using less.prems by (intro exI [of _ 0]) simp
  next
    case False
    obtain pc1 s1 where p: "pump_step env pc s = (pc1, s1)" by fastforce
    have s: "idle_inv quits env posted pc1 s1" "rounds_left pc1 s1 < rounds_left pc s" "pc1 \<noteq> AtWait"
      using idle_step [OF e q less.prems(1) False] p by simp_all
    then obtain n s' where n: "pump_awake env n (pc1, s1) = Some (Stopped, s')"
      "idle_inv quits env posted Stopped s'"
      using less.hyps [OF s(2,1)] by (auto simp: asleep_def)
    then show ?thesis using p less.prems(2) by (intro exI [of _ "Suc n"]) auto
  qed
qed

lemma pump_awake_steps:
  "pump_awake env n c = Some d \<Longrightarrow> ((\<lambda>(pc, s). pump_step env pc s) ^^ n) c = d"
  by (induction env n c rule: pump_awake.induct) (auto simp: funpow_Suc_right simp del: funpow.simps split: if_splits)

lemma Pump_begin_fields [simp]:
  "ml_work (Pump_begin s) = ml_work s" "ml_delayed (Pump_begin s) = ml_delayed s"
  "ml_deferred (Pump_begin s) = ml_deferred s" "ml_incoming (Pump_begin s) = ml_incoming s"
  "ml_posted (Pump_begin s) = ml_posted s" "ml_ran (Pump_begin s) = ml_ran s"
  "ml_run_loops (Pump_begin s) = ml_run_loops s" "ml_nestable_allowed (Pump_begin s) = ml_nestable_allowed s"
  by (simp_all add: Pump_begin_def on_io_pump_def split: message_pump.split)

lemma Pump_end_fields [simp]:
  "ml_work (Pump_end s) = ml_work s" "ml_delayed (Pump_end s) = ml_delayed s"
  "ml_deferred (Pump_end s) = ml_deferred s" "ml_incoming (Pump_end s) = ml_incoming s"
  "ml_posted (Pump_end s) = ml_posted s" "ml_ran (Pump_end s) = ml_ran s"
  "ml_run_loops (Pump_end s) = ml_run_loops s" "ml_world (Pump_end s) = ml_world s"
  by (simp_all add: Pump_end_def split: message_pump.split)

text \<open>C13: \<open>RunUntilIdle\<close> returns.  If the tasks and I/O handlers do not use the loop themselves, the loop
  started outside any other run stops after finitely many calls of the pump, with every posted task
  started except delayed ones, none of which is due.\<close>

theorem run_until_idle_returns:
  assumes "sound_env env" "quiet_env (\<lambda>_. False) env" "task_inv s" "ml_run_loops s = []" "ml_nestable_allowed s"
    "\<forall>p. ml_pump s = PumpDefault p \<longrightarrow> dp_keep_running p"
  shows "\<exists>n s'. RunUntilIdle env n s = Some s' \<and> ml_run_loops s' = [] \<and> ml_posted s' = ml_posted s \<and>
    mset (ml_posted s') = mset (ran_tasks s') + mset (ml_delayed s') \<and> due_later env s'"
proof -
  let ?r = "RunLoop_new\<lparr>rl_quit_when_idle := True\<rparr>"
  let ?b = "s\<lparr>ml_run_loops := [?r\<lparr>rl_run_called := True, rl_run_depth := 1, rl_running := True\<rparr>]\<rparr>"
  have b: "BeforeRun ?r s = (True, ?b)" using assms(4) by (simp add: BeforeRun_def RunLoop_new_def)
  have q: "should_quit (Pump_Quit (Pump_begin ?b)) \<and> \<not> should_quit (Pump_begin ?b)"
    unfolding should_quit_Pump_Quit unfolding should_quit_def Pump_begin_def on_io_pump_def
    using assms(6) by (cases "ml_pump s") simp_all
  have i: "idle_inv (\<lambda>_. False) env (ml_posted s) AtWork (Pump_begin ?b)"
    using assms(3,5) q
    by (simp add: idle_inv_def task_inv_def single_def run_depth_def quit_flag_def flag_inv_def)
  obtain n s' where n: "pump_awake env n (AtWork, Pump_begin ?b) = Some (Stopped, s')"
    "idle_inv (\<lambda>_. False) env (ml_posted s) Stopped s'"
    using idle_runs [OF assms(1,2) i] by (auto simp: asleep_def)
  have p: "pump_runs env n ?b = (Stopped, s')" using pump_awake_steps [OF n(1)] by (simp add: pump_runs_def)
  obtain r where r: "ml_run_loops s' = [r]" using n(2) by (auto simp: idle_inv_def single_def)
  have "RunUntilIdle env n s = Some (AfterRun (Pump_end s'))"
    unfolding RunUntilIdle_def RunLoop_Run_def b by (simp add: p)
  moreover have "AfterRun (Pump_end s') = (Pump_end s')\<lparr>ml_run_loops := []\<rparr>" using r by (simp add: AfterRun_def)
  ultimately show ?thesis using n(2) by (intro exI) (auto simp: idle_inv_def task_inv_def due_later_def)
qed

text \<open>A loop with an immediate, a delayed and a non-nestable task.\<close>

lemma quiet_demo: "quiet_env (\<lambda>_. False) demo_env"
proof -
  have "\<exists>w. s = s\<lparr>ml_world := w\<rparr>" for s :: "(nat, bool) msg_loop" by (rule exI [of _ "ml_world s"]) simp
  then show ?thesis by (simp add: quiet_env_def demo_env_def)
qed

lemma run_until_idle_returns_witness:
  "\<exists>n s'. RunUntilIdle demo_env n (post_task demo_env 3 0 False (post_task demo_env 2 0 True
       (post_task demo_env 1 50000 True (MessageLoop_new default_pump_new False)))) = Some s' \<and>
     length (ml_posted s') = 3 \<and> mset (ml_posted s') = mset (ran_tasks s') + mset (ml_delayed s')"
proof -
  let ?s = "post_task demo_env 3 0 False (post_task demo_env 2 0 True
    (post_task demo_env 1 50000 True (MessageLoop_new default_pump_new False)))"
  have t: "task_inv ?s"
    by (intro task_inv_move [OF move_post sound_demo]) (simp add: task_inv_def MessageLoop_new_def)
  have e: "ml_run_loops ?s = [] \<and> ml_nestable_allowed ?s \<and> length (ml_posted ?s) = 3 \<and>
      (case ml_pump ?s of PumpDefault p \<Rightarrow> dp_keep_running p | PumpForIO _ \<Rightarrow> False)"
    by code_simp
  have k: "\<forall>p. ml_pump ?s = PumpDefault p \<longrightarrow> dp_keep_running p" using e by (metis message_pump.case(1))
  show ?thesis using run_until_idle_returns [OF sound_demo quiet_demo t _ _ k] e by metis
qed

end
