(* ===== verification/BrowserThreads.thy ===== *)
theory BrowserThreads
  imports MessageLoop_Idle
begin

text \<open>
  \<open>base/threading/thread.{h,cc}\<close> and \<open>ServerPort/ipc_process/browser_thread_impl.cc\<close>: a thread that runs a
  message loop, and the table of the well-known threads of the server, through which tasks are posted to
  them.  \<open>ThreadMain\<close> is cut at the calls of its pump, \<open>PostTaskHelper\<close> at its accesses to shared memory;
  creating the platform thread may fail.
\<close>

section \<open>A thread with a message loop\<close>

text \<open>\<open>message_loop_\<close> is not null while the thread is \<open>Looping\<close>; \<open>Exited\<close> keeps what the destroyed loop
  looked like.  \<open>SetThreadWasQuitProperly\<close> only serves a debug check and is left out.\<close>

datatype ('k, 'w) thread_main = NotRunning | Looping pump_pc "('k, 'w) msg_loop" | Exited "('k, 'w) msg_loop"

record ('k, 'w) thread_state =
  th_started :: bool
  th_stopping :: bool
  th_running :: bool
  th_main :: "('k, 'w) thread_main"

definition Thread_new :: "('k, 'w) thread_state" where
  "Thread_new = \<lparr>th_started = False, th_stopping = False, th_running = False, th_main = NotRunning\<rparr>"

text \<open>\<open>ThreadMain\<close> up to \<open>Run\<close>, and the first steps of \<open>Run\<close>; \<open>init\<close> is the virtual \<open>Init\<close>.\<close>

definition ThreadMain_begin ::
    "(('k, 'w) msg_loop \<Rightarrow> ('k, 'w) msg_loop) \<Rightarrow> message_pump \<Rightarrow> 'w \<Rightarrow> ('k, 'w) thread_state \<Rightarrow> ('k, 'w) thread_state"
  where
  "ThreadMain_begin init pump w t =
     t\<lparr>th_running := True,
       th_main := Looping AtWork (Pump_begin (snd (BeforeRun RunLoop_new (init (MessageLoop_new pump w)))))\<rparr>"

definition StartWithOptions ::
    "(('k, 'w) msg_loop \<Rightarrow> ('k, 'w) msg_loop) \<Rightarrow> message_pump \<Rightarrow> 'w \<Rightarrow> bool \<Rightarrow> ('k, 'w) thread_state
      \<Rightarrow> bool \<times> ('k, 'w) thread_state" where
  "StartWithOptions init pump w created t =
     (if \<not> created then (False, t)
      else (True, (ThreadMain_begin init pump w t)\<lparr>th_started := True\<rparr>))"

definition ThreadQuitHelper :: "('k, 'w) msg_loop \<Rightarrow> ('k, 'w) msg_loop" where
  "ThreadQuitHelper s = QuitWhenIdle s"

text \<open>\<open>quit\<close> is the closure \<open>base::Bind(&ThreadQuitHelper)\<close> of \<open>StopSoon\<close>: what it does when it runs.\<close>

definition with_quit :: "'k \<Rightarrow> ('k, 'w) loop_env \<Rightarrow> ('k, 'w) loop_env" where
  "with_quit quit env =
     env\<lparr>le_run := (\<lambda>k s. if k = quit then ThreadQuitHelper s else le_run env k s)\<rparr>"

definition StopSoon :: "('k, 'w) loop_env \<Rightarrow> 'k \<Rightarrow> ('k, 'w) thread_state \<Rightarrow> ('k, 'w) thread_state" where
  "StopSoon env quit t =
     (case th_main t of
        Looping pc s \<Rightarrow>
          if th_stopping t then t
          else t\<lparr>th_stopping := True, th_main := Looping pc (PostTask env quit s)\<rparr>
      | _ \<Rightarrow> t)"

text \<open>\<open>ThreadMain\<close> after \<open>Run\<close>: \<open>cleanup\<close> is the virtual \<open>CleanUp\<close>, and the loop is destroyed last.\<close>

definition ThreadMain_end ::
    "('k, 'w) loop_env \<Rightarrow> (('k, 'w) msg_loop \<Rightarrow> ('k, 'w) msg_loop) \<Rightarrow> ('k, 'w) msg_loop \<Rightarrow> ('k, 'w) thread_state
      \<Rightarrow> ('k, 'w) thread_state" where
  "ThreadMain_end env cleanup s t =
     t\<lparr>th_running := False,
       th_main := Exited (snd (MessageLoop_delete env (cleanup (AfterRun (Pump_end s)))))\<rparr>"

text \<open>The thread for \<open>n\<close> calls of its pump; \<open>None\<close>: it sleeps and nothing but another thread can wake it.\<close>

fun thread_run ::
    "('k, 'w) loop_env \<Rightarrow> (('k, 'w) msg_loop \<Rightarrow> ('k, 'w) msg_loop) \<Rightarrow> nat \<Rightarrow> ('k, 'w) thread_state
      \<Rightarrow> ('k, 'w) thread_state option" where
  "thread_run env cleanup 0 t = Some t"
| "thread_run env cleanup (Suc n) t =
     (case th_main t of
        Looping pc s \<Rightarrow>
          if pc = Stopped then thread_run env cleanup n (ThreadMain_end env cleanup s t)
          else if asleep pc s \<and> ml_delayed_work_time s = 0 then None
          else let (pc', s') = pump_step env pc s
               in thread_run env cleanup n (t\<lparr>th_main := Looping pc' s'\<rparr>)
      | _ \<Rightarrow> Some t)"

text \<open>\<open>Stop\<close> after \<open>StopSoon\<close>: the join returns when the thread has exited.\<close>

definition Stop_end :: "('k, 'w) thread_state \<Rightarrow> ('k, 'w) thread_state option" where
  "Stop_end t =
     (case th_main t of
        Looping _ _ \<Rightarrow> None | _ \<Rightarrow> Some (t\<lparr>th_started := False, th_stopping := False\<rparr>))"

definition Stop ::
    "('k, 'w) loop_env \<Rightarrow> (('k, 'w) msg_loop \<Rightarrow> ('k, 'w) msg_loop) \<Rightarrow> 'k \<Rightarrow> nat \<Rightarrow> ('k, 'w) thread_state
      \<Rightarrow> ('k, 'w) thread_state option" where
  "Stop env cleanup quit n t =
     (if \<not> th_started t then Some t
      else Option.bind (thread_run env cleanup n (StopSoon env quit t)) Stop_end)"

section \<open>The table of threads\<close>

datatype thread_id = UI | DB | WEBKIT_DEPRECATED | FILE | FILE_USER_BLOCKING | PROCESS_LAUNCHER | CACHE | IO

definition thread_ids :: "thread_id list" where
  "thread_ids = [UI, DB, WEBKIT_DEPRECATED, FILE, FILE_USER_BLOCKING, PROCESS_LAUNCHER, CACHE, IO]"

fun thread_index :: "thread_id \<Rightarrow> nat" where
  "thread_index UI = 0"
| "thread_index DB = 1"
| "thread_index WEBKIT_DEPRECATED = 2"
| "thread_index FILE = 3"
| "thread_index FILE_USER_BLOCKING = 4"
| "thread_index PROCESS_LAUNCHER = 5"
| "thread_index CACHE = 6"
| "thread_index IO = 7"

lemma thread_index_inj: "thread_index a = thread_index b \<Longrightarrow> a = b"
  by (cases a; cases b) simp_all

text \<open>The enumeration lists the threads by lifetime: each outlives those after it.\<close>

instantiation thread_id :: linorder
begin

definition less_eq_thread_id :: "thread_id \<Rightarrow> thread_id \<Rightarrow> bool" where
  "less_eq_thread_id a b \<longleftrightarrow> thread_index a \<le> thread_index b"

definition less_thread_id :: "thread_id \<Rightarrow> thread_id \<Rightarrow> bool" where
  "less_thread_id a b \<longleftrightarrow> thread_index a < thread_index b"

instance
  by standard (auto simp: less_eq_thread_id_def less_thread_id_def intro: thread_index_inj)

end

lemma thread_ids_all: "set thread_ids = UNIV"
proof -
  have "x \<in> set thread_ids" for x by (cases x) (simp_all add: thread_ids_def)
  then show ?thesis by blast
qed

text \<open>\<open>bg_threads\<close> is the array of pointers to the thread objects, \<open>bg_objects\<close> the memory these live in
  and \<open>bg_loops\<close> the memory of the message loops; \<open>None\<close> is a null pointer, and memory that is free.
  \<open>bt_message_loop\<close> is null before the thread has started and after it has exited.  \<open>bg_lock\<close>: the lock
  is held.\<close>

record browser_thread =
  bt_identifier :: thread_id
  bt_message_loop :: "nat option"

record ('k, 'w) thread_globals =
  bg_threads :: "thread_id \<Rightarrow> nat option"
  bg_objects :: "nat \<Rightarrow> browser_thread option"
  bg_loops :: "nat \<Rightarrow> ('k, 'w) msg_loop option"
  bg_lock :: bool

text \<open>\<open>globals.threads[i]\<close> dereferenced: \<open>None\<close> is a null or dangling pointer.\<close>

definition thread_at :: "thread_id \<Rightarrow> ('k, 'w) thread_globals \<Rightarrow> browser_thread option" where
  "thread_at i g = Option.bind (bg_threads g i) (bg_objects g)"

definition message_loop_of :: "thread_id \<Rightarrow> ('k, 'w) thread_globals \<Rightarrow> nat option" where
  "message_loop_of i g = Option.bind (thread_at i g) bt_message_loop"

text \<open>The constructor makes the object (\<open>l\<close>: \<open>set_message_loop\<close>), \<open>Initialize\<close> enters it; the destructor
  clears the entry after \<open>Stop\<close>.\<close>

definition BrowserThreadImpl_new ::
    "nat \<Rightarrow> thread_id \<Rightarrow> nat option \<Rightarrow> ('k, 'w) thread_globals \<Rightarrow> ('k, 'w) thread_globals" where
  "BrowserThreadImpl_new a i l g =
     g\<lparr>bg_objects := (bg_objects g)(a \<mapsto> \<lparr>bt_identifier = i, bt_message_loop = l\<rparr>)\<rparr>"

definition Initialize :: "nat \<Rightarrow> thread_id \<Rightarrow> ('k, 'w) thread_globals \<Rightarrow> ('k, 'w) thread_globals" where
  "Initialize a identifier g = g\<lparr>bg_threads := (bg_threads g)(identifier \<mapsto> a)\<rparr>"

definition BrowserThreadImpl_clear :: "thread_id \<Rightarrow> ('k, 'w) thread_globals \<Rightarrow> ('k, 'w) thread_globals" where
  "BrowserThreadImpl_clear identifier g = g\<lparr>bg_threads := (bg_threads g)(identifier := None)\<rparr>"

text \<open>\<open>cur\<close> is \<open>MessageLoop::current()\<close>.  A thread without a loop matches an entry without a loop: both
  pointers are null.\<close>

definition GetCurrentThreadIdentifier :: "nat option \<Rightarrow> ('k, 'w) thread_globals \<Rightarrow> thread_id option" where
  "GetCurrentThreadIdentifier cur g =
     (case find (\<lambda>i. case thread_at i g of None \<Rightarrow> False | Some t \<Rightarrow> bt_message_loop t = cur) thread_ids of
        None \<Rightarrow> None | Some i \<Rightarrow> map_option bt_identifier (thread_at i g))"

definition CurrentlyOn :: "nat option \<Rightarrow> thread_id \<Rightarrow> ('k, 'w) thread_globals \<Rightarrow> bool" where
  "CurrentlyOn cur i g = (case thread_at i g of None \<Rightarrow> False | Some t \<Rightarrow> bt_message_loop t = cur)"

definition IsWellKnownThread :: "thread_id \<Rightarrow> ('k, 'w) thread_globals \<Rightarrow> bool" where
  "IsWellKnownThread i g \<longleftrightarrow> bg_threads g i \<noteq> None"

definition IsMessageLoopValid :: "thread_id \<Rightarrow> ('k, 'w) thread_globals \<Rightarrow> bool" where
  "IsMessageLoopValid i g \<longleftrightarrow> message_loop_of i g \<noteq> None"

text \<open>\<open>None\<close>: a call on a null thread.\<close>

definition UnsafeGetMessageLoopForThread ::
    "thread_id \<Rightarrow> ('k, 'w) thread_globals \<Rightarrow> nat option option" where
  "UnsafeGetMessageLoopForThread i g = map_option bt_message_loop (thread_at i g)"

section \<open>Posting to a thread\<close>

text \<open>\<open>PostTaskHelper\<close>, with \<open>GetCurrentThreadIdentifier\<close> inlined, cut at its accesses to the memory that
  the threads share; the argument says whether the lock was taken.  \<open>FreedThread\<close> and \<open>FreedLoop\<close>: it has
  used a null or dangling pointer to a thread object or a loop.\<close>

datatype post_pc =
    ScanEntry nat | ScanLoop nat | ScanIdentifier nat | Acquire
  | TestEntry bool | ReadLoop bool | PostTo bool nat | Release bool | Done bool | FreedThread | FreedLoop

definition target_thread_outlives_current :: "thread_id \<Rightarrow> thread_id \<Rightarrow> bool" where
  "target_thread_outlives_current current_thread identifier \<longleftrightarrow> identifier \<le> current_thread"

definition post_returns :: "bool \<Rightarrow> bool \<Rightarrow> post_pc" where
  "post_returns locked result = (if locked then Release result else Done result)"

definition post_to ::
    "('k, 'w) loop_env \<Rightarrow> 'k \<Rightarrow> i64 \<Rightarrow> bool \<Rightarrow> ('k, 'w) msg_loop \<Rightarrow> ('k, 'w) msg_loop" where
  "post_to env task delay nestable message_loop =
     (if nestable then PostDelayedTask env task delay message_loop
      else PostNonNestableDelayedTask env task delay message_loop)"

fun post_step ::
    "('k, 'w) loop_env \<Rightarrow> nat option \<Rightarrow> thread_id \<Rightarrow> 'k \<Rightarrow> i64 \<Rightarrow> bool
      \<Rightarrow> post_pc \<times> ('k, 'w) thread_globals \<Rightarrow> post_pc \<times> ('k, 'w) thread_globals" where
  "post_step env cur identifier task delay nestable (ScanEntry i, g) =
     (if length thread_ids \<le> i then Acquire
      else if bg_threads g (thread_ids ! i) \<noteq> None then ScanLoop i else ScanEntry (i + 1), g)"
| "post_step env cur identifier task delay nestable (ScanLoop i, g) =
     (case thread_at (thread_ids ! i) g of
        None \<Rightarrow> FreedThread
      | Some t \<Rightarrow> if bt_message_loop t = cur then ScanIdentifier i else ScanEntry (i + 1), g)"
| "post_step env cur identifier task delay nestable (ScanIdentifier i, g) =
     (case thread_at (thread_ids ! i) g of
        None \<Rightarrow> FreedThread
      | Some t \<Rightarrow>
          if target_thread_outlives_current (bt_identifier t) identifier then TestEntry False else Acquire, g)"
| "post_step env cur identifier task delay nestable (Acquire, g) =
     (if bg_lock g then (Acquire, g) else (TestEntry True, g\<lparr>bg_lock := True\<rparr>))"
| "post_step env cur identifier task delay nestable (TestEntry locked, g) =
     (if bg_threads g identifier \<noteq> None then ReadLoop locked else post_returns locked False, g)"
| "post_step env cur identifier task delay nestable (ReadLoop locked, g) =
     (case thread_at identifier g of
        None \<Rightarrow> FreedThread
      | Some t \<Rightarrow>
          (case bt_message_loop t of
             None \<Rightarrow> post_returns locked False | Some message_loop \<Rightarrow> PostTo locked message_loop), g)"
| "post_step env cur identifier task delay nestable (PostTo locked message_loop, g) =
     (case bg_loops g message_loop of
        None \<Rightarrow> (FreedLoop, g)
      | Some s \<Rightarrow>
          (post_returns locked True,
           g\<lparr>bg_loops := (bg_loops g)(message_loop \<mapsto> post_to env task delay nestable s)\<rparr>))"
| "post_step env cur identifier task delay nestable (Release result, g) = (Done result, g\<lparr>bg_lock := False\<rparr>)"
| "post_step env cur identifier task delay nestable (pc, g) = (pc, g)"

text \<open>The whole call when nothing else happens meanwhile: it takes 22 steps at most.\<close>

definition PostTaskHelper ::
    "('k, 'w) loop_env \<Rightarrow> nat option \<Rightarrow> thread_id \<Rightarrow> 'k \<Rightarrow> i64 \<Rightarrow> bool \<Rightarrow> ('k, 'w) thread_globals
      \<Rightarrow> post_pc \<times> ('k, 'w) thread_globals" where
  "PostTaskHelper env cur identifier task delay nestable g =
     (post_step env cur identifier task delay nestable ^^ 22) (ScanEntry 0, g)"

definition posted :: "post_pc \<times> ('k, 'w) thread_globals \<Rightarrow> bool \<times> ('k, 'w) thread_globals" where
  "posted r = (fst r = Done True, snd r)"

definition BT_PostTask ::
    "('k, 'w) loop_env \<Rightarrow> nat option \<Rightarrow> thread_id \<Rightarrow> 'k \<Rightarrow> ('k, 'w) thread_globals \<Rightarrow> bool \<times> ('k, 'w) thread_globals"
  where
  "BT_PostTask env cur i task g = posted (PostTaskHelper env cur i task 0 True g)"

definition BT_PostDelayedTask ::
    "('k, 'w) loop_env \<Rightarrow> nat option \<Rightarrow> thread_id \<Rightarrow> 'k \<Rightarrow> i64 \<Rightarrow> ('k, 'w) thread_globals
      \<Rightarrow> bool \<times> ('k, 'w) thread_globals" where
  "BT_PostDelayedTask env cur i task delay g = posted (PostTaskHelper env cur i task delay True g)"

definition BT_PostNonNestableTask ::
    "('k, 'w) loop_env \<Rightarrow> nat option \<Rightarrow> thread_id \<Rightarrow> 'k \<Rightarrow> ('k, 'w) thread_globals \<Rightarrow> bool \<times> ('k, 'w) thread_globals"
  where
  "BT_PostNonNestableTask env cur i task g = posted (PostTaskHelper env cur i task 0 False g)"

definition BT_PostNonNestableDelayedTask ::
    "('k, 'w) loop_env \<Rightarrow> nat option \<Rightarrow> thread_id \<Rightarrow> 'k \<Rightarrow> i64 \<Rightarrow> ('k, 'w) thread_globals
      \<Rightarrow> bool \<times> ('k, 'w) thread_globals" where
  "BT_PostNonNestableDelayedTask env cur i task delay g = posted (PostTaskHelper env cur i task delay False g)"

end
