(* ===== verification/Thread_Props.thy ===== *)
theory Thread_Props
  imports BrowserThreads
begin

text \<open>
  What a thread and the table of threads guarantee: \<open>Stop\<close> returns, with every task that was posted
  before it run; and a task posted through the table of threads, with or without its lock, is posted
  safely in every interleaving with the threads that come and go (\<open>posting\<close>).
\<close>

section \<open>The life of a thread\<close>

text \<open>A thread with the calls of its pump and the moves of others between them.\<close>

inductive thread_reach ::
    "('k, 'w) loop_env \<Rightarrow> (('k, 'w) msg_loop \<Rightarrow> ('k, 'w) msg_loop) \<Rightarrow> message_pump \<Rightarrow> ('k, 'w) thread_state \<Rightarrow> bool"
  for env cleanup pump where
  thread_start: "thread_reach env cleanup pump (snd (StartWithOptions (\<lambda>s. s) pump w True Thread_new))"
| thread_step: "thread_reach env cleanup pump t \<Longrightarrow> thread_run env cleanup 1 t = Some u \<Longrightarrow>
    thread_reach env cleanup pump u"
| thread_outer: "thread_reach env cleanup pump t \<Longrightarrow> th_main t = Looping pc s \<Longrightarrow> outer_move env s s' \<Longrightarrow>
    thread_reach env cleanup pump (t\<lparr>th_main := Looping pc s'\<rparr>)"

text \<open>What holds of the loop of a thread that nobody has stopped.\<close>

definition run_ok :: "('k \<Rightarrow> bool) \<Rightarrow> ('k, 'w) msg_loop \<Rightarrow> bool" where
  "run_ok quits s \<longleftrightarrow> ml_nestable_allowed s \<and> single s \<and> run_depth s = 1 \<and> should_quit (Pump_Quit s) \<and>
     flag_inv quits s \<and> flag_why quits s \<and> (should_quit s \<longrightarrow> quit_flag s)"

definition thread_inv ::
    "('k \<Rightarrow> bool) \<Rightarrow> ('k, 'w) loop_env \<Rightarrow> message_pump \<Rightarrow> pump_pc \<Rightarrow> ('k, 'w) msg_loop \<Rightarrow> bool" where
  "thread_inv quits env pump pc s \<longleftrightarrow>
     loop_reachable env pump pc s \<and> run_ok quits s \<and> (pc = Stopped \<longrightarrow> quit_flag s)"

lemma should_quit_after_PostTask:
  "should_quit (post_task env k d n s) = should_quit s \<and>
   should_quit (Pump_Quit (post_task env k d n s)) = should_quit (Pump_Quit s)"
proof -
  obtain w t where "ml_pump (post_task env k d n s) =
      (if ml_incoming s \<noteq> [] then ml_pump s else ml_pump (ScheduleWork env (s\<lparr>ml_world := w\<rparr>)))"
    by (rule post_task_cases)
  then show ?thesis unfolding should_quit_Pump_Quit
    by (auto simp: should_quit_def ScheduleWork_def split: message_pump.split)
qed

lemma post_task_run_loops: "ml_run_loops (post_task env k d n s) = ml_run_loops s"
proof -
  obtain w h where "snd (CalculateDelayedRuntime env d s) = s\<lparr>ml_high_res_expiration := h, ml_world := w\<rparr>"
    using CalculateDelayedRuntime_world [of env d s] by (elim exE conjE)
  then show ?thesis
    by (cases "CalculateDelayedRuntime env d s") (simp add: post_task_def AddToIncomingQueue_def Let_def)
qed

text \<open>A post, the clock and a completion leave the run alone.\<close>

definition same_run :: "('k, 'w) msg_loop \<Rightarrow> ('k, 'w) msg_loop \<Rightarrow> bool" where
  "same_run s t \<longleftrightarrow> ml_run_loops t = ml_run_loops s \<and> ml_ran t = ml_ran s \<and>
     ml_nestable_allowed t = ml_nestable_allowed s \<and> should_quit t = should_quit s \<and>
     (should_quit (Pump_Quit s) \<longrightarrow> should_quit (Pump_Quit t))"

lemma same_run_post: "same_run s (post_task env k d n s)"
proof -
  obtain w t where "same_queues s (post_task env k d n s)" by (rule post_task_cases)
  then show ?thesis using should_quit_after_PostTask [of env k d n s]
    by (simp add: same_run_def post_task_run_loops same_queues_def)
qed

lemma same_run_outer:
  assumes "outer_move env s t" shows "same_run s t"
  using assms
proof (cases rule: outer_move.cases)
  case outer_post
  then show ?thesis using same_run_post by simp
next
  case outer_world
  then show ?thesis unfolding same_run_def should_quit_Pump_Quit by (simp add: should_quit_def)
next
  case outer_arrived
  then show ?thesis unfolding same_run_def should_quit_Pump_Quit by (simp add: should_quit_def)
qed

lemma same_run_flags:
  assumes "same_run s t"
  shows "single t = single s" "run_depth t = run_depth s" "flag_inv quits t = flag_inv quits s"
    "flag_why quits t = flag_why quits s" "quit_flag t = quit_flag s"
  using assms by (simp_all add: same_run_def single_def run_depth_def flag_inv_def flag_why_def quit_flag_def)

lemma run_ok_same: "same_run s t \<Longrightarrow> run_ok quits s \<Longrightarrow> run_ok quits t"
  using same_run_flags [of s t] by (simp add: run_ok_def same_run_def)

lemma run_ok_ran_one: "ran_one quits b s t \<Longrightarrow> run_ok quits s \<Longrightarrow> run_ok quits t"
  using should_quit_same [of t s] by (simp add: ran_one_def run_ok_def)

lemma DoIdleWork_not:
  assumes "\<not> fst (DoIdleWork env s)"
  shows "snd (DoIdleWork env s) = (if quit_flag s then Pump_Quit s else s)"
  using assms by (auto simp: DoIdleWork_def ProcessNextDelayedNonNestableTask_def quit_flag_def
      split: list.splits if_splits)

lemma should_quit_twice: "should_quit (Pump_Quit (Pump_Quit s)) = should_quit (Pump_Quit s)"
  unfolding should_quit_Pump_Quit pump_Pump_Quit by (cases "ml_pump s") simp_all

lemma run_ok_quit: "run_ok quits s \<Longrightarrow> quit_flag s \<Longrightarrow> run_ok quits (Pump_Quit s)"
  unfolding run_ok_def should_quit_twice single_def flag_inv_def flag_why_def quit_flag_def run_depth_def
    Pump_Quit_fields by simp

lemma run_ok_step:
  assumes q: "quiet_env quits env" and i: "run_ok quits s" and z: "pc = Stopped \<longrightarrow> quit_flag s"
  shows "run_ok quits (snd (pump_step env pc s)) \<and>
    (fst (pump_step env pc s) = Stopped \<longrightarrow> quit_flag (snd (pump_step env pc s)))"
proof -
  have k: "run_ok quits t \<Longrightarrow> should_quit t \<longrightarrow> quit_flag t" for t by (simp add: run_ok_def)
  show ?thesis
  proof (cases pc)
    case AtWork
    obtain b s1 where e: "DoWork env s = (b, s1)" by fastforce
    have "run_ok quits s1" by (rule run_ok_ran_one [OF _ i]) (use DoWork_ran_one [OF q, of s] e in simp)
    then show ?thesis using k [of s1] e AtWork by (simp split: message_pump.split)
  next
    case (AtIO x)
    obtain b s1 where e: "WaitForIOCompletion env None s = (b, s1)" by fastforce
    have "same_run s s1" using WaitForIO_quiet [OF q, of s] quit_after_wait [OF q e] e by (simp add: same_run_def)
    then show ?thesis using k [of s1] run_ok_same [OF _ i] e AtIO by simp
  next
    case (AtDelayed x)
    obtain b s1 where e: "DoDelayedWork env s = (b, s1)" by fastforce
    have "run_ok quits s1" by (rule run_ok_ran_one [OF _ i]) (use DoDelayedWork_ran_one [OF q, of s] e in simp)
    then show ?thesis using k [of s1] e AtDelayed by simp
  next
    case AtIdle
    obtain b s1 where e: "DoIdleWork env s = (b, s1)" by fastforce
    have "run_ok quits s1"
    proof (cases b)
      case True
      show ?thesis by (rule run_ok_ran_one [OF _ i]) (use DoIdleWork_ran_one [OF q, of s] e True in simp)
    next
      case False
      then show ?thesis using DoIdleWork_not [of env s] e i run_ok_quit [OF i] by simp
    qed
    then show ?thesis using k [of s1] e AtIdle by simp
  next
    case AtWait
    have "same_run s (pump_wait env s)" using pump_wait_quiet [OF q, of s] by (simp add: same_run_def)
    then show ?thesis using run_ok_same [OF _ i] AtWait by simp
  qed (use i z in simp)
qed

lemma thread_inv_step:
  assumes "quiet_env quits env" "thread_inv quits env pump pc s" "\<not> asleep pc s \<or> ml_delayed_work_time s \<noteq> 0"
  shows "thread_inv quits env pump (fst (pump_step env pc s)) (snd (pump_step env pc s))"
  using assms(2) reach_pump [OF _ assms(3), of env pump] run_ok_step [OF assms(1), of s pc]
  by (simp add: thread_inv_def)

lemma thread_inv_outer:
  assumes "thread_inv quits env pump pc s" "outer_move env s t" shows "thread_inv quits env pump pc t"
  using assms(1) reach_outer [OF _ assms(2)] run_ok_same [OF same_run_outer [OF assms(2)]]
    same_run_flags(5) [OF same_run_outer [OF assms(2)]]
  by (simp add: thread_inv_def)

text \<open>Until it is stopped a thread keeps the invariant, and its wakers work.\<close>

lemma thread_inv_start:
  assumes "pump \<in> {default_pump_new, io_pump_new}"
    "th_main (snd (StartWithOptions (\<lambda>s. s) pump w True Thread_new)) = Looping pc s"
  shows "thread_inv quits env pump pc s"
proof -
  have s: "pc = AtWork" "s = Pump_begin (snd (BeforeRun RunLoop_new (MessageLoop_new pump w)))"
    using assms(2) by (simp_all add: StartWithOptions_def ThreadMain_begin_def Thread_new_def)
  have r: "loop_reachable env pump pc s" unfolding s by (rule reach_start) simp
  have f: "ml_run_loops s = [RunLoop_new\<lparr>rl_run_called := True, rl_run_depth := 1, rl_running := True\<rparr>]"
    "ml_ran s = []" "ml_nestable_allowed s"
    by (simp_all add: s BeforeRun_def RunLoop_new_def MessageLoop_new_def)
  have "should_quit (Pump_Quit s)" "\<not> should_quit s"
    unfolding should_quit_Pump_Quit unfolding should_quit_def using assms(1)
    by (auto simp: s BeforeRun_def RunLoop_new_def MessageLoop_new_def Pump_begin_def on_io_pump_def
        default_pump_new_def io_pump_new_def)
  then show ?thesis using r f s(1)
    by (simp add: thread_inv_def run_ok_def single_def run_depth_def flag_inv_def flag_why_def quit_flag_def
        RunLoop_new_def)
qed

lemma thread_run_one:
  assumes "th_main t = Looping pc s" "thread_run env cleanup 1 t = Some u" "th_main u = Looping pc' s'"
  shows "(pc', s') = pump_step env pc s \<and> (\<not> asleep pc s \<or> ml_delayed_work_time s \<noteq> 0) \<and>
    u = t\<lparr>th_main := Looping pc' s'\<rparr>"
  using assms by (auto simp: ThreadMain_end_def split: if_splits prod.splits)

lemma thread_reach_inv:
  assumes "thread_reach env cleanup pump t" "quiet_env quits env" "pump \<in> {default_pump_new, io_pump_new}"
    "th_main t = Looping pc s"
  shows "thread_inv quits env pump pc s \<and> th_started t \<and> \<not> th_stopping t"
  using assms(1,4)
proof (induction arbitrary: pc s rule: thread_reach.induct)
  case (thread_start w)
  have "thread_inv quits env pump pc s" by (rule thread_inv_start [OF assms(3) thread_start])
  then show ?case by (simp add: StartWithOptions_def ThreadMain_begin_def Thread_new_def)
next
  case (thread_step t u)
  obtain pc0 s0 where m: "th_main t = Looping pc0 s0"
  proof (cases "th_main t")
    case Looping
    then show ?thesis by (rule that)
  qed (use thread_step in simp_all)
  note o = thread_run_one [OF m thread_step(2) thread_step.prems]
  then show ?case using thread_step.IH [OF m] thread_inv_step [OF assms(2), of pump pc0 s0]
    by (metis fst_conv snd_conv thread_state.select_convs(1,2) thread_state.surjective thread_state.update_convs(4))
next
  case (thread_outer t pc0 s0 s1)
  then show ?case using thread_inv_outer by auto
qed

section \<open>Stopping a thread\<close>

lemma PostTask_posted:
  obtains x where "ml_posted (PostTask env k s) = ml_posted s @ [x]" "pt_task x = k" "immediate x"
    "ml_incoming (PostTask env k s) = ml_incoming s @ [x]"
proof -
  obtain w h where c: "snd (CalculateDelayedRuntime env 0 s) = s\<lparr>ml_high_res_expiration := h, ml_world := w\<rparr>"
    using CalculateDelayedRuntime_world [of env 0 s] by (elim exE conjE)
  have z: "fst (CalculateDelayedRuntime env 0 s) = 0" by (simp add: CalculateDelayedRuntime_def Let_def)
  obtain u v where e: "CalculateDelayedRuntime env 0 s = (u, v)" by fastforce
  show ?thesis
    by (rule that [of "(PendingTask_new k 0 True)\<lparr>pt_sequence_num := ml_next_seq s\<rparr>"])
      (use c z in \<open>simp_all add: PostTask_def post_task_def e AddToIncomingQueue_def Let_def PendingTask_new_def
        immediate_def\<close>)
qed

text \<open>A pump that is past \<open>DoWork\<close> when a task is posted comes back to it.\<close>

fun steps_to_work :: "pump_pc \<Rightarrow> nat" where
  "steps_to_work (AtIO w) = 4"
| "steps_to_work (AtDelayed w) = 3"
| "steps_to_work AtIdle = 2"
| "steps_to_work AtWait = 1"
| "steps_to_work AtWork = 0"
| "steps_to_work Stopped = 0"

lemma DoDelayedWork_not:
  assumes "run_depth s = 1" "\<not> fst (DoDelayedWork env s)"
  shows "ml_run_loops (snd (DoDelayedWork env s)) = ml_run_loops s"
proof -
  have r: "fst (run_delayed env u)" if "run_depth u = 1" for u
    using that by (simp add: run_delayed_def Let_def DeferOrRunPendingTask_def run_depth_def)
  have "fst (run_delayed env s)" "fst (run_delayed env (s\<lparr>ml_recent_time := now env s\<rparr>))"
    using assms(1) by (auto intro!: r simp: run_depth_def)
  then show ?thesis using assms by (auto simp: DoDelayedWork_def Let_def split: if_splits)
qed

lemma back_to_work_step:
  assumes e: "sound_env env" and q: "quiet_env quits env" and i: "thread_inv quits env pump pc s"
    and p: "\<forall>w. le_post env w" "pump \<in> {default_pump_new, io_pump_new}"
    and f: "\<not> quit_flag s" and n: "ml_incoming s \<noteq> []" and w: "pc \<noteq> AtWork"
    and s: "pump_step env pc s = (pc', s')"
  shows "\<not> asleep pc s \<and> ml_posted s' = ml_posted s \<and> should_quit s' = should_quit s \<and>
    (pc' = AtWork \<or> \<not> quit_flag s' \<and> ml_incoming s' \<noteq> [] \<and> steps_to_work pc' < steps_to_work pc)"
proof -
  have wi: "wake_inv pc s" by (rule wake_inv_reachable [OF _ e p]) (use i in \<open>simp add: thread_inv_def\<close>)
  have "woken s" if "pc = AtWait" using wi n that by (simp add: wake_inv_def ready_def)
  then have a: "\<not> asleep pc s"
    by (auto simp: asleep_def woken_def wake_pending_def split: message_pump.splits)
  have d: "run_depth s = 1" "ml_nestable_allowed s" and nq: "\<not> should_quit s" and z: "pc \<noteq> Stopped"
    using i f by (auto simp: thread_inv_def run_ok_def)
  have qs: "\<not> quit_flag t" if "ml_run_loops t = ml_run_loops s" for t :: "('a, 'b) msg_loop"
    using f that by (simp add: quit_flag_def)
  show ?thesis
  proof (cases pc)
    case (AtIO x)
    obtain b t where t: "WaitForIOCompletion env None s = (b, t)" by fastforce
    show ?thesis using WaitForIO_quiet [OF q, of s] t s a n nq AtIO qs [of t] by (auto split: if_splits)
  next
    case (AtDelayed x)
    obtain b t where t: "DoDelayedWork env s = (b, t)" by fastforce
    have o: "ran_one quits b s t" using DoDelayedWork_ran_one [OF q, of s] t by simp
    have nt: "\<not> should_quit t" "ml_posted t = ml_posted s"
      using o nq should_quit_same(1) [of t s] by (simp_all add: ran_one_def)
    have l: "\<not> quit_flag t \<and> ml_incoming t = ml_incoming s" if "\<not> b"
      using DoDelayedWork_not [OF d(1), of env] DoDelayedWork_later [OF d, of env] t that qs [of t] by simp
    show ?thesis using nt l t s a n nq AtDelayed by (cases "x \<or> b") auto
  next
    case AtIdle
    obtain b t where t: "DoIdleWork env s = (b, t)" by fastforce
    show ?thesis
    proof (cases b)
      case True
      have o: "ran_one quits True s t" using DoIdleWork_ran_one [OF q, of s] t True by simp
      then have "\<not> should_quit t" "ml_posted t = ml_posted s"
        using nq should_quit_same(1) [of t s] by (simp_all add: ran_one_def)
      then show ?thesis using True t s a nq AtIdle by auto
    next
      case False
      then have "t = s" using DoIdleWork_not [of env s] t f by simp
      then show ?thesis using False t s a nq AtIdle f n by auto
    qed
  next
    case AtWait
    then show ?thesis using pump_wait_quiet [OF q, of s] s a by auto
  qed (use w z in simp_all)
qed

lemma back_to_work:
  assumes e: "sound_env env" and q: "quiet_env quits env"
    and p: "\<forall>w. le_post env w" "pump \<in> {default_pump_new, io_pump_new}"
  shows "thread_inv quits env pump pc s \<Longrightarrow> \<not> quit_flag s \<Longrightarrow> ml_incoming s \<noteq> [] \<Longrightarrow> \<not> should_quit s \<Longrightarrow>
    \<exists>n s'. pump_awake env n (pc, s) = Some (AtWork, s') \<and> thread_inv quits env pump AtWork s' \<and>
      ml_posted s' = ml_posted s \<and> \<not> should_quit s'"
proof (induction "steps_to_work pc" arbitrary: pc s rule: less_induct)
  case less
  show ?case
  proof (cases "pc = AtWork")
    case True
    then show ?thesis using less.prems by (intro exI [of _ 0]) simp
  next
    case False
    obtain pc1 s1 where s: "pump_step env pc s = (pc1, s1)" by fastforce
    note o = back_to_work_step [OF e q less.prems(1) p less.prems(2,3) False s]
    have i: "thread_inv quits env pump pc1 s1" using thread_inv_step [OF q less.prems(1)] o s by simp
    have "\<exists>n s'. pump_awake env n (pc1, s1) = Some (AtWork, s') \<and> thread_inv quits env pump AtWork s' \<and>
      ml_posted s' = ml_posted s1 \<and> \<not> should_quit s'"
    proof (cases "pc1 = AtWork")
      case True
      then show ?thesis using i o less.prems(4) by (intro exI [of _ 0]) auto
    next
      case False
      then show ?thesis using o i less.prems(4) by (intro less.hyps) auto
    qed
    then obtain n s' where n: "pump_awake env n (pc1, s1) = Some (AtWork, s')"
      "thread_inv quits env pump AtWork s'" "ml_posted s' = ml_posted s1" "\<not> should_quit s'" by blast
    have "pump_awake env (Suc n) (pc, s) = Some (AtWork, s')" using n(1) o s by simp
    then show ?thesis using n o by (intro exI [of _ "Suc n"] exI [of _ s']) simp
  qed
qed

lemma pump_awake_add:
  "pump_awake env m c = Some d \<Longrightarrow> pump_awake env (m + n) c = pump_awake env n d"
  by (induction env m c rule: pump_awake.induct) (auto split: if_splits)

lemma pump_awake_stopped: "pump_awake env n (Stopped, s) = Some (Stopped, s)"
  by (induction n) (simp_all add: asleep_def)

text \<open>The thread follows its pump, and leaves the loop when the pump has stopped.\<close>

lemma thread_run_awake:
  "pump_awake env n (pc, s) = Some (Stopped, s') \<Longrightarrow> th_main t = Looping pc s \<Longrightarrow>
     \<exists>m. thread_run env cleanup m t = Some (ThreadMain_end env cleanup s' t)"
proof (induction env n "(pc, s)" arbitrary: pc s t rule: pump_awake.induct)
  case (1 env pc s)
  then show ?case by (intro exI [of _ 1]) simp
next
  case (2 env n pc s)
  show ?case
  proof (cases "pc = Stopped")
    case True
    then show ?thesis using 2(2,3) pump_awake_stopped [of env "Suc n" s] by (intro exI [of _ 1]) simp
  next
    case False
    obtain pc1 s1 where s: "pump_step env pc s = (pc1, s1)" by fastforce
    have a: "\<not> (asleep pc s \<and> ml_delayed_work_time s = 0)" using 2(2) by (auto split: if_splits)
    have "pump_awake env n (pc1, s1) = Some (Stopped, s')" using 2(2) a s by simp
    then obtain m where "thread_run env cleanup m (t\<lparr>th_main := Looping pc1 s1\<rparr>) =
        Some (ThreadMain_end env cleanup s' (t\<lparr>th_main := Looping pc1 s1\<rparr>))"
      using 2(1) [OF a, of pc1 s1 "t\<lparr>th_main := Looping pc1 s1\<rparr>"] s by auto
    then show ?thesis using 2(3) a s False by (intro exI [of _ "Suc m"]) (simp add: ThreadMain_end_def)
  qed
qed

text \<open>The destructor of the loop runs no task.\<close>

lemma post_task_ran [simp]: "ml_ran (post_task env k d n s) = ml_ran s"
  using same_run_post [of s env k d n] by (simp add: same_run_def)

lemma drop_task_ran [simp]: "ml_ran (drop_task env t s) = ml_ran s"
proof -
  have "ml_ran (fold (\<lambda>(k, d, n). post_task env k d n) xs s) = ml_ran s" for xs
    by (induction xs arbitrary: s) auto
  then show ?thesis by (simp add: drop_task_def)
qed

lemma drop_tasks_ran [simp]: "ml_ran (fold (drop_task env) ts s) = ml_ran s"
  by (induction ts arbitrary: s) simp_all

lemma drop_works_ran [simp]: "ml_ran (fold (drop_work env) ts s) = ml_ran s"
  by (induction ts arbitrary: s) (simp_all add: drop_work_def AddToDelayedWorkQueue_def)

lemma DeletePendingTasks_ran [simp]: "ml_ran (snd (DeletePendingTasks env s)) = ml_ran s"
  by (simp add: DeletePendingTasks_def Let_def)

lemma delete_rounds_ran [simp]: "ml_ran (snd (delete_rounds env n s)) = ml_ran s"
proof (induction env n s rule: delete_rounds.induct)
  case (2 env n s)
  let ?s = "ReloadWorkQueue (snd (DeletePendingTasks env s))"
  obtain b u where u: "DeletePendingTasks env ?s = (b, u)" by fastforce
  have r: "ml_ran (ReloadWorkQueue v) = ml_ran v" for v :: "('a, 'b) msg_loop" by (simp add: ReloadWorkQueue_def)
  have "ml_ran u = ml_ran s" using DeletePendingTasks_ran [of env ?s] u by (simp add: r)
  then show ?case using 2 [of ?s _ b u] u by (simp add: Let_def)
qed simp

lemma MessageLoop_delete_ran [simp]: "ml_ran (snd (MessageLoop_delete env s)) = ml_ran s"
  using delete_rounds_ran [of env 100 s]
  by (cases "delete_rounds env 100 s") (simp add: MessageLoop_delete_def activate_timer_def split_beta)

lemma moves_ran: "rtranclp (loop_move env) s t \<Longrightarrow> sound_env env \<Longrightarrow> ml_ran t = ml_ran s"
proof (induction rule: rtranclp_induct)
  case (step t u)
  then show ?case using loop_move_cases [of env t u] by (simp add: same_queues_def)
qed simp

lemma ThreadMain_end_ran:
  assumes "single s" "sound_env env" "\<forall>s. rtranclp (loop_move env) s (cleanup s)"
  obtains s' where "th_main (ThreadMain_end env cleanup s t) = Exited s'" "ml_ran s' = ml_ran s"
proof (rule that)
  show "th_main (ThreadMain_end env cleanup s t) =
      Exited (snd (MessageLoop_delete env (cleanup (AfterRun (Pump_end s)))))"
    by (simp add: ThreadMain_end_def)
  obtain r where "ml_run_loops s = [r]" using assms(1) by (auto simp: single_def)
  then have "ml_ran (AfterRun (Pump_end s)) = ml_ran s" by (simp add: AfterRun_def)
  then show "ml_ran (snd (MessageLoop_delete env (cleanup (AfterRun (Pump_end s))))) = ml_ran s"
    using moves_ran [OF spec [OF assms(3)] assms(2)] by simp
qed

lemma loop_move_env:
  assumes "loop_move env s t" "le_now env' = le_now env" "le_post env' = le_post env"
    "le_activate env' = le_activate env"
  shows "loop_move env' s t"
proof -
  have a: "activate_timer env' = activate_timer env"
    using assms(4) by (simp add: fun_eq_iff activate_timer_def)
  have c: "CalculateDelayedRuntime env' = CalculateDelayedRuntime env"
    by (rule ext, rule ext) (simp only: CalculateDelayedRuntime_def a assms(2))
  have s: "ScheduleWork env' = ScheduleWork env"
    by (rule ext) (simp only: ScheduleWork_def assms(3))
  have "AddToIncomingQueue env' = AddToIncomingQueue env"
    by (rule ext, rule ext) (simp only: AddToIncomingQueue_def s)
  then have p: "post_task env' = post_task env"
    by (intro ext) (simp only: post_task_def c)
  show ?thesis using assms(1)
  proof (cases rule: loop_move.cases)
    case (move_post k d n)
    then show ?thesis using loop_move.move_post [of env' s k d n] by (simp only: p)
  next
    case (move_world w)
    then show ?thesis using loop_move.move_world [of env' w s] assms(2) by simp
  qed (auto intro: loop_move.intros)
qed

lemma with_quit_sound:
  assumes "sound_env env" shows "sound_env (with_quit quit env)"
proof -
  have m: "rtranclp (loop_move (with_quit quit env)) s t" if "rtranclp (loop_move env) s t" for s t
    using that by (rule mono_rtranclp [rule_format, rotated])
      (erule loop_move_env; simp add: with_quit_def)
  have "rtranclp (loop_move (with_quit quit env)) s (ThreadQuitHelper s)" for s
    unfolding ThreadQuitHelper_def by (rule r_into_rtranclp) (rule move_idle)
  then have "rtranclp (loop_move (with_quit quit env)) s (le_run (with_quit quit env) k s)" for k s
    using m assms by (simp add: with_quit_def sound_env_def)
  moreover have "rtranclp (loop_move (with_quit quit env)) s (le_io (with_quit quit env) i s)" for i s
    using m [of s "le_io env i s"] assms by (simp add: with_quit_def sound_env_def)
  ultimately show ?thesis using assms by (simp add: sound_env_def with_quit_def)
qed

text \<open>When no task and no handler uses the loop, the closure of \<open>StopSoon\<close> is the one that quits.\<close>

lemma with_quit_quiet:
  assumes "quiet_env (\<lambda>_. False) env" shows "quiet_env ((=) quit) (with_quit quit env)"
proof -
  have "\<exists>w. ThreadQuitHelper s = QuitWhenIdle (s\<lparr>ml_world := w\<rparr>)" for s :: "('a, 'b) msg_loop"
    unfolding ThreadQuitHelper_def by (rule exI [of _ "ml_world s"]) simp
  then show ?thesis using assms by (auto simp: quiet_env_def with_quit_def)
qed

text \<open>C9: \<open>Stop\<close> returns.  Wherever the loop of a thread stands when it is stopped, asleep included, the
  thread wakes, runs every task posted before that is neither delayed nor bound to an outer loop, runs the
  closure of \<open>StopSoon\<close>, leaves its loop and is joined.  The other tasks and the I/O handlers must not use
  the loop themselves: a task that posts itself again for ever keeps the loop from becoming idle.\<close>

theorem thread_stop_returns:
  assumes "thread_reach (with_quit quit env) cleanup pump t" "th_main t = Looping pc s" "sound_env env"
    "quiet_env (\<lambda>_. False) env" "quit \<notin> pt_task ` set (ml_posted s)" "\<forall>w. le_post env w"
    "pump \<in> {default_pump_new, io_pump_new}" "\<forall>s. rtranclp (loop_move (with_quit quit env)) s (cleanup s)"
  shows "\<exists>n u s'. Stop (with_quit quit env) cleanup quit n t = Some u \<and> th_main u = Exited s' \<and>
    \<not> th_started u \<and> \<not> th_running u \<and>
    (\<forall>x \<in> set (ml_posted s). immediate x \<longrightarrow> x \<in> set (ran_tasks s'))"
proof -
  let ?env = "with_quit quit env"
  note e = with_quit_sound [OF assms(3), of quit] and q = with_quit_quiet [OF assms(4), of quit]
  have lp: "\<forall>w. le_post ?env w" using assms(6) by (simp add: with_quit_def)
  have i: "thread_inv ((=) quit) ?env pump pc s" "th_started t" "\<not> th_stopping t"
    using thread_reach_inv [OF assms(1) q assms(7,2)] by simp_all
  have "mset (ran_tasks s) \<subseteq># mset (ml_posted s)"
    by (rule tasks_mset [OF _ e]) (use i(1) in \<open>unfold thread_inv_def, elim conjE\<close>)
  then have "set (ran_tasks s) \<subseteq> set (ml_posted s)" by (metis set_mset_mono set_mset_mset)
  then have nf: "\<not> quit_flag s" using i(1) assms(5) by (auto simp: thread_inv_def run_ok_def flag_why_def)
  let ?s = "PostTask ?env quit s" and ?t = "StopSoon ?env quit t"
  obtain x where x: "ml_posted ?s = ml_posted s @ [x]" "pt_task x = quit" "immediate x"
    "ml_incoming ?s = ml_incoming s @ [x]" by (rule PostTask_posted)
  have t: "th_main ?t = Looping pc ?s" using assms(2) i(3) by (simp add: StopSoon_def)
  have o: "outer_move ?env s ?s" unfolding PostTask_def by (rule outer_post)
  have i1: "thread_inv ((=) quit) ?env pump pc ?s" by (rule thread_inv_outer [OF i(1) o])
  have f1: "\<not> quit_flag ?s" "\<not> should_quit ?s"
    using nf i(1) same_run_flags(5) [OF same_run_outer [OF o]] same_run_outer [OF o]
    by (auto simp: same_run_def thread_inv_def run_ok_def)
  obtain m s1 where m: "pump_awake ?env m (pc, ?s) = Some (AtWork, s1)" "thread_inv ((=) quit) ?env pump AtWork s1"
    "ml_posted s1 = ml_posted ?s" "\<not> should_quit s1"
    using back_to_work [OF e q lp assms(7) i1 f1(1) _ f1(2)] x(4) by auto
  have "task_inv s1" by (rule task_inv_reachable [OF _ e, of pump AtWork]) (use m(2) in \<open>simp add: thread_inv_def\<close>)
  then have "idle_inv ((=) quit) ?env (ml_posted ?s) AtWork s1"
    using m x by (auto simp: idle_inv_def thread_inv_def run_ok_def)
  then obtain n s2 where n: "pump_awake ?env n (AtWork, s1) = Some (Stopped, s2)"
    "idle_inv ((=) quit) ?env (ml_posted ?s) Stopped s2"
    using idle_runs [OF e q] by (metis asleep_def pump_pc.distinct(7))
  have "pump_awake ?env (m + n) (pc, ?s) = Some (Stopped, s2)" using pump_awake_add [OF m(1)] n(1) by simp
  then obtain k where k: "thread_run ?env cleanup k ?t = Some (ThreadMain_end ?env cleanup s2 ?t)"
    using thread_run_awake [OF _ t] by blast
  obtain s3 where s3: "th_main (ThreadMain_end ?env cleanup s2 ?t) = Exited s3" "ml_ran s3 = ml_ran s2"
    by (rule ThreadMain_end_ran [OF _ e assms(8)]) (use n(2) in \<open>auto simp: idle_inv_def\<close>)
  have "filter immediate (ml_posted ?s) = filter immediate (ran_tasks s2)"
    using n(2) by (auto simp: idle_inv_def task_inv_def)
  from arg_cong [OF this, of set] have r: "y \<in> set (ran_tasks s3)" if "y \<in> set (ml_posted s)" "immediate y" for y
    using that x(1) s3(2) by auto
  let ?u = "(ThreadMain_end ?env cleanup s2 ?t)\<lparr>th_started := False, th_stopping := False\<rparr>"
  have "Stop ?env cleanup quit k t = Some ?u" using k s3(1) i(2) by (simp add: Stop_def Stop_end_def)
  moreover have "th_main ?u = Exited s3" "\<not> th_started ?u" "\<not> th_running ?u"
    using s3(1) by (simp_all add: ThreadMain_end_def)
  ultimately show ?thesis using r by blast
qed

text \<open>A thread on the IO pump, stopped while it sleeps with nothing to wait for.\<close>

abbreviation stop_env :: "(nat, bool) loop_env" where
  "stop_env \<equiv> with_quit 9 demo_env"

definition stop_thread :: "(nat, bool) thread_state" where
  "stop_thread = snd (StartWithOptions (\<lambda>s. s) io_pump_new False True Thread_new)"

lemma thread_reach_run:
  "thread_reach env cleanup pump t \<Longrightarrow> thread_run env cleanup n t = Some u \<Longrightarrow> th_main u = Looping pc s \<Longrightarrow>
     thread_reach env cleanup pump u"
proof (induction env cleanup n t rule: thread_run.induct)
  case (2 env cleanup n t)
  show ?case
  proof (cases "th_main t")
    case (Looping pc0 s0)
    obtain v where v: "thread_run env cleanup 1 t = Some v" "thread_run env cleanup n v = Some u"
      using 2(4) Looping by (auto split: if_splits prod.splits)
    have "thread_reach env cleanup pump v" by (rule thread_reach.thread_step [OF 2(3) v(1)])
    then show ?thesis using 2(1,2,5) v Looping by (auto split: if_splits prod.splits)
  qed (use 2(3,4) in simp_all)
qed simp

lemma thread_stop_returns_witness:
  "\<exists>t pc s. th_main t = Looping pc s \<and> asleep pc s \<and> length (ml_posted s) = 1 \<and>
     (\<exists>n u s'. Stop stop_env (\<lambda>s. s) 9 n t = Some u \<and> th_main u = Exited s' \<and> \<not> th_started u \<and>
       \<not> th_running u \<and> (\<forall>x \<in> set (ml_posted s). immediate x \<longrightarrow> x \<in> set (ran_tasks s')))"
proof -
  have a: "case th_main stop_thread of Looping pc s \<Rightarrow>
      (case thread_run stop_env (\<lambda>s. s) 7 (stop_thread\<lparr>th_main := Looping pc (PostTask stop_env 4 s)\<rparr>) of
         Some u \<Rightarrow> (case th_main u of Looping pc s \<Rightarrow> asleep pc s \<and> map pt_task (ml_posted s) = [4] | _ \<Rightarrow> False)
       | None \<Rightarrow> False) | _ \<Rightarrow> False"
    by code_simp
  obtain pc0 s0 where m: "th_main stop_thread = Looping pc0 s0" using a by (cases "th_main stop_thread") simp_all
  obtain u where v: "thread_run stop_env (\<lambda>s. s) 7
      (stop_thread\<lparr>th_main := Looping pc0 (PostTask stop_env 4 s0)\<rparr>) = Some u"
    using a m by (auto split: option.splits)
  have "case th_main u of Looping pc s \<Rightarrow> asleep pc s \<and> map pt_task (ml_posted s) = [4] | _ \<Rightarrow> False"
    using a m v by simp
  with m v obtain pc s where u: "th_main stop_thread = Looping pc0 s0"
    "thread_run stop_env (\<lambda>s. s) 7 (stop_thread\<lparr>th_main := Looping pc0 (PostTask stop_env 4 s0)\<rparr>) = Some u"
    "th_main u = Looping pc s" "asleep pc s" "map pt_task (ml_posted s) = [4]"
    by (cases "th_main u") auto
  have "thread_reach stop_env (\<lambda>s. s) io_pump_new stop_thread"
    unfolding stop_thread_def by (rule thread_start)
  then have "thread_reach stop_env (\<lambda>s. s) io_pump_new (stop_thread\<lparr>th_main := Looping pc0 (PostTask stop_env 4 s0)\<rparr>)"
    using u(1) unfolding PostTask_def by (rule thread_outer) (rule outer_post)
  then have r: "thread_reach stop_env (\<lambda>s. s) io_pump_new u" by (rule thread_reach_run [OF _ u(2,3)])
  have p: "9 \<notin> pt_task ` set (ml_posted s)" "length (ml_posted s) = 1"
    using arg_cong [OF u(5), of set] arg_cong [OF u(5), of length] by auto
  show ?thesis
    using thread_stop_returns [OF r u(3) sound_demo quiet_demo p(1)] u(3,4) p(2)
    by (intro exI [of _ u] exI [of _ pc] exI [of _ s]) (simp add: demo_env_def)
qed

section \<open>Posting to a thread\<close>

lemma post_step_threads:
  "bg_threads (snd ((post_step env cur i task d nestable ^^ n) s)) = bg_threads (snd s)"
proof (induction n)
  case (Suc n)
  obtain pc h where "(post_step env cur i task d nestable ^^ n) s = (pc, h)" by fastforce
  then show ?case using Suc by (cases pc) (auto split: option.split)
qed simp

lemma thread_ids_index: "thread_ids ! thread_index i = i" "thread_index i < length thread_ids"
  "k < length thread_ids \<Longrightarrow> thread_index (thread_ids ! k) = k"
proof -
  show "thread_ids ! thread_index i = i" "thread_index i < length thread_ids"
    by (cases i; simp add: thread_ids_def)+
  show "thread_index (thread_ids ! k) = k" if "k < length thread_ids"
  proof -
    have "k \<in> {0, 1, 2, 3, 4, 5, 6, 7}" using that by (auto simp: thread_ids_def)
    then show ?thesis by (auto simp: thread_ids_def)
  qed
qed

text \<open>How often a task was posted to a loop.\<close>

definition posts :: "'k \<Rightarrow> ('k, 'w) msg_loop \<Rightarrow> nat" where
  "posts task s = count_list (map pt_task (ml_posted s)) task"

text \<open>What the rest of the program does to the shared memory while the thread \<open>c\<close> runs \<open>PostTaskHelper\<close>
  for \<open>task\<close>: it makes and registers thread objects, adopts, makes and destroys loops, starts and stops
  threads, clears entries and frees objects, and runs the loops; only the entries are changed under the
  lock.  A thread stops, or leaves the table, only when the threads after it have left it: the order of
  lifetime the enumeration stands for, which the destructor checks in debug builds.\<close>

definition unused_loop :: "nat \<Rightarrow> ('k, 'w) thread_globals \<Rightarrow> bool" where
  "unused_loop l g \<longleftrightarrow> (\<forall>a t. bg_objects g a = Some t \<longrightarrow> bt_message_loop t \<noteq> Some l)"

definition may_end :: "thread_id \<Rightarrow> thread_id \<Rightarrow> ('k, 'w) thread_globals \<Rightarrow> bool" where
  "may_end c i g \<longleftrightarrow> i \<noteq> c \<and> (\<forall>j > i. bg_threads g j = None)"

inductive table_step :: "thread_id \<Rightarrow> 'k \<Rightarrow> ('k, 'w) thread_globals \<Rightarrow> ('k, 'w) thread_globals \<Rightarrow> bool"
  for c task where
  table_new: "bg_objects g a = None \<Longrightarrow> table_step c task g (BrowserThreadImpl_new a i None g)"
| table_adopt: "bg_objects g a = None \<Longrightarrow> bg_loops g l \<noteq> None \<Longrightarrow> unused_loop l g \<Longrightarrow>
    table_step c task g (BrowserThreadImpl_new a i (Some l) g)"
| table_register: "\<not> bg_lock g \<Longrightarrow> bg_threads g i = None \<Longrightarrow> bg_objects g a = Some t \<Longrightarrow> bt_identifier t = i \<Longrightarrow>
    table_step c task g (Initialize a i g)"
| table_loop: "bg_loops g l = None \<Longrightarrow> table_step c task g (g\<lparr>bg_loops := (bg_loops g)(l \<mapsto> s)\<rparr>)"
| table_start: "bg_objects g a = Some t \<Longrightarrow> bt_message_loop t = None \<Longrightarrow> bg_loops g l \<noteq> None \<Longrightarrow>
    unused_loop l g \<Longrightarrow>
    table_step c task g (g\<lparr>bg_objects := (bg_objects g)(a \<mapsto> t\<lparr>bt_message_loop := Some l\<rparr>)\<rparr>)"
| table_run: "bg_loops g l = Some s \<Longrightarrow> posts task s' = posts task s \<Longrightarrow>
    table_step c task g (g\<lparr>bg_loops := (bg_loops g)(l \<mapsto> s')\<rparr>)"
| table_stop: "bg_objects g a = Some t \<Longrightarrow> may_end c (bt_identifier t) g \<Longrightarrow>
    table_step c task g (g\<lparr>bg_objects := (bg_objects g)(a \<mapsto> t\<lparr>bt_message_loop := None\<rparr>)\<rparr>)"
| table_destroy: "unused_loop l g \<Longrightarrow> table_step c task g (g\<lparr>bg_loops := (bg_loops g)(l := None)\<rparr>)"
| table_clear: "\<not> bg_lock g \<Longrightarrow> may_end c i g \<Longrightarrow> table_step c task g (BrowserThreadImpl_clear i g)"
| table_free: "\<forall>i. bg_threads g i \<noteq> Some a \<Longrightarrow>
    table_step c task g (g\<lparr>bg_objects := (bg_objects g)(a := None)\<rparr>)"

text \<open>The call of \<open>c\<close> with the rest of the program between its steps.\<close>

inductive posting ::
    "('k, 'w) loop_env \<Rightarrow> thread_id \<Rightarrow> nat \<Rightarrow> thread_id \<Rightarrow> 'k \<Rightarrow> i64 \<Rightarrow> bool \<Rightarrow> ('k, 'w) thread_globals
      \<Rightarrow> post_pc \<Rightarrow> ('k, 'w) thread_globals \<Rightarrow> bool"
  for env c l target task delay nestable g where
  posting_start: "posting env c l target task delay nestable g (ScanEntry 0) g"
| posting_own: "posting env c l target task delay nestable g pc h \<Longrightarrow>
    post_step env (Some l) target task delay nestable (pc, h) = (pc', h') \<Longrightarrow>
    posting env c l target task delay nestable g pc' h'"
| posting_other: "posting env c l target task delay nestable g pc h \<Longrightarrow> table_step c task h h' \<Longrightarrow>
    posting env c l target task delay nestable g pc h'"

text \<open>The table is consistent: an entry points to an object of its identifier, no two objects have one
  loop, and a loop an object points to is there.\<close>

definition table_ok :: "('k, 'w) thread_globals \<Rightarrow> bool" where
  "table_ok g \<longleftrightarrow>
     (\<forall>i a. bg_threads g i = Some a \<longrightarrow> (\<exists>t. bg_objects g a = Some t \<and> bt_identifier t = i)) \<and>
     (\<forall>a b t u l. bg_objects g a = Some t \<longrightarrow> bg_objects g b = Some u \<longrightarrow> bt_message_loop t = Some l \<longrightarrow>
        bt_message_loop u = Some l \<longrightarrow> a = b) \<and>
     (\<forall>a t l. bg_objects g a = Some t \<longrightarrow> bt_message_loop t = Some l \<longrightarrow> bg_loops g l \<noteq> None)"

lemma table_okD:
  assumes "table_ok g"
  shows "bg_threads g i = Some a \<Longrightarrow> \<exists>t. bg_objects g a = Some t \<and> bt_identifier t = i"
    and "bg_objects g a = Some t \<Longrightarrow> bg_objects g b = Some u \<Longrightarrow> bt_message_loop t = Some l \<Longrightarrow>
      bt_message_loop u = Some l \<Longrightarrow> a = b"
    and "bg_objects g a = Some t \<Longrightarrow> bt_message_loop t = Some l \<Longrightarrow> bg_loops g l \<noteq> None"
  using assms unfolding table_ok_def by blast+

lemmas table_defs = BrowserThreadImpl_new_def Initialize_def BrowserThreadImpl_clear_def

lemma table_ok_step:
  assumes s: "table_step c task g h" and ok: "table_ok g" shows "table_ok h"
  using s
proof (cases rule: table_step.cases)
  case (table_new a i)
  then show ?thesis using ok by (fastforce simp: table_ok_def table_defs split: if_splits)
next
  case (table_adopt a l i)
  then show ?thesis using ok by (fastforce simp: table_ok_def table_defs unused_loop_def split: if_splits)
next
  case (table_start a t l)
  then show ?thesis using ok by (fastforce simp: table_ok_def unused_loop_def split: if_splits)
next
  case (table_stop a t)
  then show ?thesis using ok by (fastforce simp: table_ok_def split: if_splits)
next
  case (table_destroy l)
  then show ?thesis using ok by (fastforce simp: table_ok_def unused_loop_def split: if_splits)
next
  case (table_free a)
  then show ?thesis using ok by (fastforce simp: table_ok_def split: if_splits)
qed (use ok in \<open>auto simp: table_ok_def table_defs split: if_splits\<close>)

lemma thread_at_ok: "table_ok g \<Longrightarrow> bg_threads g i \<noteq> None \<Longrightarrow> \<exists>t. thread_at i g = Some t \<and> bt_identifier t = i"
  using table_okD(1) by (fastforce simp: thread_at_def)

lemma message_loop_of_entry: "message_loop_of i g = Some l \<Longrightarrow> bg_threads g i \<noteq> None"
  by (cases "bg_threads g i") (simp_all add: message_loop_of_def thread_at_def)

lemma message_loop_of_unique:
  assumes "table_ok g" "message_loop_of i g = Some l" "message_loop_of j g = Some l" shows "i = j"
proof -
  obtain a t where a: "bg_threads g i = Some a" "bg_objects g a = Some t" "bt_message_loop t = Some l"
    using assms(2) by (auto simp: message_loop_of_def thread_at_def split: bind_splits)
  obtain b u where b: "bg_threads g j = Some b" "bg_objects g b = Some u" "bt_message_loop u = Some l"
    using assms(3) by (auto simp: message_loop_of_def thread_at_def split: bind_splits)
  have "a = b" by (rule table_okD(2) [OF assms(1) a(2) b(2) a(3) b(3)])
  then show ?thesis using table_okD(1) [OF assms(1) a(1)] table_okD(1) [OF assms(1) b(1)] by auto
qed

text \<open>What the rest of the program cannot do while \<open>c\<close> is registered: end \<open>c\<close> or a thread before it.\<close>

lemma may_end_after: "may_end c i g \<Longrightarrow> bg_threads g c \<noteq> None \<Longrightarrow> c < i"
  unfolding may_end_def by (metis linorder_neqE)

lemma entry_stays:
  assumes "table_step c task g h" "bg_threads g c \<noteq> None" "bg_threads g i = Some a" "i \<le> c \<or> bg_lock g"
  shows "bg_threads h i = Some a"
  using assms(1)
proof (cases rule: table_step.cases)
  case (table_clear j)
  then show ?thesis using assms may_end_after [of c j g] by (auto simp: table_defs)
qed (use assms in \<open>auto simp: table_defs\<close>)

lemma loop_stays:
  assumes s: "table_step c task g h" and ok: "table_ok g" and c: "bg_threads g c \<noteq> None"
    and i: "i \<le> c" "message_loop_of i g = Some m"
  shows "message_loop_of i h = Some m"
proof -
  obtain a t where a: "bg_threads g i = Some a" "bg_objects g a = Some t" "bt_message_loop t = Some m"
    using i(2) by (auto simp: message_loop_of_def thread_at_def split: bind_splits)
  have t: "bt_identifier t = i" using table_okD(1) [OF ok a(1)] a(2) by auto
  have h: "bg_threads h i = Some a" by (rule entry_stays [OF s c a(1)]) (use i(1) in simp)
  have "bg_objects h a = Some t" using s
  proof (cases rule: table_step.cases)
    case (table_stop b u)
    have "b \<noteq> a" using may_end_after [OF table_stop(3) c] table_stop(2) a(2) t i(1) by auto
    then show ?thesis using table_stop(1) a(2) by simp
  qed (use a in \<open>auto simp: table_defs\<close>)
  then show ?thesis using h a(3) by (simp add: message_loop_of_def thread_at_def)
qed

lemma table_step_lock: "table_step c task g h \<Longrightarrow> bg_lock h = bg_lock g"
  by (induction rule: table_step.induct) (simp_all add: table_defs)

text \<open>How often a task was posted to the registered loop of a thread.\<close>

definition posts_at :: "'k \<Rightarrow> nat \<Rightarrow> ('k, 'w) thread_globals \<Rightarrow> nat" where
  "posts_at task m g = (case bg_loops g m of None \<Rightarrow> 0 | Some s \<Rightarrow> posts task s)"

lemma posts_stay:
  assumes s: "table_step c task g h" and m: "message_loop_of i g = Some m" and ok: "table_ok g"
  shows "posts_at task m h = posts_at task m g"
proof -
  obtain a t where a: "bg_objects g a = Some t" "bt_message_loop t = Some m"
    using m by (auto simp: message_loop_of_def thread_at_def split: bind_splits)
  have l: "bg_loops g m \<noteq> None" by (rule table_okD(3) [OF ok a])
  have u: "\<not> unused_loop m g" using a by (auto simp: unused_loop_def)
  show ?thesis using s
    by (cases rule: table_step.cases) (use l u in \<open>auto simp: table_defs posts_at_def\<close>)
qed

lemma index_le: "thread_index i \<le> thread_index c \<longleftrightarrow> i \<le> c"
  by (simp add: less_eq_thread_id_def)

text \<open>What holds at each point of the call: the scan stops at the poster's own entry, the lock is held
  exactly for a thread that may end first, and the entry read is there.\<close>

fun pc_ok :: "thread_id \<Rightarrow> thread_id \<Rightarrow> ('k, 'w) thread_globals \<Rightarrow> post_pc \<Rightarrow> bool" where
  "pc_ok c i h (ScanEntry k) \<longleftrightarrow> k \<le> thread_index c \<and> \<not> bg_lock h"
| "pc_ok c i h (ScanLoop k) \<longleftrightarrow> k \<le> thread_index c \<and> \<not> bg_lock h \<and> bg_threads h (thread_ids ! k) \<noteq> None"
| "pc_ok c i h (ScanIdentifier k) \<longleftrightarrow> k = thread_index c \<and> \<not> bg_lock h"
| "pc_ok c i h Acquire \<longleftrightarrow> \<not> i \<le> c \<and> \<not> bg_lock h"
| "pc_ok c i h (TestEntry b) \<longleftrightarrow> b = (\<not> i \<le> c) \<and> bg_lock h = b"
| "pc_ok c i h (ReadLoop b) \<longleftrightarrow> b = (\<not> i \<le> c) \<and> bg_lock h = b \<and> bg_threads h i \<noteq> None"
| "pc_ok c i h (PostTo b x) \<longleftrightarrow> b = (\<not> i \<le> c) \<and> bg_lock h = b \<and> (i \<le> c \<longrightarrow> message_loop_of i h = Some x)"
| "pc_ok c i h (Release r) \<longleftrightarrow> \<not> i \<le> c \<and> bg_lock h"
| "pc_ok c i h (Done r) \<longleftrightarrow> \<not> bg_lock h"
| "pc_ok c i h FreedThread \<longleftrightarrow> False"
| "pc_ok c i h FreedLoop \<longleftrightarrow> \<not> i \<le> c"

definition own_ok :: "thread_id \<Rightarrow> nat \<Rightarrow> ('k, 'w) thread_globals \<Rightarrow> bool" where
  "own_ok c l h \<longleftrightarrow> table_ok h \<and> message_loop_of c h = Some l"

lemma own_ok_other: "own_ok c l g \<Longrightarrow> table_step c task g h \<Longrightarrow> own_ok c l h"
  using table_ok_step loop_stays [of c task g h c l] message_loop_of_entry by (fastforce simp: own_ok_def)

lemma pc_ok_other:
  assumes "table_step c task g h" "own_ok c l g" "pc_ok c i g pc" shows "pc_ok c i h pc"
proof -
  have c: "bg_threads g c \<noteq> None" using assms(2) message_loop_of_entry by (auto simp: own_ok_def)
  have n: "bg_threads h j \<noteq> None" if "bg_threads g j \<noteq> None" "j \<le> c \<or> bg_lock g" for j
    using entry_stays [OF assms(1) c] that by fastforce
  have k: "thread_ids ! k \<le> c" if "k \<le> thread_index c" for k
  proof -
    have "k < length thread_ids" using that thread_ids_index(2) [of c] by linarith
    then show ?thesis using that thread_ids_index(3) [of k] by (metis index_le)
  qed
  have m: "message_loop_of i h = Some x" if "i \<le> c" "message_loop_of i g = Some x" for x
    using loop_stays [OF assms(1) _ c that] assms(2) by (simp add: own_ok_def)
  show ?thesis using assms(3) n k m table_step_lock [OF assms(1)] by (cases pc) auto
qed

lemma scan_step:
  assumes "own_ok c l h" "k \<le> thread_index c" "bg_threads h (thread_ids ! k) \<noteq> None"
  shows "\<exists>t. thread_at (thread_ids ! k) h = Some t \<and> bt_identifier t = thread_ids ! k \<and>
    (bt_message_loop t = Some l \<longleftrightarrow> k = thread_index c)"
proof -
  have ok: "table_ok h" and l: "message_loop_of c h = Some l" using assms(1) by (simp_all add: own_ok_def)
  obtain t where t: "thread_at (thread_ids ! k) h = Some t" "bt_identifier t = thread_ids ! k"
    using thread_at_ok [OF ok assms(3)] by blast
  have "k < length thread_ids" using assms(2) thread_ids_index(2) [of c] by linarith
  then have "thread_ids ! k = c \<longleftrightarrow> k = thread_index c"
    using thread_ids_index(1) [of c] thread_ids_index(3) [of k] by auto
  moreover have "bt_message_loop t = Some l \<longleftrightarrow> thread_ids ! k = c"
  proof
    assume "bt_message_loop t = Some l"
    then have "message_loop_of (thread_ids ! k) h = Some l" using t(1) by (simp add: message_loop_of_def)
    then show "thread_ids ! k = c" using message_loop_of_unique [OF ok _ l] by blast
  qed (use l t in \<open>simp add: message_loop_of_def\<close>)
  ultimately show ?thesis using t by blast
qed

lemma own_ok_step:
  assumes "own_ok c l h" "post_step env cur i task d nestable (pc, h) = (pc', h')"
  shows "own_ok c l h'"
proof -
  have "bg_threads h' = bg_threads h \<and> bg_objects h' = bg_objects h \<and>
      (\<forall>x. bg_loops h x \<noteq> None \<longrightarrow> bg_loops h' x \<noteq> None)"
    using assms(2) by (cases pc) (auto split: if_splits option.splits)
  then show ?thesis using assms(1)
    unfolding own_ok_def table_ok_def message_loop_of_def thread_at_def by metis
qed

lemma pc_ok_step:
  assumes o: "own_ok c l h" and pc: "pc_ok c i h pc"
    and s: "post_step env (Some l) i task d nestable (pc, h) = (pc', h')"
  shows "pc_ok c i h' pc'"
proof -
  have ok: "table_ok h" and c: "bg_threads h c \<noteq> None"
    using o message_loop_of_entry by (auto simp: own_ok_def)
  have at: "thread_at i h \<noteq> None" if "bg_threads h i \<noteq> None" using thread_at_ok [OF ok that] by auto
  show ?thesis
  proof (cases pc)
    case (ScanEntry k)
    have "k < length thread_ids" using pc ScanEntry thread_ids_index(2) [of c] by simp
    moreover have "k \<noteq> thread_index c" if "bg_threads h (thread_ids ! k) = None"
      using that c thread_ids_index(1) [of c] by auto
    ultimately show ?thesis using pc s ScanEntry by (auto split: if_splits)
  next
    case (ScanLoop k)
    then show ?thesis using scan_step [OF o, of k] pc s by (auto split: if_splits)
  next
    case (ScanIdentifier k)
    then have "k = thread_index c" using pc by simp
    then show ?thesis
      using scan_step [OF o, of k] c pc s ScanIdentifier thread_ids_index(1) [of c]
      by (auto simp: target_thread_outlives_current_def split: if_splits)
  next
    case (ReadLoop b)
    then show ?thesis using at pc s by (auto simp: post_returns_def message_loop_of_def split: option.splits)
  next
    case (PostTo b x)
    have "bg_loops h x \<noteq> None" if m: "message_loop_of i h = Some x"
    proof -
      obtain a u where "bg_objects h a = Some u" "bt_message_loop u = Some x"
        using m by (auto simp: message_loop_of_def thread_at_def split: bind_splits)
      then show ?thesis by (rule table_okD(3) [OF ok])
    qed
    then show ?thesis using pc s PostTo by (auto simp: post_returns_def split: option.splits)
  qed (use pc s in \<open>auto simp: post_returns_def split: if_splits option.splits\<close>)
qed

text \<open>Each step brings the call nearer to its end.\<close>

fun steps_left :: "post_pc \<Rightarrow> nat" where
  "steps_left (ScanEntry k) = 7 + 2 * (8 - k)"
| "steps_left (ScanLoop k) = 6 + 2 * (8 - k)"
| "steps_left (ScanIdentifier k) = 6"
| "steps_left Acquire = 5"
| "steps_left (TestEntry b) = 4"
| "steps_left (ReadLoop b) = 3"
| "steps_left (PostTo b x) = 2"
| "steps_left (Release r) = 1"
| "steps_left pc = 0"

lemma steps_left_decreases:
  assumes "own_ok c l h" "pc_ok c i h pc" "steps_left pc \<noteq> 0"
    "post_step env (Some l) i task d nestable (pc, h) = (pc', h')"
  shows "steps_left pc' < steps_left pc"
proof -
  have k: "k < 8" if "k \<le> thread_index c" for k
    using that thread_ids_index(2) [of c] by (simp add: thread_ids_def)
  show ?thesis using assms
    by (cases pc) (auto simp: post_returns_def dest!: k split: if_splits option.splits)
qed

lemma post_ends:
  assumes "own_ok c l h" "pc_ok c i h pc"
  shows "\<exists>n q h'. (post_step env (Some l) i task d nestable ^^ n) (pc, h) = (q, h') \<and>
    (q = FreedLoop \<or> (\<exists>r. q = Done r))"
  using assms
proof (induction "steps_left pc" arbitrary: pc h rule: less_induct)
  case less
  show ?case
  proof (cases "steps_left pc = 0")
    case True
    then show ?thesis using less.prems(2) by (intro exI [of _ 0]) (cases pc; simp)
  next
    case False
    obtain pc1 h1 where s: "post_step env (Some l) i task d nestable (pc, h) = (pc1, h1)" by fastforce
    obtain n q h' where n: "(post_step env (Some l) i task d nestable ^^ n) (pc1, h1) = (q, h')"
      "q = FreedLoop \<or> (\<exists>r. q = Done r)"
      using less.hyps [OF steps_left_decreases [OF less.prems False s] own_ok_step [OF less.prems(1) s]
          pc_ok_step [OF less.prems s]] by blast
    have "(post_step env (Some l) i task d nestable ^^ Suc n) (pc, h) = (q, h')"
      using n(1) s by (simp add: funpow_swap1)
    then show ?thesis using n(2) by blast
  qed
qed

lemma posting_ok:
  assumes "posting env c l i task d nestable g pc h" "own_ok c l g" "\<not> bg_lock g"
  shows "own_ok c l h \<and> pc_ok c i h pc"
  using assms(1)
proof (induction rule: posting.induct)
  case posting_start
  then show ?case using assms(2,3) by simp
next
  case (posting_own pc h pc' h')
  then show ?case using own_ok_step [OF _ posting_own(2)] pc_ok_step [OF _ _ posting_own(2)] by blast
next
  case (posting_other pc h h')
  then show ?case using own_ok_other [OF _ posting_other(2)] pc_ok_other [OF posting_other(2)] by blast
qed

text \<open>A target that outlives the poster keeps its loop, and gets the task once.\<close>

fun target_pc :: "nat \<Rightarrow> post_pc \<Rightarrow> bool" where
  "target_pc m (PostTo b x) \<longleftrightarrow> x = m"
| "target_pc m (Done r) \<longleftrightarrow> r"
| "target_pc m (Release r) \<longleftrightarrow> False"
| "target_pc m FreedLoop \<longleftrightarrow> False"
| "target_pc m pc \<longleftrightarrow> True"

lemma posts_post_to: "posts task (post_to env task d nestable s) = Suc (posts task s)"
proof -
  obtain w h where c: "snd (CalculateDelayedRuntime env d s) = s\<lparr>ml_high_res_expiration := h, ml_world := w\<rparr>"
    using CalculateDelayedRuntime_world [of env d s] by (elim exE conjE)
  obtain u v where e: "CalculateDelayedRuntime env d s = (u, v)" by fastforce
  have "ml_posted (post_task env task d n s) = ml_posted s @ [(PendingTask_new task u n)\<lparr>pt_sequence_num := ml_next_seq s\<rparr>]"
    for n using c by (simp add: post_task_def e AddToIncomingQueue_def Let_def)
  then show ?thesis
    by (simp add: posts_def post_to_def PostDelayedTask_def PostNonNestableDelayedTask_def PendingTask_new_def)
qed

lemma target_step:
  assumes o: "own_ok c l h" and pc: "pc_ok c i h pc" and i: "i \<le> c" and m: "message_loop_of i h = Some m"
    and t: "target_pc m pc" and s: "post_step env (Some l) i task d nestable (pc, h) = (pc', h')"
  shows "target_pc m pc' \<and> message_loop_of i h' = Some m \<and>
    posts_at task m h' + of_bool (pc = Done True) = posts_at task m h + of_bool (pc' = Done True)"
proof -
  have e: "bg_threads h i \<noteq> None" by (rule message_loop_of_entry [OF m])
  obtain u where u: "thread_at i h = Some u" "bt_message_loop u = Some m"
    using m by (auto simp: message_loop_of_def split: bind_splits)
  have "bg_threads h' = bg_threads h \<and> bg_objects h' = bg_objects h"
    using s by (cases pc) (auto split: if_splits option.splits)
  then have m': "message_loop_of i h' = Some m" using m by (simp add: message_loop_of_def thread_at_def)
  obtain a where "bg_objects h a = Some u" using u(1) by (auto simp: thread_at_def split: bind_splits)
  then obtain x where x: "bg_loops h m = Some x"
    using table_okD(3) [of h a u m] o u(2) by (auto simp: own_ok_def)
  have "target_pc m pc' \<and>
    posts_at task m h' + of_bool (pc = Done True) = posts_at task m h + of_bool (pc' = Done True)"
    using pc i t s e u x
    by (cases pc) (auto simp: post_returns_def posts_at_def posts_post_to split: if_splits option.splits)
  then show ?thesis using m' by blast
qed

lemma posting_target:
  assumes "posting env c l i task d nestable g pc h" "own_ok c l g" "\<not> bg_lock g" "i \<le> c"
    "message_loop_of i g = Some m"
  shows "target_pc m pc \<and> message_loop_of i h = Some m \<and>
    posts_at task m h = posts_at task m g + of_bool (pc = Done True)"
  using assms(1)
proof (induction rule: posting.induct)
  case posting_start
  then show ?case using assms by simp
next
  case (posting_own pc h pc' h')
  note o = posting_ok [OF posting_own(1) assms(2,3)]
  have "target_pc m pc' \<and> message_loop_of i h' = Some m \<and>
      posts_at task m h' + of_bool (pc = Done True) = posts_at task m h + of_bool (pc' = Done True)"
    by (rule target_step [OF conjunct1 [OF o] conjunct2 [OF o] assms(4) _ _ posting_own(2)])
      (use posting_own(3) in simp_all)
  then show ?case using posting_own(3) by simp
next
  case (posting_other pc h h')
  have o: "own_ok c l h" using posting_ok [OF posting_other(1) assms(2,3)] by blast
  have "bg_threads h c \<noteq> None" using o message_loop_of_entry by (auto simp: own_ok_def)
  then have "message_loop_of i h' = Some m"
    using loop_stays [OF posting_other(2) _ _ assms(4)] o posting_other(3) by (simp add: own_ok_def)
  moreover have "posts_at task m h' = posts_at task m h"
    using posts_stay [OF posting_other(2), of i m] o posting_other(3) by (simp add: own_ok_def)
  ultimately show ?case using posting_other(3) by simp
qed

text \<open>C19: posting a task is safe with and without the lock.  While the thread \<open>c\<close> runs its loop and the
  other threads keep to the order of lifetime, in every interleaving with what they do to the table, the
  thread objects and the loops: the call never touches a freed thread object, ends after finitely many of
  its own steps, and lets go of the lock.  To a thread that outlives the poster it takes no lock, never
  touches a destroyed loop and, when that thread has a loop at the start, returns true having posted the
  task to that loop once.  (A post to a thread that may end first can still find its loop destroyed:
  \<open>post_races_with_stop\<close>.)\<close>

theorem lock_elision_safe:
  assumes "table_ok g" "\<not> bg_lock g" "message_loop_of c g = Some l"
    "posting env c l i task delay nestable g pc h"
  shows "pc \<noteq> FreedThread \<and> (\<forall>r. pc = Done r \<longrightarrow> \<not> bg_lock h) \<and>
    (\<exists>n q h'. (post_step env (Some l) i task delay nestable ^^ n) (pc, h) = (q, h') \<and>
       (q = FreedLoop \<or> (\<exists>r. q = Done r))) \<and>
    (i \<le> c \<longrightarrow> \<not> bg_lock h \<and> pc \<noteq> FreedLoop \<and>
       (\<forall>m. message_loop_of i g = Some m \<longrightarrow>
          message_loop_of i h = Some m \<and> (\<forall>r. pc = Done r \<longrightarrow> r) \<and>
          posts_at task m h = posts_at task m g + of_bool (pc = Done True)))"
proof -
  have g: "own_ok c l g" using assms(1,3) by (simp add: own_ok_def)
  have o: "own_ok c l h" and p: "pc_ok c i h pc" using posting_ok [OF assms(4) g assms(2)] by simp_all
  have "i \<le> c \<longrightarrow> \<not> bg_lock h" "pc \<noteq> FreedThread" "i \<le> c \<longrightarrow> pc \<noteq> FreedLoop"
    "\<forall>r. pc = Done r \<longrightarrow> \<not> bg_lock h"
    using p by (cases pc; simp)+
  moreover have "\<forall>r. pc = Done r \<longrightarrow> r" if "target_pc m pc" for m using that by (cases pc) simp_all
  ultimately show ?thesis
    using post_ends [OF o p, of env task delay nestable] posting_target [OF assms(4) g assms(2)] by blast
qed

text \<open>The UI and the IO thread, and a cache thread the IO thread does not outlive.\<close>

definition demo_table :: "(nat, bool) thread_globals" where
  "demo_table = \<lparr>bg_threads = (\<lambda>i. if i = UI then Some 10 else if i = IO then Some 20 else None),
     bg_objects = (\<lambda>a. if a = 10 then Some \<lparr>bt_identifier = UI, bt_message_loop = Some 1\<rparr>
       else if a = 20 then Some \<lparr>bt_identifier = IO, bt_message_loop = Some 2\<rparr> else None),
     bg_loops = (\<lambda>l. if l = 1 \<or> l = 2 then Some (MessageLoop_new default_pump_new False) else None),
     bg_lock = False\<rparr>"

lemma demo_table_ok: "table_ok demo_table" "\<not> bg_lock demo_table"
  "message_loop_of IO demo_table = Some 2" "message_loop_of UI demo_table = Some 1" "UI \<le> IO"
  unfolding table_ok_def
  by (auto simp: demo_table_def message_loop_of_def thread_at_def less_eq_thread_id_def split: if_splits)

lemma posting_steps:
  "posting env c l i task d nestable g pc h \<Longrightarrow>
     (post_step env (Some l) i task d nestable ^^ n) (pc, h) = (q, h') \<Longrightarrow> posting env c l i task d nestable g q h'"
proof (induction n arbitrary: q h')
  case (Suc n)
  obtain q1 h1 where s: "(post_step env (Some l) i task d nestable ^^ n) (pc, h) = (q1, h1)" by fastforce
  show ?case by (rule posting_own [OF Suc.IH [OF Suc.prems(1) s]]) (use Suc.prems(2) s in simp)
qed simp

text \<open>The IO thread posts to the UI thread, and a cache thread is registered between its steps.\<close>

lemma lock_elision_safe_witness:
  "\<exists>h. posting demo_env IO 2 UI 7 0 True demo_table (Done True) h \<and> bg_threads h CACHE = Some 30 \<and>
     posts_at 7 1 h = 1 \<and> \<not> bg_lock h"
proof -
  let ?step = "post_step demo_env (Some 2) UI 7 0 True"
  let ?h1 = "Initialize 30 CACHE (BrowserThreadImpl_new 30 CACHE None demo_table)"
  have s: "(?step ^^ 2) (ScanEntry 0, demo_table) = (ScanEntry 1, demo_table)"
    by (simp add: numeral_2_eq_2 thread_ids_def demo_table_def thread_at_def)
  have 1: "posting demo_env IO 2 UI 7 0 True demo_table (ScanEntry 1) demo_table"
    by (rule posting_steps [OF posting_start s])
  have 2: "posting demo_env IO 2 UI 7 0 True demo_table (ScanEntry 1) ?h1"
  proof (rule posting_other [OF posting_other [OF 1]])
    show "table_step IO 7 demo_table (BrowserThreadImpl_new 30 CACHE None demo_table)"
      by (rule table_new) (simp add: demo_table_def)
    show "table_step IO 7 (BrowserThreadImpl_new 30 CACHE None demo_table) ?h1"
      by (rule table_register [where t = "\<lparr>bt_identifier = CACHE, bt_message_loop = None\<rparr>"])
        (simp_all add: demo_table_def BrowserThreadImpl_new_def)
  qed
  note safe = lock_elision_safe [OF demo_table_ok(1,2,3)]
  obtain n q h where n: "(?step ^^ n) (ScanEntry 1, ?h1) = (q, h)" "q = FreedLoop \<or> (\<exists>r. q = Done r)"
    using safe [OF 2] by blast
  have q: "posting demo_env IO 2 UI 7 0 True demo_table q h" by (rule posting_steps [OF 2 n(1)])
  then have d: "q = Done True" using safe [OF q] n(2) demo_table_ok(4,5) by auto
  have "bg_threads h = bg_threads ?h1" using n(1) post_step_threads by (metis snd_conv)
  then have "bg_threads h CACHE = Some 30" by (simp add: Initialize_def)
  moreover have "posts_at 7 1 demo_table = (0 :: nat)"
    by (simp add: posts_at_def demo_table_def posts_def MessageLoop_new_def)
  ultimately show ?thesis using safe [OF q] q demo_table_ok(4,5) d by auto
qed

text \<open>The call alone: it ends within its 22 steps and posts to the loop of the thread, if there is one,
  whoever calls.\<close>

lemma funpow_step: "(f ^^ n) (f x) = y \<Longrightarrow> (f ^^ Suc n) x = y"
  by (simp add: funpow_swap1)

lemma scan_alone:
  assumes "table_ok g" "k \<le> 8"
  shows "\<exists>n \<le> 17 - 2 * k. \<exists>pc \<in> {Acquire, TestEntry False}.
    (post_step env cur i task d nestable ^^ n) (ScanEntry k, g) = (pc, g)"
  using assms(2)
proof (induction "8 - k" arbitrary: k)
  case 0
  then have l: "length thread_ids \<le> 8" "k = 8" by (simp_all add: thread_ids_def)
  then have "(post_step env cur i task d nestable ^^ 1) (ScanEntry k, g) = (Acquire, g)" by simp
  then show ?case using l by (intro exI [of _ 1]) simp
next
  case (Suc x)
  let ?step = "post_step env cur i task d nestable"
  have k: "k < length thread_ids" "k < 8" using Suc.hyps(2) by (simp_all add: thread_ids_def)
  have x: "x = 8 - (k + 1)" "k + 1 \<le> 8" using Suc.hyps(2) by simp_all
  obtain n pc where n: "n \<le> 17 - 2 * (k + 1)" "pc \<in> {Acquire, TestEntry False}"
    "(?step ^^ n) (ScanEntry (k + 1), g) = (pc, g)"
    using Suc.hyps(1) [OF x] by blast
  show ?case
  proof (cases "bg_threads g (thread_ids ! k)")
    case None
    then have "(?step ^^ Suc n) (ScanEntry k, g) = (pc, g)" using n(3) k(1) by (intro funpow_step) simp
    then show ?thesis using n(1,2) k(2) by (intro exI [of _ "Suc n"]) auto
  next
    case (Some a)
    then obtain t where t: "thread_at (thread_ids ! k) g = Some t" using thread_at_ok [OF assms(1)] by blast
    show ?thesis
    proof (cases "bt_message_loop t = cur")
      case True
      have "(?step ^^ 3) (ScanEntry k, g) =
          (if target_thread_outlives_current (bt_identifier t) i then TestEntry False else Acquire, g)"
        using t Some k(1) True by (simp add: numeral_eq_Suc)
      then show ?thesis using k(2) by (intro exI [of _ 3]) auto
    next
      case False
      have "(?step ^^ Suc (Suc n)) (ScanEntry k, g) = (pc, g)"
        using t Some k(1) False n(3) by (intro funpow_step) simp
      then show ?thesis using n(1,2) k(2) by (intro exI [of _ "Suc (Suc n)"]) auto
    qed
  qed
qed

lemma post_done: "(post_step env cur i task d nestable ^^ n) (Done r, g) = (Done r, g)"
  by (induction n) simp_all

lemma PostTaskHelper_alone:
  assumes "table_ok g" "\<not> bg_lock g"
  shows "PostTaskHelper env cur i task delay nestable g =
    (case message_loop_of i g of
       None \<Rightarrow> (Done False, g)
     | Some m \<Rightarrow> (Done True, g\<lparr>bg_loops := (bg_loops g)(m \<mapsto> post_to env task delay nestable (the (bg_loops g m)))\<rparr>))"
    (is "_ = ?r")
proof -
  let ?step = "post_step env cur i task delay nestable"
  have unlocked: "h\<lparr>bg_lock := False\<rparr> = h" if "\<not> bg_lock h" for h :: "('a, 'b) thread_globals"
    using that by (cases h) simp
  have r: "\<exists>n \<le> 5. (?step ^^ n) (pc, g) = ?r" if pc: "pc \<in> {Acquire, TestEntry False}" for pc
  proof (cases "bg_threads g i")
    case None
    then have "message_loop_of i g = None" by (simp add: message_loop_of_def thread_at_def)
    moreover have "(?step ^^ (if pc = Acquire then 3 else 1)) (pc, g) = (Done False, g)"
      using pc None assms(2) unlocked by (auto simp: numeral_eq_Suc post_returns_def)
    ultimately show ?thesis by (intro exI [of _ "if pc = Acquire then 3 else 1"]) simp
  next
    case (Some a)
    then obtain t where t: "thread_at i g = Some t" using thread_at_ok [OF assms(1)] by blast
    have o: "thread_at i (g\<lparr>bg_lock := b\<rparr>) = Some t" for b using t by (simp add: thread_at_def)
    show ?thesis
    proof (cases "bt_message_loop t")
      case None
      then have "(?step ^^ (if pc = Acquire then 4 else 2)) (pc, g) = (Done False, g)"
        using pc Some t o assms(2) unlocked by (auto simp: numeral_eq_Suc post_returns_def)
      then show ?thesis using None t by (intro exI [of _ "if pc = Acquire then 4 else 2"]) (simp add: message_loop_of_def)
    next
      case (Some m)
      obtain s where "bg_loops g m = Some s"
        using table_okD(3) [OF assms(1), of a t m] t Some \<open>bg_threads g i = Some a\<close> by (auto simp: thread_at_def)
      then have "(?step ^^ (if pc = Acquire then 5 else 3)) (pc, g) = ?r"
        using pc Some t o assms(2) unlocked \<open>bg_threads g i = Some a\<close>
        by (auto simp: numeral_eq_Suc post_returns_def message_loop_of_def)
      then show ?thesis by (intro exI [of _ "if pc = Acquire then 5 else 3"]) simp
    qed
  qed
  obtain n pc where n: "n \<le> 17" "pc \<in> {Acquire, TestEntry False}" "(?step ^^ n) (ScanEntry 0, g) = (pc, g)"
    using scan_alone [OF assms(1), of 0 env cur i task delay nestable] by auto
  obtain m where m: "m \<le> 5" "(?step ^^ m) (pc, g) = ?r" using r [OF n(2)] by blast
  have "(?step ^^ (22 - n - m + (m + n))) (ScanEntry 0, g) = ?r"
    using n(3) m(2) post_done by (simp only: funpow_add comp_apply) (auto split: option.split)
  then show ?thesis using n(1) m(1) by (simp add: PostTaskHelper_def)
qed

text \<open>The lock does not protect the loop: a thread that is stopped while another one posts to it under the
  lock can destroy its loop before the task is posted.  Here the UI thread posts to the IO thread.\<close>

lemma post_races_with_stop: "\<exists>h. posting demo_env UI 1 IO 7 0 True demo_table FreedLoop h"
proof -
  let ?step = "post_step demo_env (Some 1) IO 7 0 True"
  let ?g = "demo_table\<lparr>bg_lock := True\<rparr>"
  let ?t = "\<lparr>bt_identifier = IO, bt_message_loop = Some 2\<rparr>"
  let ?g1 = "?g\<lparr>bg_objects := (bg_objects ?g)(20 \<mapsto> ?t\<lparr>bt_message_loop := None\<rparr>)\<rparr>"
  let ?g2 = "?g1\<lparr>bg_loops := (bg_loops ?g1)(2 := None)\<rparr>"
  have s: "(?step ^^ 6) (ScanEntry 0, demo_table) = (PostTo True 2, ?g)"
    by (simp add: numeral_eq_Suc thread_ids_def demo_table_def thread_at_def
        target_thread_outlives_current_def less_eq_thread_id_def)
  have "posting demo_env UI 1 IO 7 0 True demo_table (PostTo True 2) ?g2"
  proof (rule posting_other [OF posting_other [OF posting_steps [OF posting_start s]]])
    show "table_step UI 7 ?g ?g1"
      by (rule table_stop) (auto simp: demo_table_def may_end_def less_thread_id_def elim: thread_index.elims)
    show "table_step UI 7 ?g1 ?g2"
      by (rule table_destroy) (auto simp: unused_loop_def demo_table_def split: if_splits)
  qed
  then have "posting demo_env UI 1 IO 7 0 True demo_table FreedLoop ?g2"
    by (rule posting_own) simp
  then show ?thesis by blast
qed

text \<open>The scan for the poster's own entry takes no lock either.  It is safe for a thread of the table, which
  stops at its own entry; any other thread reads the entries of threads that may go meanwhile.\<close>

lemma unregistered_scan_races: "\<exists>h. posting demo_env UI 99 UI 7 0 True demo_table FreedThread h"
proof -
  let ?step = "post_step demo_env (Some 99) UI 7 0 True"
  let ?g = "BrowserThreadImpl_clear IO demo_table"
  have s: "(?step ^^ 9) (ScanEntry 0, demo_table) = (ScanLoop 7, demo_table)"
    by (simp add: numeral_eq_Suc thread_ids_def demo_table_def thread_at_def)
  have "posting demo_env UI 99 UI 7 0 True demo_table (ScanLoop 7) ?g"
  proof (rule posting_other [OF posting_steps [OF posting_start s]])
    show "table_step UI 7 demo_table ?g"
      by (rule table_clear)
        (auto simp: demo_table_def may_end_def less_thread_id_def elim: thread_index.elims)
  qed
  then have "posting demo_env UI 99 UI 7 0 True demo_table FreedThread ?g"
    by (rule posting_own) (simp add: thread_at_def BrowserThreadImpl_clear_def thread_ids_def)
  then show ?thesis by blast
qed

text \<open>A thread that has no loop counts as the first registered thread whose loop is null: one that has not
  started, or has exited.\<close>

lemma null_loop_matches: "thread_at i g = Some t \<Longrightarrow> bt_message_loop t = None \<Longrightarrow> CurrentlyOn None i g"
  by (simp add: CurrentlyOn_def)

end
