(* ===== verification/ChildProcess.thy ===== *)
theory ChildProcess
  imports Thread_Props Message_Facts
begin

text \<open>
  The processes of the server (\<open>ServerPort/ipc_process\<close>): the launcher of a child
  (\<open>child_process_launcher.cc\<close>), the end of a process (\<open>base/process_util_win.cc\<close>), and the child's own
  side, its reference count and main thread (\<open>child_process.cc\<close>, \<open>child_thread.cc\<close>).
\<close>

section \<open>The end of a process\<close>

datatype termination_status =
    NORMAL_TERMINATION | ABNORMAL_TERMINATION | PROCESS_WAS_KILLED | PROCESS_CRASHED | STILL_RUNNING

definition STILL_ACTIVE :: u32 where "STILL_ACTIVE = 0x103"
definition WAIT_TIMEOUT :: u32 where "WAIT_TIMEOUT = 258"
definition kNormalTerminationExitCode :: u32 where "kNormalTerminationExitCode = 0"
definition kProcessKilledExitCode :: u32 where "kProcessKilledExitCode = 1"
definition kDebuggerInactiveExitCode :: u32 where "kDebuggerInactiveExitCode = 0xC0000354"
definition kKeyboardInterruptExitCode :: u32 where "kKeyboardInterruptExitCode = 0xC000013A"
definition kDebuggerTerminatedExitCode :: u32 where "kDebuggerTerminatedExitCode = 0x40010004"

text \<open>\<open>code\<close> is the result of \<open>GetExitCodeProcess\<close>, \<open>None\<close> if it fails, \<open>wait\<close> that of
  \<open>WaitForSingleObject\<close>; \<open>exit_code\<close> is the variable the caller passes.\<close>

definition GetTerminationStatus :: "u32 option \<Rightarrow> u32 \<Rightarrow> i32 \<Rightarrow> termination_status \<times> i32" where
  "GetTerminationStatus code wait exit_code =
     (case code of
        None \<Rightarrow> (NORMAL_TERMINATION, kNormalTerminationExitCode)
      | Some c \<Rightarrow>
          if c = STILL_ACTIVE then
            (if wait = WAIT_TIMEOUT then (STILL_RUNNING, wait) else (ABNORMAL_TERMINATION, exit_code))
          else
            (if c = kNormalTerminationExitCode then NORMAL_TERMINATION
             else if c \<in> {kDebuggerInactiveExitCode, kKeyboardInterruptExitCode, kDebuggerTerminatedExitCode,
                          kProcessKilledExitCode} then PROCESS_WAS_KILLED
             else PROCESS_CRASHED, c))"

section \<open>The launcher\<close>

datatype launcher_task = TerminateInternal u32 | SetBackgrounded u32 bool

type_synonym 'w globals = "(launcher_task, 'w) thread_globals"

text \<open>\<open>ChildProcessLauncher::Context\<close>; \<open>lc_client\<close> says whether \<open>client_\<close> is not null, \<open>lc_handle\<close> is the
  handle of \<open>process_\<close>, null when there is none.\<close>

record launcher =
  lc_client :: bool
  lc_client_thread_id :: thread_id
  lc_handle :: u32
  lc_status :: termination_status
  lc_exit_code :: i32
  lc_starting :: bool
  lc_terminate_on_shutdown :: bool

definition LauncherContext_new :: launcher where
  "LauncherContext_new =
     \<lparr>lc_client = False, lc_client_thread_id = UI, lc_handle = 0, lc_status = NORMAL_TERMINATION,
      lc_exit_code = 0, lc_starting = True, lc_terminate_on_shutdown = True\<rparr>"

definition Launcher_Terminate ::
    "(launcher_task, 'w) loop_env \<Rightarrow> nat option \<Rightarrow> launcher \<Rightarrow> 'w globals \<Rightarrow> launcher \<times> 'w globals" where
  "Launcher_Terminate env cur c g =
     (if lc_handle c = 0 then (c, g)
      else if \<not> lc_terminate_on_shutdown c then (c, g)
      else (c\<lparr>lc_handle := 0\<rparr>, snd (BT_PostTask env cur PROCESS_LAUNCHER (TerminateInternal (lc_handle c)) g)))"

text \<open>\<open>Launch\<close> up to the call of the client, with the handle \<open>LaunchProcess\<close> got; the result says whether
  \<open>OnProcessLaunched\<close> is called.\<close>

definition Launcher_Launch ::
    "(launcher_task, 'w) loop_env \<Rightarrow> nat option \<Rightarrow> u32 \<Rightarrow> bool \<Rightarrow> launcher \<Rightarrow> 'w globals
      \<Rightarrow> bool \<times> launcher \<times> 'w globals" where
  "Launcher_Launch env cur handle client c g =
     (let c1 = c\<lparr>lc_client := client, lc_starting := False, lc_handle := handle\<rparr>
      in if lc_client c1 then (True, c1, g) else (False, Launcher_Terminate env cur c1 g))"

definition Launcher_Notify ::
    "(launcher_task, 'w) loop_env \<Rightarrow> nat option \<Rightarrow> u32 \<Rightarrow> launcher \<Rightarrow> 'w globals
      \<Rightarrow> bool \<times> launcher \<times> 'w globals" where
  "Launcher_Notify env cur handle c g =
     (let c1 = c\<lparr>lc_starting := False, lc_handle := handle\<rparr>
      in if lc_client c1 then (True, c1, g) else (False, Launcher_Terminate env cur c1 g))"

text \<open>\<open>LaunchInternal\<close> posts \<open>Notify\<close> back only for a process that started.\<close>

definition LaunchInternal :: "u32 \<Rightarrow> (u32 \<Rightarrow> 's \<Rightarrow> 's) \<Rightarrow> 's \<Rightarrow> 's" where
  "LaunchInternal handle post_notify s = (if handle \<noteq> 0 then post_notify handle s else s)"

text \<open>\<open>None\<close>: the \<open>CHECK\<close> aborts the process.\<close>

definition Launcher_ResetClient :: "nat option \<Rightarrow> 'w globals \<Rightarrow> launcher \<Rightarrow> launcher option" where
  "Launcher_ResetClient cur g c =
     (if \<not> CurrentlyOn cur (lc_client_thread_id c) g then None else Some (c\<lparr>lc_client := False\<rparr>))"

text \<open>The destructor resets the client and drops the last reference to the context, which terminates the
  process.\<close>

definition Launcher_delete ::
    "(launcher_task, 'w) loop_env \<Rightarrow> nat option \<Rightarrow> launcher \<Rightarrow> 'w globals \<Rightarrow> (launcher \<times> 'w globals) option" where
  "Launcher_delete env cur c g =
     map_option (\<lambda>c1. Launcher_Terminate env cur c1 g) (Launcher_ResetClient cur g c)"

definition Launcher_IsStarting :: "launcher \<Rightarrow> bool" where
  "Launcher_IsStarting c = lc_starting c"

definition Launcher_GetHandle :: "launcher \<Rightarrow> u32" where
  "Launcher_GetHandle c = lc_handle c"

definition GetChildTerminationStatus ::
    "u32 option \<Rightarrow> u32 \<Rightarrow> launcher \<Rightarrow> (termination_status \<times> i32) \<times> launcher" where
  "GetChildTerminationStatus code wait c =
     (if lc_handle c = 0 then ((lc_status c, lc_exit_code c), c)
      else let (status, exit_code) = GetTerminationStatus code wait (lc_exit_code c);
               c1 = c\<lparr>lc_status := status, lc_exit_code := exit_code\<rparr>
           in ((status, exit_code), if status \<noteq> STILL_RUNNING then c1\<lparr>lc_handle := 0\<rparr> else c1))"

definition Launcher_SetProcessBackgrounded ::
    "(launcher_task, 'w) loop_env \<Rightarrow> nat option \<Rightarrow> bool \<Rightarrow> launcher \<Rightarrow> 'w globals \<Rightarrow> 'w globals" where
  "Launcher_SetProcessBackgrounded env cur background c g =
     snd (BT_PostTask env cur PROCESS_LAUNCHER (SetBackgrounded (Launcher_GetHandle c) background) g)"

definition SetTerminateChildOnShutdown :: "bool \<Rightarrow> launcher \<Rightarrow> launcher" where
  "SetTerminateChildOnShutdown b c = c\<lparr>lc_terminate_on_shutdown := b\<rparr>"

section \<open>The child process\<close>

text \<open>\<open>ChildProcess\<close> with its \<open>ChildThread\<close>.  The channel is a parameter, \<open>None\<close> while \<open>channel_\<close> is null;
  \<open>cp_timer\<close> is the delayed task bound to \<open>EnsureConnected\<close>, \<open>cp_weak\<close> whether its weak pointer is valid;
  \<open>cp_quits\<close> counts the calls of \<open>MessageLoop::Quit\<close>, \<open>cp_killed\<close> says that the process has killed itself.\<close>

record 'c child =
  cp_ref_count :: i32
  cp_shutdown_event :: bool
  cp_main_thread :: bool
  cp_channel :: "'c option"
  cp_on_channel_error_called :: bool
  cp_weak :: bool
  cp_timer :: bool
  cp_quits :: nat
  cp_killed :: bool

definition ChildProcess_new :: "'c child" where
  "ChildProcess_new =
     \<lparr>cp_ref_count = 0, cp_shutdown_event = False, cp_main_thread = False, cp_channel = None,
      cp_on_channel_error_called = False, cp_weak = True, cp_timer = False, cp_quits = 0, cp_killed = False\<rparr>"

definition kConnectionTimeoutS :: int where "kConnectionTimeoutS = 15"

text \<open>\<open>ChildThread::Init\<close>, and \<open>ClientThreadImpl::Init\<close> after it.\<close>

definition ChildThread_Init :: "'c \<Rightarrow> 'c child \<Rightarrow> 'c child" where
  "ChildThread_Init channel p =
     p\<lparr>cp_on_channel_error_called := False, cp_channel := Some channel, cp_timer := True\<rparr>"

definition ClientThreadImpl_Init :: "'c child \<Rightarrow> 'c child" where
  "ClientThreadImpl_Init p = p\<lparr>cp_main_thread := True\<rparr>"

definition quit_loop :: "'c child \<Rightarrow> 'c child" where
  "quit_loop p = p\<lparr>cp_quits := cp_quits p + 1\<rparr>"

definition Child_OnChannelConnected :: "i32 \<Rightarrow> 'c child \<Rightarrow> 'c child" where
  "Child_OnChannelConnected peer_pid p = p\<lparr>cp_weak := False\<rparr>"

definition Child_OnChannelError :: "'c child \<Rightarrow> 'c child" where
  "Child_OnChannelError p = quit_loop (p\<lparr>cp_on_channel_error_called := True\<rparr>)"

definition Child_OnShutdown :: "'c child \<Rightarrow> 'c child" where
  "Child_OnShutdown p = quit_loop p"

definition EnsureConnected :: "'c child \<Rightarrow> 'c child" where
  "EnsureConnected p = p\<lparr>cp_killed := True\<rparr>"

text \<open>A task bound to an invalid weak pointer does nothing.\<close>

definition run_timer :: "'c child \<Rightarrow> 'c child" where
  "run_timer p =
     (if cp_timer p
      then let p1 = p\<lparr>cp_timer := False\<rparr> in if cp_weak p1 then EnsureConnected p1 else p1
      else p)"

definition OnProcessFinalRelease :: "'c child \<Rightarrow> 'c child" where
  "OnProcessFinalRelease p = (if cp_on_channel_error_called p then quit_loop p else p)"

definition AddRefProcess :: "'c child \<Rightarrow> 'c child" where
  "AddRefProcess p = p\<lparr>cp_ref_count := cp_ref_count p + 1\<rparr>"

definition ReleaseProcess :: "'c child \<Rightarrow> 'c child" where
  "ReleaseProcess p =
     (let p1 = p\<lparr>cp_ref_count := cp_ref_count p - 1\<rparr>
      in if cp_ref_count p1 \<noteq> 0 then p1 else if cp_main_thread p1 then OnProcessFinalRelease p1 else p1)"

text \<open>The destructor of the process signals the event before it destroys the main thread.  The thread
  clears the task runner of its channel first, so that destroying the channel does not close it.\<close>

definition ChildThread_delete :: "'c child \<Rightarrow> 'c child" where
  "ChildThread_delete p = p\<lparr>cp_channel := None, cp_weak := False\<rparr>"

definition ChildProcess_delete :: "'c child \<Rightarrow> 'c child" where
  "ChildProcess_delete p =
     (let p1 = p\<lparr>cp_shutdown_event := True\<rparr>
      in if cp_main_thread p1 then (ChildThread_delete p1)\<lparr>cp_main_thread := False\<rparr> else p1)"

definition Child_Send ::
    "(message \<Rightarrow> 'c \<Rightarrow> bool \<times> 'c) \<Rightarrow> message \<Rightarrow> 'c child \<Rightarrow> bool \<times> 'c child" where
  "Child_Send send m p =
     (case cp_channel p of
        None \<Rightarrow> (False, p)
      | Some c \<Rightarrow> let (r, c') = send m c in (r, p\<lparr>cp_channel := Some c'\<rparr>))"

text \<open>The message map of the child is empty and nothing clears \<open>handled\<close>.\<close>

definition Child_OnControlMessageReceived :: "message \<Rightarrow> bool" where
  "Child_OnControlMessageReceived m = False"

definition Child_OnMessageReceived :: "message \<Rightarrow> bool" where
  "Child_OnMessageReceived m =
     (let handled = True
      in if handled then True
         else if routing_id m = Some MSG_ROUTING_CONTROL then Child_OnControlMessageReceived m else True)"

text \<open>What happens to the child, on its main thread; a killed process does nothing any more.\<close>

datatype child_event = EvConnected i32 | EvError | EvTimer | EvShutdown | EvAddRef | EvRelease | EvMessage message

definition child_step :: "child_event \<Rightarrow> 'c child \<Rightarrow> 'c child" where
  "child_step e p =
     (if cp_killed p then p
      else case e of
          EvConnected peer_pid \<Rightarrow> Child_OnChannelConnected peer_pid p
        | EvError \<Rightarrow> Child_OnChannelError p
        | EvTimer \<Rightarrow> run_timer p
        | EvShutdown \<Rightarrow> Child_OnShutdown p
        | EvAddRef \<Rightarrow> AddRefProcess p
        | EvRelease \<Rightarrow> ReleaseProcess p
        | EvMessage m \<Rightarrow> p)"

lemma child_step_event [simp]:
  "cp_killed p \<Longrightarrow> child_step e p = p"
  "\<not> cp_killed p \<Longrightarrow> child_step (EvConnected x) p = Child_OnChannelConnected x p"
  "\<not> cp_killed p \<Longrightarrow> child_step EvError p = Child_OnChannelError p"
  "\<not> cp_killed p \<Longrightarrow> child_step EvTimer p = run_timer p"
  "\<not> cp_killed p \<Longrightarrow> child_step EvShutdown p = Child_OnShutdown p"
  "\<not> cp_killed p \<Longrightarrow> child_step EvAddRef p = AddRefProcess p"
  "\<not> cp_killed p \<Longrightarrow> child_step EvRelease p = ReleaseProcess p"
  "\<not> cp_killed p \<Longrightarrow> child_step (EvMessage m) p = p"
  by (simp_all add: child_step_def)

section \<open>What the launcher guarantees\<close>

text \<open>A handle is reported, kept while the process runs, and given up once.\<close>

lemma BT_PostTask_threads [simp]: "bg_threads (snd (BT_PostTask env cur i task g)) = bg_threads g"
  by (simp add: BT_PostTask_def PostTaskHelper_def posted_def post_step_threads)

lemma Launcher_Terminate_twice:
  assumes "Launcher_Terminate env cur c g = (c1, g1)" "lc_terminate_on_shutdown c"
  shows "Launcher_Terminate env cur c1 g1 = (c1, g1)"
  using assms by (auto simp: Launcher_Terminate_def split: if_splits)

text \<open>Destroying the launcher aborts the process unless it happens on a thread registered as the UI
  thread, or on one without a loop.\<close>

lemma launcher_delete_aborts:
  "lc_client_thread_id c = UI \<Longrightarrow> bg_threads g UI = None \<Longrightarrow> Launcher_delete env cur c g = None"
  by (simp add: Launcher_delete_def Launcher_ResetClient_def CurrentlyOn_def thread_at_def)

text \<open>Giving up the last reference without a channel error does not end the process: nothing is sent and
  the loop is not told to quit.\<close>

lemma final_release_alone:
  "\<not> cp_on_channel_error_called p \<Longrightarrow> cp_quits (ReleaseProcess p) = cp_quits p \<and>
     cp_killed (ReleaseProcess p) = cp_killed p"
  by (simp add: ReleaseProcess_def OnProcessFinalRelease_def Let_def)

section \<open>The life of a child\<close>

text \<open>The timer runs while it is armed.\<close>

fun killed_by_timer :: "child_event list \<Rightarrow> bool" where
  "killed_by_timer [] = False"
| "killed_by_timer (EvTimer # es) = True"
| "killed_by_timer (EvConnected x # es) = False"
| "killed_by_timer (e # es) = killed_by_timer es"

abbreviation child_life :: "child_event list \<Rightarrow> 'c child \<Rightarrow> 'c child" where
  "child_life es p \<equiv> fold child_step es p"

lemma killed_stays: "cp_killed p \<Longrightarrow> child_life es p = p"
  by (induction es) simp_all

lemma child_no_timer:
  assumes "\<not> cp_killed p" "\<not> cp_weak p \<or> \<not> cp_timer p"
  shows "\<not> cp_killed (child_life es p)"
  using assms
proof (induction es arbitrary: p)
  case (Cons e es)
  have "\<not> cp_killed (child_step e p) \<and> (\<not> cp_weak (child_step e p) \<or> \<not> cp_timer (child_step e p))"
    using Cons.prems
    by (cases e) (auto simp: Child_OnChannelConnected_def Child_OnChannelError_def Child_OnShutdown_def
      quit_loop_def run_timer_def EnsureConnected_def AddRefProcess_def ReleaseProcess_def
      OnProcessFinalRelease_def Let_def)
  then show ?case using Cons.IH by simp
qed simp

lemma child_armed:
  assumes "\<not> cp_killed p" "cp_weak p" "cp_timer p"
  shows "cp_killed (child_life es p) = killed_by_timer es"
  using assms
proof (induction es arbitrary: p)
  case (Cons e es)
  show ?case
  proof (cases e)
    case (EvConnected x)
    have "\<not> cp_killed (child_life es (Child_OnChannelConnected x p))"
      by (rule child_no_timer) (use Cons.prems in \<open>simp_all add: Child_OnChannelConnected_def\<close>)
    then show ?thesis using EvConnected Cons.prems by simp
  next
    case EvTimer
    have "cp_killed (run_timer p)" using Cons.prems by (simp add: run_timer_def EnsureConnected_def)
    then show ?thesis using EvTimer Cons.prems killed_stays [of "run_timer p" es] by simp
  qed (use Cons in \<open>auto simp: Child_OnChannelError_def Child_OnShutdown_def quit_loop_def AddRefProcess_def
      ReleaseProcess_def OnProcessFinalRelease_def Let_def\<close>)
qed simp

lemma killed_by_timer_iff:
  "killed_by_timer es \<longleftrightarrow>
     (\<exists>us vs. es = us @ EvTimer # vs \<and> EvTimer \<notin> set us \<and> (\<forall>x. EvConnected x \<notin> set us))"
proof
  show "killed_by_timer es \<Longrightarrow>
      \<exists>us vs. es = us @ EvTimer # vs \<and> EvTimer \<notin> set us \<and> (\<forall>x. EvConnected x \<notin> set us)"
  proof (induction es)
    case (Cons e es)
    show ?case
    proof (cases "e = EvTimer")
      case False
      then have "killed_by_timer es" "\<forall>x. EvConnected x \<noteq> e" using Cons.prems by (cases e; simp)+
      then obtain us vs where "es = us @ EvTimer # vs" "EvTimer \<notin> set us" "\<forall>x. EvConnected x \<notin> set us"
        using Cons.IH by blast
      then show ?thesis using False \<open>\<forall>x. EvConnected x \<noteq> e\<close>
        by (intro exI [of _ "e # us"] exI [of _ vs]) auto
    qed (auto intro: exI [of _ "[]"])
  qed simp
next
  have "killed_by_timer (us @ EvTimer # vs)" if "EvTimer \<notin> set us" "\<forall>x. EvConnected x \<notin> set us" for us vs
    using that
  proof (induction us)
    case (Cons e us)
    then show ?case by (cases e) auto
  qed simp
  then show "\<exists>us vs. es = us @ EvTimer # vs \<and> EvTimer \<notin> set us \<and> (\<forall>x. EvConnected x \<notin> set us) \<Longrightarrow>
      killed_by_timer es" by blast
qed

text \<open>C33: a child that has started its channel kills itself exactly when its timer runs before the
  channel has connected, whatever else happens; connected in time, it never does.\<close>

theorem child_killed_iff_unconnected:
  "cp_killed (child_life es (ClientThreadImpl_Init (ChildThread_Init channel ChildProcess_new))) \<longleftrightarrow>
     (\<exists>us vs. es = us @ EvTimer # vs \<and> EvTimer \<notin> set us \<and> (\<forall>x. EvConnected x \<notin> set us))"
proof -
  let ?p = "ClientThreadImpl_Init (ChildThread_Init channel ChildProcess_new)"
  have "cp_killed (child_life es ?p) = killed_by_timer es"
    by (rule child_armed) (simp_all add: ClientThreadImpl_Init_def ChildThread_Init_def ChildProcess_new_def)
  then show ?thesis by (simp only: killed_by_timer_iff)
qed

end
