(* ===== verification/Params_Model.thy ===== *)
theory Params_Model
  imports Pickle_Chunks Message_Model "HOL-Library.List_Lexorder"
begin

text \<open>
  \<open>ipc/ipc_message_utils.{h,cc}\<close> and \<open>ipc/ipc_message_utils_impl.h\<close>: how parameters of every type
  are written into a message and read back.  A \<open>Write\<close> returns the changed message (the \<open>bool\<close>
  results of the pickle are dropped, as in the code); a \<open>Read\<close> is a reader of the iterator.  A
  template over element types takes the \<open>Write\<close> and \<open>Read\<close> of its elements as arguments, and
  \<open>sizeof(P)\<close> as a number.  The result of a container read starts from what the target held.
\<close>

section \<open>Primitive types\<close>

definition BoolParam_Write :: "realloc_fn \<Rightarrow> bool \<Rightarrow> message \<Rightarrow> message option" where
  "BoolParam_Write ra p = drop_result (WriteBool ra p)"
definition BoolParam_Read :: "bool reader" where "BoolParam_Read = ReadBool"

definition IntParam_Write :: "realloc_fn \<Rightarrow> i32 \<Rightarrow> message \<Rightarrow> message option" where
  "IntParam_Write ra p = drop_result (WriteInt ra p)"
definition IntParam_Read :: "i32 reader" where "IntParam_Read = ReadInt"

definition UIntParam_Write :: "realloc_fn \<Rightarrow> u32 \<Rightarrow> message \<Rightarrow> message option" where
  "UIntParam_Write ra p = drop_result (WriteInt ra p)"
definition UIntParam_Read :: "u32 reader" where "UIntParam_Read = ReadInt"

definition LongParam_Write :: "realloc_fn \<Rightarrow> i32 \<Rightarrow> message \<Rightarrow> message option" where
  "LongParam_Write ra p = drop_result (WriteLong ra p)"
definition LongParam_Read :: "i32 reader" where "LongParam_Read = ReadLong"

definition ULongParam_Write :: "realloc_fn \<Rightarrow> u32 \<Rightarrow> message \<Rightarrow> message option" where
  "ULongParam_Write ra p = drop_result (WriteLong ra p)"
definition ULongParam_Read :: "u32 reader" where "ULongParam_Read = ReadLong"

definition Int64Param_Write :: "realloc_fn \<Rightarrow> u64 \<Rightarrow> message \<Rightarrow> message option" where
  "Int64Param_Write ra p = drop_result (WriteInt64 ra p)"
definition Int64Param_Read :: "u64 reader" where "Int64Param_Read = ReadInt64"

definition UInt64Param_Write :: "realloc_fn \<Rightarrow> u64 \<Rightarrow> message \<Rightarrow> message option" where
  "UInt64Param_Write ra p = drop_result (WriteInt64 ra p)"
definition UInt64Param_Read :: "u64 reader" where "UInt64Param_Read = ReadInt64"

definition UShortParam_Write :: "realloc_fn \<Rightarrow> u16 \<Rightarrow> message \<Rightarrow> message option" where
  "UShortParam_Write ra p = drop_result (WriteBytes ra (bytes16 p) 2)"
definition UShortParam_Read :: "u16 reader" where
  "UShortParam_Read = rbind (ReadBytes 2) (\<lambda>data. rret (word16 data))"

text \<open>\<open>float\<close> and \<open>double\<close> are their bit patterns; they travel as length-prefixed data, and a
  length other than the size of the type is refused.\<close>

definition FloatParam_Write :: "realloc_fn \<Rightarrow> u32 \<Rightarrow> message \<Rightarrow> message option" where
  "FloatParam_Write ra p = drop_result (WriteData ra (bytes32 p) 4)"
definition FloatParam_Read :: "u32 reader" where
  "FloatParam_Read = rbind ReadData (\<lambda>data. if length data \<noteq> 4 then rfail else rret (word32 data))"

definition DoubleParam_Write :: "realloc_fn \<Rightarrow> u64 \<Rightarrow> message \<Rightarrow> message option" where
  "DoubleParam_Write ra p = drop_result (WriteData ra (bytes64 p) 8)"
definition DoubleParam_Read :: "u64 reader" where
  "DoubleParam_Read = rbind ReadData (\<lambda>data. if length data \<noteq> 8 then rfail else rret (word64 data))"

definition StringParam_Write :: "realloc_fn \<Rightarrow> bytes \<Rightarrow> message \<Rightarrow> message option" where
  "StringParam_Write ra p = drop_result (WriteString ra p)"
definition StringParam_Read :: "bytes reader" where "StringParam_Read = ReadString"

definition WStringParam_Write :: "realloc_fn \<Rightarrow> u16 list \<Rightarrow> message \<Rightarrow> message option" where
  "WStringParam_Write ra p = drop_result (WriteWString ra p)"
definition WStringParam_Read :: "u16 list reader" where "WStringParam_Read = ReadWString"

section \<open>Containers\<close>

text \<open>The loops \<open>for (i = 0; i < n; i++)\<close> of the readers and the writers.\<close>

fun for_loop :: "nat \<Rightarrow> nat \<Rightarrow> (nat \<Rightarrow> 'a \<Rightarrow> 'a reader) \<Rightarrow> 'a \<Rightarrow> 'a reader" where
  "for_loop 0 i body acc = rret acc"
| "for_loop (Suc n) i body acc = rbind (body i acc) (for_loop n (Suc i) body)"

fun write_each ::
    "(realloc_fn \<Rightarrow> 'a \<Rightarrow> message \<Rightarrow> message option) \<Rightarrow> realloc_fn \<Rightarrow> 'a list \<Rightarrow> message \<Rightarrow> message option"
  where
  "write_each W ra [] m = Some m"
| "write_each W ra (x # xs) m = do { m1 \<leftarrow> W ra x m; write_each W ra xs m1 }"

definition ByteVector_Write :: "realloc_fn \<Rightarrow> bytes \<Rightarrow> message \<Rightarrow> message option" where
  "ByteVector_Write ra p =
     (if p = [] then drop_result (WriteData ra [] 0)
      else drop_result (WriteData ra p (of_nat (length p))))"
definition ByteVector_Read :: "bytes reader" where "ByteVector_Read = ReadData"

definition BoolVector_Write :: "realloc_fn \<Rightarrow> bool list \<Rightarrow> message \<Rightarrow> message option" where
  "BoolVector_Write ra p m = do {
     m1 \<leftarrow> IntParam_Write ra (of_nat (length p)) m;
     write_each BoolParam_Write ra p m1 }"
definition BoolVector_Read :: "bool list reader" where
  "BoolVector_Read = rbind ReadLength (\<lambda>size.
     for_loop (unat size) 0 (\<lambda>i acc. rbind BoolParam_Read (\<lambda>v. rret (acc @ [v]))) [])"

definition Vector_Write ::
    "(realloc_fn \<Rightarrow> 'a \<Rightarrow> message \<Rightarrow> message option) \<Rightarrow> realloc_fn \<Rightarrow> 'a list \<Rightarrow> message \<Rightarrow> message option"
  where
  "Vector_Write W ra p m = do {
     m1 \<leftarrow> IntParam_Write ra (of_nat (length p)) m;
     write_each W ra p m1 }"

definition INT_MAX :: nat where "INT_MAX = 2147483647"

definition Vector_Read :: "nat \<Rightarrow> 'a reader \<Rightarrow> 'a list reader" where
  "Vector_Read sizeof_P R = rbind ReadLength (\<lambda>size.
     if INT_MAX div sizeof_P \<le> unat size then rfail
     else for_loop (unat size) 0 (\<lambda>i acc. rbind R (\<lambda>v. rret (acc @ [v]))) [])"

text \<open>(A vector is read into a new one: \<open>resize\<close> of an empty vector makes the elements.)

  \<open>std::set\<close> and \<open>std::map\<close> are strictly sorted lists; \<open>insert\<close> and \<open>operator[]\<close> on them.\<close>

fun set_insert :: "'a::linorder \<Rightarrow> 'a list \<Rightarrow> 'a list" where
  "set_insert x [] = [x]"
| "set_insert x (y # ys) =
     (if x < y then x # y # ys else if x = y then y # ys else y # set_insert x ys)"

fun map_put :: "'k::linorder \<Rightarrow> 'v \<Rightarrow> ('k \<times> 'v) list \<Rightarrow> ('k \<times> 'v) list" where
  "map_put k v [] = [(k, v)]"
| "map_put k v ((k', v') # xs) =
     (if k < k' then (k, v) # (k', v') # xs
      else if k = k' then (k, v) # xs else (k', v') # map_put k v xs)"

definition Set_Write ::
    "(realloc_fn \<Rightarrow> 'a \<Rightarrow> message \<Rightarrow> message option) \<Rightarrow> realloc_fn \<Rightarrow> 'a list \<Rightarrow> message \<Rightarrow> message option"
  where
  "Set_Write W ra p m = do {
     m1 \<leftarrow> IntParam_Write ra (of_nat (length p)) m;
     write_each W ra p m1 }"

definition Set_Read :: "'a::linorder reader \<Rightarrow> 'a list \<Rightarrow> 'a list reader" where
  "Set_Read R r = rbind ReadLength (\<lambda>size.
     for_loop (unat size) 0 (\<lambda>i acc. rbind R (\<lambda>item. rret (set_insert item acc))) r)"

definition Pair_Write ::
    "(realloc_fn \<Rightarrow> 'a \<Rightarrow> message \<Rightarrow> message option) \<Rightarrow> (realloc_fn \<Rightarrow> 'b \<Rightarrow> message \<Rightarrow> message option) \<Rightarrow>
     realloc_fn \<Rightarrow> 'a \<times> 'b \<Rightarrow> message \<Rightarrow> message option"
  where
  "Pair_Write WA WB ra p m = do { m1 \<leftarrow> WA ra (fst p) m; WB ra (snd p) m1 }"

definition Pair_Read :: "'a reader \<Rightarrow> 'b reader \<Rightarrow> ('a \<times> 'b) reader" where
  "Pair_Read RA RB = rbind RA (\<lambda>a. rbind RB (\<lambda>b. rret (a, b)))"

definition Map_Write ::
    "(realloc_fn \<Rightarrow> 'k \<Rightarrow> message \<Rightarrow> message option) \<Rightarrow> (realloc_fn \<Rightarrow> 'v \<Rightarrow> message \<Rightarrow> message option) \<Rightarrow>
     realloc_fn \<Rightarrow> ('k \<times> 'v) list \<Rightarrow> message \<Rightarrow> message option"
  where
  "Map_Write WK WV ra p m = do {
     m1 \<leftarrow> IntParam_Write ra (of_nat (length p)) m;
     write_each (Pair_Write WK WV) ra p m1 }"

text \<open>\<open>V& value = (*r)[k]\<close>: the value is read into the entry, which is new (\<open>V()\<close>) unless the key has
  come before.\<close>

definition map_entry :: "'v \<Rightarrow> 'k \<Rightarrow> ('k \<times> 'v) list \<Rightarrow> 'v" where
  "map_entry new k r = (case map_of r k of None \<Rightarrow> new | Some value \<Rightarrow> value)"

definition Map_Read ::
    "'k::linorder reader \<Rightarrow> ('v \<Rightarrow> 'v reader) \<Rightarrow> 'v \<Rightarrow> ('k \<times> 'v) list \<Rightarrow> ('k \<times> 'v) list reader" where
  "Map_Read RK read_into new r = rbind IntParam_Read (\<lambda>size.
     if sint size < 0 then rfail
     else for_loop (unat size) 0
       (\<lambda>i acc. rbind RK (\<lambda>k. rbind (read_into (map_entry new k acc)) (\<lambda>value.
          rret (map_put k value acc)))) r)"

text \<open>The tuples of message parameters are nested pairs; \<open>Tuple0\<close> is the unit.\<close>

definition Tuple0_Write :: "realloc_fn \<Rightarrow> unit \<Rightarrow> message \<Rightarrow> message option" where
  "Tuple0_Write ra p m = Some m"
definition Tuple0_Read :: "unit reader" where "Tuple0_Read = rret ()"

definition Tuple1_Write ::
    "(realloc_fn \<Rightarrow> 'a \<Rightarrow> message \<Rightarrow> message option) \<Rightarrow> realloc_fn \<Rightarrow> 'a \<Rightarrow> message \<Rightarrow> message option" where
  "Tuple1_Write WA ra p = WA ra p"
definition Tuple1_Read :: "'a reader \<Rightarrow> 'a reader" where "Tuple1_Read RA = RA"

definition Tuple2_Write ::
    "(realloc_fn \<Rightarrow> 'a \<Rightarrow> message \<Rightarrow> message option) \<Rightarrow> (realloc_fn \<Rightarrow> 'b \<Rightarrow> message \<Rightarrow> message option) \<Rightarrow>
     realloc_fn \<Rightarrow> 'a \<times> 'b \<Rightarrow> message \<Rightarrow> message option"
  where
  "Tuple2_Write WA WB ra p m = do { m1 \<leftarrow> WA ra (fst p) m; WB ra (snd p) m1 }"
definition Tuple2_Read :: "'a reader \<Rightarrow> 'b reader \<Rightarrow> ('a \<times> 'b) reader" where
  "Tuple2_Read RA RB = rbind RA (\<lambda>a. rbind RB (\<lambda>b. rret (a, b)))"

definition Tuple3_Write ::
    "(realloc_fn \<Rightarrow> 'a \<Rightarrow> message \<Rightarrow> message option) \<Rightarrow> (realloc_fn \<Rightarrow> 'b \<Rightarrow> message \<Rightarrow> message option) \<Rightarrow>
     (realloc_fn \<Rightarrow> 'c \<Rightarrow> message \<Rightarrow> message option) \<Rightarrow>
     realloc_fn \<Rightarrow> 'a \<times> 'b \<times> 'c \<Rightarrow> message \<Rightarrow> message option"
  where
  "Tuple3_Write WA WB WC ra p m = do {
     m1 \<leftarrow> WA ra (fst p) m; m2 \<leftarrow> WB ra (fst (snd p)) m1; WC ra (snd (snd p)) m2 }"
definition Tuple3_Read :: "'a reader \<Rightarrow> 'b reader \<Rightarrow> 'c reader \<Rightarrow> ('a \<times> 'b \<times> 'c) reader" where
  "Tuple3_Read RA RB RC = rbind RA (\<lambda>a. rbind RB (\<lambda>b. rbind RC (\<lambda>c. rret (a, b, c))))"

section \<open>Values\<close>

text \<open>\<open>base::Value\<close> (\<open>base/values.h\<close>); a dictionary is a \<open>std::map\<close> from strings.\<close>

datatype base_value =
    VNull | VBoolean bool | VInteger i32 | VDouble u64 | VString bytes | VBinary bytes
  | VDictionary "(bytes \<times> base_value) list" | VList "base_value list"

fun GetType :: "base_value \<Rightarrow> i32" where
  "GetType VNull = 0"
| "GetType (VBoolean _) = 1"
| "GetType (VInteger _) = 2"
| "GetType (VDouble _) = 3"
| "GetType (VString _) = 4"
| "GetType (VBinary _) = 5"
| "GetType (VDictionary _) = 6"
| "GetType (VList _) = 7"

text \<open>\<open>FundamentalValue(double)\<close> replaces a NaN or an infinity (all exponent bits set) by zero.\<close>

definition IsFinite :: "u64 \<Rightarrow> bool" where
  "IsFinite d = (drop_bit 52 d AND 0x7FF \<noteq> 0x7FF)"

definition FundamentalValue_double :: "u64 \<Rightarrow> base_value" where
  "FundamentalValue_double d = VDouble (if IsFinite d then d else 0)"

definition ListValue_Set :: "nat \<Rightarrow> base_value \<Rightarrow> base_value list \<Rightarrow> base_value list" where
  "ListValue_Set index in_value xs =
     (if length xs \<le> index then xs @ replicate (index - length xs) VNull @ [in_value]
      else xs[index := in_value])"

definition kMaxRecursionDepth :: nat where "kMaxRecursionDepth = 100"

fun WriteValue :: "realloc_fn \<Rightarrow> nat \<Rightarrow> base_value \<Rightarrow> message \<Rightarrow> message option"
  and WriteEntries :: "realloc_fn \<Rightarrow> nat \<Rightarrow> (bytes \<times> base_value) list \<Rightarrow> message \<Rightarrow> message option"
  and WriteItems :: "realloc_fn \<Rightarrow> nat \<Rightarrow> base_value list \<Rightarrow> message \<Rightarrow> message option"
where
  "WriteValue ra recursion v m =
     (if recursion > kMaxRecursionDepth then Some m
      else do {
        m1 \<leftarrow> drop_result (WriteInt ra (GetType v)) m;
        (case v of
           VNull \<Rightarrow> Some m1
         | VBoolean b \<Rightarrow> BoolParam_Write ra b m1
         | VInteger i \<Rightarrow> IntParam_Write ra i m1
         | VDouble d \<Rightarrow> DoubleParam_Write ra d m1
         | VString s \<Rightarrow> StringParam_Write ra s m1
         | VBinary b \<Rightarrow> drop_result (WriteData ra b (of_nat (length b))) m1
         | VDictionary es \<Rightarrow> do {
             m2 \<leftarrow> IntParam_Write ra (of_nat (length es)) m1;
             WriteEntries ra recursion es m2 }
         | VList vs \<Rightarrow> do {
             m2 \<leftarrow> IntParam_Write ra (of_nat (length vs)) m1;
             WriteItems ra recursion vs m2 }) })"
| "WriteEntries ra recursion [] m = Some m"
| "WriteEntries ra recursion (e # es) m = do {
     m1 \<leftarrow> StringParam_Write ra (fst e) m;
     m2 \<leftarrow> WriteValue ra (recursion + 1) (snd e) m1;
     WriteEntries ra recursion es m2 }"
| "WriteItems ra recursion [] m = Some m"
| "WriteItems ra recursion (v # vs) m = do {
     m1 \<leftarrow> WriteValue ra (recursion + 1) v m;
     WriteItems ra recursion vs m1 }"

text \<open>The readers of a dictionary and a list take \<open>ReadValue(recursion + 1)\<close> as an argument.\<close>

definition ReadDictionaryValue ::
    "base_value reader \<Rightarrow> (bytes \<times> base_value) list \<Rightarrow> (bytes \<times> base_value) list reader" where
  "ReadDictionaryValue read_sub v = rbind IntParam_Read (\<lambda>size.
     for_loop (nat (sint size)) 0
       (\<lambda>i acc. rbind StringParam_Read (\<lambda>key. rbind read_sub (\<lambda>subval.
          rret (map_put key subval acc)))) v)"

definition ReadListValue :: "base_value reader \<Rightarrow> base_value list \<Rightarrow> base_value list reader" where
  "ReadListValue read_sub v = rbind IntParam_Read (\<lambda>size.
     for_loop (nat (sint size)) 0
       (\<lambda>i acc. rbind read_sub (\<lambda>subval. rret (ListValue_Set i subval acc))) v)"

text \<open>\<open>ReadValue\<close> by the number of levels that \<open>kMaxRecursionDepth\<close> still allows.\<close>

primrec ReadValue_levels :: "nat \<Rightarrow> base_value reader" where
  "ReadValue_levels 0 = rfail"
| "ReadValue_levels (Suc d) = rbind IntParam_Read (\<lambda>type.
     if type = 0 then rret VNull
     else if type = 1 then rbind BoolParam_Read (\<lambda>x. rret (VBoolean x))
     else if type = 2 then rbind IntParam_Read (\<lambda>x. rret (VInteger x))
     else if type = 3 then rbind DoubleParam_Read (\<lambda>x. rret (FundamentalValue_double x))
     else if type = 4 then rbind StringParam_Read (\<lambda>x. rret (VString x))
     else if type = 5 then rbind ReadData (\<lambda>x. rret (VBinary x))
     else if type = 6 then rbind (ReadDictionaryValue (ReadValue_levels d) []) (\<lambda>x. rret (VDictionary x))
     else if type = 7 then rbind (ReadListValue (ReadValue_levels d) []) (\<lambda>x. rret (VList x))
     else rfail)"

definition ReadValue :: "nat \<Rightarrow> base_value reader" where
  "ReadValue recursion = ReadValue_levels (kMaxRecursionDepth + 1 - recursion)"

definition DictionaryParam_Write ::
    "realloc_fn \<Rightarrow> (bytes \<times> base_value) list \<Rightarrow> message \<Rightarrow> message option" where
  "DictionaryParam_Write ra p = WriteValue ra 0 (VDictionary p)"

definition DictionaryParam_Read :: "(bytes \<times> base_value) list \<Rightarrow> (bytes \<times> base_value) list reader" where
  "DictionaryParam_Read r = rbind IntParam_Read (\<lambda>type.
     if type \<noteq> 6 then rfail else ReadDictionaryValue (ReadValue 1) r)"

definition ListParam_Write :: "realloc_fn \<Rightarrow> base_value list \<Rightarrow> message \<Rightarrow> message option" where
  "ListParam_Write ra p = WriteValue ra 0 (VList p)"

definition ListParam_Read :: "base_value list \<Rightarrow> base_value list reader" where
  "ListParam_Read r = rbind IntParam_Read (\<lambda>type.
     if type \<noteq> 7 then rfail else ReadListValue (ReadValue 1) r)"

section \<open>Other structures\<close>

definition FilePath_Write :: "realloc_fn \<Rightarrow> u16 list \<Rightarrow> message \<Rightarrow> message option" where
  "FilePath_Write ra p = drop_result (WriteString16 ra p)"
definition FilePath_Read :: "u16 list reader" where
  "FilePath_Read = rbind ReadString16 (\<lambda>path. if 0 \<in> set path then rfail else rret path)"

definition NullableString16_Write :: "realloc_fn \<Rightarrow> u16 list \<times> bool \<Rightarrow> message \<Rightarrow> message option" where
  "NullableString16_Write ra p m = do {
     m1 \<leftarrow> WStringParam_Write ra (fst p) m;
     BoolParam_Write ra (snd p) m1 }"
definition NullableString16_Read :: "(u16 list \<times> bool) reader" where
  "NullableString16_Read =
     rbind WStringParam_Read (\<lambda>string. rbind BoolParam_Read (\<lambda>is_null. rret (string, is_null)))"

text \<open>\<open>base::Time\<close>, \<open>TimeDelta\<close> and \<open>TimeTicks\<close> are their internal 64-bit values.\<close>

definition Time_Write :: "realloc_fn \<Rightarrow> u64 \<Rightarrow> message \<Rightarrow> message option" where
  "Time_Write ra p = Int64Param_Write ra p"
definition Time_Read :: "u64 reader" where "Time_Read = Int64Param_Read"

definition TimeDelta_Write :: "realloc_fn \<Rightarrow> u64 \<Rightarrow> message \<Rightarrow> message option" where
  "TimeDelta_Write ra p = Int64Param_Write ra p"
definition TimeDelta_Read :: "u64 reader" where "TimeDelta_Read = Int64Param_Read"

definition TimeTicks_Write :: "realloc_fn \<Rightarrow> u64 \<Rightarrow> message \<Rightarrow> message option" where
  "TimeTicks_Write ra p = Int64Param_Write ra p"
definition TimeTicks_Read :: "u64 reader" where "TimeTicks_Read = Int64Param_Read"

text \<open>On Windows a channel handle is sent as its name.\<close>

definition ChannelHandle_Write :: "realloc_fn \<Rightarrow> bytes \<Rightarrow> message \<Rightarrow> message option" where
  "ChannelHandle_Write ra p = StringParam_Write ra p"
definition ChannelHandle_Read :: "bytes reader" where "ChannelHandle_Read = StringParam_Read"

definition Handle_Write :: "realloc_fn \<Rightarrow> u32 \<Rightarrow> message \<Rightarrow> message option" where
  "Handle_Write ra p = drop_result (WriteInt ra p)"
definition Handle_Read :: "u32 reader" where "Handle_Read = rbind ReadInt (\<lambda>temp. rret temp)"

record log_data =
  ld_channel :: bytes
  ld_routing_id :: i32
  ld_type :: u32
  ld_flags :: bytes
  ld_sent :: u64
  ld_receive :: u64
  ld_dispatch :: u64
  ld_message_name :: bytes
  ld_params :: bytes

definition LogData_default :: log_data where
  "LogData_default = \<lparr>ld_channel = [], ld_routing_id = 0, ld_type = 0, ld_flags = [], ld_sent = 0,
     ld_receive = 0, ld_dispatch = 0, ld_message_name = [], ld_params = []\<rparr>"

definition LogData_Write :: "realloc_fn \<Rightarrow> log_data \<Rightarrow> message \<Rightarrow> message option" where
  "LogData_Write ra p m = do {
     m1 \<leftarrow> StringParam_Write ra (ld_channel p) m;
     m2 \<leftarrow> IntParam_Write ra (ld_routing_id p) m1;
     m3 \<leftarrow> UIntParam_Write ra (ld_type p) m2;
     m4 \<leftarrow> StringParam_Write ra (ld_flags p) m3;
     m5 \<leftarrow> Int64Param_Write ra (ld_sent p) m4;
     m6 \<leftarrow> Int64Param_Write ra (ld_receive p) m5;
     m7 \<leftarrow> Int64Param_Write ra (ld_dispatch p) m6;
     m8 \<leftarrow> StringParam_Write ra (ld_message_name p) m7;
     StringParam_Write ra (ld_params p) m8 }"

definition LogData_Read :: "log_data reader" where
  "LogData_Read =
     rbind StringParam_Read (\<lambda>a. rbind IntParam_Read (\<lambda>b. rbind UIntParam_Read (\<lambda>c.
     rbind StringParam_Read (\<lambda>d. rbind Int64Param_Read (\<lambda>e. rbind Int64Param_Read (\<lambda>f.
     rbind Int64Param_Read (\<lambda>g. rbind StringParam_Read (\<lambda>h. rbind StringParam_Read (\<lambda>i.
       rret \<lparr>ld_channel = a, ld_routing_id = b, ld_type = c, ld_flags = d, ld_sent = e,
             ld_receive = f, ld_dispatch = g, ld_message_name = h, ld_params = i\<rparr>)))))))))"

text \<open>A Windows \<open>LOGFONT\<close> (92 bytes; the face name is 32 units at offset 28) and a \<open>MSG\<close> (28 bytes)
  are their bytes.\<close>

definition LogFont_Write :: "realloc_fn \<Rightarrow> bytes \<Rightarrow> message \<Rightarrow> message option" where
  "LogFont_Write ra p = drop_result (WriteData ra p 92)"
definition LogFont_Read :: "bytes reader" where
  "LogFont_Read = rbind ReadData (\<lambda>data.
     if length data = 92 \<and> 0 \<in> set (bytes_units (take 64 (drop 28 data))) then rret data else rfail)"

definition Msg_Write :: "realloc_fn \<Rightarrow> bytes \<Rightarrow> message \<Rightarrow> message option" where
  "Msg_Write ra p = drop_result (WriteData ra p 28)"
definition Msg_Read :: "bytes reader" where
  "Msg_Read = rbind ReadData (\<lambda>data. if length data = 28 then rret data else rfail)"

text \<open>A message inside a message: header fields and payload of \<open>p\<close>; read into the message \<open>r\<close>.\<close>

definition MessageParam_Write :: "realloc_fn \<Rightarrow> message \<Rightarrow> message \<Rightarrow> message option" where
  "MessageParam_Write ra p m = do {
     rt \<leftarrow> routing_id p; ty \<leftarrow> msg_type p; fl \<leftarrow> flags p;
     ps \<leftarrow> payload_size p; b \<leftarrow> pk_header p;
     m1 \<leftarrow> drop_result (WriteUInt32 ra rt) m;
     m2 \<leftarrow> drop_result (WriteUInt32 ra ty) m1;
     m3 \<leftarrow> drop_result (WriteUInt32 ra fl) m2;
     drop_result (WriteData ra (drop (unat (pk_header_size p)) b) ps) m3 }"

definition MessageParam_Read ::
    "realloc_fn \<Rightarrow> message \<Rightarrow> iter \<Rightarrow> ((bool \<times> message) option \<times> iter)" where
  "MessageParam_Read ra r it =
     (case rbind ReadUInt32 (\<lambda>rt. rbind ReadUInt32 (\<lambda>ty. rbind ReadUInt32 (\<lambda>fl.
           rbind ReadData (\<lambda>pl. rret (rt, ty, fl, pl))))) it of
        (None, it') \<Rightarrow> (Some (False, r), it')
      | (Some (rt, ty, fl, pl), it') \<Rightarrow>
          (do { r1 \<leftarrow> SetHeaderValues rt ty fl r;
                WriteBytes ra pl (of_nat (length pl)) r1 }, it'))"

section \<open>Message schemas\<close>

definition Schema_Write ::
    "(realloc_fn \<Rightarrow> 'p \<Rightarrow> message \<Rightarrow> message option) \<Rightarrow> realloc_fn \<Rightarrow> 'p \<Rightarrow> message \<Rightarrow> message option" where
  "Schema_Write W ra p msg = W ra p msg"

definition Schema_Read :: "'p reader \<Rightarrow> message \<Rightarrow> 'p option option" where
  "Schema_Read R msg = do { it \<leftarrow> PickleIterator msg; Some (fst (R it)) }"

definition ReadSendParam :: "'p reader \<Rightarrow> message \<Rightarrow> 'p option option" where
  "ReadSendParam R msg = do { it \<leftarrow> GetDataIterator msg; Some (fst (R it)) }"

definition ReadReplyParam :: "'p reader \<Rightarrow> message \<Rightarrow> 'p option option" where
  "ReadReplyParam R msg = do { it \<leftarrow> GetDataIterator msg; Some (fst (R it)) }"

text \<open>\<open>ParamDeserializer::SerializeOutputParameters\<close>: the derived reader used by the caller.\<close>

definition ParamDeserializer :: "'r reader \<Rightarrow> iter \<Rightarrow> 'r option" where
  "ParamDeserializer R it = fst (R it)"

text \<open>The dispatchers of the message macros; \<open>func\<close> is the handler on the object \<open>obj\<close>.  The result
  of a synchronous dispatch is the reply given to \<open>sender->Send\<close>, the object, the reference counter
  and the returned \<open>ok\<close>.\<close>

definition Dispatch_async ::
    "'p reader \<Rightarrow> ('o \<Rightarrow> 'p \<Rightarrow> 'o) \<Rightarrow> message \<Rightarrow> 'o \<Rightarrow> (bool \<times> 'o) option" where
  "Dispatch_async R func msg obj = do {
     p \<leftarrow> Schema_Read R msg;
     Some (case p of None \<Rightarrow> (False, obj) | Some x \<Rightarrow> (True, func obj x)) }"

definition DispatchWithSendParams ::
    "realloc_fn \<Rightarrow> u32 option \<Rightarrow> (realloc_fn \<Rightarrow> 'r \<Rightarrow> message \<Rightarrow> message option) \<Rightarrow>
     ('o \<Rightarrow> 'p \<Rightarrow> 'o \<times> 'r) \<Rightarrow> 'p option \<Rightarrow> message \<Rightarrow> 'o \<Rightarrow> u32 \<Rightarrow>
     (message \<times> 'o \<times> u32 \<times> bool) option" where
  "DispatchWithSendParams ra pid W func send_params msg obj g = do {
     (reply, g') \<leftarrow> GenerateReply ra pid msg g;
     (case send_params of
        Some p \<Rightarrow> do { reply' \<leftarrow> W ra (snd (func obj p)) reply;
                     Some (reply', fst (func obj p), g', True) }
      | None \<Rightarrow> do { reply' \<leftarrow> set_reply_error reply; Some (reply', obj, g', False) }) }"

definition Dispatch_sync ::
    "realloc_fn \<Rightarrow> u32 option \<Rightarrow> 'p reader \<Rightarrow> (realloc_fn \<Rightarrow> 'r \<Rightarrow> message \<Rightarrow> message option) \<Rightarrow>
     ('o \<Rightarrow> 'p \<Rightarrow> 'o \<times> 'r) \<Rightarrow> message \<Rightarrow> 'o \<Rightarrow> u32 \<Rightarrow> (message \<times> 'o \<times> u32 \<times> bool) option" where
  "Dispatch_sync ra pid R W func msg obj g = do {
     p \<leftarrow> ReadSendParam R msg;
     DispatchWithSendParams ra pid W func p msg obj g }"

end
