(* ===== verification/Params_Facts.thy ===== *)
theory Params_Facts
  imports Params_Model
begin

text \<open>
  The contract of \<open>ParamTraits<P>\<close> as a locale (what \<open>Write\<close> appends, and that \<open>Read\<close> reads exactly
  this back), its consequences for every container built on it, and its interpretations on the
  traits of \<open>ipc_message_utils\<close>.
\<close>

section \<open>The contract\<close>

locale param_traits =
  fixes Write :: "realloc_fn \<Rightarrow> 'a \<Rightarrow> message \<Rightarrow> message option"
    and Read :: "'a reader"
    and enc :: "'a \<Rightarrow> bytes list"
    and valid :: "'a \<Rightarrow> bool"
  assumes write_wrote: "valid x \<Longrightarrow> wrote (\<lambda>ra. Write ra x) (enc x)"
    and read_reads: "valid x \<Longrightarrow> reads Read (enc x @ cs) x cs"

text \<open>The same contract seen through a bijection onto a part of another type.\<close>

lemma param_traits_fixed:
  assumes "\<And>x. writes (\<lambda>ra. W ra x) (enc x)" "\<And>x cs. reads R (enc x @ cs) x cs"
  shows "param_traits (\<lambda>ra x. drop_result (W ra x)) R enc (\<lambda>_. True)"
  by unfold_locales (simp_all add: assms drop_result_wrote)

lemma checked_read:
  assumes "reads r (c @ cs) d cs" "ok d" "g d = v"
  shows "reads (rbind r (\<lambda>d. if ok d then rret (g d) else rfail)) (c @ cs) v cs"
  by (rule rbind_reads [OF assms(1)]) (simp add: assms(2,3) rret_reads)

lemma rbind_rret [simp]: "rbind r rret = r"
  by (auto simp: fun_eq_iff rbind_def rret_def split: prod.split option.split)

section \<open>Primitive types and strings\<close>

interpretation bool_param: param_traits BoolParam_Write BoolParam_Read
  "\<lambda>b. [bytes32 (if b then 1 else 0)]" "\<lambda>_. True"
  by unfold_locales
    (use WriteBool_writes drop_result_wrote ReadBool_reads in
      \<open>simp_all add: BoolParam_Write_def BoolParam_Read_def\<close>)

interpretation int_param: param_traits IntParam_Write IntParam_Read "\<lambda>i. [bytes32 i]" "\<lambda>_. True"
  by unfold_locales
    (simp_all add: IntParam_Write_def IntParam_Read_def drop_result_wrote prim_writes prim_reads)

interpretation uint_param: param_traits UIntParam_Write UIntParam_Read "\<lambda>i. [bytes32 i]" "\<lambda>_. True"
  by unfold_locales
    (simp_all add: UIntParam_Write_def UIntParam_Read_def drop_result_wrote prim_writes prim_reads)

interpretation long_param: param_traits LongParam_Write LongParam_Read "\<lambda>i. [bytes32 i]" "\<lambda>_. True"
  by unfold_locales
    (simp_all add: LongParam_Write_def LongParam_Read_def drop_result_wrote prim_writes prim_reads)

interpretation ulong_param: param_traits ULongParam_Write ULongParam_Read "\<lambda>i. [bytes32 i]" "\<lambda>_. True"
  by unfold_locales
    (simp_all add: ULongParam_Write_def ULongParam_Read_def drop_result_wrote prim_writes prim_reads)

interpretation int64_param: param_traits Int64Param_Write Int64Param_Read "\<lambda>i. [bytes64 i]" "\<lambda>_. True"
  by unfold_locales
    (simp_all add: Int64Param_Write_def Int64Param_Read_def drop_result_wrote prim_writes prim_reads)

interpretation uint64_param: param_traits UInt64Param_Write UInt64Param_Read "\<lambda>i. [bytes64 i]" "\<lambda>_. True"
  by unfold_locales
    (simp_all add: UInt64Param_Write_def UInt64Param_Read_def drop_result_wrote prim_writes prim_reads)

interpretation ushort_param: param_traits UShortParam_Write UShortParam_Read "\<lambda>i. [bytes16 i]" "\<lambda>_. True"
proof
  fix x :: u16 and cs
  show "wrote (\<lambda>ra. UShortParam_Write ra x) [bytes16 x]"
    unfolding UShortParam_Write_def
    by (rule drop_result_wrote) (use WriteBytes_writes [of "bytes16 x"] in simp)
  have "reads (ReadBytes 2) (bytes16 x # cs) (bytes16 x) cs" using ReadBytes_reads [of "bytes16 x"] by simp
  from rbind_reads [OF this, of "\<lambda>d. rret (word16 d)" x cs]
  show "reads UShortParam_Read ([bytes16 x] @ cs) x cs"
    by (simp add: UShortParam_Read_def rret_reads)
qed

text \<open>A type of fixed size sent as length-prefixed data.\<close>

lemma sized_data:
  assumes "length d = n" "n < 2 ^ 31" "g d = v"
  shows "wrote (\<lambda>ra. drop_result (WriteData ra d (of_nat n))) [bytes32 (of_nat n), d]"
    "reads (rbind ReadData (\<lambda>x. if length x \<noteq> n then rfail else rret (g x)))
       ([bytes32 (of_nat n), d] @ cs) v cs"
proof -
  show "wrote (\<lambda>ra. drop_result (WriteData ra d (of_nat n))) [bytes32 (of_nat n), d]"
    using drop_result_wrote [OF WriteData_writes [of d]] assms by simp
  have "reads ReadData (bytes32 (of_nat n) # d # cs) d cs" using ReadData_reads [of d cs] assms by simp
  from rbind_reads [OF this, of "\<lambda>x. if length x \<noteq> n then rfail else rret (g x)" v cs]
  show "reads (rbind ReadData (\<lambda>x. if length x \<noteq> n then rfail else rret (g x)))
       ([bytes32 (of_nat n), d] @ cs) v cs"
    using assms by (simp add: rret_reads)
qed

interpretation float_param: param_traits FloatParam_Write FloatParam_Read
  "\<lambda>x. [bytes32 4, bytes32 x]" "\<lambda>_. True"
  using sized_data [of "bytes32 _" 4 word32]
  by unfold_locales (simp_all add: FloatParam_Write_def FloatParam_Read_def)

interpretation double_param: param_traits DoubleParam_Write DoubleParam_Read
  "\<lambda>x. [bytes32 8, bytes64 x]" "\<lambda>_. True"
  using sized_data [of "bytes64 _" 8 word64]
  by unfold_locales (simp_all add: DoubleParam_Write_def DoubleParam_Read_def)

interpretation string_param: param_traits StringParam_Write StringParam_Read
  "\<lambda>s. [bytes32 (of_nat (length s)), s]" "\<lambda>s. length s < 2 ^ 31"
  by unfold_locales
    (simp_all add: StringParam_Write_def StringParam_Read_def drop_result_wrote WriteString_writes
      ReadString_reads)

interpretation wstring_param: param_traits WStringParam_Write WStringParam_Read
  "\<lambda>s. [bytes32 (of_nat (length s)), units_bytes s]" "\<lambda>s. length s < 2 ^ 30"
  by unfold_locales
    (simp_all add: WStringParam_Write_def WStringParam_Read_def drop_result_wrote String16_codec)

interpretation byte_vector_param: param_traits ByteVector_Write ByteVector_Read
  "\<lambda>s. [bytes32 (of_nat (length s)), s]" "\<lambda>s. length s < 2 ^ 31"
proof
  fix s :: bytes and cs
  assume s: "length s < 2 ^ 31"
  have "(\<lambda>ra. ByteVector_Write ra s) = (\<lambda>ra. drop_result (WriteData ra s (of_nat (length s))))"
    by (auto simp: ByteVector_Write_def)
  then show "wrote (\<lambda>ra. ByteVector_Write ra s) [bytes32 (of_nat (length s)), s]"
    using drop_result_wrote [OF WriteData_writes [OF s]] by simp
  show "reads ByteVector_Read ([bytes32 (of_nat (length s)), s] @ cs) s cs"
    using ReadData_reads [OF s, of cs] by (simp add: ByteVector_Read_def)
qed

section \<open>Loops\<close>

lemma for_loop_reads:
  assumes step: "\<And>j cs. j < length xs \<Longrightarrow>
      reads (body j (take j xs)) (enc (xs ! j) @ cs) (take (Suc j) xs) cs"
  shows "reads (for_loop (length xs) 0 body []) (concat (map enc xs) @ cs) xs cs"
proof -
  have "reads (for_loop (length xs - k) k body (take k xs)) (concat (map enc (drop k xs)) @ cs) xs cs"
    if "k \<le> length xs" for k
    using that
  proof (induction "length xs - k" arbitrary: k)
    case 0
    then show ?case by (simp add: rret_reads)
  next
    case (Suc n)
    then have k: "k < length xs" by linarith
    then have d: "drop k xs = xs ! k # drop (Suc k) xs" by (simp add: Cons_nth_drop_Suc)
    have e: "length xs - k = Suc (length xs - Suc k)" using k by simp
    have IH: "reads (for_loop (length xs - Suc k) (Suc k) body (take (Suc k) xs))
        (concat (map enc (drop (Suc k) xs)) @ cs) xs cs"
      using Suc k by (intro Suc.hyps(1)) simp_all
    show ?case unfolding e for_loop.simps d list.map concat.simps append_assoc
      by (rule rbind_reads, rule step [OF k], rule IH)
  qed
  from this [of 0] show ?thesis by simp
qed

lemma loop_collect:
  assumes "\<And>x cs. x \<in> set xs \<Longrightarrow> reads R (enc x @ cs) x cs"
  shows "reads (for_loop (length xs) 0 (\<lambda>i acc. rbind R (\<lambda>v. rret (acc @ [v]))) [])
     (concat (map enc xs) @ cs) xs cs"
proof (rule for_loop_reads)
  fix j cs' assume j: "j < length xs"
  show "reads (rbind R (\<lambda>v. rret (take j xs @ [v]))) (enc (xs ! j) @ cs') (take (Suc j) xs) cs'"
    by (rule rbind_reads [OF assms]) (use j in \<open>simp_all add: take_Suc_conv_app_nth rret_reads\<close>)
qed

lemma size_then_loop:
  assumes "length xs < 2 ^ 31"
    and "reads (F (of_nat (length xs))) (ds @ cs) xs cs"
  shows "reads (rbind ReadLength F) ((bytes32 (of_nat (length xs)) # ds) @ cs) xs cs"
  unfolding append_Cons
  by (rule rbind_reads, rule ReadLength_reads [OF assms(1)], rule assms(2))

context param_traits
begin

lemma write_each_wrote:
  "list_all valid xs \<Longrightarrow> wrote (\<lambda>ra. write_each Write ra xs) (concat (map enc xs))"
proof (induction xs)
  case Nil
  then show ?case using Some_wrote by simp
next
  case (Cons x xs)
  have "wrote (\<lambda>ra m. Option.bind (Write ra x m) (write_each Write ra xs)) (enc x @ concat (map enc xs))"
    using Cons by (intro bind_wrote write_wrote) simp_all
  then show ?case by simp
qed

lemma counted_wrote:
  assumes "list_all valid xs"
  shows "wrote (\<lambda>ra m. Option.bind (IntParam_Write ra (of_nat (length xs)) m) (write_each Write ra xs))
     (bytes32 (of_nat (length xs)) # concat (map enc xs))"
  using bind_wrote [OF int_param.write_wrote write_each_wrote [OF assms]] by simp

lemma collect_reads:
  "list_all valid xs \<Longrightarrow>
   reads (for_loop (length xs) 0 (\<lambda>i acc. rbind Read (\<lambda>v. rret (acc @ [v]))) [])
     (concat (map enc xs) @ cs) xs cs"
  by (rule loop_collect) (simp add: read_reads list_all_iff)

lemma vector:
  "param_traits (Vector_Write Write) (Vector_Read sz Read)
     (\<lambda>xs. bytes32 (of_nat (length xs)) # concat (map enc xs))
     (\<lambda>xs. list_all valid xs \<and> length xs < INT_MAX div sz)"
proof
  fix xs assume v: "list_all valid xs \<and> length xs < INT_MAX div sz"
  show "wrote (\<lambda>ra. Vector_Write Write ra xs) (bytes32 (of_nat (length xs)) # concat (map enc xs))"
    unfolding Vector_Write_def [abs_def] by (rule counted_wrote) (use v in simp)
  fix cs
  have "INT_MAX div sz \<le> INT_MAX" by (rule div_le_dividend)
  then have "length xs < INT_MAX" using v by (auto intro: less_le_trans)
  then have l: "length xs < 2 ^ 31" by (simp add: INT_MAX_def)
  then have "\<not> INT_MAX div sz \<le> unat (of_nat (length xs) :: u32)"
    using v unat_small_nat [OF l] by simp
  then show "reads (Vector_Read sz Read) ((bytes32 (of_nat (length xs)) # concat (map enc xs)) @ cs) xs cs"
    unfolding Vector_Read_def
    by (intro size_then_loop [OF l]) (use v l in \<open>simp only: if_False unat_small_nat collect_reads\<close>)
qed

end

text \<open>Pairs, tuples and maps need two element types, a map an ordered key.\<close>

locale param_traits2 =
  A: param_traits WA RA encA validA + B: param_traits WB RB encB validB
  for WA :: "realloc_fn \<Rightarrow> 'a \<Rightarrow> message \<Rightarrow> message option" and RA encA validA
    and WB :: "realloc_fn \<Rightarrow> 'b \<Rightarrow> message \<Rightarrow> message option" and RB encB validB
begin

lemma pair:
  "param_traits (Pair_Write WA WB) (Pair_Read RA RB) (\<lambda>p. encA (fst p) @ encB (snd p))
     (\<lambda>p. validA (fst p) \<and> validB (snd p))"
proof
  fix p assume v: "validA (fst p) \<and> validB (snd p)"
  show "wrote (\<lambda>ra. Pair_Write WA WB ra p) (encA (fst p) @ encB (snd p))"
    unfolding Pair_Write_def [abs_def]
    by (rule bind_wrote; rule A.write_wrote B.write_wrote) (use v in simp_all)
  fix cs
  show "reads (Pair_Read RA RB) ((encA (fst p) @ encB (snd p)) @ cs) p cs"
    unfolding Pair_Read_def append_assoc
    by (rule rbind_reads, rule A.read_reads, use v in simp, rule rbind_reads, rule B.read_reads,
        use v in simp) (simp add: rret_reads)
qed

lemma tuple2:
  "param_traits (Tuple2_Write WA WB) (Tuple2_Read RA RB) (\<lambda>p. encA (fst p) @ encB (snd p))
     (\<lambda>p. validA (fst p) \<and> validB (snd p))"
proof -
  have "Tuple2_Write WA WB = Pair_Write WA WB" "Tuple2_Read RA RB = Pair_Read RA RB"
    by (simp_all add: fun_eq_iff Tuple2_Write_def Pair_Write_def Tuple2_Read_def Pair_Read_def)
  then show ?thesis using pair by simp
qed

end

lemma map_put_last:
  "\<forall>p\<in>set xs. fst p < k \<Longrightarrow> map_put k v xs = xs @ [(k, v)]"
  by (induction xs) (auto dest: less_asym)

lemma set_insert_last: "\<forall>y\<in>set xs. y < x \<Longrightarrow> set_insert x xs = xs @ [x]"
  by (induction xs) (auto dest: less_asym)

lemma strict_take_less:
  assumes "sorted_wrt (<) ys" "j < length ys" "y \<in> set (take j ys)"
  shows "y < (ys ! j :: 'a::linorder)"
  using assms by (auto simp: in_set_conv_nth sorted_wrt_iff_nth_less)

locale ordered_param_traits = param_traits Write Read enc valid
  for Write :: "realloc_fn \<Rightarrow> 'a::linorder \<Rightarrow> message \<Rightarrow> message option" and Read enc valid
begin

lemma set_traits:
  "param_traits (Set_Write Write) (Set_Read Read [])
     (\<lambda>xs. bytes32 (of_nat (length xs)) # concat (map enc xs))
     (\<lambda>xs. list_all valid xs \<and> sorted_wrt (<) xs \<and> length xs < 2 ^ 31)"
proof
  fix xs assume v: "list_all valid xs \<and> sorted_wrt (<) xs \<and> length xs < 2 ^ 31"
  show "wrote (\<lambda>ra. Set_Write Write ra xs) (bytes32 (of_nat (length xs)) # concat (map enc xs))"
    unfolding Set_Write_def [abs_def] by (rule counted_wrote) (use v in simp)
  fix cs
  have "reads (for_loop (length xs) 0 (\<lambda>i acc. rbind Read (\<lambda>item. rret (set_insert item acc))) [])
      (concat (map enc xs) @ cs) xs cs"
  proof (rule for_loop_reads)
    fix j cs' assume j: "j < length xs"
    have "set_insert (xs ! j) (take j xs) = take (Suc j) xs"
      using v j by (subst set_insert_last)
        (auto intro: strict_take_less simp: take_Suc_conv_app_nth)
    then show "reads (rbind Read (\<lambda>item. rret (set_insert item (take j xs))))
        (enc (xs ! j) @ cs') (take (Suc j) xs) cs'"
      by (intro rbind_reads [OF read_reads]) (use v j in \<open>simp_all add: rret_reads list_all_length\<close>)
  qed
  then show "reads (Set_Read Read []) ((bytes32 (of_nat (length xs)) # concat (map enc xs)) @ cs) xs cs"
    unfolding Set_Read_def using v by (intro size_then_loop) (simp_all only: unat_small_nat)
qed

end

locale map_param_traits =
  K: ordered_param_traits WK RK encK validK + V: param_traits WV RV encV validV
  for WK :: "realloc_fn \<Rightarrow> 'k::linorder \<Rightarrow> message \<Rightarrow> message option" and RK encK validK
    and WV :: "realloc_fn \<Rightarrow> 'v \<Rightarrow> message \<Rightarrow> message option" and RV encV validV

sublocale map_param_traits \<subseteq> param_traits2 WK RK encK validK WV RV encV validV
  by unfold_locales

context map_param_traits
begin

lemma entries_read:
  assumes v: "list_all (\<lambda>p. validK (fst p) \<and> validV (snd p)) xs" "sorted_wrt (<) (map fst xs)"
    and new: "read_into new = RV"
  shows "reads (for_loop (length xs) 0
      (\<lambda>i acc. rbind RK (\<lambda>k. rbind (read_into (map_entry new k acc)) (\<lambda>v. rret (map_put k v acc)))) [])
      (concat (map (\<lambda>p. encK (fst p) @ encV (snd p)) xs) @ cs) xs cs"
proof (rule for_loop_reads)
  fix j cs' assume j: "j < length xs"
  have less: "fst p < fst (xs ! j)" if "p \<in> set (take j xs)" for p
    using strict_take_less [OF v(2), of j "fst p"] that j by (auto simp: take_map)
  then have "map_put (fst (xs ! j)) (snd (xs ! j)) (take j xs) = take (Suc j) xs"
    using j by (subst map_put_last) (auto simp: take_Suc_conv_app_nth)
  moreover have "map_of (take j xs) (fst (xs ! j)) = None"
    using less by (fastforce simp: map_of_eq_None_iff)
  then have "read_into (map_entry new (fst (xs ! j)) (take j xs)) = RV" by (simp add: map_entry_def new)
  ultimately show "reads (rbind RK (\<lambda>k. rbind (read_into (map_entry new k (take j xs))) (\<lambda>v. rret (map_put k v (take j xs)))))
      ((encK (fst (xs ! j)) @ encV (snd (xs ! j))) @ cs') (take (Suc j) xs) cs'"
    unfolding append_assoc
    by (intro rbind_reads [OF K.read_reads], use v(1) j in \<open>simp add: list_all_length\<close>)
      (simp, intro rbind_reads [OF V.read_reads], use v(1) j in \<open>simp_all add: rret_reads list_all_length\<close>)
qed

text \<open>The keys of a map that was sent are distinct, so each value is read into a new entry.\<close>

lemma map_traits:
  assumes "read_into new = RV"
  shows "param_traits (Map_Write WK WV) (Map_Read RK read_into new [])
     (\<lambda>xs. bytes32 (of_nat (length xs)) # concat (map (\<lambda>p. encK (fst p) @ encV (snd p)) xs))
     (\<lambda>xs. list_all (\<lambda>p. validK (fst p) \<and> validV (snd p)) xs \<and> sorted_wrt (<) (map fst xs) \<and>
            length xs < 2 ^ 31)"
proof
  fix xs assume v: "list_all (\<lambda>p. validK (fst p) \<and> validV (snd p)) xs \<and>
    sorted_wrt (<) (map fst xs) \<and> length xs < 2 ^ 31"
  show "wrote (\<lambda>ra. Map_Write WK WV ra xs)
      (bytes32 (of_nat (length xs)) # concat (map (\<lambda>p. encK (fst p) @ encV (snd p)) xs))"
    unfolding Map_Write_def [abs_def]
    by (rule param_traits.counted_wrote [OF pair]) (use v in simp)
  fix cs
  let ?n = "of_nat (length xs) :: i32"
  have n: "\<not> sint ?n < 0" "unat ?n = length xs"
    using v sint_small_nat [of "length xs"] unat_small_nat [of "length xs"] by simp_all
  have "reads IntParam_Read (bytes32 ?n # (concat (map (\<lambda>p. encK (fst p) @ encV (snd p)) xs) @ cs)) ?n
      (concat (map (\<lambda>p. encK (fst p) @ encV (snd p)) xs) @ cs)"
    using int_param.read_reads by simp
  then show "reads (Map_Read RK read_into new []) ((bytes32 (of_nat (length xs)) #
      concat (map (\<lambda>p. encK (fst p) @ encV (snd p)) xs)) @ cs) xs cs"
    unfolding Map_Read_def append_Cons
    by (rule rbind_reads) (use n entries_read assms v in simp)
qed

end

end
