(* ===== verification/Params_Props.thy ===== *)
theory Params_Props
  imports Params_Facts SyncMessage_Props
begin

text \<open>
  The contract of \<open>ParamTraits\<close> for values, structures and nested messages, and the theorems on
  whole calls: a message's parameters survive the trip, and a synchronous call returns to its caller
  what the handler answered.
\<close>

section \<open>Values\<close>

text \<open>\<open>value_ok recursion v\<close>: \<open>v\<close> can be sent from this depth on: it is not nested beyond
  \<open>kMaxRecursionDepth\<close>, its strings, dictionaries and lists are shorter than \<open>2\<^sup>31\<close>, its doubles are
  finite and its dictionaries are maps.\<close>

fun value_ok :: "nat \<Rightarrow> base_value \<Rightarrow> bool" where
  "value_ok r VNull \<longleftrightarrow> r \<le> kMaxRecursionDepth"
| "value_ok r (VBoolean b) \<longleftrightarrow> r \<le> kMaxRecursionDepth"
| "value_ok r (VInteger i) \<longleftrightarrow> r \<le> kMaxRecursionDepth"
| "value_ok r (VDouble d) \<longleftrightarrow> r \<le> kMaxRecursionDepth \<and> IsFinite d"
| "value_ok r (VString s) \<longleftrightarrow> r \<le> kMaxRecursionDepth \<and> length s < 2 ^ 31"
| "value_ok r (VBinary b) \<longleftrightarrow> r \<le> kMaxRecursionDepth \<and> length b < 2 ^ 31"
| "value_ok r (VDictionary es) \<longleftrightarrow> r \<le> kMaxRecursionDepth \<and> length es < 2 ^ 31 \<and>
     sorted_wrt (<) (map fst es) \<and>
     (\<forall>e\<in>set es. length (fst e) < 2 ^ 31 \<and> value_ok (r + 1) (snd e))"
| "value_ok r (VList vs) \<longleftrightarrow> r \<le> kMaxRecursionDepth \<and> length vs < 2 ^ 31 \<and>
     (\<forall>v\<in>set vs. value_ok (r + 1) v)"

fun value_chunks :: "base_value \<Rightarrow> bytes list" where
  "value_chunks VNull = [bytes32 0]"
| "value_chunks (VBoolean b) = [bytes32 1, bytes32 (if b then 1 else 0)]"
| "value_chunks (VInteger i) = [bytes32 2, bytes32 i]"
| "value_chunks (VDouble d) = [bytes32 3, bytes32 8, bytes64 d]"
| "value_chunks (VString s) = [bytes32 4, bytes32 (of_nat (length s)), s]"
| "value_chunks (VBinary b) = [bytes32 5, bytes32 (of_nat (length b)), b]"
| "value_chunks (VDictionary es) = bytes32 6 # bytes32 (of_nat (length es)) #
     concat (map (\<lambda>e. [bytes32 (of_nat (length (fst e))), fst e] @ value_chunks (snd e)) es)"
| "value_chunks (VList vs) = bytes32 7 # bytes32 (of_nat (length vs)) # concat (map value_chunks vs)"

abbreviation entry_chunks :: "bytes \<times> base_value \<Rightarrow> bytes list" where
  "entry_chunks e \<equiv> [bytes32 (of_nat (length (fst e))), fst e] @ value_chunks (snd e)"

lemma tag_wrote:
  "wrote f cs \<Longrightarrow> wrote (\<lambda>ra m. Option.bind (drop_result (WriteInt ra t) m) (f ra)) (bytes32 t # cs)"
  using bind_wrote [OF drop_result_wrote [OF prim_writes(1)], of f cs t] by simp

lemma count_wrote:
  "wrote f cs \<Longrightarrow> wrote (\<lambda>ra m. Option.bind (IntParam_Write ra t m) (f ra)) (bytes32 t # cs)"
  using bind_wrote [OF int_param.write_wrote, of f cs t] by simp

lemma value_ok_depth: "value_ok r v \<Longrightarrow> r \<le> kMaxRecursionDepth"
  by (cases v) auto

declare WriteValue.simps [simp del]

lemma WriteEntries_wrote:
  "(\<forall>e\<in>set es. length (fst e) < 2 ^ 31 \<and>
      wrote (\<lambda>ra. WriteValue ra (r + 1) (snd e)) (value_chunks (snd e))) \<Longrightarrow>
   wrote (\<lambda>ra. WriteEntries ra r es) (concat (map entry_chunks es))"
proof (induction es)
  case Nil
  show ?case using Some_wrote by (simp add: fun_eq_iff wrote_def)
next
  case (Cons e es)
  have "wrote (\<lambda>ra m. Option.bind (StringParam_Write ra (fst e) m)
        (\<lambda>m1. Option.bind (WriteValue ra (r + 1) (snd e) m1) (WriteEntries ra r es)))
      ([bytes32 (of_nat (length (fst e))), fst e] @ value_chunks (snd e) @
       concat (map entry_chunks es))"
    by (rule bind_wrote [OF string_param.write_wrote bind_wrote]) (use Cons in auto)
  then show ?case by (simp add: wrote_def)
qed

lemma WriteItems_wrote:
  "(\<forall>v\<in>set vs. wrote (\<lambda>ra. WriteValue ra (r + 1) v) (value_chunks v)) \<Longrightarrow>
   wrote (\<lambda>ra. WriteItems ra r vs) (concat (map value_chunks vs))"
proof (induction vs)
  case Nil
  show ?case using Some_wrote by (simp add: wrote_def)
next
  case (Cons v vs)
  have "wrote (\<lambda>ra m. Option.bind (WriteValue ra (r + 1) v m) (WriteItems ra r vs))
      (value_chunks v @ concat (map value_chunks vs))"
    by (rule bind_wrote) (use Cons in auto)
  then show ?case by (simp add: wrote_def)
qed

lemma WriteValue_unfold:
  assumes "r \<le> kMaxRecursionDepth"
  shows "WriteValue ra r v = (\<lambda>m. Option.bind (drop_result (WriteInt ra (GetType v)) m)
    (case v of
       VNull \<Rightarrow> Some
     | VBoolean b \<Rightarrow> BoolParam_Write ra b
     | VInteger i \<Rightarrow> IntParam_Write ra i
     | VDouble d \<Rightarrow> DoubleParam_Write ra d
     | VString s \<Rightarrow> StringParam_Write ra s
     | VBinary b \<Rightarrow> drop_result (WriteData ra b (of_nat (length b)))
     | VDictionary es \<Rightarrow> (\<lambda>m1. Option.bind (IntParam_Write ra (of_nat (length es)) m1)
                              (WriteEntries ra r es))
     | VList vs \<Rightarrow> (\<lambda>m1. Option.bind (IntParam_Write ra (of_nat (length vs)) m1)
                       (WriteItems ra r vs))))"
  using assms by (intro ext) (simp add: WriteValue.simps split: base_value.split)

lemma WriteValue_wrote: "value_ok r v \<Longrightarrow> wrote (\<lambda>ra. WriteValue ra r v) (value_chunks v)"
proof (induction v arbitrary: r rule: value_chunks.induct)
  case (7 es)
  then have "wrote (\<lambda>ra. WriteEntries ra r es) (concat (map entry_chunks es))"
    by (intro WriteEntries_wrote) auto
  then show ?case using 7(2) by (simp add: WriteValue_unfold tag_wrote count_wrote)
next
  case (8 vs)
  then have "wrote (\<lambda>ra. WriteItems ra r vs) (concat (map value_chunks vs))"
    by (intro WriteItems_wrote) auto
  then show ?case using 8(2) by (simp add: WriteValue_unfold tag_wrote count_wrote)
qed (simp_all add: WriteValue_unfold tag_wrote Some_wrote bool_param.write_wrote
  int_param.write_wrote double_param.write_wrote string_param.write_wrote drop_result_wrote
  WriteData_writes prim_writes)

lemma tag_read:
  "reads (F t) ds v cs \<Longrightarrow> reads (rbind IntParam_Read F) (bytes32 t # ds) v cs"
  by (rule rbind_reads, rule int_param.read_reads [of _ ds, simplified]) simp_all

lemma wrap_read: "reads R ds x cs \<Longrightarrow> g x = v \<Longrightarrow> reads (rbind R (\<lambda>x. rret (g x))) ds v cs"
  using rbind_reads [of R ds x cs "\<lambda>x. rret (g x)" v cs] by (simp add: rret_reads)

lemma ReadListValue_reads:
  assumes "length vs < 2 ^ 31"
    and "\<And>v cs. v \<in> set vs \<Longrightarrow> reads R (value_chunks v @ cs) v cs"
  shows "reads (ReadListValue R [])
     (bytes32 (of_nat (length vs)) # concat (map value_chunks vs) @ cs) vs cs"
  unfolding ReadListValue_def
proof (rule tag_read)
  have "reads (for_loop (length vs) 0 (\<lambda>i acc. rbind R (\<lambda>subval. rret (ListValue_Set i subval acc))) [])
      (concat (map value_chunks vs) @ cs) vs cs"
  proof (rule for_loop_reads)
    fix j cs' assume j: "j < length vs"
    have "ListValue_Set j (vs ! j) (take j vs) = take (Suc j) vs"
      using j by (simp add: ListValue_Set_def take_Suc_conv_app_nth)
    then show "reads (rbind R (\<lambda>subval. rret (ListValue_Set j subval (take j vs))))
        (value_chunks (vs ! j) @ cs') (take (Suc j) vs) cs'"
      using j by (intro wrap_read [OF assms(2)]) simp_all
  qed
  then show "reads (for_loop (nat (sint (of_nat (length vs) :: i32))) 0
      (\<lambda>i acc. rbind R (\<lambda>subval. rret (ListValue_Set i subval acc))) [])
      (concat (map value_chunks vs) @ cs) vs cs"
    using sint_small_nat [OF assms(1)] by simp
qed

lemma ReadDictionaryValue_reads:
  assumes "length es < 2 ^ 31" "sorted_wrt (<) (map fst es)"
    and "\<And>e cs. e \<in> set es \<Longrightarrow> length (fst e) < 2 ^ 31 \<and> reads R (value_chunks (snd e) @ cs) (snd e) cs"
  shows "reads (ReadDictionaryValue R [])
     (bytes32 (of_nat (length es)) # concat (map entry_chunks es) @ cs) es cs"
  unfolding ReadDictionaryValue_def
proof (rule tag_read)
  have "reads (for_loop (length es) 0 (\<lambda>i acc. rbind StringParam_Read (\<lambda>key.
        rbind R (\<lambda>subval. rret (map_put key subval acc)))) [])
      (concat (map entry_chunks es) @ cs) es cs"
  proof (rule for_loop_reads)
    fix j cs' assume j: "j < length es"
    have "fst p < fst (es ! j)" if "p \<in> set (take j es)" for p
      using strict_take_less [OF assms(2), of j "fst p"] that j by (auto simp: take_map)
    then have m: "map_put (fst (es ! j)) (snd (es ! j)) (take j es) = take (Suc j) es"
      using j by (subst map_put_last) (auto simp: take_Suc_conv_app_nth)
    have e: "es ! j \<in> set es" using j by simp
    show "reads (rbind StringParam_Read (\<lambda>key. rbind R (\<lambda>subval. rret (map_put key subval (take j es)))))
        (entry_chunks (es ! j) @ cs') (take (Suc j) es) cs'"
      unfolding append_assoc
      by (rule rbind_reads, rule string_param.read_reads, use assms(3) [OF e] in blast)
        (rule wrap_read, use assms(3) [OF e] in blast, rule m)
  qed
  then show "reads (for_loop (nat (sint (of_nat (length es) :: i32))) 0
      (\<lambda>i acc. rbind StringParam_Read (\<lambda>key. rbind R (\<lambda>subval. rret (map_put key subval acc)))) [])
      (concat (map entry_chunks es) @ cs) es cs"
    using sint_small_nat [OF assms(1)] by simp
qed

lemma ReadValue_step:
  assumes "r \<le> kMaxRecursionDepth"
  shows "ReadValue r = ReadValue_levels (Suc (kMaxRecursionDepth - r))"
    "ReadValue_levels (kMaxRecursionDepth - r) = ReadValue (r + 1)"
  using assms by (simp_all add: ReadValue_def Suc_diff_le)

lemma ReadValue_reads: "value_ok r v \<Longrightarrow> reads (ReadValue r) (value_chunks v @ cs) v cs"
proof (induction v arbitrary: r cs rule: value_chunks.induct)
  case (2 b)
  have "reads (rbind BoolParam_Read (\<lambda>x. rret (VBoolean x)))
      (bytes32 (if b then 1 else 0) # cs) (VBoolean b) cs"
    using bool_param.read_reads [of b cs] by (intro wrap_read [of BoolParam_Read _ b]) simp_all
  then have "reads (ReadValue_levels (Suc (kMaxRecursionDepth - r)))
      (bytes32 1 # bytes32 (if b then 1 else 0) # cs) (VBoolean b) cs"
    unfolding ReadValue_levels.simps by (intro tag_read) simp
  then show ?case using 2 by (simp add: ReadValue_step(1) split del: if_split)
next
  case (6 b)
  have "reads (rbind ReadData (\<lambda>x. rret (VBinary x)))
      (bytes32 (of_nat (length b)) # b # cs) (VBinary b) cs"
    using ReadData_reads [of b cs] 6 by (intro wrap_read [of ReadData _ b]) simp_all
  then show ?case using 6 by (simp add: ReadValue_step(1) tag_read)
next
  case (7 es)
  have r: "r \<le> kMaxRecursionDepth" using 7(2) by simp
  have "reads (ReadDictionaryValue (ReadValue (r + 1)) [])
      (bytes32 (of_nat (length es)) # concat (map entry_chunks es) @ cs) es cs"
    using 7 by (intro ReadDictionaryValue_reads) auto
  then have "reads (rbind (ReadDictionaryValue (ReadValue (r + 1)) []) (\<lambda>x. rret (VDictionary x)))
      (bytes32 (of_nat (length es)) # concat (map entry_chunks es) @ cs) (VDictionary es) cs"
    by (rule wrap_read) simp
  then show ?case
    unfolding ReadValue_step(1) [OF r] ReadValue_levels.simps ReadValue_step(2) [OF r]
      value_chunks.simps append_Cons
    by (intro tag_read) simp
next
  case (8 vs)
  have r: "r \<le> kMaxRecursionDepth" using 8(2) by simp
  have "reads (ReadListValue (ReadValue (r + 1)) [])
      (bytes32 (of_nat (length vs)) # concat (map value_chunks vs) @ cs) vs cs"
    using 8 by (intro ReadListValue_reads) auto
  then have "reads (rbind (ReadListValue (ReadValue (r + 1)) []) (\<lambda>x. rret (VList x)))
      (bytes32 (of_nat (length vs)) # concat (map value_chunks vs) @ cs) (VList vs) cs"
    by (rule wrap_read) simp
  then show ?case
    unfolding ReadValue_step(1) [OF r] ReadValue_levels.simps ReadValue_step(2) [OF r]
      value_chunks.simps append_Cons
    by (intro tag_read) simp
qed (auto simp: ReadValue_step(1) FundamentalValue_double_def intro!: tag_read wrap_read rret_reads
  bool_param.read_reads [simplified] int_param.read_reads [simplified]
  double_param.read_reads [simplified] string_param.read_reads [simplified] ReadData_reads)

interpretation value_param: param_traits "\<lambda>ra. WriteValue ra r" "ReadValue r" value_chunks "value_ok r"
  by unfold_locales (simp_all add: WriteValue_wrote ReadValue_reads)


section \<open>Structures\<close>

interpretation file_path_param: param_traits FilePath_Write FilePath_Read
  "\<lambda>s. [bytes32 (of_nat (length s)), units_bytes s]" "\<lambda>s. length s < 2 ^ 30 \<and> 0 \<notin> set s"
proof
  fix s :: "u16 list" and cs
  assume s: "length s < 2 ^ 30 \<and> 0 \<notin> set s"
  then have l: "length s < 2 ^ 30" by blast
  show "wrote (\<lambda>ra. FilePath_Write ra s) [bytes32 (of_nat (length s)), units_bytes s]"
    unfolding FilePath_Write_def by (rule drop_result_wrote, rule String16_codec(1) [OF l])
  show "reads FilePath_Read ([bytes32 (of_nat (length s)), units_bytes s] @ cs) s cs"
    unfolding FilePath_Read_def append_Cons append_Nil
    by (rule rbind_reads, rule String16_codec(2) [OF l]) (use s in \<open>simp add: rret_reads\<close>)
qed

interpretation wstring_bool: param_traits2 WStringParam_Write WStringParam_Read
  "\<lambda>s. [bytes32 (of_nat (length s)), units_bytes s]" "\<lambda>s. length s < 2 ^ 30"
  BoolParam_Write BoolParam_Read "\<lambda>b. [bytes32 (if b then 1 else 0)]" "\<lambda>_. True"
  by unfold_locales

interpretation nullable_string_param: param_traits NullableString16_Write NullableString16_Read
  "\<lambda>p. [bytes32 (of_nat (length (fst p))), units_bytes (fst p)] @ [bytes32 (if snd p then 1 else 0)]"
  "\<lambda>p. length (fst p) < 2 ^ 30 \<and> True"
proof -
  have "NullableString16_Write = Pair_Write WStringParam_Write BoolParam_Write"
    "NullableString16_Read = Pair_Read WStringParam_Read BoolParam_Read"
    by (simp_all add: fun_eq_iff NullableString16_Write_def Pair_Write_def
        NullableString16_Read_def Pair_Read_def)
  then show "param_traits NullableString16_Write NullableString16_Read
      (\<lambda>p. [bytes32 (of_nat (length (fst p))), units_bytes (fst p)] @
            [bytes32 (if snd p then 1 else 0)]) (\<lambda>p. length (fst p) < 2 ^ 30 \<and> True)"
    using wstring_bool.pair by simp
qed

interpretation time_param: param_traits Time_Write Time_Read "\<lambda>i. [bytes64 i]" "\<lambda>_. True"
  by unfold_locales
    (use int64_param.write_wrote int64_param.read_reads in \<open>simp_all add: Time_Write_def Time_Read_def\<close>)

interpretation time_delta_param: param_traits TimeDelta_Write TimeDelta_Read "\<lambda>i. [bytes64 i]" "\<lambda>_. True"
  by unfold_locales (use int64_param.write_wrote int64_param.read_reads in
      \<open>simp_all add: TimeDelta_Write_def TimeDelta_Read_def\<close>)

interpretation time_ticks_param: param_traits TimeTicks_Write TimeTicks_Read "\<lambda>i. [bytes64 i]" "\<lambda>_. True"
  by unfold_locales (use int64_param.write_wrote int64_param.read_reads in
      \<open>simp_all add: TimeTicks_Write_def TimeTicks_Read_def\<close>)

interpretation channel_handle_param: param_traits ChannelHandle_Write ChannelHandle_Read
  "\<lambda>s. [bytes32 (of_nat (length s)), s]" "\<lambda>s. length s < 2 ^ 31"
  by unfold_locales (use string_param.write_wrote string_param.read_reads in
      \<open>simp_all add: ChannelHandle_Write_def ChannelHandle_Read_def\<close>)

interpretation handle_param: param_traits Handle_Write Handle_Read "\<lambda>i. [bytes32 i]" "\<lambda>_. True"
  by unfold_locales
    (simp_all add: Handle_Write_def Handle_Read_def drop_result_wrote prim_writes prim_reads wrap_read)

lemma struct_read:
  assumes "length d = n" "n < 2 ^ 31" "ok d" and "\<And>x. ok' x = (length x = n \<and> ok x)"
  shows "reads (rbind ReadData (\<lambda>x. if ok' x then rret x else rfail)) ([bytes32 (of_nat n), d] @ cs) d cs"
proof -
  have "reads ReadData (bytes32 (of_nat n) # d # cs) d cs" using ReadData_reads [of d cs] assms by simp
  from rbind_reads [OF this, of "\<lambda>x. if ok' x then rret x else rfail" d cs]
  show ?thesis using assms by (simp add: rret_reads)
qed

interpretation log_font_param: param_traits LogFont_Write LogFont_Read "\<lambda>d. [bytes32 92, d]"
  "\<lambda>d. length d = 92 \<and> 0 \<in> set (bytes_units (take 64 (drop 28 d)))"
proof
  fix d cs assume d: "length d = 92 \<and> 0 \<in> set (bytes_units (take 64 (drop 28 d)))"
  show "wrote (\<lambda>ra. LogFont_Write ra d) [bytes32 92, d]"
    unfolding LogFont_Write_def using sized_data(1) [of d 92] d by simp
  show "reads LogFont_Read ([bytes32 92, d] @ cs) d cs"
  proof -
    have "reads LogFont_Read ([bytes32 (of_nat 92), d] @ cs) d cs"
      unfolding LogFont_Read_def
      by (rule struct_read [where ok = "\<lambda>d. 0 \<in> set (bytes_units (take 64 (drop 28 d)))",
            OF conjunct1 [OF d] _ conjunct2 [OF d]]) simp_all
    then show ?thesis by (simp only: of_nat_numeral)
  qed
qed

interpretation msg_struct_param: param_traits Msg_Write Msg_Read "\<lambda>d. [bytes32 28, d]"
  "\<lambda>d. length d = 28"
proof
  fix d :: bytes and cs assume d: "length d = 28"
  show "wrote (\<lambda>ra. Msg_Write ra d) [bytes32 28, d]"
    unfolding Msg_Write_def using sized_data(1) [of d 28] d by simp
  show "reads Msg_Read ([bytes32 28, d] @ cs) d cs"
    unfolding Msg_Read_def using struct_read [of d 28 "\<lambda>_. True"] d by simp
qed

definition log_data_ok :: "log_data \<Rightarrow> bool" where
  "log_data_ok p \<longleftrightarrow> length (ld_channel p) < 2 ^ 31 \<and> length (ld_flags p) < 2 ^ 31 \<and>
     length (ld_message_name p) < 2 ^ 31 \<and> length (ld_params p) < 2 ^ 31"

definition str_chunks :: "bytes \<Rightarrow> bytes list" where
  "str_chunks s = [bytes32 (of_nat (length s)), s]"

lemma str_traits:
  "length s < 2 ^ 31 \<Longrightarrow> wrote (\<lambda>ra. StringParam_Write ra s) (str_chunks s)"
  "length s < 2 ^ 31 \<Longrightarrow> reads StringParam_Read (str_chunks s @ cs) s cs"
  unfolding str_chunks_def by (rule string_param.write_wrote string_param.read_reads; assumption)+

definition log_data_chunks :: "log_data \<Rightarrow> bytes list" where
  "log_data_chunks p = str_chunks (ld_channel p) @ [bytes32 (ld_routing_id p)] @
     [bytes32 (ld_type p)] @ str_chunks (ld_flags p) @ [bytes64 (ld_sent p)] @
     [bytes64 (ld_receive p)] @ [bytes64 (ld_dispatch p)] @ str_chunks (ld_message_name p) @
     str_chunks (ld_params p)"

interpretation log_data_param: param_traits LogData_Write LogData_Read log_data_chunks log_data_ok
proof
  fix p assume ok: "log_data_ok p"
  show "wrote (\<lambda>ra. LogData_Write ra p) (log_data_chunks p)"
    unfolding LogData_Write_def [abs_def] log_data_chunks_def
    by (intro bind_wrote str_traits(1) int_param.write_wrote uint_param.write_wrote
        int64_param.write_wrote) (use ok in \<open>auto simp: log_data_ok_def\<close>)
  fix cs
  show "reads LogData_Read (log_data_chunks p @ cs) p cs"
    unfolding LogData_Read_def log_data_chunks_def append_assoc
    by (rule rbind_reads, rule str_traits(2), use ok in \<open>simp add: log_data_ok_def\<close>,
        rule rbind_reads, rule int_param.read_reads, simp, rule rbind_reads, rule uint_param.read_reads, simp,
        rule rbind_reads, rule str_traits(2), use ok in \<open>simp add: log_data_ok_def\<close>,
        (rule rbind_reads, rule int64_param.read_reads, simp)+,
        rule rbind_reads, rule str_traits(2), use ok in \<open>simp add: log_data_ok_def\<close>,
        rule rbind_reads, rule str_traits(2), use ok in \<open>simp add: log_data_ok_def\<close>)
      (cases p, simp add: rret_reads)
qed

text \<open>Containers on the model's own element types.\<close>

interpretation int_vector: param_traits "Vector_Write IntParam_Write" "Vector_Read 4 IntParam_Read"
  "\<lambda>xs. bytes32 (of_nat (length xs)) # concat (map (\<lambda>i. [bytes32 i]) xs)"
  "\<lambda>xs. list_all (\<lambda>_. True) xs \<and> length xs < INT_MAX div 4"
  by (rule int_param.vector)

interpretation string_key: ordered_param_traits StringParam_Write StringParam_Read
  "\<lambda>s. [bytes32 (of_nat (length s)), s]" "\<lambda>s. length s < 2 ^ 31"
  by unfold_locales

interpretation string_int_map: map_param_traits StringParam_Write StringParam_Read
  "\<lambda>s. [bytes32 (of_nat (length s)), s]" "\<lambda>s. length s < 2 ^ 31"
  IntParam_Write IntParam_Read "\<lambda>i. [bytes32 i]" "\<lambda>_. True"
  by unfold_locales

end
