(* ===== verification/Params_Calls.thy ===== *)
theory Params_Calls
  imports Params_Props
begin

text \<open>
  Whole messages and calls: parameters through an asynchronous message, a synchronous call and its
  reply, a message nested in a message, and the limit on nested values.
\<close>

section \<open>Parameters through a message\<close>

lemma carries_append:
  assumes "carries i [] m" "msg_inv m" "psize m = 4" "pickle_inv m'" "appends cs m m'"
  shows "carries i cs m'"
proof -
  have "payload m' = payload m @ wire0 cs"
    using appends_payload [OF _ assms(5)] assms(2,3) by (simp add: msg_inv_def)
  also have "payload m = bytes32 i" using assms(1) by (simp add: carries_def)
  finally have "payload m' = wire0 (bytes32 i # cs)" by (cases cs) simp_all
  then show ?thesis
    using appends_header(1) [OF assms(2,4,5)] msg_inv_ok by (simp add: carries_def)
qed

lemma appended_small:
  assumes "appends cs m m'" "psize m \<le> 4" "length (wire cs) < 2 ^ 30"
  shows "16 + psize m' < 2 ^ 31"
proof -
  have "length (wire0 cs) \<le> length (wire cs)" using align4_ge by (simp flip: align4_wire0)
  then show ?thesis using assms align4_lt [of "psize m"] by (auto simp: appends_def split: if_splits)
qed

lemma small_room: "msg_inv m \<Longrightarrow> psize m \<le> 4 \<Longrightarrow> length (wire cs) < 2 ^ 30 \<Longrightarrow> room cs m"
  using align4_lt [of "psize m"] by (simp add: room_def msg_inv_def)

context param_traits
begin

lemma async_trip:
  assumes ra: "realloc_ok ra" "alloc_total ra" and x: "valid x" "length (wire (enc x)) < 2 ^ 30"
    and m: "msg_inv m" "psize m = 0"
  obtains m' d q where "Schema_Write Write ra x m = Some m'" "pickle_data m' = Some d"
    "Message_from_data d (of_nat (length d)) = Some q" "Schema_Read Read q = Some (Some x)"
    "routing_id q = routing_id m" "msg_type q = msg_type m" "flags q = flags m"
proof -
  have pm: "pickle_inv m" using m by (simp add: msg_inv_def)
  obtain m' where m': "Write ra x m = Some m'" "pickle_inv m'" "appends (enc x) m m'"
    using wroteD [OF write_wrote [OF x(1)] ra pm small_room] m x(2) by auto
  note h = appends_header [OF m(1) m'(2,3)]
  have sm: "16 + psize m' < 2 ^ 31" using appended_small [OF m'(3)] m(2) x(2) by simp
  obtain d q where q: "pickle_data m' = Some d" "Message_from_data d (of_nat (length d)) = Some q"
    "msg_ok q" "routing_id q = routing_id m'" "msg_type q = msg_type m'" "flags q = flags m'"
    "payload q = payload m'"
    using message_wire [OF h(1) sm] by blast
  have "payload m' = wire0 (enc x)"
    using appends_payload [OF pm m'(3)] m(2) by (simp add: payload_def)
  then obtain it where "PickleIterator q = Some it" "positioned it (enc x)"
    using payload_iterator [OF q(3)] q(7) by metis
  moreover have "reads Read (enc x) x []" using read_reads [OF x(1), of "[]"] by simp
  ultimately have "Schema_Read Read q = Some (Some x)" by (auto simp: Schema_Read_def reads_def)
  moreover have "Schema_Write Write ra x m = Some m'" using m'(1) by (simp add: Schema_Write_def)
  ultimately show thesis using that q h
    header_fields [OF msg_inv_ok [OF h(1)]] header_fields [OF msg_inv_ok [OF m(1)]] by simp
qed

text \<open>Into a message that already carries a synchronous id, and across the wire.\<close>

lemma sync_trip:
  assumes ra: "realloc_ok ra" "alloc_total ra" and x: "valid x" "length (wire (enc x)) < 2 ^ 30"
    and m: "msg_inv m" "psize m = 4" "carries i [] m"
  obtains m' d q it where "Write ra x m = Some m'" "pickle_data m' = Some d"
    "Message_from_data d (of_nat (length d)) = Some q" "carries i (enc x) q"
    "GetDataIterator q = Some it" "fst (Read it) = Some x"
    "routing_id q = routing_id m" "msg_type q = msg_type m" "flags q = flags m"
proof -
  have pm: "pickle_inv m" using m by (simp add: msg_inv_def)
  obtain m' where m': "Write ra x m = Some m'" "pickle_inv m'" "appends (enc x) m m'"
    using wroteD [OF write_wrote [OF x(1)] ra pm small_room] m x(2) by auto
  note h = appends_header [OF m(1) m'(2,3)]
  have c: "carries i (enc x) m'" by (rule carries_append [OF m(3,1,2) m'(2,3)])
  have sm: "16 + psize m' < 2 ^ 31" using appended_small [OF m'(3)] m(2) x(2) by simp
  obtain d q where q: "pickle_data m' = Some d" "Message_from_data d (of_nat (length d)) = Some q"
    "carries i (enc x) q" "routing_id q = routing_id m'" "msg_type q = msg_type m'"
    "flags q = flags m'"
    using carries_wire [OF c h(1) sm] by blast
  obtain it where it: "GetDataIterator q = Some it" "positioned it (enc x)"
    using GetDataIterator_positioned [OF q(3)] by blast
  moreover have "reads Read (enc x) x []" using read_reads [OF x(1), of "[]"] by simp
  ultimately have "fst (Read it) = Some x" by (auto simp: reads_def)
  then show thesis using that m'(1) q it(1) h
    header_fields [OF msg_inv_ok [OF h(1)]] header_fields [OF msg_inv_ok [OF m(1)]] by simp
qed

lemma async_message:
  assumes ra: "realloc_ok ra" "alloc_total ra" and x: "valid x" "length (wire (enc x)) < 2 ^ 30"
  shows "\<exists>m m' d q. Message_new ra pid routing type prio g = Some (m, g + 1) \<and>
     Schema_Write Write ra x m = Some m' \<and> pickle_data m' = Some d \<and>
     Message_from_data d (of_nat (length d)) = Some q \<and>
     routing_id q = Some routing \<and> msg_type q = Some type \<and>
     Dispatch_async Read func q obj = Some (True, func obj x)"
proof -
  obtain m where m: "Message_new ra pid routing type prio g = Some (m, g + 1)" "msg_inv m"
    "m_routing m = routing" "m_type m = type" "psize m = 0"
    using Message_new_spec [OF ra] by blast
  obtain m' d q where q: "Schema_Write Write ra x m = Some m'" "pickle_data m' = Some d"
    "Message_from_data d (of_nat (length d)) = Some q" "Schema_Read Read q = Some (Some x)"
    "routing_id q = routing_id m" "msg_type q = msg_type m"
    using async_trip [OF ra x m(2,5)] by blast
  then have "Dispatch_async Read func q obj = Some (True, func obj x)"
    by (simp add: Dispatch_async_def)
  then show ?thesis using m q header_fields [OF msg_inv_ok [OF m(2)]] by auto
qed

end

section \<open>Synchronous calls\<close>

context param_traits2
begin

lemma rpc:
  fixes des :: "'d option"
  assumes ra: "realloc_ok ra" "alloc_total ra" and prio: "prio \<le> 3"
    and x: "validA x" "length (wire (encA x)) < 2 ^ 30"
    and y: "func obj x = (obj', y)" "validB y" "length (wire (encB y)) < 2 ^ 30"
  shows "\<exists>(s :: ('d, 'e) sync_message) m d q reply e a.
     SyncMessage_new ra pid routing type prio des g_ref g_id = Some (s, g_ref + 1, g_id + 1) \<and>
     Schema_Write WA ra x (sm_msg s) = Some m \<and> pickle_data m = Some d \<and>
     Message_from_data d (of_nat (length d)) = Some q \<and>
     Dispatch_sync ra pid' RA WB func q obj g' = Some (reply, obj', g' + 1, True) \<and>
     pickle_data reply = Some e \<and> Message_from_data e (of_nat (length e)) = Some a \<and>
     (\<forall>j. IsMessageReplyTo a j = Some (j = g_id)) \<and>
     SerializeOutputParameters (ParamDeserializer RB) a = Some (Some y)"
proof -
  obtain s :: "('d, 'e) sync_message" where s:
    "SyncMessage_new ra pid routing type prio des g_ref g_id = Some (s, g_ref + 1, g_id + 1)"
    "msg_inv (sm_msg s)" "carries g_id [] (sm_msg s)" "psize (sm_msg s) = 4"
    "m_flags (sm_msg s) = (prio OR fst (GetRefNumUpper24 pid g_ref)) OR (SYNC_BIT OR UNBLOCK_BIT)"
    using SyncMessage_new_spec [OF ra prio] by blast
  obtain m d q it where q: "WA ra x (sm_msg s) = Some m" "pickle_data m = Some d"
    "Message_from_data d (of_nat (length d)) = Some q" "carries g_id (encA x) q"
    "GetDataIterator q = Some it" "fst (RA it) = Some x" "flags q = flags (sm_msg s)"
    by (rule A.sync_trip [OF ra x s(2,4,3)])
  have okq: "msg_ok q" using q(4) by (simp add: carries_def)
  have "m_flags q = m_flags (sm_msg s)"
    using q(7) header_fields [OF okq] header_fields [OF msg_inv_ok [OF s(2)]] by simp
  then have sync: "is_sync q = Some True"
    using header_fields [OF okq] sync_flags(1) [OF prio s(5)] by (simp add: is_sync_def)
  obtain r where r: "GenerateReply ra pid' q g' = Some (r, g' + 1)" "msg_inv r" "carries g_id [] r"
    "psize r = 4" "is_reply r = Some True"
    using GenerateReply_spec [OF ra q(4) sync] by blast
  obtain reply e a it' where a: "WB ra y r = Some reply" "pickle_data reply = Some e"
    "Message_from_data e (of_nat (length e)) = Some a" "carries g_id (encB y) a"
    "GetDataIterator a = Some it'" "fst (RB it') = Some y" "flags a = flags r"
    by (rule B.sync_trip [OF ra y(2,3) r(2,4,3)])
  have reply_a: "is_reply a = Some True" using a(7) r(5) by (simp add: is_reply_def has_flag_def)
  have "Dispatch_sync ra pid' RA WB func q obj g' = Some (reply, obj', g' + 1, True)"
    using q(5,6) r(1) a(1) y(1)
    by (simp add: Dispatch_sync_def ReadSendParam_def DispatchWithSendParams_def)
  moreover have "\<forall>j. IsMessageReplyTo a j = Some (j = g_id)" using reply_matches [OF a(4) reply_a] by blast
  moreover have "SerializeOutputParameters (ParamDeserializer RB) a = Some (Some y)"
    using a(5,6) by (simp add: SerializeOutputParameters_def ParamDeserializer_def)
  ultimately show ?thesis using s(1) q a by (auto simp: Schema_Write_def)
qed

end

interpretation string_to_ints: param_traits2 StringParam_Write StringParam_Read
  "\<lambda>s. [bytes32 (of_nat (length s)), s]" "\<lambda>s. length s < 2 ^ 31"
  "Vector_Write IntParam_Write" "Vector_Read 4 IntParam_Read"
  "\<lambda>xs. bytes32 (of_nat (length xs)) # concat (map (\<lambda>i. [bytes32 i]) xs)"
  "\<lambda>xs. list_all (\<lambda>_. True) xs \<and> length xs < INT_MAX div 4"
  by unfold_locales

text \<open>C22: an asynchronous message with a parameter of any type whose traits keep the contract: the
  handler on the receiving side is called with the parameter that was sent, once, and the message
  keeps its routing id and type.\<close>

theorem async_message_delivers:
  assumes "param_traits W R enc valid" "realloc_ok ra" "alloc_total ra"
    "valid x" "length (wire (enc x)) < 2 ^ 30"
  shows "\<exists>m m' d q. Message_new ra pid routing type prio g = Some (m, g + 1) \<and>
     Schema_Write W ra x m = Some m' \<and> pickle_data m' = Some d \<and>
     Message_from_data d (of_nat (length d)) = Some q \<and>
     routing_id q = Some routing \<and> msg_type q = Some type \<and>
     Dispatch_async R func q obj = Some (True, func obj x)"
  by (rule param_traits.async_message [OF assms])

lemma async_message_delivers_witness:
  "\<exists>m m' d q. Message_new zero_realloc None 7 65537 2 0 = Some (m, 1) \<and>
     Schema_Write (Vector_Write IntParam_Write) zero_realloc [1, 2, 3] m = Some m' \<and>
     pickle_data m' = Some d \<and> Message_from_data d (of_nat (length d)) = Some q \<and>
     Dispatch_async (Vector_Read 4 IntParam_Read) (\<lambda>n xs. n + length xs) q 0 = Some (True, 3)"
proof -
  have "list_all (\<lambda>_. True) [1, 2, 3 :: i32] \<and> length [1, 2, 3 :: i32] < INT_MAX div 4"
    by (simp add: INT_MAX_def)
  from async_message_delivers [OF int_vector.param_traits_axioms zero_realloc_ok this,
      of None 7 65537 2 0 "\<lambda>n xs. n + length xs" 0]
  show ?thesis by auto
qed

text \<open>C6: a synchronous call returns to the caller what the handler answered: for any parameter and
  result types whose traits keep the contract, request and reply cross the wire, the handler is
  called with the caller's parameters, and the caller recognises the reply by its id and
  deserialises exactly the handler's result.\<close>

theorem sync_call_returns:
  fixes des :: "'d option"
  assumes "param_traits2 WS RS encS validS WR RR encR validR" "realloc_ok ra" "alloc_total ra"
    "prio \<le> 3" "validS x" "length (wire (encS x)) < 2 ^ 30"
    "func obj x = (obj', y)" "validR y" "length (wire (encR y)) < 2 ^ 30"
  shows "\<exists>(s :: ('d, 'e) sync_message) m d q reply e a.
     SyncMessage_new ra pid routing type prio des g_ref g_id = Some (s, g_ref + 1, g_id + 1) \<and>
     Schema_Write WS ra x (sm_msg s) = Some m \<and> pickle_data m = Some d \<and>
     Message_from_data d (of_nat (length d)) = Some q \<and>
     Dispatch_sync ra pid' RS WR func q obj g' = Some (reply, obj', g' + 1, True) \<and>
     pickle_data reply = Some e \<and> Message_from_data e (of_nat (length e)) = Some a \<and>
     (\<forall>j. IsMessageReplyTo a j = Some (j = g_id)) \<and>
     SerializeOutputParameters (ParamDeserializer RR) a = Some (Some y)"
  by (rule param_traits2.rpc [where func = func and obj = obj and x = x, OF assms])

lemma sync_call_returns_witness:
  "\<exists>(s :: (nat, nat) sync_message) q reply e a.
     SyncMessage_new zero_realloc None 7 65537 2 None 0 3 = Some (s, 1, 4) \<and>
     Dispatch_sync zero_realloc None StringParam_Read (Vector_Write IntParam_Write)
       (\<lambda>n p. (n + 1, [of_nat (length p)])) q (0 :: nat) 0 = Some (reply, 1, 1, True) \<and>
     pickle_data reply = Some e \<and> Message_from_data e (of_nat (length e)) = Some a \<and>
     SerializeOutputParameters (ParamDeserializer (Vector_Read 4 IntParam_Read)) a = Some (Some [2])"
  using sync_call_returns [where ?'d = nat and ?'e = nat,
      OF string_to_ints.param_traits2_axioms zero_realloc_ok, of 2 "[104, 105]"
      "\<lambda>n p. (n + 1, [of_nat (length p)])" "0 :: nat" 1 "[2]" None 7 65537 None 0 3 None 0]
  by (auto simp: INT_MAX_def align4_def)


text \<open>C29: a synchronous request whose parameters cannot be read: the handler is not called, and the
  reply carries the error flag, is still a reply to this request and has no data.\<close>

theorem bad_request_reply:
  assumes "realloc_ok ra" "alloc_total ra" "carries i cs q" "is_sync q = Some True"
    "ReadSendParam R q = Some None"
  shows "\<exists>reply. Dispatch_sync ra pid R W func q obj g = Some (reply, obj, g + 1, False) \<and>
     is_reply_error reply = Some True \<and> payload_size reply = Some 4 \<and>
     (\<forall>j. IsMessageReplyTo reply j = Some (j = i))"
proof -
  obtain r where r: "GenerateReply ra pid q g = Some (r, g + 1)" "msg_inv r" "carries i [] r"
    "psize r = 4" "is_reply r = Some True"
    using GenerateReply_spec [OF assms(1-4)] by blast
  obtain r' where r': "set_reply_error r = Some r'"
    "updates r r' (m_routing r) (m_type r) (m_flags r OR REPLY_ERROR_BIT)"
    using flag_on_updates [OF r(2)] by (auto simp: set_reply_error_def)
  have ok: "msg_ok r'" using r'(2) msg_inv_ok by (simp add: updates_def)
  have fl: "(m_flags r OR REPLY_ERROR_BIT) AND REPLY_ERROR_BIT = REPLY_ERROR_BIT"
    by (rule bit_word_eqI) (auto simp: bit_simps)
  have fr: "(m_flags r OR REPLY_ERROR_BIT) AND REPLY_BIT = m_flags r AND REPLY_BIT"
    by (simp add: bit.conj_disj_distrib2 flag_bits)
  have "is_reply_error r' = Some True" "is_reply r' = Some True"
    using header_fields [OF ok] r'(2) fl fr r(5) header_fields [OF msg_inv_ok [OF r(2)]]
    by (simp_all add: updates_def is_flag_defs flag_bits)
  moreover have "carries i [] r'" using r(3) r'(2) ok by (simp add: carries_def updates_def)
  moreover have "payload_size r' = Some 4"
    using r'(2) r(4) by (auto simp: updates_def msg_inv_def elim: pickle_invE)
  moreover have "Dispatch_sync ra pid R W func q obj g = Some (r', obj, g + 1, False)"
    using assms(5) r(1) r'(1) by (simp add: Dispatch_sync_def DispatchWithSendParams_def)
  ultimately show ?thesis using reply_matches by blast
qed

lemma bad_request_reply_witness:
  "\<exists>q reply. Dispatch_sync zero_realloc None IntParam_Read IntParam_Write
       (\<lambda>n p. (n + p, p)) q 0 0 = Some (reply, 0, 1, False) \<and> is_reply_error reply = Some True"
proof -
  have p: "(2 :: u32) \<le> 3" by simp
  obtain s :: "(nat, nat) sync_message" where s: "msg_inv (sm_msg s)" "carries 3 [] (sm_msg s)"
    "m_flags (sm_msg s) = (2 OR fst (GetRefNumUpper24 None 0)) OR (SYNC_BIT OR UNBLOCK_BIT)"
    "psize (sm_msg s) = 4"
    using SyncMessage_new_spec [OF zero_realloc_ok p, of None 1 1 None 0 3] by blast
  have sync: "is_sync (sm_msg s) = Some True"
    using header_fields [OF msg_inv_ok [OF s(1)]] sync_flags(1) [OF p s(3)] by (simp add: is_sync_def)
  have "ReadSendParam IntParam_Read (sm_msg s) = Some None"
  proof -
    obtain b where b: "pk_header (sm_msg s) = Some b" "payload_size (sm_msg s) = Some (of_nat 4)"
      using s(1,4) by (auto simp: msg_inv_def elim: pickle_invE)
    then show ?thesis
      by (simp add: ReadSendParam_def GetDataIterator_def PickleIterator_def SkipBytes_def
          rbind_def GetReadPointer_def kSyncMessageHeaderSize_def rret_def AlignInt_def
          IntParam_Read_def ReadInt_def ReadBuiltinType_def GetReadPointer_type_def)
  qed
  from bad_request_reply [OF zero_realloc_ok s(2) sync this, of None IntParam_Write
      "\<lambda>n p. (n + p, p)" 0 0]
  show ?thesis by auto
qed

section \<open>Values\<close>

text \<open>C23: every value that is nested at most \<open>kMaxRecursionDepth\<close> deep and whose doubles are finite
  arrives as it was sent, dictionaries with their keys in order.\<close>

theorem value_message_roundtrip:
  assumes "realloc_ok ra" "alloc_total ra" "value_ok 0 v" "length (wire (value_chunks v)) < 2 ^ 30"
  shows "\<exists>m m' d q. Message_new ra pid routing type prio g = Some (m, g + 1) \<and>
     WriteValue ra 0 v m = Some m' \<and> pickle_data m' = Some d \<and>
     Message_from_data d (of_nat (length d)) = Some q \<and> Schema_Read (ReadValue 0) q = Some (Some v)"
proof -
  obtain m where m: "Message_new ra pid routing type prio g = Some (m, g + 1)" "msg_inv m" "psize m = 0"
    using Message_new_spec [OF assms(1,2)] by blast
  then show ?thesis
    using value_param.async_trip [OF assms m(2,3)] by (metis Schema_Write_def)
qed

lemma value_message_roundtrip_witness:
  "\<exists>m' d q. WriteValue zero_realloc 0 (VDictionary [([97], VList [VInteger 5, VNull])]) m' \<noteq> None \<and>
     Message_from_data d (of_nat (length d)) = Some q \<and>
     Schema_Read (ReadValue 0) q = Some (Some (VDictionary [([97], VList [VInteger 5, VNull])]))"
proof -
  have "value_ok 0 (VDictionary [([97], VList [VInteger 5, VNull])])"
    by (simp add: kMaxRecursionDepth_def)
  moreover have "length (wire (value_chunks (VDictionary [([97], VList [VInteger 5, VNull])]))) < 2 ^ 30"
    by (simp add: align4_def)
  ultimately show ?thesis
    using value_message_roundtrip [OF zero_realloc_ok, of _ None 7 1 2 0] by blast
qed

definition fails :: "'a reader \<Rightarrow> bytes list \<Rightarrow> bool" where
  "fails R cs \<longleftrightarrow> (\<forall>it. positioned it cs \<longrightarrow> fst (R it) = None)"

lemma rbind_fails: "reads R cs x ds \<Longrightarrow> fails (f x) ds \<Longrightarrow> fails (rbind R f) cs"
  unfolding fails_def reads_def by (metis rbind_Some)

lemma rbind_fails1: "fails R cs \<Longrightarrow> fails (rbind R f) cs"
  unfolding fails_def rbind_def by (auto split: prod.splits option.splits)

text \<open>How deep a value nests: a leaf and an empty container have depth 0.\<close>

fun value_depth :: "base_value \<Rightarrow> nat" where
  "value_depth (VDictionary es) = foldr (\<lambda>e. max (Suc (value_depth (snd e)))) es 0"
| "value_depth (VList vs) = foldr (\<lambda>v. max (Suc (value_depth v))) vs 0"
| "value_depth v = 0"

lemma foldr_max_le: "foldr (\<lambda>x. max (Suc (f x))) xs 0 \<le> n \<longleftrightarrow> (\<forall>x\<in>set xs. f x < n)"
  for f :: "'a \<Rightarrow> nat"
  by (induction xs) auto

lemma value_depth_children:
  "value_depth (VDictionary es) \<le> n \<longleftrightarrow> (\<forall>e\<in>set es. value_depth (snd e) < n)"
  "value_depth (VList vs) \<le> n \<longleftrightarrow> (\<forall>v\<in>set vs. value_depth v < n)"
  using foldr_max_le [of "\<lambda>e. value_depth (snd e)" es n] foldr_max_le [of value_depth vs n] by simp_all

declare value_depth.simps(1,2) [simp del]

lemma value_depth_empty [simp]: "value_depth (VDictionary []) = 0" "value_depth (VList []) = 0"
  by (simp_all add: value_depth.simps)

text \<open>Every value a reader returns satisfies \<open>P\<close>.\<close>

definition returns :: "'a reader \<Rightarrow> ('a \<Rightarrow> bool) \<Rightarrow> bool" where
  "returns R P \<longleftrightarrow> (\<forall>it v it'. R it = (Some v, it') \<longrightarrow> P v)"

lemma returns_rbind: "(\<And>x. returns (f x) P) \<Longrightarrow> returns (rbind R f) P"
  unfolding returns_def rbind_def by (auto split: prod.splits option.splits)

lemma returns_rbind_from:
  assumes "returns R Q" "\<And>x. Q x \<Longrightarrow> returns (f x) P"
  shows "returns (rbind R f) P"
  unfolding returns_def
proof (intro allI impI)
  fix it v it' assume e: "rbind R f it = (Some v, it')"
  obtain y it1 where "R it = (y, it1)" by (cases "R it")
  then obtain x where x: "R it = (Some x, it1)" using e by (cases y) (auto simp: rbind_None)
  then have "Q x" using assms(1) by (auto simp: returns_def)
  then show "P v" using assms(2) [of x] x e by (auto simp: returns_def rbind_Some)
qed

lemma returns_rret [simp]: "returns (rret v) P \<longleftrightarrow> P v"
  by (simp add: returns_def rret_def)

lemma returns_rfail [simp]: "returns rfail P"
  by (simp add: returns_def rfail_def)

lemma returns_for_loop:
  "P acc \<Longrightarrow> (\<And>i acc. P acc \<Longrightarrow> returns (body i acc) P) \<Longrightarrow> returns (for_loop n i body acc) P"
proof (induction n arbitrary: i acc)
  case (Suc n)
  show ?case
    unfolding for_loop.simps using Suc by (intro returns_rbind_from [of "body i acc" P]) blast+
qed simp

lemma ListValue_Set_depth:
  assumes "\<forall>v\<in>set vs. value_depth v < n" "value_depth v < n"
  shows "\<forall>w\<in>set (ListValue_Set i v vs). value_depth w < n"
  using assms by (auto simp: ListValue_Set_def set_replicate_conv_if dest!: set_update_subset_insert [THEN subsetD])

lemma map_put_in: "e \<in> set (map_put k v d) \<Longrightarrow> e = (k, v) \<or> e \<in> set d"
  by (induction k v d rule: map_put.induct) (auto split: if_splits)

lemma ReadListValue_depth:
  assumes "returns R (\<lambda>v. value_depth v < n)"
  shows "returns (ReadListValue R []) (\<lambda>vs. value_depth (VList vs) \<le> n)"
  unfolding ReadListValue_def value_depth_children
proof (rule returns_rbind, rule returns_for_loop)
  fix i and acc :: "base_value list" assume acc: "\<forall>v\<in>set acc. value_depth v < n"
  show "returns (rbind R (\<lambda>subval. rret (ListValue_Set i subval acc))) (\<lambda>vs. \<forall>v\<in>set vs. value_depth v < n)"
  proof (rule returns_rbind_from [OF assms])
    fix v assume v: "value_depth v < n"
    show "returns (rret (ListValue_Set i v acc)) (\<lambda>vs. \<forall>v\<in>set vs. value_depth v < n)"
      unfolding returns_rret by (rule ListValue_Set_depth [OF acc v])
  qed
qed simp

lemma ReadDictionaryValue_depth:
  assumes "returns R (\<lambda>v. value_depth v < n)"
  shows "returns (ReadDictionaryValue R []) (\<lambda>es. value_depth (VDictionary es) \<le> n)"
  unfolding ReadDictionaryValue_def value_depth_children
proof (rule returns_rbind, rule returns_for_loop)
  fix acc :: "(bytes \<times> base_value) list" assume acc: "\<forall>e\<in>set acc. value_depth (snd e) < n"
  have "returns (rbind R (\<lambda>subval. rret (map_put key subval acc)))
      (\<lambda>es. \<forall>e\<in>set es. value_depth (snd e) < n)" for key
  proof (rule returns_rbind_from [OF assms])
    fix v assume v: "value_depth v < n"
    show "returns (rret (map_put key v acc)) (\<lambda>es. \<forall>e\<in>set es. value_depth (snd e) < n)"
      unfolding returns_rret using acc v by (auto dest: map_put_in)
  qed
  then show "returns (rbind StringParam_Read (\<lambda>key. rbind R (\<lambda>subval. rret (map_put key subval acc))))
      (\<lambda>es. \<forall>e\<in>set es. value_depth (snd e) < n)"
    by (rule returns_rbind)
qed simp

lemmas containers_depth = ReadListValue_depth ReadDictionaryValue_depth

lemma ReadValue_levels_depth: "returns (ReadValue_levels d) (\<lambda>v. value_depth v < d)"
proof (induction d)
  case (Suc d)
  show ?case
    unfolding ReadValue_levels.simps
    by (intro returns_rbind)
      (auto intro!: returns_rbind returns_rbind_from [OF containers_depth(1) [OF Suc.IH]]
        returns_rbind_from [OF containers_depth(2) [OF Suc.IH]]
        simp: FundamentalValue_double_def less_Suc_eq_le)
qed simp

lemma ReadValue_depth: "returns (ReadValue r) (\<lambda>v. value_depth v + r \<le> kMaxRecursionDepth)"
  using ReadValue_levels_depth [of "kMaxRecursionDepth + 1 - r"]
  by (fastforce simp: returns_def ReadValue_def)

lemma top_readers_depth:
  "returns (DictionaryParam_Read []) (\<lambda>es. value_depth (VDictionary es) \<le> kMaxRecursionDepth)"
  "returns (ListParam_Read []) (\<lambda>vs. value_depth (VList vs) \<le> kMaxRecursionDepth)"
proof -
  have "returns (ReadValue 1) (\<lambda>v. value_depth v < kMaxRecursionDepth)"
    using ReadValue_depth [of 1] by (simp add: less_eq_Suc_le)
  note c = containers_depth [OF this]
  show "returns (DictionaryParam_Read []) (\<lambda>es. value_depth (VDictionary es) \<le> kMaxRecursionDepth)"
    using c(2) unfolding DictionaryParam_Read_def by (intro returns_rbind) simp
  show "returns (ListParam_Read []) (\<lambda>vs. value_depth (VList vs) \<le> kMaxRecursionDepth)"
    using c(1) unfolding ListParam_Read_def by (intro returns_rbind) simp
qed

text \<open>A value that can be sent apart from its depth: its strings and containers are shorter than
  \<open>2\<^sup>31\<close>, its doubles are finite and its dictionaries are maps.\<close>

fun sendable :: "base_value \<Rightarrow> bool" where
  "sendable (VDouble d) \<longleftrightarrow> IsFinite d"
| "sendable (VString s) \<longleftrightarrow> length s < 2 ^ 31"
| "sendable (VBinary b) \<longleftrightarrow> length b < 2 ^ 31"
| "sendable (VDictionary es) \<longleftrightarrow> length es < 2 ^ 31 \<and> sorted_wrt (<) (map fst es) \<and>
     (\<forall>e\<in>set es. length (fst e) < 2 ^ 31 \<and> sendable (snd e))"
| "sendable (VList vs) \<longleftrightarrow> length vs < 2 ^ 31 \<and> (\<forall>v\<in>set vs. sendable v)"
| "sendable v \<longleftrightarrow> True"

lemma depth_within:
  "value_depth (VDictionary es) + r \<le> n \<longleftrightarrow> r \<le> n \<and> (\<forall>e\<in>set es. value_depth (snd e) + (r + 1) \<le> n)"
  "value_depth (VList vs) + r \<le> n \<longleftrightarrow> r \<le> n \<and> (\<forall>v\<in>set vs. value_depth v + (r + 1) \<le> n)"
proof -
  have "value_depth v + r \<le> n \<longleftrightarrow> r \<le> n \<and> value_depth v \<le> n - r" for v by auto
  moreover have "value_depth v + (r + 1) \<le> n \<longleftrightarrow> value_depth v < n - r" for v by auto
  ultimately show
    "value_depth (VDictionary es) + r \<le> n \<longleftrightarrow> r \<le> n \<and> (\<forall>e\<in>set es. value_depth (snd e) + (r + 1) \<le> n)"
    "value_depth (VList vs) + r \<le> n \<longleftrightarrow> r \<le> n \<and> (\<forall>v\<in>set vs. value_depth v + (r + 1) \<le> n)"
    by (simp_all only: value_depth_children)
qed

lemma value_ok_depth_iff: "value_ok r v \<longleftrightarrow> sendable v \<and> value_depth v + r \<le> kMaxRecursionDepth"
proof (induction v arbitrary: r rule: value_chunks.induct)
  case (7 es)
  then show ?case by (auto simp only: value_ok.simps sendable.simps depth_within)
next
  case (8 vs)
  then show ?case by (auto simp only: value_ok.simps sendable.simps depth_within)
qed auto

lemma for_loop_fails:
  assumes "\<And>j cs'. j < n \<Longrightarrow> shallow j \<Longrightarrow> reads (body j (f j)) (enc j @ cs') (f (Suc j)) cs'"
    and "\<And>j cs'. j < n \<Longrightarrow> \<not> shallow j \<Longrightarrow> fails (body j (f j)) (enc j @ cs')"
    and "i \<le> k" "k < n" "\<not> shallow k"
  shows "fails (for_loop (n - i) i body (f i)) (concat (map enc [i..<n]) @ cs)"
  using assms(3)
proof (induction "k - i" arbitrary: i rule: less_induct)
  case less
  have i: "i < n" using less(2) assms(4) by simp
  then have split: "n - i = Suc (n - Suc i)" "[i..<n] = i # [Suc i..<n]"
    by (simp_all add: upt_conv_Cons)
  show ?case
  proof (cases "shallow i")
    case True
    then have "i \<noteq> k" using assms(5) by blast
    then have "fails (for_loop (n - Suc i) (Suc i) body (f (Suc i))) (concat (map enc [Suc i..<n]) @ cs)"
      using less by simp
    then show ?thesis
      using rbind_fails [OF assms(1) [OF i True]] by (simp add: split)
  next
    case False
    then show ?thesis using rbind_fails1 [OF assms(2) [OF i False]] by (simp add: split)
  qed
qed

lemma concat_nth: "concat (map (\<lambda>i. enc (xs ! i)) [0..<length xs]) = concat (map enc xs)"
proof -
  have "map (\<lambda>i. enc (xs ! i)) [0..<length xs] = map enc (map ((!) xs) [0..<length xs])" by simp
  then show ?thesis by (simp only: map_nth)
qed

lemma tag_fails: "fails (F t) ds \<Longrightarrow> fails (rbind IntParam_Read F) (bytes32 t # ds)"
  by (rule rbind_fails [OF int_param.read_reads [of _ ds, simplified]])

lemma ReadListValue_fails:
  assumes "length vs < 2 ^ 31" "w \<in> set vs" "\<not> shallow w"
    and "\<And>v cs. v \<in> set vs \<Longrightarrow> shallow v \<Longrightarrow> reads R (value_chunks v @ cs) v cs"
    and "\<And>v cs. v \<in> set vs \<Longrightarrow> \<not> shallow v \<Longrightarrow> fails R (value_chunks v @ cs)"
  shows "fails (ReadListValue R [])
     (bytes32 (of_nat (length vs)) # concat (map value_chunks vs) @ cs)"
proof -
  let ?body = "\<lambda>i acc. rbind R (\<lambda>subval. rret (ListValue_Set i subval acc))"
  obtain k where k: "k < length vs" "vs ! k = w" using assms(2) by (auto simp: in_set_conv_nth)
  have "fails (for_loop (length vs - 0) 0 ?body (take 0 vs))
      (concat (map (\<lambda>i. value_chunks (vs ! i)) [0..<length vs]) @ cs)"
  proof (rule for_loop_fails [where shallow = "\<lambda>i. shallow (vs ! i)" and k = k and f = "\<lambda>i. take i vs"])
    fix j cs' assume j: "j < length vs"
    show "reads (?body j (take j vs)) (value_chunks (vs ! j) @ cs') (take (Suc j) vs) cs'"
      if "shallow (vs ! j)"
      using j that by (intro wrap_read [OF assms(4)])
        (simp_all add: ListValue_Set_def take_Suc_conv_app_nth)
    show "fails (?body j (take j vs)) (value_chunks (vs ! j) @ cs')" if "\<not> shallow (vs ! j)"
      using j that by (intro rbind_fails1 assms(5)) simp_all
  qed (use k assms(3) in auto)
  then have "fails (for_loop (nat (sint (of_nat (length vs) :: i32))) 0 ?body [])
      (concat (map value_chunks vs) @ cs)"
    using sint_small_nat [OF assms(1)] by (simp add: concat_nth)
  then show ?thesis unfolding ReadListValue_def by (rule tag_fails)
qed

lemma ReadDictionaryValue_fails:
  assumes "length es < 2 ^ 31" "sorted_wrt (<) (map fst es)" "w \<in> set es" "\<not> shallow (snd w)"
    and "\<And>e. e \<in> set es \<Longrightarrow> length (fst e) < 2 ^ 31"
    and "\<And>e cs. e \<in> set es \<Longrightarrow> shallow (snd e) \<Longrightarrow> reads R (value_chunks (snd e) @ cs) (snd e) cs"
    and "\<And>e cs. e \<in> set es \<Longrightarrow> \<not> shallow (snd e) \<Longrightarrow> fails R (value_chunks (snd e) @ cs)"
  shows "fails (ReadDictionaryValue R [])
     (bytes32 (of_nat (length es)) # concat (map entry_chunks es) @ cs)"
proof -
  let ?body = "\<lambda>i :: nat. \<lambda>acc. rbind StringParam_Read (\<lambda>key. rbind R (\<lambda>subval. rret (map_put key subval acc)))"
  obtain k where k: "k < length es" "es ! k = w" using assms(3) by (auto simp: in_set_conv_nth)
  have "fails (for_loop (length es - 0) 0 ?body (take 0 es))
      (concat (map (\<lambda>i. entry_chunks (es ! i)) [0..<length es]) @ cs)"
  proof (rule for_loop_fails [where shallow = "\<lambda>i. shallow (snd (es ! i))" and k = k and f = "\<lambda>i. take i es"])
    fix j cs' assume j: "j < length es"
    then have e: "es ! j \<in> set es" by simp
    have "fst p < fst (es ! j)" if "p \<in> set (take j es)" for p
      using strict_take_less [OF assms(2), of j "fst p"] that j by (auto simp: take_map)
    then have m: "map_put (fst (es ! j)) (snd (es ! j)) (take j es) = take (Suc j) es"
      using j by (subst map_put_last) (auto simp: take_Suc_conv_app_nth)
    show "reads (?body j (take j es)) (entry_chunks (es ! j) @ cs') (take (Suc j) es) cs'"
      if "shallow (snd (es ! j))"
      unfolding append_assoc
      by (rule rbind_reads, rule string_param.read_reads, rule assms(5) [OF e])
        (rule wrap_read, rule assms(6) [OF e that], rule m)
    show "fails (?body j (take j es)) (entry_chunks (es ! j) @ cs')" if "\<not> shallow (snd (es ! j))"
      unfolding append_assoc
      by (rule rbind_fails, rule string_param.read_reads, rule assms(5) [OF e])
        (rule rbind_fails1, rule assms(7) [OF e that])
  qed (use k assms(4) in auto)
  then have "fails (for_loop (nat (sint (of_nat (length es) :: i32))) 0 ?body [])
      (concat (map entry_chunks es) @ cs)"
    using sint_small_nat [OF assms(1)] concat_nth [of entry_chunks es] by simp
  then show ?thesis unfolding ReadDictionaryValue_def by (rule tag_fails)
qed

lemma ReadValue_beyond: "kMaxRecursionDepth < r \<Longrightarrow> fails (ReadValue r) cs"
  by (simp add: ReadValue_def fails_def rfail_def)

lemma ReadValue_too_deep:
  "sendable v \<Longrightarrow> kMaxRecursionDepth < value_depth v + r \<Longrightarrow> fails (ReadValue r) (value_chunks v @ cs)"
proof (induction v arbitrary: r cs rule: value_chunks.induct)
  case (7 es)
  show ?case
  proof (cases "r \<le> kMaxRecursionDepth")
    case r: True
    let ?shallow = "\<lambda>v. value_depth v + (r + 1) \<le> kMaxRecursionDepth"
    obtain w where w: "w \<in> set es" "\<not> ?shallow (snd w)"
      using 7(3) depth_within(1) [of es r kMaxRecursionDepth] r by auto
    have "fails (ReadDictionaryValue (ReadValue (r + 1)) [])
        (bytes32 (of_nat (length es)) # concat (map entry_chunks es) @ cs)"
    proof (rule ReadDictionaryValue_fails [where shallow = ?shallow, OF _ _ w])
      fix e cs assume e: "e \<in> set es"
      show "reads (ReadValue (r + 1)) (value_chunks (snd e) @ cs) (snd e) cs" if "?shallow (snd e)"
        using 7(2) e that by (intro ReadValue_reads) (simp add: value_ok_depth_iff)
      show "fails (ReadValue (r + 1)) (value_chunks (snd e) @ cs)" if "\<not> ?shallow (snd e)"
        using 7(1) [OF e] 7(2) e that by simp
    qed (use 7(2) in auto)
    then have "fails (rbind (ReadDictionaryValue (ReadValue (r + 1)) []) (\<lambda>x. rret (VDictionary x)))
        (bytes32 (of_nat (length es)) # concat (map entry_chunks es) @ cs)"
      by (rule rbind_fails1)
    then show ?thesis
      unfolding ReadValue_step(1) [OF r] ReadValue_levels.simps ReadValue_step(2) [OF r]
        value_chunks.simps append_Cons
      by (intro tag_fails) simp
  qed (simp add: ReadValue_beyond)
next
  case (8 vs)
  show ?case
  proof (cases "r \<le> kMaxRecursionDepth")
    case r: True
    let ?shallow = "\<lambda>v. value_depth v + (r + 1) \<le> kMaxRecursionDepth"
    obtain w where w: "w \<in> set vs" "\<not> ?shallow w"
      using 8(3) depth_within(2) [of vs r kMaxRecursionDepth] r by auto
    have "fails (ReadListValue (ReadValue (r + 1)) [])
        (bytes32 (of_nat (length vs)) # concat (map value_chunks vs) @ cs)"
    proof (rule ReadListValue_fails [where shallow = ?shallow, OF _ w])
      fix v cs assume v: "v \<in> set vs"
      show "reads (ReadValue (r + 1)) (value_chunks v @ cs) v cs" if "?shallow v"
        using 8(2) v that by (intro ReadValue_reads) (simp add: value_ok_depth_iff)
      show "fails (ReadValue (r + 1)) (value_chunks v @ cs)" if "\<not> ?shallow v"
        using 8(1) [OF v] 8(2) v that by simp
    qed (use 8(2) in auto)
    then have "fails (rbind (ReadListValue (ReadValue (r + 1)) []) (\<lambda>x. rret (VList x)))
        (bytes32 (of_nat (length vs)) # concat (map value_chunks vs) @ cs)"
      by (rule rbind_fails1)
    then show ?thesis
      unfolding ReadValue_step(1) [OF r] ReadValue_levels.simps ReadValue_step(2) [OF r]
        value_chunks.simps append_Cons
      by (intro tag_fails) simp
  qed (simp add: ReadValue_beyond)
qed (simp_all add: ReadValue_beyond)

text \<open>C26: from any bytes at all, a reader of values that starts at depth \<open>r\<close> never returns a value
  that nests beyond \<open>kMaxRecursionDepth\<close>, through dictionaries, lists and any mixture of them; and the
  encoding of any value that nests deeper is refused, wherever in it the deep part is.\<close>

theorem nested_value_refused:
  "(\<forall>r it v it'. ReadValue r it = (Some v, it') \<longrightarrow> value_depth v + r \<le> kMaxRecursionDepth) \<and>
   (\<forall>it es it'. DictionaryParam_Read [] it = (Some es, it') \<longrightarrow>
      value_depth (VDictionary es) \<le> kMaxRecursionDepth) \<and>
   (\<forall>it vs it'. ListParam_Read [] it = (Some vs, it') \<longrightarrow>
      value_depth (VList vs) \<le> kMaxRecursionDepth) \<and>
   (\<forall>q deep cs. msg_ok q \<and> sendable deep \<and> kMaxRecursionDepth < value_depth deep \<and>
      payload q = wire0 (value_chunks deep @ cs) \<longrightarrow> Schema_Read (ReadValue 0) q = Some None)"
proof (intro conjI allI impI)
  show "value_depth v + r \<le> kMaxRecursionDepth" if "ReadValue r it = (Some v, it')" for r it v it'
    using ReadValue_depth [of r] that unfolding returns_def by blast
  show "value_depth (VDictionary es) \<le> kMaxRecursionDepth"
    if "DictionaryParam_Read [] it = (Some es, it')" for it es it'
    using top_readers_depth(1) that unfolding returns_def by blast
  show "value_depth (VList vs) \<le> kMaxRecursionDepth"
    if "ListParam_Read [] it = (Some vs, it')" for it vs it'
    using top_readers_depth(2) that unfolding returns_def by blast
  fix q deep cs
  assume q: "msg_ok q \<and> sendable deep \<and> kMaxRecursionDepth < value_depth deep \<and>
    payload q = wire0 (value_chunks deep @ cs)"
  then obtain it where "PickleIterator q = Some it" "positioned it (value_chunks deep @ cs)"
    using payload_iterator by blast
  then show "Schema_Read (ReadValue 0) q = Some None"
    using ReadValue_too_deep [of deep 0 cs] q by (simp add: Schema_Read_def fails_def)
qed

text \<open>A value with a null before each of its \<open>n\<close> nested lists.\<close>

primrec nest :: "nat \<Rightarrow> base_value" where
  "nest 0 = VNull"
| "nest (Suc n) = VList [VNull, nest n]"

lemma nest_facts: "value_depth (nest n) = n" "sendable (nest n)"
  "list_all (\<lambda>c. length c = 4) (value_chunks (nest n))"
  "length (concat (value_chunks (nest n))) = 12 * n + 4"
  by (induction n) (simp_all add: value_depth.simps)

lemma wire0_words: "list_all (\<lambda>c. length c = 4) cs \<Longrightarrow> wire0 cs = concat cs"
  by (induction cs rule: wire0.induct) simp_all

definition bomb :: message where
  "bomb = \<lparr>pk_header = Some (bytes32 1216 @ replicate 12 0 @ concat (value_chunks (nest 101))),
     pk_header_size = 16, pk_capacity = kCapacityReadOnly, pk_var_off = 0\<rparr>"

lemma nested_value_refused_witness: "Schema_Read (ReadValue 0) bomb = Some None"
proof -
  have len: "length (concat (value_chunks (nest 101))) = 1216" by (simp only: nest_facts)
  have ps: "psize bomb = 1216" "hsize bomb = 16"
    by (simp_all add: bomb_def psize_def payload_size_def load32_def hsize_def)
  then have "payload bomb = wire0 (value_chunks (nest 101) @ [])"
    using len by (simp add: payload_def wire0_words [OF nest_facts(3)]) (simp add: bomb_def pbuf_def)
  moreover have "msg_ok bomb" using ps len by (simp add: msg_ok_def) (simp add: bomb_def)
  moreover have "kMaxRecursionDepth < value_depth (nest 101)"
    by (simp only: nest_facts kMaxRecursionDepth_def)
  ultimately show ?thesis using nested_value_refused nest_facts(2) by blast
qed

section \<open>A message in a message\<close>

lemma WriteBytes_longer:
  assumes "unat len \<le> length data"
  shows "WriteBytes ra data len = WriteBytes ra (take (unat len) data) len"
proof (rule ext)
  fix p
  show "WriteBytes ra data len p = WriteBytes ra (take (unat len) data) len p"
    by (cases "BeginWrite ra len p"; cases "fst (the (BeginWrite ra len p))")
      (use assms in \<open>simp_all add: WriteBytes_def min_def\<close>)
qed

lemma MessageParam_Write_wrote:
  assumes ok: "msg_ok p" and small: "psize p < 2 ^ 31"
  shows "wrote (\<lambda>ra. MessageParam_Write ra p)
    [bytes32 (m_routing p), bytes32 (m_type p), bytes32 (m_flags p),
     bytes32 (of_nat (psize p)), payload p]"
proof -
  obtain b where b: "pk_header p = Some b" "hsize p = 16" "16 + psize p \<le> length b"
    using ok by (auto simp: msg_ok_def)
  obtain w where w: "payload_size p = Some w" "psize p = unat w"
    using b load32_Some [of 0 b] by (auto simp: payload_size_def psize_def)
  have pl: "payload p = take (unat w) (drop 16 b)" using b w by (simp add: payload_def pbuf_def)
  have lp: "length (payload p) = psize p" using b w pl by simp
  have "WriteData ra (drop 16 b) w = WriteData ra (payload p) (of_nat (length (payload p)))" for ra
    using b(3) w lp pl WriteBytes_longer [of w "drop 16 b" ra] by (simp add: WriteData_def)
  then have wd: "wrote (\<lambda>ra. drop_result (WriteData ra (drop 16 b) w))
      [bytes32 (of_nat (psize p)), payload p]"
    using drop_result_wrote [OF WriteData_writes [of "payload p"]] small lp by simp
  have "wrote (\<lambda>ra m. Option.bind (drop_result (WriteUInt32 ra (m_routing p)) m)
        (\<lambda>m1. Option.bind (drop_result (WriteUInt32 ra (m_type p)) m1)
        (\<lambda>m2. Option.bind (drop_result (WriteUInt32 ra (m_flags p)) m2)
        (drop_result (WriteData ra (drop 16 b) w)))))
      ([bytes32 (m_routing p)] @ [bytes32 (m_type p)] @ [bytes32 (m_flags p)] @
       [bytes32 (of_nat (psize p)), payload p])"
    by (intro bind_wrote drop_result_wrote prim_writes wd)
  then show ?thesis
    using header_fields [OF ok] b w by (simp add: MessageParam_Write_def wrote_def hsize_def)
qed

text \<open>a message sent inside another one arrives with its routing id, type, flags and payload.\<close>

theorem nested_message_roundtrip:
  assumes ra: "realloc_ok ra" "alloc_total ra" and p: "msg_ok p" "psize p < 2 ^ 29"
    and m: "msg_inv m" "psize m = 0" and r: "msg_inv r" "psize r = 0"
  shows "\<exists>m' it r' it'. MessageParam_Write ra p m = Some m' \<and> PickleIterator m' = Some it \<and>
     MessageParam_Read ra r it = (Some (True, r'), it') \<and> routing_id r' = routing_id p \<and>
     msg_type r' = msg_type p \<and> flags r' = flags p \<and> payload r' = payload p"
proof -
  let ?pl = "payload p"
  let ?cs = "[bytes32 (m_routing p), bytes32 (m_type p), bytes32 (m_flags p),
     bytes32 (of_nat (psize p)), ?pl]"
  have lp: "length ?pl = psize p" using p(1) by (auto simp: msg_ok_def payload_def pbuf_def)
  have al: "align4 (psize p) < 2 ^ 29 + 4" using align4_lt [of "psize p"] p(2) by linarith
  have pm: "pickle_inv m" and rm: "room ?cs m"
    using m lp al by (auto simp: msg_inv_def room_def align4_def [of 0])
  obtain m' where m': "MessageParam_Write ra p m = Some m'" "pickle_inv m'" "appends ?cs m m'"
    using wroteD [OF MessageParam_Write_wrote ra pm rm] p by auto
  have "payload m' = wire0 ?cs" using appends_payload [OF pm m'(3)] m(2) by (simp add: payload_def)
  then obtain it where it: "PickleIterator m' = Some it" "positioned it ?cs"
    using payload_iterator [OF msg_inv_ok [OF appends_header(1) [OF m(1) m'(2,3)]]] by blast
  have "reads ReadData [bytes32 (of_nat (length ?pl)), ?pl] ?pl []"
    using ReadData_reads [of ?pl "[]"] lp p(2) by simp
  then have "reads (rbind ReadUInt32 (\<lambda>rt. rbind ReadUInt32 (\<lambda>ty. rbind ReadUInt32 (\<lambda>fl.
        rbind ReadData (\<lambda>pl. rret (rt, ty, fl, pl)))))) ?cs
      (m_routing p, m_type p, m_flags p, ?pl) []"
    by (intro rbind_reads prim_reads) (auto intro: wrap_read prim_reads rret_reads simp: lp)
  then obtain it' where R: "rbind ReadUInt32 (\<lambda>rt. rbind ReadUInt32 (\<lambda>ty. rbind ReadUInt32 (\<lambda>fl.
        rbind ReadData (\<lambda>pl. rret (rt, ty, fl, pl))))) it =
      (Some (m_routing p, m_type p, m_flags p, ?pl), it')"
    using it(2) unfolding reads_def by blast
  obtain r1 where r1: "hdr_set 4 (m_routing p) r = Some r1"
    "updates r r1 (m_routing p) (m_type r) (m_flags r)" using set_routing_updates [OF r(1)] by blast
  obtain r2 where r2: "hdr_set 8 (m_type p) r1 = Some r2"
    "updates r1 r2 (m_routing r1) (m_type p) (m_flags r1)"
    using set_type_updates [OF updates_inv [OF r1(2)]] by blast
  obtain r3 where r3: "hdr_set 12 (m_flags p) r2 = Some r3"
    "updates r2 r3 (m_routing r2) (m_type r2) (m_flags p)"
    using set_flags_updates [OF updates_inv [OF r2(2)]] by blast
  have i3: "msg_inv r3" "psize r3 = 0" "pickle_inv r3"
    using r1(2) r2(2) r3(2) r(2) by (auto simp: updates_def msg_inv_def)
  have "room [?pl] r3" using i3 lp al by (auto simp: room_def msg_inv_def align4_def [of 0])
  moreover have "length ?pl < 2 ^ 31" using lp p(2) by simp
  ultimately obtain r' where r': "WriteBytes ra ?pl (of_nat (length ?pl)) r3 = Some (True, r')"
    "pickle_inv r'" "appends [?pl] r3 r'"
    using writesD [OF WriteBytes_writes ra i3(3)] by blast
  note h = appends_header [OF i3(1) r'(2,3)]
  have "MessageParam_Read ra r it = (Some (True, r'), it')"
    using R r1(1) r2(1) r3(1) r'(1) by (simp add: MessageParam_Read_def SetHeaderValues_def)
  moreover have "payload r' = ?pl"
    using appends_payload [OF i3(3) r'(3)] i3(2) by (simp add: payload_def [of r3])
  moreover have "routing_id r' = routing_id p" "msg_type r' = msg_type p" "flags r' = flags p"
    using header_fields [OF msg_inv_ok [OF h(1)]] header_fields [OF p(1)] h(2) r1(2) r2(2) r3(2)
    by (simp_all add: updates_def)
  ultimately show ?thesis using m'(1) it(1) by blast
qed

lemma nested_message_roundtrip_witness:
  "\<exists>p m m' it r r' it'. MessageParam_Write zero_realloc p m = Some m' \<and> PickleIterator m' = Some it \<and>
     MessageParam_Read zero_realloc r it = (Some (True, r'), it') \<and> routing_id r' = Some 9"
proof -
  obtain m where m: "msg_inv m" "psize m = 0" "m_routing m = 9" using fresh_message by blast
  have "psize m < 2 ^ 29" using m(2) by simp
  from nested_message_roundtrip [OF zero_realloc_ok msg_inv_ok [OF m(1)] this m(1,2) m(1,2)]
  show ?thesis using header_fields(1) [OF msg_inv_ok [OF m(1)]] m(3) by fastforce
qed

end
