(* ===== verification/ServerPort.thy ===== *)
theory ServerPort
  imports ChildProcess Params_Calls ChannelProxy_Props
begin

text \<open>
  The two programs of the repository: the server's dialog (\<open>ServerPort/ServerPort/ServerPortDlg.cpp\<close>),
  which launches the client and listens to it, and the client's button
  (\<open>ServerPort/ClientPort/ClientPortDlg.cpp\<close>), which sends the one message of
  \<open>ServerPort/ipc_process/test_messages.h\<close>.  Windows, icons and menus are not modelled.
\<close>

section \<open>The message\<close>

definition MyTestMsgStart :: u32 where "MyTestMsgStart = 73"

text \<open>\<open>IPC_MESSAGE_ID()\<close> on line 17 of the header.\<close>

definition ViewMsg_MyTestIpc_ID :: u32 where
  "ViewMsg_MyTestIpc_ID = push_bit 16 MyTestMsgStart + 17"

definition ViewMsg_MyTestIpc ::
    "realloc_fn \<Rightarrow> u32 option \<Rightarrow> i32 \<Rightarrow> u16 list \<Rightarrow> u32 \<Rightarrow> (message \<times> u32) option" where
  "ViewMsg_MyTestIpc ra pid routing content g = do {
     (m, g') \<leftarrow> Message_new ra pid routing ViewMsg_MyTestIpc_ID PRIORITY_NORMAL g;
     m' \<leftarrow> Schema_Write WStringParam_Write ra content m;
     Some (m', g') }"

text \<open>The client's button: the text of the edit control up to its terminating zero, on the route 1; \<open>send\<close> is
  \<open>Send\<close> of the child's channel.\<close>

definition OnBnClickedSend ::
    "realloc_fn \<Rightarrow> u32 option \<Rightarrow> (message \<Rightarrow> 'c \<Rightarrow> bool \<times> 'c) \<Rightarrow> u16 list \<Rightarrow> u32 \<Rightarrow> 'c child
      \<Rightarrow> (message \<times> u32 \<times> 'c child) option" where
  "OnBnClickedSend ra pid send text g p = do {
     (m, g') \<leftarrow> ViewMsg_MyTestIpc ra pid 1 (takeWhile (\<lambda>c. c \<noteq> 0) text) g;
     Some (m, g', snd (Child_Send send m p)) }"

section \<open>The server's dialog\<close>

text \<open>\<open>sd_shown\<close> are the texts of the message boxes, \<open>sd_last_id\<close> and \<open>sd_seq\<close> the counters of the
  process for channel identifiers and messages.  The environment gives the proxy's, the random numbers and
  what \<open>LaunchProcess\<close> returns.\<close>

record 'w server_dlg =
  sd_channel :: "'w px option"
  sd_launcher :: "launcher option"
  sd_queued :: "message list"
  sd_initialized :: bool
  sd_deleting_soon :: bool
  sd_fast_shutdown :: bool
  sd_id :: i32
  sd_shown :: "u16 list list"
  sd_last_id :: u32
  sd_seq :: u32

record 'w server_env =
  se_proxy :: "'w proxy_env"
  se_pid :: i32
  se_draws :: "i32 list"
  se_rand :: i32
  se_channel :: "'w px"
  se_handle :: u32

definition ServerDlg_new :: "u32 \<Rightarrow> u32 \<Rightarrow> 'w server_dlg" where
  "ServerDlg_new last_id seq =
     \<lparr>sd_channel = None, sd_launcher = None, sd_queued = [], sd_initialized = False,
      sd_deleting_soon = False, sd_fast_shutdown = False, sd_id = 0, sd_shown = [],
      sd_last_id = last_id, sd_seq = seq\<rparr>"

definition GetID :: "'w server_dlg \<Rightarrow> i32" where
  "GetID d = sd_id d"

definition Server_Send :: "'w server_env \<Rightarrow> message \<Rightarrow> 'w server_dlg \<Rightarrow> bool \<times> 'w server_dlg" where
  "Server_Send env m d =
     (case sd_channel d of
        None \<Rightarrow>
          if \<not> sd_initialized d then (True, d\<lparr>sd_queued := sd_queued d @ [m]\<rparr>) else (False, d)
      | Some c \<Rightarrow> let (r, c') = ChannelProxy_Send (se_proxy env) m c in (r, d\<lparr>sd_channel := Some c'\<rparr>))"

definition ProcessDied :: "bool \<Rightarrow> 'w server_dlg \<Rightarrow> 'w server_dlg" where
  "ProcessDied already_dead d = d"

definition Server_OnChannelError :: "'w server_dlg \<Rightarrow> 'w server_dlg" where
  "Server_OnChannelError d = ProcessDied True d"

text \<open>The loop of \<open>OnProcessLaunched\<close>; \<open>None\<close>: it does not end.\<close>

partial_function (option) flush_queue :: "'w server_env \<Rightarrow> 'w server_dlg \<Rightarrow> 'w server_dlg option" where
  "flush_queue env d =
     (case sd_queued d of
        [] \<Rightarrow> Some d
      | m # _ \<Rightarrow>
          (let d1 = snd (Server_Send env m d)
           in flush_queue env (d1\<lparr>sd_queued := tl (sd_queued d1)\<rparr>)))"

definition OnProcessLaunched :: "'w server_env \<Rightarrow> 'w server_dlg \<Rightarrow> 'w server_dlg option" where
  "OnProcessLaunched env d =
     (if sd_deleting_soon d then Some d
      else case sd_launcher d of
          Some l \<Rightarrow> if Launcher_GetHandle l = 0 then Some (Server_OnChannelError d) else flush_queue env d
        | None \<Rightarrow> flush_queue env d)"

text \<open>\<open>LaunchClientProc\<close>: the launcher calls \<open>OnProcessLaunched\<close> in its constructor, before
  \<open>child_process_launcher_\<close> points to it.  The child's handle is kept by the context.\<close>

definition LaunchClientProc ::
    "(launcher_task, 'w) loop_env \<Rightarrow> nat option \<Rightarrow> 'w server_env \<Rightarrow> 'w server_dlg \<Rightarrow> 'w globals
      \<Rightarrow> (bool \<times> 'w server_dlg \<times> 'w globals) option" where
  "LaunchClientProc lenv cur env d g =
     (if sd_channel d \<noteq> None then Some (True, d, g)
      else do {
        (channel_id, last_id) \<leftarrow>
          GenerateVerifiedChannelID [] (se_pid env) (sd_last_id d) (se_draws env) (se_rand env);
        let c = ChannelProxy_Init (se_proxy env) channel_id None MODE_SERVER_FLAG True
                  (on_px (\<lambda>p. Context_new (sd_seq d) (px_world p)) (se_channel env));
        let d1 = d\<lparr>sd_last_id := last_id, sd_channel := Some c\<rparr>;
        let (calls, l, g1) = Launcher_Launch lenv cur (se_handle env) True LauncherContext_new g;
        d2 \<leftarrow> (if calls then OnProcessLaunched env d1 else Some d1);
        Some (True, d2\<lparr>sd_launcher := Some l, sd_fast_shutdown := False, sd_initialized := True\<rparr>, g1) })"

definition OnMyTestIpc :: "'w server_dlg \<Rightarrow> u16 list \<Rightarrow> 'w server_dlg" where
  "OnMyTestIpc d content = d\<lparr>sd_shown := sd_shown d @ [content]\<rparr>"

definition Server_OnMessageReceived :: "message \<Rightarrow> 'w server_dlg \<Rightarrow> (bool \<times> 'w server_dlg) option" where
  "Server_OnMessageReceived m d =
     (if sd_deleting_soon d \<or> sd_fast_shutdown d then Some (False, d)
      else do {
        type \<leftarrow> msg_type m;
        if type = ViewMsg_MyTestIpc_ID
        then do {
          (msg_is_ok, d') \<leftarrow> Dispatch_async WStringParam_Read OnMyTestIpc m d;
          Some (True, d') }
        else Some (True, d) })"

definition Server_OnChannelConnected :: "i32 \<Rightarrow> 'w server_dlg \<Rightarrow> 'w server_dlg" where
  "Server_OnChannelConnected peer_pid d =
     d\<lparr>sd_shown := sd_shown d @ [map (\<lambda>c. of_char c) ''OnChannelConnected'']\<rparr>"

section \<open>The process host\<close>

text \<open>\<open>ServerPort/ipc_process/process_host_impl.cc\<close>, of which the dialog creates one and uses none of the
  operations.  \<open>id_\<close> is never initialised: it is what the memory held.\<close>

record 'w process_host =
  ph_channel :: "'w px option"
  ph_initialized :: bool
  ph_id :: i32
  ph_next_routing_id :: u32

definition ProcessHostImpl_new :: "i32 \<Rightarrow> 'w process_host" where
  "ProcessHostImpl_new memory =
     \<lparr>ph_channel = None, ph_initialized = False, ph_id = memory, ph_next_routing_id = 0\<rparr>"

text \<open>The command line that \<open>Init\<close> builds is not used.  The counters of the process are in the dialog's
  state; here they are arguments and results.\<close>

definition ProcessHost_Init ::
    "'w server_env \<Rightarrow> u32 \<Rightarrow> u32 \<Rightarrow> 'w process_host \<Rightarrow> (bool \<times> u32 \<times> 'w process_host) option" where
  "ProcessHost_Init env last_id seq h =
     (if ph_channel h \<noteq> None then Some (True, last_id, h)
      else do {
        (channel_id, last_id') \<leftarrow>
          GenerateVerifiedChannelID [] (se_pid env) last_id (se_draws env) (se_rand env);
        let c = ChannelProxy_Init (se_proxy env) channel_id None MODE_SERVER_FLAG True
                  (on_px (\<lambda>p. Context_new seq (px_world p)) (se_channel env));
        Some (True, last_id', h\<lparr>ph_channel := Some c, ph_initialized := True\<rparr>) })"

definition GetNextRoutingID :: "'w process_host \<Rightarrow> i32 \<times> 'w process_host" where
  "GetNextRoutingID h =
     (let (i, n) = GetNext (ph_next_routing_id h) in (i + 1, h\<lparr>ph_next_routing_id := n\<rparr>))"

text \<open>\<open>run_renderer_in_process\<close> is false: the handle is null, and \<open>ReceivedBadMessage\<close> tries to kill the
  process of that handle; the result is what it asks \<open>KillProcess\<close> for.\<close>

definition run_renderer_in_process :: bool where
  "run_renderer_in_process = False"

definition ProcessHost_GetHandle :: "u32 \<Rightarrow> u32" where
  "ProcessHost_GetHandle current = (if run_renderer_in_process then current else 0)"

definition ReceivedBadMessage :: "u32 \<Rightarrow> (u32 \<times> i32) option" where
  "ReceivedBadMessage current =
     (if run_renderer_in_process then None else Some (ProcessHost_GetHandle current, 3))"

text \<open>\<open>None\<close>: a call on a null channel.\<close>

definition ProcessHost_Send :: "'w server_env \<Rightarrow> message \<Rightarrow> 'w process_host \<Rightarrow> (bool \<times> 'w process_host) option" where
  "ProcessHost_Send env m h =
     (case ph_channel h of
        None \<Rightarrow> None
      | Some c \<Rightarrow> let (r, c') = ChannelProxy_Send (se_proxy env) m c in Some (r, h\<lparr>ph_channel := Some c'\<rparr>))"

definition HasConnection :: "'w process_host \<Rightarrow> bool" where
  "HasConnection h \<longleftrightarrow> ph_channel h \<noteq> None"

text \<open>\<open>Cleanup\<close> posts the deletion of the host to its loop and drops the channel.\<close>

definition Cleanup ::
    "('k, 's) loop_env \<Rightarrow> ('w process_host \<Rightarrow> 'k) \<Rightarrow> 'w process_host \<Rightarrow> ('k, 's) msg_loop
      \<Rightarrow> 'w process_host \<times> ('k, 's) msg_loop" where
  "Cleanup env deleter h s = (h\<lparr>ph_channel := None\<rparr>, DeleteSoonInternal env deleter h s)"

section \<open>Runs of the dialog\<close>

text \<open>What the user and the program do with the dialog.\<close>

datatype server_op = OpSend message | OpLaunch

definition server_step ::
    "(launcher_task, 'w) loop_env \<Rightarrow> nat option \<Rightarrow> 'w server_env \<Rightarrow> server_op \<Rightarrow> 'w server_dlg \<times> 'w globals
      \<Rightarrow> (bool \<times> 'w server_dlg \<times> 'w globals) option" where
  "server_step lenv cur env op s =
     (case op of
        OpSend m \<Rightarrow> (let (r, d) = Server_Send env m (fst s) in Some (r, d, snd s))
      | OpLaunch \<Rightarrow> LaunchClientProc lenv cur env (fst s) (snd s))"

fun server_run ::
    "(launcher_task, 'w) loop_env \<Rightarrow> nat option \<Rightarrow> 'w server_env \<Rightarrow> server_op list \<Rightarrow> 'w server_dlg \<times> 'w globals
      \<Rightarrow> (bool list \<times> 'w server_dlg \<times> 'w globals) option" where
  "server_run lenv cur env [] s = Some ([], s)"
| "server_run lenv cur env (op # ops) s = do {
     (r, s1) \<leftarrow> server_step lenv cur env op s;
     (rs, s2) \<leftarrow> server_run lenv cur env ops s1;
     Some (r # rs, s2) }"

fun sent_by :: "server_op list \<Rightarrow> message list" where
  "sent_by [] = []"
| "sent_by (OpSend m # ops) = m # sent_by ops"
| "sent_by (OpLaunch # ops) = sent_by ops"

section \<open>Messages before and after the launch\<close>

lemma ChannelProxy_Send_sends:
  "ChannelProxy_Send env m c = (r, c') \<Longrightarrow>
     r \<and> sends_of (px_ipc (ch_user c')) = sends_of (px_ipc (ch_user c)) @ [pe_rewrite env m]"
  by (auto simp: ChannelProxy_Send_def post_ipc_def on_px_def)

lemma flush_queue_sends:
  "sd_channel d = Some c \<Longrightarrow>
     \<exists>c'. flush_queue env d = Some (d\<lparr>sd_queued := [], sd_channel := Some c'\<rparr>) \<and>
       sends_of (px_ipc (ch_user c')) =
         sends_of (px_ipc (ch_user c)) @ map (pe_rewrite (se_proxy env)) (sd_queued d)"
proof (induction "sd_queued d" arbitrary: d c)
  case Nil
  then have "d\<lparr>sd_queued := [], sd_channel := Some c\<rparr> = d" by simp
  then show ?case using Nil by (intro exI [of _ c]) (simp add: flush_queue.simps)
next
  case (Cons m q)
  obtain r c1 where s: "ChannelProxy_Send (se_proxy env) m c = (r, c1)" by fastforce
  let ?d = "d\<lparr>sd_channel := Some c1, sd_queued := q\<rparr>"
  have q: "sd_queued d = m # q" using Cons.hyps(2) by simp
  have d: "flush_queue env d = flush_queue env ?d"
    using q Cons.prems s by (subst flush_queue.simps) (simp add: Server_Send_def)
  obtain c2 where c2: "flush_queue env ?d = Some (?d\<lparr>sd_queued := [], sd_channel := Some c2\<rparr>)"
    "sends_of (px_ipc (ch_user c2)) = sends_of (px_ipc (ch_user c1)) @ map (pe_rewrite (se_proxy env)) q"
    using Cons.hyps(1) [of ?d c1] by auto
  then show ?case using d q ChannelProxy_Send_sends [OF s] by (intro exI [of _ c2]) simp
qed

text \<open>Without a channel the loop would push back every message it takes, and not end; it is only entered
  once there is one.\<close>

lemma flush_queue_stuck:
  assumes "sd_channel d = None" "\<not> sd_initialized d" "sd_queued d \<noteq> []"
  shows "flush_queue env d = None"
proof -
  have "\<not> (sd_channel d = None \<and> \<not> sd_initialized d \<and> sd_queued d \<noteq> [])" if "flush_queue env d = Some r" for env :: "'a server_env" and d r
  proof (rule flush_queue.raw_induct [where P = "\<lambda>_ d _. \<not> (sd_channel d = None \<and> \<not> sd_initialized d \<and>
      sd_queued d \<noteq> [])", OF _ that], rule notI)
    fix f :: "'a server_env \<Rightarrow> 'a server_dlg \<Rightarrow> 'a server_dlg option" and env d r
    assume ih: "\<And>env d r. f env d = Some r \<Longrightarrow>
        \<not> (sd_channel d = None \<and> \<not> sd_initialized d \<and> sd_queued d \<noteq> [])"
      and e: "(case sd_queued d of [] \<Rightarrow> Some d | m # _ \<Rightarrow>
          (let d1 = snd (Server_Send env m d) in f env (d1\<lparr>sd_queued := tl (sd_queued d1)\<rparr>))) = Some r"
      and a: "sd_channel d = None \<and> \<not> sd_initialized d \<and> sd_queued d \<noteq> []"
    then obtain m q where q: "sd_queued d = m # q" by (cases "sd_queued d") auto
    have "f env (d\<lparr>sd_queued := q @ [m]\<rparr>) = Some r" using e q a by (simp add: Server_Send_def)
    from ih [OF this] show False using a by simp
  qed
  then show ?thesis using assms by (metis option.exhaust)
qed

lemma ChannelProxy_Init_sends:
  "sends_of (px_ipc (ch_user (ChannelProxy_Init env name handle mode True
     (on_px (\<lambda>p. Context_new g (px_world p)) s)))) = []"
  by (auto simp: ChannelProxy_Init_def CreateChannel_def post_ipc_def on_px_def Context_new_def sends_of_def
      dest: ChannelImpl_new_user split: option.splits)

text \<open>Every message handed to the dialog so far: sent on the channel or still queued.\<close>

definition server_sent :: "'w server_env \<Rightarrow> 'w server_dlg \<Rightarrow> message list" where
  "server_sent env d =
     (case sd_channel d of None \<Rightarrow> [] | Some c \<Rightarrow> sends_of (px_ipc (ch_user c))) @
     map (pe_rewrite (se_proxy env)) (sd_queued d)"

definition server_inv :: "'w server_dlg \<Rightarrow> bool" where
  "server_inv d \<longleftrightarrow> \<not> sd_deleting_soon d \<and> (sd_initialized d \<longleftrightarrow> sd_channel d \<noteq> None) \<and>
     (sd_channel d = None \<longleftrightarrow> sd_launcher d = None) \<and> (sd_channel d \<noteq> None \<longrightarrow> sd_queued d = [])"

lemma Server_Send_sent:
  assumes "server_inv d" "Server_Send env m d = (r, d')"
  shows "r \<and> server_inv d' \<and> server_sent env d' = server_sent env d @ [pe_rewrite (se_proxy env) m]"
proof (cases "sd_channel d")
  case None
  then show ?thesis using assms by (auto simp: Server_Send_def server_inv_def server_sent_def)
next
  case (Some c)
  obtain b c1 where s: "ChannelProxy_Send (se_proxy env) m c = (b, c1)" by fastforce
  then show ?thesis using assms Some ChannelProxy_Send_sends [OF s]
    by (auto simp: Server_Send_def server_inv_def server_sent_def)
qed

lemma LaunchClientProc_sent:
  assumes "server_inv d" "draw_secret (se_draws env) \<noteq> None"
  shows "\<exists>d' g'. LaunchClientProc lenv cur env d g = Some (True, d', g') \<and> server_inv d' \<and>
    server_sent env d' = server_sent env d \<and> sd_channel d' \<noteq> None"
proof (cases "sd_channel d")
  case None
  obtain cid last where i: "GenerateVerifiedChannelID [] (se_pid env) (sd_last_id d) (se_draws env) (se_rand env) =
      Some (cid, last)"
    using assms(2) by (cases "draw_secret (se_draws env)"; cases "GenerateUniqueRandomChannelID (se_pid env)
      (sd_last_id d) (se_rand env)") (auto simp: GenerateVerifiedChannelID_def)
  define c where "c = ChannelProxy_Init (se_proxy env) cid None MODE_SERVER_FLAG True
      (on_px (\<lambda>p. Context_new (sd_seq d) (px_world p)) (se_channel env))"
  let ?d = "d\<lparr>sd_last_id := last, sd_channel := Some c\<rparr>"
  have e: "sends_of (px_ipc (ch_user c)) = []" unfolding c_def by (rule ChannelProxy_Init_sends)
  have "\<exists>c1. flush_queue env ?d = Some (?d\<lparr>sd_queued := [], sd_channel := Some c1\<rparr>) \<and>
      sends_of (px_ipc (ch_user c1)) = sends_of (px_ipc (ch_user c)) @ map (pe_rewrite (se_proxy env)) (sd_queued ?d)"
    by (rule flush_queue_sends) simp
  then obtain c1 where c1: "flush_queue env ?d = Some (?d\<lparr>sd_queued := [], sd_channel := Some c1\<rparr>)"
    "sends_of (px_ipc (ch_user c1)) = map (pe_rewrite (se_proxy env)) (sd_queued d)"
    by (elim exE conjE, intro that) (simp_all add: e)
  have "OnProcessLaunched env ?d = Some (?d\<lparr>sd_queued := [], sd_channel := Some c1\<rparr>)"
    using assms(1) None c1(1) by (simp add: OnProcessLaunched_def server_inv_def)
  then show ?thesis using None i c1 assms(1)
    by (simp add: LaunchClientProc_def c_def [symmetric] Launcher_Launch_def Let_def)
      (simp add: server_inv_def server_sent_def)
next
  case (Some c)
  then show ?thesis using assms(1) by (auto simp: LaunchClientProc_def server_inv_def)
qed

lemma server_run_sent:
  assumes "server_inv (fst s)" "draw_secret (se_draws env) \<noteq> None"
  shows "\<exists>rs d g. server_run lenv cur env ops s = Some (rs, d, g) \<and> list_all id rs \<and> server_inv d \<and>
    server_sent env d = server_sent env (fst s) @ map (pe_rewrite (se_proxy env)) (sent_by ops) \<and>
    (sd_channel d \<noteq> None \<longleftrightarrow> sd_channel (fst s) \<noteq> None \<or> OpLaunch \<in> set ops)"
  using assms(1)
proof (induction ops arbitrary: s)
  case (Cons op ops)
  show ?case
  proof (cases op)
    case (OpSend m)
    obtain r d where s: "Server_Send env m (fst s) = (r, d)" by fastforce
    note o = Server_Send_sent [OF Cons.prems s]
    have c: "sd_channel d = None \<longleftrightarrow> sd_channel (fst s) = None"
      using s by (auto simp: Server_Send_def split: option.splits if_splits prod.splits)
    show ?thesis using Cons.IH [of "(d, snd s)"] o s c OpSend by (auto simp: server_step_def)
  next
    case OpLaunch
    obtain d g where l: "LaunchClientProc lenv cur env (fst s) (snd s) = Some (True, d, g)" "server_inv d"
      "server_sent env d = server_sent env (fst s)" "sd_channel d \<noteq> None"
      using LaunchClientProc_sent [OF Cons.prems assms(2), of lenv cur "snd s"] by auto
    show ?thesis using Cons.IH [of "(d, g)"] l OpLaunch by (auto simp: server_step_def)
  qed
next
  case Nil
  then show ?case by (cases s) simp
qed

lemma server_run_queued:
  "server_run lenv cur env ops s = Some (rs, d, g) \<Longrightarrow> OpLaunch \<notin> set ops \<Longrightarrow> sd_channel (fst s) = None \<Longrightarrow>
     \<not> sd_initialized (fst s) \<Longrightarrow> sd_queued d = sd_queued (fst s) @ sent_by ops"
proof (induction ops arbitrary: s rs)
  case (Cons op ops)
  then obtain m where m: "op = OpSend m" by (cases op) auto
  let ?d = "(fst s)\<lparr>sd_queued := sd_queued (fst s) @ [m]\<rparr>"
  obtain rs' where "server_run lenv cur env ops (?d, snd s) = Some (rs', d, g)"
    using Cons.prems m by (auto simp: server_step_def Server_Send_def split: Option.bind_splits)
  then show ?case using Cons.IH [of "(?d, snd s)"] Cons.prems m by simp
qed simp

text \<open>C15: the server's messages keep their order across the launch.  Whatever the user does, every \<open>Send\<close> is
  accepted and every launch returns; the messages are on the channel, or queued while there is none, in
  the order of the calls, each once, and after a launch none is left behind in the queue.\<close>

theorem server_sends_in_order:
  assumes "draw_secret (se_draws env) \<noteq> None"
  shows "\<exists>rs d g'. server_run lenv cur env ops (ServerDlg_new i q, g) = Some (rs, d, g') \<and> list_all id rs \<and>
    (case sd_channel d of
       None \<Rightarrow> OpLaunch \<notin> set ops \<and> sd_queued d = sent_by ops
     | Some c \<Rightarrow> OpLaunch \<in> set ops \<and> sd_queued d = [] \<and>
         sends_of (px_ipc (ch_user c)) = map (pe_rewrite (se_proxy env)) (sent_by ops))"
proof -
  have n: "server_inv (ServerDlg_new i q)" by (simp add: server_inv_def ServerDlg_new_def)
  obtain rs d g' where r: "server_run lenv cur env ops (ServerDlg_new i q, g) = Some (rs, d, g')" "list_all id rs"
    "server_inv d" "server_sent env d = map (pe_rewrite (se_proxy env)) (sent_by ops)"
    "sd_channel d \<noteq> None \<longleftrightarrow> OpLaunch \<in> set ops"
    using server_run_sent [OF _ assms, of "(ServerDlg_new i q, g)" lenv cur ops] n
    by (auto simp: server_sent_def ServerDlg_new_def)
  show ?thesis
  proof (cases "sd_channel d")
    case None
    then have "sd_queued d = sent_by ops"
      using server_run_queued [OF r(1)] r(5) by (simp add: ServerDlg_new_def)
    then show ?thesis using r None by auto
  next
    case (Some c)
    then show ?thesis using r by (auto simp: server_inv_def server_sent_def)
  qed
qed

text \<open>A child that could not be started is not noticed: the handle is looked at through
  \<open>child_process_launcher_\<close>, which is still null when \<open>OnProcessLaunched\<close> runs.\<close>

lemma failed_launch_unnoticed:
  assumes "server_inv d" "sd_channel d = None" "draw_secret (se_draws env) \<noteq> None" "se_handle env = 0"
  shows "\<exists>d' g' l. LaunchClientProc lenv cur env d g = Some (True, d', g') \<and> sd_launcher d' = Some l \<and>
    lc_handle l = 0 \<and> sd_queued d' = [] \<and> server_sent env d' = server_sent env d"
proof -
  obtain d' g' where d': "LaunchClientProc lenv cur env d g = Some (True, d', g')" "server_inv d'"
    "server_sent env d' = server_sent env d" "sd_channel d' \<noteq> None"
    using LaunchClientProc_sent [OF assms(1,3), of lenv cur g] by blast
  have "\<exists>l. sd_launcher d' = Some l \<and> lc_handle l = 0"
    using d'(1) assms(2,4)
    by (auto simp: LaunchClientProc_def Launcher_Launch_def LauncherContext_new_def Let_def
        split: Option.bind_splits)
  then show ?thesis using d' by (auto simp: server_inv_def)
qed

text \<open>Two messages before the launch, one after it, on a system that lets the child start.\<close>

definition demo_server :: "listener_log server_env" where
  "demo_server = \<lparr>se_proxy = plain_env, se_pid = 7, se_draws = [0, 5], se_rand = 9,
     se_channel = plain_channel [], se_handle = 12\<rparr>"

definition demo_globals :: "(launcher_task, listener_log) thread_globals" where
  "demo_globals = \<lparr>bg_threads = (\<lambda>_. None), bg_objects = (\<lambda>_. None), bg_loops = (\<lambda>_. None), bg_lock = False\<rparr>"

lemma server_sends_in_order_witness:
  "\<forall>lenv m1 m2 m3. \<exists>rs d g'. server_run lenv (Some 1) demo_server [OpSend m1, OpSend m2, OpLaunch, OpSend m3]
       (ServerDlg_new 0 0, demo_globals) = Some (rs, d, g') \<and> list_all id rs \<and>
     (\<exists>c. sd_channel d = Some c \<and> sends_of (px_ipc (ch_user c)) = [m1, m2, m3])"
proof (intro allI)
  fix lenv :: "(launcher_task, listener_log) loop_env" and m1 m2 m3
  have "draw_secret (se_draws demo_server) \<noteq> None" by (simp add: demo_server_def)
  from server_sends_in_order [OF this, of lenv "Some 1" "[OpSend m1, OpSend m2, OpLaunch, OpSend m3]" 0 0
      demo_globals]
  obtain rs d g' where r: "server_run lenv (Some 1) demo_server [OpSend m1, OpSend m2, OpLaunch, OpSend m3]
       (ServerDlg_new 0 0, demo_globals) = Some (rs, d, g')" "list_all id rs"
    "case sd_channel d of None \<Rightarrow> False
      | Some c \<Rightarrow> sends_of (px_ipc (ch_user c)) = map (pe_rewrite (se_proxy demo_server)) [m1, m2, m3]"
    by (auto split: option.splits)
  have "\<exists>c. sd_channel d = Some c \<and> sends_of (px_ipc (ch_user c)) = [m1, m2, m3]"
    using r(3) by (cases "sd_channel d") (simp_all add: demo_server_def plain_env_def)
  with r(1,2) show "\<exists>rs d g'. server_run lenv (Some 1) demo_server [OpSend m1, OpSend m2, OpLaunch, OpSend m3]
       (ServerDlg_new 0 0, demo_globals) = Some (rs, d, g') \<and> list_all id rs \<and>
     (\<exists>c. sd_channel d = Some c \<and> sends_of (px_ipc (ch_user c)) = [m1, m2, m3])" by blast
qed

section \<open>From the client's button to the server's message box\<close>

lemma units_wire: "length (wire [bytes32 n, units_bytes s]) \<le> 8 + 2 * length s"
  by (simp add: pad4_def)

text \<open>C16: what the user types in the client is what the server shows: the message that the button sends,
  adopted from its bytes by the server, has the route 1 and is shown once, without what follows a zero
  character; unless the dialog is going away.\<close>

theorem mytest_delivered:
  assumes "realloc_ok ra" "alloc_total ra" "length text < 2 ^ 28" "\<not> sd_deleting_soon d" "\<not> sd_fast_shutdown d"
  shows "\<exists>m p' bytes q. OnBnClickedSend ra pid send text g p = Some (m, g + 1, p') \<and>
     pickle_data m = Some bytes \<and> Message_from_data bytes (of_nat (length bytes)) = Some q \<and>
     routing_id q = Some 1 \<and>
     Server_OnMessageReceived q d =
       Some (True, d\<lparr>sd_shown := sd_shown d @ [takeWhile (\<lambda>c. c \<noteq> 0) text]\<rparr>)"
proof -
  let ?x = "takeWhile (\<lambda>c. c \<noteq> 0) text"
  have l: "length ?x < 2 ^ 28" using assms(3) length_takeWhile_le [of "\<lambda>c. c \<noteq> 0" "text"] by linarith
  have w: "length (wire [bytes32 (of_nat (length ?x)), units_bytes ?x]) < 2 ^ 30"
    using l units_wire [of "of_nat (length ?x)" ?x] by simp
  have v: "length ?x < 2 ^ 30" using l by simp
  obtain m m' bytes q where m: "Message_new ra pid 1 ViewMsg_MyTestIpc_ID PRIORITY_NORMAL g = Some (m, g + 1)"
    "Schema_Write WStringParam_Write ra ?x m = Some m'" "pickle_data m' = Some bytes"
    "Message_from_data bytes (of_nat (length bytes)) = Some q" "routing_id q = Some 1"
    "msg_type q = Some ViewMsg_MyTestIpc_ID"
    "Dispatch_async WStringParam_Read OnMyTestIpc q d = Some (True, OnMyTestIpc d ?x)"
    using wstring_param.async_message [OF assms(1,2) v w, of pid 1 ViewMsg_MyTestIpc_ID PRIORITY_NORMAL g
        OnMyTestIpc d] by blast
  have "OnBnClickedSend ra pid send text g p = Some (m', g + 1, snd (Child_Send send m' p))"
    using m(1,2) by (simp add: OnBnClickedSend_def ViewMsg_MyTestIpc_def)
  moreover have "Server_OnMessageReceived q d = Some (True, OnMyTestIpc d ?x)"
    using m(6,7) assms(4,5) by (simp add: Server_OnMessageReceived_def)
  ultimately show ?thesis using m(3-5) by (auto simp: OnMyTestIpc_def)
qed

lemma mytest_delivered_witness:
  "\<exists>m p' bytes q. OnBnClickedSend zero_realloc None (\<lambda>m c. (True, c @ [m])) [72, 105, 0, 33] 0
       (ChildThread_Init [] ChildProcess_new) = Some (m, 1, p') \<and>
     pickle_data m = Some bytes \<and> Message_from_data bytes (of_nat (length bytes)) = Some q \<and>
     Server_OnMessageReceived q (ServerDlg_new 0 0 :: listener_log server_dlg) =
       Some (True, (ServerDlg_new 0 0)\<lparr>sd_shown := [[72, 105]]\<rparr>)"
proof -
  let ?d = "ServerDlg_new 0 0 :: listener_log server_dlg"
  have d: "\<not> sd_deleting_soon ?d" "\<not> sd_fast_shutdown ?d" "sd_shown ?d = []" by (simp_all add: ServerDlg_new_def)
  have l: "length [72, 105, 0, 33 :: u16] < 2 ^ 28" by simp
  show ?thesis
    using mytest_delivered [OF zero_realloc_ok l d(1,2), of None "\<lambda>m c. (True, c @ [m])" 0
        "ChildThread_Init [] ChildProcess_new"] d(3) by auto
qed

end
