(* ===== verification/UtfConversions.thy ===== *)
theory UtfConversions
  imports Ipc_Prelude
begin

text \<open>
  \<open>base/utf_string_conversions.cc\<close>, \<open>base/strings/utf_string_conversion_utils.{h,cc}\<close> and the decoder
  and encoder of \<open>base/third_party/icu\<close> they use: conversion between UTF-8 in \<open>std::string\<close> and UTF-16 in
  \<open>std::wstring\<close> and \<open>string16\<close>.  A code point is a natural number; the position in the source is
  the rest of the source.  \<open>& 0x3f\<close> is \<open>mod 64\<close>, \<open>>> n\<close> is \<open>div 2 ^ n\<close> and \<open>| 0xdc00\<close> of a number below \<open>0x400\<close> is a sum.
\<close>

unbundle bit_operations_syntax

section \<open>Code points\<close>

definition IsValidCodepoint :: "nat \<Rightarrow> bool" where
  "IsValidCodepoint cp = (cp < 0xD800 \<or> 0xE000 \<le> cp \<and> cp \<le> 0x10FFFF)"

definition IsValidCharacter :: "nat \<Rightarrow> bool" where
  "IsValidCharacter cp =
     (cp < 0xD800 \<or> 0xE000 \<le> cp \<and> cp < 0xFDD0 \<or>
      0xFDEF < cp \<and> cp \<le> 0x10FFFF \<and> cp mod 0x10000 div 2 \<noteq> 0x7FFF)"

definition CBU_IS_SURROGATE :: "nat \<Rightarrow> bool" where
  "CBU_IS_SURROGATE cp = (cp div 0x800 = 0x1B)"

section \<open>UTF-8\<close>

definition CBU8_IS_LEAD :: "u8 \<Rightarrow> bool" where
  "CBU8_IS_LEAD b = (b - 0xC0 < 0x3E)"

definition CBU8_IS_TRAIL :: "u8 \<Rightarrow> bool" where
  "CBU8_IS_TRAIL b = (unat b div 64 = 2)"

text \<open>The table \<open>utf8_countTrailBytes\<close>.\<close>

definition CBU8_COUNT_TRAIL_BYTES :: "u8 \<Rightarrow> nat" where
  "CBU8_COUNT_TRAIL_BYTES b =
     (let v = unat b
      in if v < 0xC0 then 0 else if v < 0xE0 then 1 else if v < 0xF0 then 2 else if v < 0xF8 then 3
         else if v < 0xFC then 4 else if v < 0xFE then 5 else 0)"

definition utf8_minLegal :: "nat list" where
  "utf8_minLegal = [0, 0x80, 0x800, 0x10000]"

definition next_trail :: "nat \<Rightarrow> u8 \<Rightarrow> nat" where
  "next_trail c b = c * 64 + unat b mod 64"

text \<open>The cases of the \<open>switch\<close>, each falling through to the next: the code point and \<open>illegal\<close>.\<close>

fun trail_cases :: "nat \<Rightarrow> nat \<Rightarrow> bool \<Rightarrow> bytes \<Rightarrow> nat \<times> bool" where
  "trail_cases (Suc n) c illegal (b # bs) =
     (let c' = next_trail c b
      in if n = 2 \<and> \<not> c' < 0x110 then (c', True)
         else trail_cases n c' (illegal \<or> \<not> CBU8_IS_TRAIL b) bs)"
| "trail_cases n c illegal bs = (c, illegal)"

text \<open>\<open>utf8_nextCharSafeBody\<close> with \<open>strict = -1\<close>, the only value it is called with: \<open>s\<close> is what follows
  the lead byte; the result is the code point (or \<open>CBU_SENTINEL\<close>) and the number of bytes of \<open>s\<close> consumed.\<close>

definition utf8_nextCharSafeBody :: "bytes \<Rightarrow> u8 \<Rightarrow> int \<times> nat" where
  "utf8_nextCharSafeBody s lead =
     (let count = CBU8_COUNT_TRAIL_BYTES lead
      in if count \<le> length s
         then if count = 0 then (-1, 0)
              else let c = unat lead mod 2 ^ (6 - count);
                       (c', illegal) = (if 4 \<le> count then (c, True) else trail_cases count c False s)
                   in if illegal \<or> c' < utf8_minLegal ! count \<or> CBU_IS_SURROGATE c'
                      then (-1, length (takeWhile CBU8_IS_TRAIL (take count s)))
                      else (int c', count)
         else (-1, length (takeWhile CBU8_IS_TRAIL s)))"

text \<open>\<open>CBU8_NEXT\<close> on the non-empty \<open>s\<close>: the code point and the number of bytes after the first.\<close>

definition CBU8_NEXT :: "bytes \<Rightarrow> int \<times> nat" where
  "CBU8_NEXT s =
     (case s of
        [] \<Rightarrow> (-1, 0)
      | c # s' \<Rightarrow>
          if 0x80 \<le> unat c
          then if CBU8_IS_LEAD c then utf8_nextCharSafeBody s' c else (-1, 0)
          else (uint c, 0))"

definition CBU8_APPEND_UNSAFE :: "nat \<Rightarrow> bytes" where
  "CBU8_APPEND_UNSAFE c =
     (if c \<le> 0x7F then [of_nat c]
      else if c \<le> 0x7FF then [of_nat (c div 64) OR 0xC0, of_nat (c mod 64) OR 0x80]
      else if c \<le> 0xFFFF
      then [of_nat (c div 2 ^ 12) OR 0xE0, of_nat (c div 64 mod 64) OR 0x80, of_nat (c mod 64) OR 0x80]
      else [of_nat (c div 2 ^ 18) OR 0xF0, of_nat (c div 2 ^ 12 mod 64) OR 0x80,
            of_nat (c div 64 mod 64) OR 0x80, of_nat (c mod 64) OR 0x80])"

section \<open>UTF-16\<close>

definition CBU16_IS_LEAD :: "u16 \<Rightarrow> bool" where
  "CBU16_IS_LEAD c = (unat c div 0x400 = 0x36)"

definition CBU16_IS_TRAIL :: "u16 \<Rightarrow> bool" where
  "CBU16_IS_TRAIL c = (unat c div 0x400 = 0x37)"

definition CBU16_IS_SURROGATE :: "u16 \<Rightarrow> bool" where
  "CBU16_IS_SURROGATE c = CBU_IS_SURROGATE (unat c)"

definition CBU16_IS_SURROGATE_LEAD :: "u16 \<Rightarrow> bool" where
  "CBU16_IS_SURROGATE_LEAD c = (unat c div 0x400 mod 2 = 0)"

definition CBU16_GET_SUPPLEMENTARY :: "u16 \<Rightarrow> u16 \<Rightarrow> nat" where
  "CBU16_GET_SUPPLEMENTARY lead trail = unat lead * 1024 + unat trail - (0xD800 * 1024 + 0xDC00 - 0x10000)"

definition CBU16_NEXT :: "u16 list \<Rightarrow> int \<times> nat" where
  "CBU16_NEXT s =
     (case s of
        [] \<Rightarrow> (-1, 0)
      | c # s' \<Rightarrow>
          if CBU16_IS_LEAD c \<and> s' \<noteq> [] \<and> CBU16_IS_TRAIL (hd s')
          then (int (CBU16_GET_SUPPLEMENTARY c (hd s')), 1)
          else (uint c, 0))"

definition CBU16_LENGTH :: "nat \<Rightarrow> nat" where
  "CBU16_LENGTH c = (if c \<le> 0xFFFF then 1 else 2)"

definition CBU16_APPEND_UNSAFE :: "nat \<Rightarrow> u16 list" where
  "CBU16_APPEND_UNSAFE c =
     (if c \<le> 0xFFFF then [of_nat c] else [of_nat (c div 1024 + 0xD7C0), of_nat (c mod 1024 + 0xDC00)])"

section \<open>Conversion\<close>

text \<open>\<open>ReadUnicodeCharacter\<close>: the code point if it is valid, and the number of units after the first.\<close>

definition ReadUnicodeCharacter8 :: "bytes \<Rightarrow> nat option \<times> nat" where
  "ReadUnicodeCharacter8 src =
     (let (code_point, n) = CBU8_NEXT src; cp = nat (code_point mod 2 ^ 32)
      in (if IsValidCodepoint cp then Some cp else None, n))"

definition ReadUnicodeCharacter16 :: "u16 list \<Rightarrow> nat option \<times> nat" where
  "ReadUnicodeCharacter16 src =
     (case src of
        [] \<Rightarrow> (None, 0)
      | c # src' \<Rightarrow>
          if CBU16_IS_SURROGATE c
          then if \<not> CBU16_IS_SURROGATE_LEAD c \<or> src' = [] \<or> \<not> CBU16_IS_TRAIL (hd src')
               then (None, 0)
               else let cp = CBU16_GET_SUPPLEMENTARY c (hd src')
                    in (if IsValidCodepoint cp then Some cp else None, 1)
          else (if IsValidCodepoint (unat c) then Some (unat c) else None, 0))"

definition WriteUnicodeCharacter8 :: "nat \<Rightarrow> bytes \<Rightarrow> nat \<times> bytes" where
  "WriteUnicodeCharacter8 code_point output =
     (if code_point \<le> 0x7F then (1, output @ [of_nat code_point])
      else (length (CBU8_APPEND_UNSAFE code_point), output @ CBU8_APPEND_UNSAFE code_point))"

definition WriteUnicodeCharacter16 :: "nat \<Rightarrow> u16 list \<Rightarrow> nat \<times> u16 list" where
  "WriteUnicodeCharacter16 code_point output =
     (if CBU16_LENGTH code_point = 1 then (1, output @ [of_nat code_point])
      else (2, output @ CBU16_APPEND_UNSAFE code_point))"

text \<open>The loop of \<open>ConvertUnicode\<close> over the template's source and destination.  The code keeps the length and
  the index of the source as \<open>int32\<close>; they differ from the length and the index only for a source of
  2 GB or more, which does not fit the address space of the program beside its conversion.\<close>

function ConvertUnicode ::
    "('s list \<Rightarrow> nat option \<times> nat) \<Rightarrow> (nat \<Rightarrow> 'd list \<Rightarrow> nat \<times> 'd list) \<Rightarrow> 's list \<Rightarrow> bool \<Rightarrow> 'd list \<Rightarrow> bool \<times> 'd list" where
  "ConvertUnicode rd wr src success output =
     (if src = [] then (success, output)
      else case rd src of
             (Some cp, n) \<Rightarrow> ConvertUnicode rd wr (drop (Suc n) src) success (snd (wr cp output))
           | (None, n) \<Rightarrow> ConvertUnicode rd wr (drop (Suc n) src) False (snd (wr 0xFFFD output)))"
  by pat_completeness auto
termination by (relation "measure (\<lambda>(_, _, src, _, _). length src)") auto

declare ConvertUnicode.simps [simp del]

definition WideToUTF8 :: "u16 list \<Rightarrow> bool \<times> bytes" where
  "WideToUTF8 wide = ConvertUnicode ReadUnicodeCharacter16 WriteUnicodeCharacter8 wide True []"

definition UTF8ToWide :: "bytes \<Rightarrow> bool \<times> u16 list" where
  "UTF8ToWide utf8 = ConvertUnicode ReadUnicodeCharacter8 WriteUnicodeCharacter16 utf8 True []"

definition WideToUTF16 :: "u16 list \<Rightarrow> u16 list" where "WideToUTF16 wide = wide"
definition UTF16ToWide :: "u16 list \<Rightarrow> u16 list" where "UTF16ToWide utf16 = utf16"
definition UTF8ToUTF16 :: "bytes \<Rightarrow> bool \<times> u16 list" where "UTF8ToUTF16 = UTF8ToWide"
definition UTF16ToUTF8 :: "u16 list \<Rightarrow> bool \<times> bytes" where "UTF16ToUTF8 = WideToUTF8"

section \<open>The laws of a codec\<close>

text \<open>A reader and the encoding it reads back: reading an encoded code point gives it, and what is
  read as a valid code point is its encoding.\<close>

locale utf_codec =
  fixes rd :: "'s list \<Rightarrow> nat option \<times> nat" and enc :: "nat \<Rightarrow> 's list"
  assumes read_enc: "IsValidCodepoint cp \<Longrightarrow> rd (enc cp @ rest) = (Some cp, length (enc cp) - 1)"
    and enc_not_Nil: "enc cp \<noteq> []"
    and read_valid: "src \<noteq> [] \<Longrightarrow> rd src = (Some cp, n) \<Longrightarrow> IsValidCodepoint cp \<and> src = enc cp @ drop (Suc n) src"
begin

definition encode :: "nat list \<Rightarrow> 's list" where
  "encode cps = concat (map enc cps)"

lemma read_encode:
  "IsValidCodepoint cp \<Longrightarrow> drop (Suc (snd (rd (enc cp @ rest)))) (enc cp @ rest) = rest"
  using enc_not_Nil [of cp] by (simp add: read_enc)

end

locale utf_conversion = src: utf_codec rd enc_s + dst: utf_codec rd' enc_d
  for rd :: "'s list \<Rightarrow> nat option \<times> nat" and enc_s and rd' :: "'d list \<Rightarrow> nat option \<times> nat" and enc_d +
  fixes wr :: "nat \<Rightarrow> 'd list \<Rightarrow> nat \<times> 'd list"
  assumes write_enc: "IsValidCodepoint cp \<Longrightarrow> snd (wr cp out) = out @ enc_d cp"
begin

lemma convert_encoded:
  "list_all IsValidCodepoint cps \<Longrightarrow>
     ConvertUnicode rd wr (src.encode cps) success out = (success, out @ dst.encode cps)"
proof (induction cps arbitrary: out)
  case Nil
  then show ?case by (simp add: ConvertUnicode.simps src.encode_def dst.encode_def)
next
  case (Cons cp cps)
  have e: "src.encode (cp # cps) = enc_s cp @ src.encode cps" by (simp add: src.encode_def)
  have d: "drop (Suc (length (enc_s cp) - 1)) (enc_s cp @ src.encode cps) = src.encode cps"
    using src.enc_not_Nil [of cp] by simp
  show ?case
    using Cons src.enc_not_Nil [of cp]
    by (subst ConvertUnicode.simps) (simp add: e d src.read_enc write_enc dst.encode_def)
qed

text \<open>Whatever the source is, the output is the encoding of valid code points; if it succeeds, so was
  the source.\<close>

lemma convert_valid:
  "ConvertUnicode rd wr s success out = (ok, out') \<Longrightarrow>
     \<exists>cps. list_all IsValidCodepoint cps \<and> out' = out @ dst.encode cps \<and>
       (ok \<longrightarrow> success \<and> s = src.encode cps)"
proof (induction "length s" arbitrary: s success out rule: less_induct)
  case less
  show ?case
  proof (cases "s = []")
    case True
    then show ?thesis using less.prems
      by (intro exI [of _ "[]"]) (auto simp: ConvertUnicode.simps src.encode_def dst.encode_def)
  next
    case False
    obtain r n where r: "rd s = (r, n)" by (cases "rd s")
    define cp where "cp = (case r of Some cp \<Rightarrow> cp | None \<Rightarrow> 0xFFFD)"
    have v: "IsValidCodepoint cp"
      using src.read_valid [OF False, of _ n] r by (cases r) (auto simp: cp_def IsValidCodepoint_def)
    have "ConvertUnicode rd wr (drop (Suc n) s) (r \<noteq> None \<and> success) (out @ enc_d cp) = (ok, out')"
      using less.prems False r write_enc [OF v] by (subst (asm) ConvertUnicode.simps) (auto simp: cp_def split: option.splits)
    then obtain cps where c: "list_all IsValidCodepoint cps" "out' = (out @ enc_d cp) @ dst.encode cps"
      "ok \<longrightarrow> (r \<noteq> None \<and> success) \<and> drop (Suc n) s = src.encode cps"
      using less.hyps [of "drop (Suc n) s"] False by fastforce
    have "ok \<longrightarrow> s = src.encode (cp # cps)"
      using c(3) src.read_valid [OF False, of _ n] r by (cases r) (auto simp: cp_def src.encode_def)
    then show ?thesis using c v by (intro exI [of _ "cp # cps"]) (auto simp: dst.encode_def)
  qed
qed

end

section \<open>The UTF-8 codec\<close>

lemma or_trail: "x < 64 \<Longrightarrow> unat (of_nat x OR 0x80 :: u8) = x + 0x80"
proof -
  have "\<forall>x\<in>set [0..<64]. unat (of_nat x OR 0x80 :: u8) = x + 0x80" by code_simp
  then show "x < 64 \<Longrightarrow> ?thesis" by simp
qed

lemma or_lead2: "x < 32 \<Longrightarrow> unat (of_nat x OR 0xC0 :: u8) = x + 0xC0"
proof -
  have "\<forall>x\<in>set [0..<32]. unat (of_nat x OR 0xC0 :: u8) = x + 0xC0" by code_simp
  then show "x < 32 \<Longrightarrow> ?thesis" by simp
qed

lemma or_lead3: "x < 16 \<Longrightarrow> unat (of_nat x OR 0xE0 :: u8) = x + 0xE0"
proof -
  have "\<forall>x\<in>set [0..<16]. unat (of_nat x OR 0xE0 :: u8) = x + 0xE0" by code_simp
  then show "x < 16 \<Longrightarrow> ?thesis" by simp
qed

lemma or_lead4: "x < 8 \<Longrightarrow> unat (of_nat x OR 0xF0 :: u8) = x + 0xF0"
proof -
  have "\<forall>x\<in>set [0..<8]. unat (of_nat x OR 0xF0 :: u8) = x + 0xF0" by code_simp
  then show "x < 8 \<Longrightarrow> ?thesis" by simp
qed

lemma u8_eq: "unat a = unat (b :: u8) \<Longrightarrow> a = b"
  by (simp add: word_unat_eq_iff)

text \<open>A lead byte and its count of trail bytes.\<close>

lemma lead_iff: "CBU8_IS_LEAD b \<longleftrightarrow> 0xC0 \<le> unat b \<and> unat b < 0xFE"
proof -
  have "unat b < 256" using unsigned_less [of b] by simp
  then show ?thesis
    by (auto simp: CBU8_IS_LEAD_def word_less_nat_alt unat_sub_if')
qed

lemmas next_defs = CBU8_NEXT_def utf8_nextCharSafeBody_def CBU8_COUNT_TRAIL_BYTES_def CBU8_IS_TRAIL_def
  next_trail_def utf8_minLegal_def CBU_IS_SURROGATE_def lead_iff Let_def

lemma add_multiple: "x < m \<Longrightarrow> (x + k * m) mod m = (x::nat)" "x < m \<Longrightarrow> (x + k * m) div m = k"
  by simp_all

lemmas trail_digits = add_multiple(1) [of _ 64 2, simplified] add_multiple(2) [of _ 64 2, simplified]

lemma trail_cases_simps:
  "trail_cases (Suc 0) c il (b # bs) = (next_trail c b, il \<or> \<not> CBU8_IS_TRAIL b)"
  "trail_cases 2 c il (b # d # bs) =
     (next_trail (next_trail c b) d, (il \<or> \<not> CBU8_IS_TRAIL b) \<or> \<not> CBU8_IS_TRAIL d)"
  "trail_cases 3 c il (b # d # e # bs) =
     (if next_trail c b < 0x110
      then (next_trail (next_trail (next_trail c b) d) e,
            ((il \<or> \<not> CBU8_IS_TRAIL b) \<or> \<not> CBU8_IS_TRAIL d) \<or> \<not> CBU8_IS_TRAIL e)
      else (next_trail c b, True))"
  by (simp_all add: numeral_2_eq_2 numeral_3_eq_3 Let_def)

lemma next_2:
  assumes "unat a = x + 0xC0" "x < 32" "unat b = y + 0x80" "y < 64" "0x80 \<le> x * 64 + y"
  shows "CBU8_NEXT (a # b # r) = (int (x * 64 + y), 1)"
proof -
  have "x * 64 + y < 0x800" using assms by linarith
  then show ?thesis using assms add_multiple(1) [of x 32 6] by (simp add: next_defs trail_digits trail_cases_simps)
qed

lemma next_3:
  assumes "unat a = x + 0xE0" "x < 16" "unat b = y + 0x80" "y < 64" "unat c = z + 0x80" "z < 64"
    "0x800 \<le> (x * 64 + y) * 64 + z" "(((x * 64 + y) * 64 + z) div 0x800) \<noteq> 0x1B"
  shows "CBU8_NEXT (a # b # c # r) = (int ((x * 64 + y) * 64 + z), 2)"
  using assms add_multiple(1) [of x 16 14] by (simp add: next_defs trail_digits trail_cases_simps)

lemma next_4:
  assumes "unat a = x + 0xF0" "x < 8" "unat b = y + 0x80" "y < 64" "unat c = z + 0x80" "z < 64"
    "unat d = w + 0x80" "w < 64" "x * 64 + y < 0x110" "0x10000 \<le> ((x * 64 + y) * 64 + z) * 64 + w"
  shows "CBU8_NEXT (a # b # c # d # r) = (int (((x * 64 + y) * 64 + z) * 64 + w), 3)"
proof -
  have "(((x * 64 + y) * 64 + z) * 64 + w) div 0x800 \<noteq> 0x1B"
    using div_le_mono [OF assms(10), of "0x800"] by simp
  then show ?thesis using assms add_multiple(1) [of x 8 30]
    by (simp add: next_defs trail_digits trail_cases_simps)
qed

lemma digits64:
  "cp div 4096 * 64 + cp div 64 mod 64 = cp div (64::nat)" "cp div 64 * 64 + cp mod 64 = cp"
  "cp div 262144 * 64 + cp div 4096 mod 64 = cp div 4096"
proof -
  have "cp div 4096 = cp div 64 div 64" "cp div 262144 = cp div 4096 div 64"
    by (simp_all add: div_mult2_eq [symmetric])
  then show "cp div 4096 * 64 + cp div 64 mod 64 = cp div 64" "cp div 64 * 64 + cp mod 64 = cp"
    "cp div 262144 * 64 + cp div 4096 mod 64 = cp div 4096"
    by simp_all
qed

lemma next_enc:
  assumes "IsValidCodepoint cp"
  shows "CBU8_NEXT (CBU8_APPEND_UNSAFE cp @ rest) = (int cp, length (CBU8_APPEND_UNSAFE cp) - 1)"
proof -
  consider "cp \<le> 0x7F" | "0x7F < cp" "cp \<le> 0x7FF" | "0x7FF < cp" "cp \<le> 0xFFFF" | "0xFFFF < cp" by linarith
  then show ?thesis
  proof cases
    case 1
    then have "unat (of_nat cp :: u8) = cp" by (simp add: unat_of_nat)
    then show ?thesis using 1 by (simp add: CBU8_APPEND_UNSAFE_def CBU8_NEXT_def uint_nat)
  next
    case 2
    then have "cp div 64 < 32" using div_le_mono [OF 2(2), of 64] by simp
    then show ?thesis
      using next_2 [OF or_lead2 _ or_trail, of "cp div 64" "cp mod 64" rest] 2
      by (simp add: CBU8_APPEND_UNSAFE_def)
  next
    case 3
    have "cp div 4096 < 16" using div_le_mono [OF 3(2), of 4096] by simp
    moreover have "cp div 0x800 \<noteq> 0x1B"
      using assms by (auto simp: IsValidCodepoint_def)
    ultimately show ?thesis
      using next_3 [OF or_lead3 _ or_trail _ or_trail, of "cp div 4096" "cp div 64 mod 64" "cp mod 64" rest] 3
      by (simp add: CBU8_APPEND_UNSAFE_def digits64)
  next
    case 4
    have le: "cp \<le> 0x10FFFF" using assms 4 by (auto simp: IsValidCodepoint_def)
    have "cp div 262144 < 8" using div_le_mono [OF le, of 262144] by simp
    moreover have "cp div 4096 < 0x110" using div_le_mono [OF le, of 4096] by simp
    ultimately show ?thesis
      using next_4 [OF or_lead4 _ or_trail _ or_trail _ or_trail, of "cp div 262144" "cp div 4096 mod 64" "cp div 64 mod 64" "cp mod 64" rest] 4
      by (simp add: CBU8_APPEND_UNSAFE_def digits64)
  qed
qed

text \<open>Conversely, only the shortest form of a code point is read.\<close>

lemma body_cases:
  assumes "utf8_nextCharSafeBody s a = (int cp, n)"
  defines "count \<equiv> CBU8_COUNT_TRAIL_BYTES a"
  shows "n = count" "count = 1 \<or> count = 2 \<or> count = 3" "count \<le> length s" "utf8_minLegal ! count \<le> cp"
    "trail_cases count (unat a mod 2 ^ (6 - count)) False s = (cp, False)"
proof -
  have "count \<le> length s" "count \<noteq> 0" "\<not> 4 \<le> count"
    using assms(1) by (auto simp: utf8_nextCharSafeBody_def Let_def count_def [symmetric] split: if_splits)
  moreover obtain c il where t: "trail_cases count (unat a mod 2 ^ (6 - count)) False s = (c, il)"
    by (cases "trail_cases count (unat a mod 2 ^ (6 - count)) False s")
  moreover have "\<not> il \<and> c = cp \<and> n = count \<and> utf8_minLegal ! count \<le> cp"
    using assms(1) calculation
    by (simp add: utf8_nextCharSafeBody_def Let_def count_def [symmetric] split: if_splits)
  moreover have "count = 1 \<or> count = 2 \<or> count = 3" using calculation(2,3) by linarith
  ultimately show "n = count" "count = 1 \<or> count = 2 \<or> count = 3" "count \<le> length s" "utf8_minLegal ! count \<le> cp"
    "trail_cases count (unat a mod 2 ^ (6 - count)) False s = (cp, False)"
    by simp_all
qed

lemma trail_byte: "CBU8_IS_TRAIL b \<Longrightarrow> of_nat (unat b mod 64) OR 0x80 = b"
  using or_trail [of "unat b mod 64"] div_mult_mod_eq [of "unat b" 64] by (simp add: CBU8_IS_TRAIL_def word_unat_eq_iff)

lemma lead_byte_aux: "unat w = unat a mod m + k \<Longrightarrow> unat a mod m = unat a - k \<Longrightarrow> k \<le> unat a \<Longrightarrow> w = (a :: u8)"
  by (rule u8_eq) simp

lemma sub_mod: "k * m \<le> v \<Longrightarrow> v < k * m + m \<Longrightarrow> v mod m = v - k * (m::nat)"
  using add_multiple(1) [of "v - k * m" m k] by simp

lemma lead_byte:
  fixes a :: u8
  shows "0xC0 \<le> unat a \<Longrightarrow> unat a < 0xE0 \<Longrightarrow> of_nat (unat a mod 32) OR 0xC0 = a"
  "0xE0 \<le> unat a \<Longrightarrow> unat a < 0xF0 \<Longrightarrow> of_nat (unat a mod 16) OR 0xE0 = a"
  "0xF0 \<le> unat a \<Longrightarrow> unat a < 0xF8 \<Longrightarrow> of_nat (unat a mod 8) OR 0xF0 = a"
proof -
  show "of_nat (unat a mod 32) OR 0xC0 = a" if "0xC0 \<le> unat a" "unat a < 0xE0"
    by (rule lead_byte_aux [OF or_lead2]) (use that sub_mod [of 6 32 "unat a"] in simp_all)
  show "of_nat (unat a mod 16) OR 0xE0 = a" if "0xE0 \<le> unat a" "unat a < 0xF0"
    by (rule lead_byte_aux [OF or_lead3]) (use that sub_mod [of 14 16 "unat a"] in simp_all)
  show "of_nat (unat a mod 8) OR 0xF0 = a" if "0xF0 \<le> unat a" "unat a < 0xF8"
    by (rule lead_byte_aux [OF or_lead4]) (use that sub_mod [of 30 8 "unat a"] in simp_all)
qed

lemma digit64: "(q * 64 + r mod 64) div 64 = (q::nat)" "(q * 64 + r mod 64) mod 64 = r mod (64::nat)"
  by simp_all

lemma enc_2:
  assumes "0xC0 \<le> unat a" "unat a < 0xE0" "CBU8_IS_TRAIL x"
    "cp = unat a mod 32 * 64 + unat x mod 64" "0x80 \<le> cp"
  shows "CBU8_APPEND_UNSAFE cp = [a, x]"
proof -
  have d: "cp div 64 = unat a mod 32" "cp mod 64 = unat x mod 64" unfolding assms(4) by (simp_all only: digit64)
  have "unat a mod 32 < 32" "unat x mod 64 < 64" by simp_all
  then have "cp \<le> 0x7FF" unfolding assms(4) by linarith
  then have "CBU8_APPEND_UNSAFE cp = [of_nat (unat a mod 32) OR 0xC0, of_nat (unat x mod 64) OR 0x80]"
    using assms(5) unfolding CBU8_APPEND_UNSAFE_def d by simp
  then show ?thesis by (simp only: lead_byte(1) [OF assms(1,2)] trail_byte [OF assms(3)])
qed

lemma enc_3:
  assumes "0xE0 \<le> unat a" "unat a < 0xF0" "CBU8_IS_TRAIL x" "CBU8_IS_TRAIL y"
    "cp = (unat a mod 16 * 64 + unat x mod 64) * 64 + unat y mod 64" "0x800 \<le> cp"
  shows "CBU8_APPEND_UNSAFE cp = [a, x, y]"
proof -
  have d: "cp div 64 = unat a mod 16 * 64 + unat x mod 64" "cp mod 64 = unat y mod 64" unfolding assms(5) by (simp_all only: digit64)
  have d2: "cp div 2 ^ 12 = unat a mod 16" "cp div 64 mod 64 = unat x mod 64"
  proof -
    have "cp div 2 ^ 12 = cp div 64 div 64" using div_mult2_eq [of cp 64 64] by simp
    then show "cp div 2 ^ 12 = unat a mod 16" "cp div 64 mod 64 = unat x mod 64"
      unfolding d(1) by (simp_all only: digit64)
  qed
  have "(p * 64 + q) * 64 + r \<le> (0xFFFF :: nat)" if "p < 16" "q < 64" "r < 64" for p q r
    using that by arith
  then have "cp \<le> 0xFFFF" unfolding assms(5) by simp
  then have "CBU8_APPEND_UNSAFE cp =
      [of_nat (unat a mod 16) OR 0xE0, of_nat (unat x mod 64) OR 0x80, of_nat (unat y mod 64) OR 0x80]"
    using assms(6) unfolding CBU8_APPEND_UNSAFE_def d d2 by simp
  then show ?thesis
    by (simp only: lead_byte(2) [OF assms(1,2)] trail_byte [OF assms(3)] trail_byte [OF assms(4)])
qed

lemma enc_4:
  assumes "0xF0 \<le> unat a" "unat a < 0xF8" "CBU8_IS_TRAIL x" "CBU8_IS_TRAIL y" "CBU8_IS_TRAIL z"
    "cp = ((unat a mod 8 * 64 + unat x mod 64) * 64 + unat y mod 64) * 64 + unat z mod 64" "0x10000 \<le> cp"
  shows "CBU8_APPEND_UNSAFE cp = [a, x, y, z]"
proof -
  have d: "cp div 64 = (unat a mod 8 * 64 + unat x mod 64) * 64 + unat y mod 64" "cp mod 64 = unat z mod 64"
    unfolding assms(6) by (simp_all only: digit64)
  have d2: "cp div 2 ^ 12 = unat a mod 8 * 64 + unat x mod 64" "cp div 64 mod 64 = unat y mod 64"
  proof -
    have "cp div 2 ^ 12 = cp div 64 div 64" using div_mult2_eq [of cp 64 64] by simp
    then show "cp div 2 ^ 12 = unat a mod 8 * 64 + unat x mod 64" "cp div 64 mod 64 = unat y mod 64"
      unfolding d(1) by (simp_all only: digit64)
  qed
  have d3: "cp div 2 ^ 18 = unat a mod 8" "cp div 2 ^ 12 mod 64 = unat x mod 64"
    using div_mult2_eq [of cp 4096 64] d2(1) by (simp_all add: digit64)
  have "CBU8_APPEND_UNSAFE cp =
      [of_nat (unat a mod 8) OR 0xF0, of_nat (unat x mod 64) OR 0x80, of_nat (unat y mod 64) OR 0x80,
       of_nat (unat z mod 64) OR 0x80]"
    using assms(7) unfolding CBU8_APPEND_UNSAFE_def d(2) d2(2) d3 by simp
  then show ?thesis
    by (simp only: lead_byte(3) [OF assms(1,2)] trail_byte [OF assms(3)] trail_byte [OF assms(4)]
        trail_byte [OF assms(5)])
qed

lemma count_lead:
  "CBU8_IS_LEAD a \<Longrightarrow> CBU8_COUNT_TRAIL_BYTES a = 1 \<Longrightarrow> 0xC0 \<le> unat a \<and> unat a < 0xE0"
  "CBU8_COUNT_TRAIL_BYTES a = 2 \<Longrightarrow> 0xE0 \<le> unat a \<and> unat a < 0xF0"
  "CBU8_COUNT_TRAIL_BYTES a = 3 \<Longrightarrow> 0xF0 \<le> unat a \<and> unat a < 0xF8"
  by (auto simp: CBU8_COUNT_TRAIL_BYTES_def lead_iff Let_def split: if_splits)

lemma read_is_enc:
  assumes "s \<noteq> []" "CBU8_NEXT s = (int cp, n)"
  shows "s = CBU8_APPEND_UNSAFE cp @ drop (Suc n) s"
proof -
  obtain a s' where s: "s = a # s'" using assms(1) by (cases s) auto
  show ?thesis
  proof (cases "unat a < 0x80")
    case True
    then have "uint a = int cp" "n = 0" using assms(2) s unfolding CBU8_NEXT_def by (simp_all split: if_splits)
    then have "cp = unat a" "n = 0" by (metis nat_int nat_uint_eq)+
    then show ?thesis using True s by (simp add: CBU8_APPEND_UNSAFE_def)
  next
    case False
    have l: "CBU8_IS_LEAD a" and b: "utf8_nextCharSafeBody s' a = (int cp, n)"
      using False assms(2) unfolding s CBU8_NEXT_def by (simp_all split: if_splits)
    note c = body_cases [OF b]
    consider "CBU8_COUNT_TRAIL_BYTES a = 1" | "CBU8_COUNT_TRAIL_BYTES a = 2" | "CBU8_COUNT_TRAIL_BYTES a = 3"
      using c(2) by blast
    then show ?thesis
    proof cases
      case 1
      then obtain x r where x: "s' = x # r" using c(3) by (cases s') auto
      have "cp = unat a mod 32 * 64 + unat x mod 64 \<and> CBU8_IS_TRAIL x \<and> 0x80 \<le> cp"
        using c(4) c(5) unfolding x 1 by (simp add: next_trail_def utf8_minLegal_def)
      then have "CBU8_APPEND_UNSAFE cp = [a, x]" using enc_2 count_lead(1) [OF l 1] by blast
      then show ?thesis using c(1) s x 1 by simp
    next
      case 2
      then obtain x y r where x: "s' = x # y # r" using c(3) by (cases s'; cases "tl s'") auto
      have "cp = (unat a mod 16 * 64 + unat x mod 64) * 64 + unat y mod 64 \<and>
          CBU8_IS_TRAIL x \<and> CBU8_IS_TRAIL y \<and> 0x800 \<le> cp"
        using c(4) c(5) unfolding x 2 trail_cases_simps by (simp add: next_trail_def utf8_minLegal_def)
      then have "CBU8_APPEND_UNSAFE cp = [a, x, y]" using enc_3 count_lead(2) [OF 2] by blast
      then show ?thesis using c(1) s x 2 by simp
    next
      case 3
      then obtain x y z r where x: "s' = x # y # z # r" using c(3) by (cases s'; cases "tl s'"; cases "tl (tl s')") auto
      have "cp = ((unat a mod 8 * 64 + unat x mod 64) * 64 + unat y mod 64) * 64 + unat z mod 64 \<and>
          CBU8_IS_TRAIL x \<and> CBU8_IS_TRAIL y \<and> CBU8_IS_TRAIL z \<and> 0x10000 \<le> cp"
        using c(4) c(5) unfolding x 3 trail_cases_simps
        by (simp add: next_trail_def utf8_minLegal_def split: if_splits)
      then have "CBU8_APPEND_UNSAFE cp = [a, x, y, z]" using enc_4 count_lead(3) [OF 3] by blast
      then show ?thesis using c(1) s x 3 by simp
    qed
  qed
qed

text \<open>What is read fits an \<open>int32\<close>.\<close>

lemma pow64_bound: "c < (c + 1) * 64 ^ n" for c :: nat
proof -
  have "c < (c + 1) * 1" by simp
  also have "\<dots> \<le> (c + 1) * 64 ^ n" by (rule mult_le_mono2) simp
  finally show ?thesis .
qed

lemma trail_cases_bound: "fst (trail_cases n c il bs) < (c + 1) * 64 ^ n"
proof (induction n c il bs rule: trail_cases.induct)
  case (1 n c il b bs)
  have nt: "next_trail c b + 1 \<le> (c + 1) * 64"
    using mod_less_divisor [of 64 "unat b"] by (simp add: next_trail_def)
  show ?case
  proof (cases "n = 2 \<and> \<not> next_trail c b < 0x110")
    case True
    then have "fst (trail_cases (Suc n) c il (b # bs)) = next_trail c b"
      by (simp only: trail_cases.simps Let_def True if_True fst_conv simp_thms)
    also have "\<dots> < (c + 1) * 64" using nt by simp
    also have "\<dots> \<le> (c + 1) * 64 ^ Suc n" by (intro mult_le_mono2 self_le_power) simp_all
    finally show ?thesis .
  next
    case False
    then have "fst (trail_cases n (next_trail c b) (il \<or> \<not> CBU8_IS_TRAIL b) bs) < (next_trail c b + 1) * 64 ^ n"
      using 1 by (simp add: Let_def)
    also have "\<dots> \<le> (c + 1) * 64 * 64 ^ n" by (rule mult_le_mono1 [OF nt])
    finally have "fst (trail_cases n (next_trail c b) (il \<or> \<not> CBU8_IS_TRAIL b) bs) < (c + 1) * 64 ^ Suc n"
      by (simp only: power_Suc mult.assoc)
    then show ?thesis by (simp only: trail_cases.simps Let_def False if_False)
  qed
qed (use pow64_bound in \<open>simp_all only: trail_cases.simps fst_conv\<close>)

lemma CBU8_NEXT_int32: "CBU8_NEXT s = (c, n) \<Longrightarrow> c = -1 \<or> 0 \<le> c \<and> c < 2 ^ 31"
proof -
  assume n: "CBU8_NEXT s = (c, n)"
  show ?thesis
  proof (cases "\<exists>a s'. s = a # s' \<and> utf8_nextCharSafeBody s' a = (c, n)")
    case False
    have "uint a < 256" for a :: u8 using uint_lt2p [of a] by simp
    then have "uint a < 2 ^ 31" for a :: u8 by (rule less_trans) simp
    with n False show ?thesis by (auto simp: CBU8_NEXT_def split: list.splits if_splits)
  next
    case True
    then obtain a s' where b: "utf8_nextCharSafeBody s' a = (c, n)" by blast
    show ?thesis
    proof (cases "c = -1")
      case False
      then obtain cp where cp: "c = int cp" using b by (auto simp: utf8_nextCharSafeBody_def Let_def split: if_splits prod.splits)
      note bc = body_cases [OF b [unfolded cp]]
      have m: "unat a mod 2 ^ (6 - k) + 1 \<le> 2 ^ (6 - k)" for k
        by (metis Suc_eq_plus1 Suc_leI mod_less_divisor zero_less_numeral zero_less_power)
      have "cp < (unat a mod 2 ^ (6 - n) + 1) * 64 ^ n" using trail_cases_bound bc(1,5) by (metis fst_conv)
      also have "\<dots> \<le> 2 ^ (6 - n) * 64 ^ n" by (rule mult_le_mono1 [OF m])
      also have "\<dots> < 2 ^ 31" using bc(1,2) by auto
      finally show ?thesis using cp by simp
    qed simp
  qed
qed

lemma ReadUnicodeCharacter8_Some:
  "ReadUnicodeCharacter8 s = (Some cp, n) \<Longrightarrow> CBU8_NEXT s = (int cp, n) \<and> IsValidCodepoint cp"
  using CBU8_NEXT_int32 [of s]
  by (auto simp: ReadUnicodeCharacter8_def Let_def IsValidCodepoint_def split: prod.splits if_splits)

lemma ReadUnicodeCharacter8_enc:
  assumes "IsValidCodepoint cp"
  shows "ReadUnicodeCharacter8 (CBU8_APPEND_UNSAFE cp @ rest) = (Some cp, length (CBU8_APPEND_UNSAFE cp) - 1)"
proof -
  have "int cp mod 2 ^ 32 = int cp" using assms by (intro mod_pos_pos_trivial) (auto simp: IsValidCodepoint_def)
  then show ?thesis using assms by (simp add: ReadUnicodeCharacter8_def next_enc)
qed

section \<open>The UTF-16 codec\<close>

lemma u16_of_nat: "n < 65536 \<Longrightarrow> unat (of_nat n :: u16) = n"
  by (simp add: unat_of_nat)

lemma utf16_pair:
  assumes "unat a = i + 0xD800" "i < 1024" "unat b = y + 0xDC00" "y < 1024"
  shows "ReadUnicodeCharacter16 (a # b # r) = (Some ((i + 64) * 1024 + y), 1)"
  using assms add_multiple(2) [of i 1024 54] add_multiple(2) [of y 1024 55] add_multiple(2) [of i 2048 27]
  by (simp add: ReadUnicodeCharacter16_def CBU16_IS_SURROGATE_def CBU_IS_SURROGATE_def Let_def
      CBU16_IS_SURROGATE_LEAD_def CBU16_IS_TRAIL_def CBU16_GET_SUPPLEMENTARY_def IsValidCodepoint_def)

lemma utf16_read_enc:
  assumes "IsValidCodepoint cp"
  shows "ReadUnicodeCharacter16 (CBU16_APPEND_UNSAFE cp @ rest) = (Some cp, length (CBU16_APPEND_UNSAFE cp) - 1)"
proof (cases "cp \<le> 0xFFFF")
  case True
  then have "unat (of_nat cp :: u16) = cp" by (simp add: unat_of_nat)
  moreover have "cp div 0x800 \<noteq> 0x1B" using assms by (auto simp: IsValidCodepoint_def)
  ultimately show ?thesis using True assms
    by (simp add: CBU16_APPEND_UNSAFE_def ReadUnicodeCharacter16_def CBU16_IS_SURROGATE_def CBU_IS_SURROGATE_def)
next
  case False
  then have le: "cp \<le> 0x10FFFF" using assms by (auto simp: IsValidCodepoint_def)
  have x: "64 \<le> cp div 1024" "cp div 1024 < 1088"
    using False div_le_mono [of "0x10000" cp 1024] div_le_mono [OF le, of 1024] by simp_all
  then have e: "cp div 1024 + 0xD7C0 = (cp div 1024 - 64) + 0xD800" by simp
  have "unat (of_nat (cp div 1024 + 0xD7C0) :: u16) = (cp div 1024 - 64) + 0xD800"
    unfolding e using x by (intro u16_of_nat) simp
  moreover have "unat (of_nat (cp mod 1024 + 0xDC00) :: u16) = cp mod 1024 + 0xDC00"
    using mod_less_divisor [of 1024 cp] by (intro u16_of_nat) linarith
  ultimately show ?thesis using utf16_pair [of "of_nat (cp div 1024 + 0xD7C0)" "cp div 1024 - 64" "of_nat (cp mod 1024 + 0xDC00)" "cp mod 1024" rest] x False
    by (simp only: CBU16_APPEND_UNSAFE_def) simp
qed

lemma utf16_read_valid:
  assumes "s \<noteq> []" "ReadUnicodeCharacter16 s = (Some cp, n)"
  shows "IsValidCodepoint cp \<and> s = CBU16_APPEND_UNSAFE cp @ drop (Suc n) s"
proof -
  obtain a s' where s: "s = a # s'" using assms(1) by (cases s) auto
  have a: "unat a < 65536" using unsigned_less [of a] by simp
  show ?thesis
  proof (cases "CBU16_IS_SURROGATE a")
    case False
    then have "cp = unat a" "n = 0" "IsValidCodepoint cp"
      using assms(2) s by (auto simp: ReadUnicodeCharacter16_def split: if_splits)
    then show ?thesis using a s by (simp add: CBU16_APPEND_UNSAFE_def)
  next
    case True
    then obtain b r where b: "s' = b # r" "CBU16_IS_SURROGATE_LEAD a" "CBU16_IS_TRAIL b" "n = 1"
      "cp = CBU16_GET_SUPPLEMENTARY a b" "IsValidCodepoint cp"
      using assms(2) s by (cases s') (auto simp: ReadUnicodeCharacter16_def Let_def split: if_splits)
    define i y where "i = unat a mod 1024" and "y = unat b mod 1024"
    have "unat a div 1024 div 2 = 27" "unat a div 1024 mod 2 = 0"
      using True b(2) by (simp_all add: CBU16_IS_SURROGATE_def CBU_IS_SURROGATE_def CBU16_IS_SURROGATE_LEAD_def div_mult2_eq [symmetric])
    then have "unat a div 1024 = 54" using div_mult_mod_eq [of "unat a div 1024" 2] by simp
    then have ua: "unat a = i + 0xD800" using div_mult_mod_eq [of "unat a" 1024] by (simp add: i_def)
    have ub: "unat b = y + 0xDC00" using b(3) div_mult_mod_eq [of "unat b" 1024] by (simp add: CBU16_IS_TRAIL_def y_def)
    have iy: "i < 1024" "y < 1024" by (simp_all add: i_def y_def)
    have cp: "cp = (i + 64) * 1024 + y" unfolding b(5) CBU16_GET_SUPPLEMENTARY_def ua ub by simp
    then have "0xFFFF < cp" "cp div 1024 = i + 64" using iy by simp_all
    moreover have "cp mod 1024 = y" unfolding cp by (simp only: mod_mult_self3 mod_less [OF iy(2)])
    ultimately have "CBU16_APPEND_UNSAFE cp = [of_nat (i + 0xD800), of_nat (y + 0xDC00)]"
      by (simp add: CBU16_APPEND_UNSAFE_def)
    also have "\<dots> = [a, b]" unfolding ua [symmetric] ub [symmetric] by simp
    finally show ?thesis using b s by simp
  qed
qed

section \<open>The conversions are inverse\<close>

interpretation utf8: utf_codec ReadUnicodeCharacter8 CBU8_APPEND_UNSAFE
proof
  fix cp rest src n
  show "IsValidCodepoint cp \<Longrightarrow>
      ReadUnicodeCharacter8 (CBU8_APPEND_UNSAFE cp @ rest) = (Some cp, length (CBU8_APPEND_UNSAFE cp) - 1)"
    by (rule ReadUnicodeCharacter8_enc)
  show "CBU8_APPEND_UNSAFE cp \<noteq> []" by (simp add: CBU8_APPEND_UNSAFE_def)
  show "src \<noteq> [] \<Longrightarrow> ReadUnicodeCharacter8 src = (Some cp, n) \<Longrightarrow>
      IsValidCodepoint cp \<and> src = CBU8_APPEND_UNSAFE cp @ drop (Suc n) src"
    using ReadUnicodeCharacter8_Some read_is_enc by blast
qed

interpretation utf16: utf_codec ReadUnicodeCharacter16 CBU16_APPEND_UNSAFE
proof
  fix cp rest src n
  show "CBU16_APPEND_UNSAFE cp \<noteq> []" by (simp add: CBU16_APPEND_UNSAFE_def)
qed (use utf16_read_enc utf16_read_valid in blast)+

interpretation utf8_to_16: utf_conversion ReadUnicodeCharacter8 CBU8_APPEND_UNSAFE ReadUnicodeCharacter16
  CBU16_APPEND_UNSAFE WriteUnicodeCharacter16
  by unfold_locales (simp add: WriteUnicodeCharacter16_def CBU16_APPEND_UNSAFE_def CBU16_LENGTH_def)

interpretation utf16_to_8: utf_conversion ReadUnicodeCharacter16 CBU16_APPEND_UNSAFE ReadUnicodeCharacter8
  CBU8_APPEND_UNSAFE WriteUnicodeCharacter8
  by unfold_locales (simp add: WriteUnicodeCharacter8_def CBU8_APPEND_UNSAFE_def)

text \<open>C36: \<open>UTF8ToWide\<close> and \<open>WideToUTF8\<close> are inverse where they report success: a byte string converts
  to a wide string without error exactly when that wide string converts to the byte string without
  error.  In particular only shortest forms and no surrogates are accepted.\<close>

theorem utf_conversions_inverse: "UTF8ToWide s = (True, w) \<longleftrightarrow> WideToUTF8 w = (True, s)"
proof
  assume "UTF8ToWide s = (True, w)"
  then obtain cps where "list_all IsValidCodepoint cps" "w = utf16.encode cps" "s = utf8.encode cps"
    using utf8_to_16.convert_valid [of s True "[]" True w] by (auto simp: UTF8ToWide_def)
  then show "WideToUTF8 w = (True, s)"
    by (simp add: WideToUTF8_def utf16_to_8.convert_encoded)
next
  assume "WideToUTF8 w = (True, s)"
  then obtain cps where "list_all IsValidCodepoint cps" "w = utf16.encode cps" "s = utf8.encode cps"
    using utf16_to_8.convert_valid [of w True "[]" True s] by (auto simp: WideToUTF8_def)
  then show "UTF8ToWide s = (True, w)"
    by (simp add: UTF8ToWide_def utf8_to_16.convert_encoded)
qed

text \<open>Whatever bytes come in, the wide string that comes out is well-formed: converting it back
  succeeds.\<close>

lemma UTF8ToWide_well_formed: "fst (WideToUTF8 (snd (UTF8ToWide s)))"
proof -
  obtain ok w where "UTF8ToWide s = (ok, w)" by (cases "UTF8ToWide s")
  then obtain cps where "list_all IsValidCodepoint cps" "w = utf16.encode cps"
    using utf8_to_16.convert_valid [of s True "[]" ok w] by (auto simp: UTF8ToWide_def)
  then show ?thesis using \<open>UTF8ToWide s = (ok, w)\<close>
    by (simp add: WideToUTF8_def utf16_to_8.convert_encoded)
qed

end
