(* ===== verification/StringUtils.thy ===== *)
theory StringUtils
  imports UtfConversions
begin

unbundle bit_operations_syntax

text \<open>
  \<open>base/string_util.{h,cc}\<close> and \<open>base/strings/string_split.cc\<close>: the string routines the command line,
  the paths and the parsers are built on.  The templates over \<open>std::string\<close>, \<open>std::wstring\<close> and
  \<open>string16\<close> are functions on lists of words of any length; positions are natural numbers and \<open>npos\<close> is
  \<open>None\<close>.  An output string is the result.
\<close>

section \<open>Characters\<close>

definition ToLowerASCII :: "'c::len word \<Rightarrow> 'c word" where
  "ToLowerASCII c = (if 65 \<le> uint c \<and> uint c \<le> 90 then c + 32 else c)"

definition ToUpperASCII :: "'c::len word \<Rightarrow> 'c word" where
  "ToUpperASCII c = (if 97 \<le> uint c \<and> uint c \<le> 122 then c - 32 else c)"

definition StringToLowerASCII :: "'c::len word list \<Rightarrow> 'c word list" where
  "StringToLowerASCII s = map ToLowerASCII s"

definition StringToUpperASCII :: "'c::len word list \<Rightarrow> 'c word list" where
  "StringToUpperASCII s = map ToUpperASCII s"

definition IsAsciiWhitespace :: "'c::len word \<Rightarrow> bool" where
  "IsAsciiWhitespace c = (uint c = 32 \<or> uint c = 13 \<or> uint c = 10 \<or> uint c = 9)"

definition IsAsciiAlpha :: "'c::len word \<Rightarrow> bool" where
  "IsAsciiAlpha c = (65 \<le> uint c \<and> uint c \<le> 90 \<or> 97 \<le> uint c \<and> uint c \<le> 122)"

definition IsAsciiDigit :: "'c::len word \<Rightarrow> bool" where
  "IsAsciiDigit c = (48 \<le> uint c \<and> uint c \<le> 57)"

definition IsHexDigit :: "'c::len word \<Rightarrow> bool" where
  "IsHexDigit c = (48 \<le> uint c \<and> uint c \<le> 57 \<or> 65 \<le> uint c \<and> uint c \<le> 70 \<or> 97 \<le> uint c \<and> uint c \<le> 102)"

definition HexDigitToInt :: "'c::len word \<Rightarrow> 'c word" where
  "HexDigitToInt c =
     (if 48 \<le> uint c \<and> uint c \<le> 57 then c - 48
      else if 65 \<le> uint c \<and> uint c \<le> 70 then c - 65 + 10
      else if 97 \<le> uint c \<and> uint c \<le> 102 then c - 97 + 10
      else 0)"

definition kWhitespaceWide :: "u16 list" where
  "kWhitespaceWide =
     [0x0009, 0x000A, 0x000B, 0x000C, 0x000D, 0x0020, 0x0085, 0x00A0, 0x1680, 0x180E,
      0x2000, 0x2001, 0x2002, 0x2003, 0x2004, 0x2005, 0x2006, 0x2007, 0x2008, 0x2009, 0x200A,
      0x200C, 0x2028, 0x2029, 0x202F, 0x205F, 0x3000]"

definition kWhitespaceASCII :: bytes where
  "kWhitespaceASCII = [0x09, 0x0A, 0x0B, 0x0C, 0x0D, 0x20]"

text \<open>\<open>wcschr\<close> also finds the terminating null, so 0 counts as whitespace here.\<close>

definition IsWhitespace :: "u16 \<Rightarrow> bool" where
  "IsWhitespace c = (c \<in> set (kWhitespaceWide @ [0]))"

section \<open>Searching\<close>

fun find_idx :: "('a \<Rightarrow> bool) \<Rightarrow> 'a list \<Rightarrow> nat option" where
  "find_idx P [] = None"
| "find_idx P (x # xs) = (if P x then Some 0 else map_option Suc (find_idx P xs))"

text \<open>\<open>find_first_of\<close>/\<open>find_first_not_of\<close> from a position, and \<open>find_last_not_of\<close>.\<close>

definition find_if :: "('a \<Rightarrow> bool) \<Rightarrow> nat \<Rightarrow> 'a list \<Rightarrow> nat option" where
  "find_if P pos s = map_option (\<lambda>i. pos + i) (find_idx P (drop pos s))"

definition find_last_if :: "('a \<Rightarrow> bool) \<Rightarrow> 'a list \<Rightarrow> nat option" where
  "find_last_if P s = map_option (\<lambda>i. length s - 1 - i) (find_idx P (rev s))"

text \<open>\<open>str.find(s, pos)\<close>: the first occurrence of a string at or after a position.\<close>

fun find_sub_idx :: "'a list \<Rightarrow> 'a list \<Rightarrow> nat option" where
  "find_sub_idx s [] = (if s = [] then Some 0 else None)"
| "find_sub_idx s (x # xs) =
     (if take (length s) (x # xs) = s then Some 0 else map_option Suc (find_sub_idx s xs))"

definition find_sub :: "'a list \<Rightarrow> nat \<Rightarrow> 'a list \<Rightarrow> nat option" where
  "find_sub s pos str = (if pos \<le> length str then map_option (\<lambda>i. pos + i) (find_sub_idx s (drop pos str)) else None)"

lemma find_idx_None [simp]: "find_idx P xs = None \<longleftrightarrow> (\<forall>x\<in>set xs. \<not> P x)"
  by (induction xs) auto

lemma find_idx_SomeD:
  "find_idx P xs = Some i \<Longrightarrow> i < length xs \<and> P (xs ! i) \<and> (\<forall>x\<in>set (take i xs). \<not> P x)"
  by (induction xs arbitrary: i) (auto split: if_splits)

lemma find_idx_length: "find_idx P xs = Some i \<Longrightarrow> i = length (takeWhile (\<lambda>x. \<not> P x) xs)"
  by (induction xs arbitrary: i) (auto split: if_splits)

lemma find_idx_eq: "find_idx P xs = (if \<exists>x\<in>set xs. P x then Some (length (takeWhile (\<lambda>x. \<not> P x) xs)) else None)"
  by (induction xs) auto

lemma find_if_bounds: "find_if P pos s = Some i \<Longrightarrow> pos \<le> i \<and> i < length s \<and> P (s ! i)"
  by (auto simp: find_if_def dest!: find_idx_SomeD)

lemma find_sub_idx_SomeD:
  "find_sub_idx s xs = Some i \<Longrightarrow> i + length s \<le> length xs \<and> take (length s) (drop i xs) = s"
proof (induction xs arbitrary: i)
  case Nil
  then show ?case by (simp split: if_splits)
next
  case (Cons x xs)
  show ?case
  proof (cases "take (length s) (x # xs) = s")
    case True
    then have "length s \<le> length (x # xs)" by (metis length_take min.cobounded1)
    then show ?thesis using Cons.prems True by simp
  next
    case False
    then show ?thesis using Cons by auto
  qed
qed

section \<open>Trimming\<close>

type_synonym trim_positions = u32

definition TRIM_NONE :: trim_positions where "TRIM_NONE = 0"
definition TRIM_LEADING :: trim_positions where "TRIM_LEADING = 1"
definition TRIM_TRAILING :: trim_positions where "TRIM_TRAILING = 2"
definition TRIM_ALL :: trim_positions where "TRIM_ALL = TRIM_LEADING OR TRIM_TRAILING"

lemmas trim_defs = TRIM_NONE_def TRIM_LEADING_def TRIM_TRAILING_def TRIM_ALL_def

text \<open>The result is the returned positions and \<open>*output\<close>.  \<open>input.length() - 1\<close> of the empty string is
  \<open>npos\<close>.\<close>

definition TrimStringT ::
    "'c::len word list \<Rightarrow> 'c word list \<Rightarrow> trim_positions \<Rightarrow> trim_positions \<times> 'c word list" where
  "TrimStringT input trim_chars positions =
     (let last_char = (if input = [] then None else Some (length input - 1));
          first_good_char =
            (if positions AND TRIM_LEADING \<noteq> 0 then find_if (\<lambda>c. c \<notin> set trim_chars) 0 input else Some 0);
          last_good_char =
            (if positions AND TRIM_TRAILING \<noteq> 0 then find_last_if (\<lambda>c. c \<notin> set trim_chars) input else last_char)
      in case (first_good_char, last_good_char) of
           (Some f, Some l) \<Rightarrow>
             if input = [] then (TRIM_NONE, [])
             else ((if f = 0 then TRIM_NONE else TRIM_LEADING) OR
                     (if last_good_char = last_char then TRIM_NONE else TRIM_TRAILING),
                   take (l - f + 1) (drop f input))
         | _ \<Rightarrow> (if input = [] then TRIM_NONE else positions, []))"

definition TrimString :: "'c::len word list \<Rightarrow> 'c word list \<Rightarrow> bool \<times> 'c word list" where
  "TrimString input trim_chars =
     (let (p, out) = TrimStringT input trim_chars TRIM_ALL in (p \<noteq> TRIM_NONE, out))"

definition TrimWhitespace :: "u16 list \<Rightarrow> trim_positions \<Rightarrow> trim_positions \<times> u16 list" where
  "TrimWhitespace input positions = TrimStringT input kWhitespaceWide positions"

definition TrimWhitespaceASCII :: "bytes \<Rightarrow> trim_positions \<Rightarrow> trim_positions \<times> bytes" where
  "TrimWhitespaceASCII input positions = TrimStringT input kWhitespaceASCII positions"

text \<open>Reference: drop the trimmed characters from the left and from the right.\<close>

definition trim_right :: "('a \<Rightarrow> bool) \<Rightarrow> 'a list \<Rightarrow> 'a list" where
  "trim_right P xs = rev (dropWhile P (rev xs))"

definition trim_by :: "('a \<Rightarrow> bool) \<Rightarrow> 'a list \<Rightarrow> 'a list" where
  "trim_by P xs = trim_right P (dropWhile P xs)"

lemma find_if_0: "find_if P 0 s = find_idx P s"
  by (simp add: find_if_def option.map_ident)

lemma drop_find_idx: "find_idx P s = Some i \<Longrightarrow> drop i s = dropWhile (\<lambda>x. \<not> P x) s"
  by (drule find_idx_length) (simp add: dropWhile_eq_drop)

lemma take_find_last: "find_last_if P s = Some l \<Longrightarrow> take (l + 1) s = trim_right (\<lambda>x. \<not> P x) s \<and> l < length s"
proof -
  assume "find_last_if P s = Some l"
  then obtain i where i: "find_idx P (rev s) = Some i" "l = length s - 1 - i"
    by (auto simp: find_last_if_def)
  from i(1) have lt: "i < length s" by (auto dest: find_idx_SomeD)
  have "dropWhile (\<lambda>x. \<not> P x) (rev s) = drop i (rev s)" using drop_find_idx [OF i(1)] by simp
  then have "trim_right (\<lambda>x. \<not> P x) s = take (length s - i) s" by (simp add: trim_right_def rev_drop)
  moreover have "l + 1 = length s - i" using i(2) lt by simp
  ultimately show ?thesis using lt by auto
qed

lemma find_last_if_None: "find_last_if P s = None \<longleftrightarrow> (\<forall>x\<in>set s. \<not> P x)"
  by (simp add: find_last_if_def)

lemma trim_right_append: "\<not> P a \<Longrightarrow> trim_right P (xs @ a # ys) = xs @ a # trim_right P ys"
proof -
  assume a: "\<not> P a"
  have "dropWhile P (rev ys @ a # rev xs) = dropWhile P (rev ys) @ a # rev xs"
    using a by (induction "rev ys") (auto simp: dropWhile_append)
  then show ?thesis by (simp add: trim_right_def)
qed

lemma trim_right_drop:
  assumes "f < length s" "\<not> P (s ! f)"
  shows "drop f (trim_right P s) = trim_right P (drop f s)" "f < length (trim_right P s)"
proof -
  have s: "s = take f s @ s ! f # drop (Suc f) s" using assms(1) by (simp add: id_take_nth_drop)
  have "trim_right P s = take f s @ s ! f # trim_right P (drop (Suc f) s)"
    using trim_right_append [of P "s ! f" "take f s" "drop (Suc f) s"] assms(2) s by simp
  moreover have "trim_right P (drop f s) = s ! f # trim_right P (drop (Suc f) s)"
    using trim_right_append [of P "s ! f" "[]" "drop (Suc f) s"] assms
    by (simp add: Cons_nth_drop_Suc)
  ultimately show "drop f (trim_right P s) = trim_right P (drop f s)" "f < length (trim_right P s)"
    using assms(1) by simp_all
qed

lemma trim_right_id [simp]: "trim_right P [] = []"
  by (simp add: trim_right_def)

lemma trim_positions_simps [simp]:
  "TRIM_ALL AND TRIM_LEADING \<noteq> 0" "TRIM_ALL AND TRIM_TRAILING \<noteq> 0" "TRIM_LEADING AND TRIM_LEADING \<noteq> 0"
  "TRIM_TRAILING AND TRIM_TRAILING \<noteq> 0" "TRIM_LEADING AND TRIM_TRAILING = 0" "TRIM_TRAILING AND TRIM_LEADING = 0"
  "TRIM_NONE AND TRIM_LEADING = 0" "TRIM_NONE AND TRIM_TRAILING = 0" "TRIM_LEADING OR TRIM_TRAILING \<noteq> 0"
  "TRIM_LEADING OR TRIM_NONE \<noteq> 0" "TRIM_NONE OR TRIM_TRAILING \<noteq> 0" "TRIM_NONE OR TRIM_NONE = 0"
  "TRIM_ALL \<noteq> TRIM_NONE" "TRIM_ALL \<noteq> 0" "TRIM_NONE = 0"
  by (simp_all add: trim_defs)

lemma find_idx_take: "find_idx P s = Some f \<Longrightarrow> f < n \<Longrightarrow> find_idx P (take n s) = Some f"
proof (induction s arbitrary: f n)
  case Nil
  then show ?case by simp
next
  case (Cons x s)
  then show ?case by (cases n) (auto split: if_splits)
qed

lemma dropWhile_trim_right:
  assumes "find_idx (\<lambda>x. \<not> P x) s = Some f"
  shows "dropWhile P (trim_right P s) = drop f (trim_right P s)"
proof -
  have f: "f < length s" "\<not> P (s ! f)" using find_idx_SomeD [OF assms] by auto
  have "trim_right P s = take (length (trim_right P s)) s"
  proof -
    have "trim_right P s = rev (drop (length (takeWhile P (rev s))) (rev s))"
      by (simp add: trim_right_def dropWhile_eq_drop)
    then show ?thesis by (simp add: rev_drop)
  qed
  then have "find_idx (\<lambda>x. \<not> P x) (trim_right P s) = Some f"
    using find_idx_take [OF assms trim_right_drop(2) [of f s P, OF f]] by simp
  then show ?thesis using drop_find_idx by fastforce
qed

text \<open>What the routine leaves for each set of positions.\<close>

lemma TrimStringT_output:
  "snd (TrimStringT s t p) =
     (let P = (\<lambda>c. c \<in> set t);
          a = (if p AND TRIM_TRAILING \<noteq> 0 then trim_right P s else s)
      in if p AND TRIM_LEADING \<noteq> 0 then dropWhile P a else a)"
proof (cases "(p AND TRIM_LEADING \<noteq> 0 \<or> p AND TRIM_TRAILING \<noteq> 0) \<and> (\<forall>x\<in>set s. x \<in> set t)")
  case True
  then have "trim_right (\<lambda>c. c \<in> set t) s = []" "dropWhile (\<lambda>c. c \<in> set t) s = []"
    by (auto simp: trim_right_def dropWhile_eq_Nil_conv)
  moreover have "find_last_if (\<lambda>c. c \<notin> set t) s = None" "find_if (\<lambda>c. c \<notin> set t) 0 s = None"
    using True by (auto simp: find_last_if_None find_if_0)
  ultimately show ?thesis using True
    by (auto simp: TrimStringT_def Let_def eq_commute [of "[]"] split: option.splits)
next
  case False
  show ?thesis
  proof (cases "s = []")
    case True
    then show ?thesis using False by (simp add: TrimStringT_def)
  next
    case ne: False
    define P where "P = (\<lambda>c. c \<in> set t)"
    define f where "f = (if p AND TRIM_LEADING \<noteq> 0 then find_if (\<lambda>c. c \<notin> set t) 0 s else Some 0)"
    define l where "l = (if p AND TRIM_TRAILING \<noteq> 0 then find_last_if (\<lambda>c. c \<notin> set t) s else Some (length s - 1))"
    define a where "a = (if p AND TRIM_TRAILING \<noteq> 0 then trim_right P s else s)"
    obtain i where i: "f = Some i" using False
      by (cases f) (auto simp: f_def find_if_0 split: if_splits)
    obtain j where j: "l = Some j" using False
      by (cases l) (auto simp: l_def find_last_if_None split: if_splits)
    have a: "take (j + 1) s = a \<and> j < length s"
      using j ne take_find_last [of "\<lambda>c. \<not> P c" s j] by (auto simp: l_def a_def P_def split: if_splits)
    have d: "drop i a = (if p AND TRIM_LEADING \<noteq> 0 then dropWhile P a else a) \<and> i \<le> j"
    proof (cases "p AND TRIM_LEADING = 0")
      case True
      then show ?thesis using i by (simp add: f_def)
    next
      case lead: False
      then have fi: "find_idx (\<lambda>x. \<not> P x) s = Some i" using i by (simp add: f_def find_if_0 P_def)
      then have g: "i < length s" "\<not> P (s ! i)" using find_idx_SomeD by fastforce+
      have "drop i a = dropWhile P a" unfolding a_def
        using dropWhile_trim_right [OF fi] drop_find_idx [OF fi] by simp
      moreover have "i < length a" unfolding a_def using trim_right_drop(2) [of i s P, OF g] g by simp
      moreover have "length a \<le> j + 1" using a by auto
      ultimately show ?thesis using lead by simp
    qed
    then have e: "take (j - i + 1) (drop i s) = drop i a" using a by (auto simp: drop_take Suc_diff_le)
    have "snd (TrimStringT s t p) = take (j - i + 1) (drop i s)"
      by (simp only: TrimStringT_def Let_def i [unfolded f_def] j [unfolded l_def] ne if_False
          prod.case option.case snd_conv)
    then show ?thesis using d unfolding e by (simp add: a_def P_def Let_def)
  qed
qed

lemma TrimWhitespace_output:
  "snd (TrimWhitespace s TRIM_ALL) = dropWhile (\<lambda>c. c \<in> set kWhitespaceWide) (trim_right (\<lambda>c. c \<in> set kWhitespaceWide) s)"
  by (simp add: TrimWhitespace_def TrimStringT_output Let_def)

lemma dropWhile_id: "(s = [] \<or> \<not> P (hd s)) \<Longrightarrow> dropWhile P s = s"
  by (cases s) auto

lemma trim_right_unchanged: "(s = [] \<or> \<not> P (last s)) \<Longrightarrow> trim_right P s = s"
  by (cases s rule: rev_cases) (auto simp: trim_right_def)

lemma TrimWhitespace_id:
  assumes "s = [] \<or> hd s \<notin> set kWhitespaceWide \<and> last s \<notin> set kWhitespaceWide"
  shows "snd (TrimWhitespace s TRIM_ALL) = s"
  using assms by (auto simp: TrimWhitespace_output dropWhile_id trim_right_unchanged)

lemma hd_dropWhile_not: "dropWhile P s \<noteq> [] \<Longrightarrow> \<not> P (hd (dropWhile P s))"
  by (rule hd_dropWhile)

lemma last_trim_right: "trim_right P s \<noteq> [] \<Longrightarrow> \<not> P (last (trim_right P s))"
  by (simp add: trim_right_def last_rev hd_dropWhile)

lemma last_dropWhile: "dropWhile P s \<noteq> [] \<Longrightarrow> last (dropWhile P s) = last s"
  by (metis append_is_Nil_conv last_appendR takeWhile_dropWhile_id)

text \<open>The output of a trim is trimmed: neither end is a trimmed character.\<close>

lemma TrimWhitespace_ends:
  assumes "snd (TrimWhitespace s TRIM_ALL) \<noteq> []"
  shows "hd (snd (TrimWhitespace s TRIM_ALL)) \<notin> set kWhitespaceWide"
    "last (snd (TrimWhitespace s TRIM_ALL)) \<notin> set kWhitespaceWide"
proof -
  let ?P = "\<lambda>c. c \<in> set kWhitespaceWide"
  have d: "dropWhile ?P (trim_right ?P s) \<noteq> []" using assms unfolding TrimWhitespace_output .
  have r: "trim_right ?P s \<noteq> []"
  proof
    assume "trim_right ?P s = []"
    with d show False by simp
  qed
  show "hd (snd (TrimWhitespace s TRIM_ALL)) \<notin> set kWhitespaceWide"
    "last (snd (TrimWhitespace s TRIM_ALL)) \<notin> set kWhitespaceWide"
    using hd_dropWhile [of ?P "trim_right ?P s", OF d] last_trim_right [of ?P s, OF r] last_dropWhile [of ?P, OF d]
    by (auto simp: TrimWhitespace_output)
qed

lemma TrimWhitespace_idempotent:
  "snd (TrimWhitespace (snd (TrimWhitespace s TRIM_ALL)) TRIM_ALL) = snd (TrimWhitespace s TRIM_ALL)"
  by (rule TrimWhitespace_id) (use TrimWhitespace_ends [of s] in auto)

section \<open>Replacing characters\<close>

text \<open>The loop of \<open>ReplaceCharsT\<close> with the position of the next search.\<close>

function replace_chars_loop :: "'a list \<Rightarrow> 'a list \<Rightarrow> nat \<Rightarrow> 'a list \<Rightarrow> 'a list" where
  "replace_chars_loop replace_chars replace_with pos output =
     (case find_if (\<lambda>c. c \<in> set replace_chars) pos output of
        None \<Rightarrow> output
      | Some found \<Rightarrow>
          replace_chars_loop replace_chars replace_with (found + length replace_with)
            (take found output @ replace_with @ drop (found + 1) output))"
  by pat_completeness auto
termination
  by (relation "measure (\<lambda>(_, _, pos, output). length output - pos)") (auto dest!: find_if_bounds)

declare replace_chars_loop.simps [simp del]

definition ReplaceCharsT :: "'a list \<Rightarrow> 'a list \<Rightarrow> 'a list \<Rightarrow> bool \<times> 'a list" where
  "ReplaceCharsT input replace_chars replace_with =
     (find_if (\<lambda>c. c \<in> set replace_chars) 0 input \<noteq> None,
      replace_chars_loop replace_chars replace_with 0 input)"

definition RemoveChars :: "'a list \<Rightarrow> 'a list \<Rightarrow> bool \<times> 'a list" where
  "RemoveChars input remove_chars = ReplaceCharsT input remove_chars []"

lemma find_if_at: "find_if P (length a) (a @ b) = map_option (\<lambda>i. length a + i) (find_idx P b)"
  by (simp add: find_if_def)

lemma concat_map_single: "(\<And>c. c \<in> set s \<Longrightarrow> f c = [c]) \<Longrightarrow> concat (map f s) = s"
  by (induction s) auto

lemma replace_chars_loop_eq:
  "replace_chars_loop rc w (length pre) (pre @ rest) =
     pre @ concat (map (\<lambda>c. if c \<in> set rc then w else [c]) rest)"
proof (induction "length rest" arbitrary: pre rest rule: less_induct)
  case less
  show ?case
  proof (cases "find_idx (\<lambda>c. c \<in> set rc) rest")
    case None
    then have "concat (map (\<lambda>c. if c \<in> set rc then w else [c]) rest) = rest"
      by (induction rest) auto
    then show ?thesis using None
      by (simp add: replace_chars_loop.simps [of rc w "length pre"] find_if_at del: find_idx_None)
  next
    case (Some i)
    note i = find_idx_SomeD [OF Some]
    have r: "rest = take i rest @ rest ! i # drop (Suc i) rest" using i by (simp add: id_take_nth_drop)
    have "concat (map (\<lambda>c. if c \<in> set rc then w else [c]) (take i rest)) = take i rest"
      using i by (intro concat_map_single) auto
    moreover have "replace_chars_loop rc w (length (pre @ take i rest @ w)) ((pre @ take i rest @ w) @ drop (Suc i) rest) =
        (pre @ take i rest @ w) @ concat (map (\<lambda>c. if c \<in> set rc then w else [c]) (drop (Suc i) rest))"
      by (rule less) (use i in auto)
    moreover have "concat (map (\<lambda>c. if c \<in> set rc then w else [c]) rest) =
        concat (map (\<lambda>c. if c \<in> set rc then w else [c]) (take i rest)) @ w @
        concat (map (\<lambda>c. if c \<in> set rc then w else [c]) (drop (Suc i) rest))"
      using i by (subst r) simp
    moreover have "min (length rest) i = i" using i by simp
    ultimately show ?thesis using Some
      by (simp add: replace_chars_loop.simps [of rc w "length pre"] find_if_at add.assoc)
  qed
qed

text \<open>Every listed character is replaced, once, also when the replacement contains listed characters.\<close>

lemma ReplaceCharsT_eq:
  "ReplaceCharsT s rc w = ((\<exists>c\<in>set s. c \<in> set rc), concat (map (\<lambda>c. if c \<in> set rc then w else [c]) s))"
  using replace_chars_loop_eq [of rc w "[]" s] by (auto simp: ReplaceCharsT_def find_if_0)

lemma RemoveChars_eq: "RemoveChars s rc = ((\<exists>c\<in>set s. c \<in> set rc), filter (\<lambda>c. c \<notin> set rc) s)"
proof -
  have "concat (map (\<lambda>c. if c \<in> set rc then [] else [c]) s) = filter (\<lambda>c. c \<notin> set rc) s"
    by (induction s) auto
  then show ?thesis by (simp add: RemoveChars_def ReplaceCharsT_eq)
qed

section \<open>Collapsing whitespace\<close>

text \<open>\<open>IsWhitespace(*i)\<close> is an argument: a \<open>char\<close> is converted to \<open>wchar_t\<close> with its sign.  \<open>out\<close> is
  \<open>result[0 .. chars_written)\<close>, so \<open>--chars_written\<close> drops its last character.\<close>

fun collapse_loop ::
    "('c::len word \<Rightarrow> bool) \<Rightarrow> bool \<Rightarrow> bool \<Rightarrow> bool \<Rightarrow> 'c word list \<Rightarrow> 'c word list \<Rightarrow> bool \<times> bool \<times> 'c word list" where
  "collapse_loop ws trim in_ws trimmed out [] = (in_ws, trimmed, out)"
| "collapse_loop ws trim in_ws trimmed out (c # cs) =
     (if ws c
      then let out1 = (if in_ws then out else out @ [32])
           in if trim \<and> \<not> trimmed \<and> (c = 10 \<or> c = 13)
              then collapse_loop ws trim True True (butlast out1) cs
              else collapse_loop ws trim True trimmed out1 cs
      else collapse_loop ws trim False False (out @ [c]) cs)"

definition CollapseWhitespaceT :: "('c::len word \<Rightarrow> bool) \<Rightarrow> 'c word list \<Rightarrow> bool \<Rightarrow> 'c word list" where
  "CollapseWhitespaceT ws txt trim =
     (let (in_ws, trimmed, out) = collapse_loop ws trim True True [] txt
      in if in_ws \<and> \<not> trimmed then butlast out else out)"

definition CollapseWhitespace :: "u16 list \<Rightarrow> bool \<Rightarrow> u16 list" where
  "CollapseWhitespace = CollapseWhitespaceT IsWhitespace"

definition CollapseWhitespaceASCII :: "bytes \<Rightarrow> bool \<Rightarrow> bytes" where
  "CollapseWhitespaceASCII = CollapseWhitespaceT (\<lambda>c. IsWhitespace (word_of_int (sint c)))"

section \<open>Contents, prefixes and conversions\<close>

definition ContainsOnlyWhitespaceASCII :: "bytes \<Rightarrow> bool" where
  "ContainsOnlyWhitespaceASCII s = list_all IsAsciiWhitespace s"

definition ContainsOnlyWhitespace :: "u16 list \<Rightarrow> bool" where
  "ContainsOnlyWhitespace s = (find_if (\<lambda>c. c \<notin> set kWhitespaceWide) 0 s = None)"

definition ContainsOnlyChars :: "'a list \<Rightarrow> 'a list \<Rightarrow> bool" where
  "ContainsOnlyChars input characters = list_all (\<lambda>c. c \<in> set characters) input"

definition WideToASCII :: "u16 list \<Rightarrow> bytes" where
  "WideToASCII wide = map ucast wide"

definition WideToLatin1 :: "u16 list \<Rightarrow> bool \<times> bytes" where
  "WideToLatin1 wide =
     (if \<exists>c\<in>set wide. 255 < uint c then (False, []) else (True, map ucast wide))"

definition IsStringASCII :: "'c::len word list \<Rightarrow> bool" where
  "IsStringASCII s = list_all (\<lambda>c. \<not> 127 < uint c) s"

text \<open>\<open>b\<close> is a null-terminated string: the list of its characters before the null.\<close>

fun LowerCaseEqualsASCII :: "'c::len word list \<Rightarrow> 'c word list \<Rightarrow> bool" where
  "LowerCaseEqualsASCII [] b = (b = [])"
| "LowerCaseEqualsASCII (x # a) b =
     (case b of [] \<Rightarrow> False | y # b' \<Rightarrow> if ToLowerASCII x \<noteq> y then False else LowerCaseEqualsASCII a b')"

definition EqualsASCII :: "u16 list \<Rightarrow> bytes \<Rightarrow> bool" where
  "EqualsASCII a b = (if length a \<noteq> length b then False else list_all2 (\<lambda>y x. word_of_int (sint y) = x) b a)"

text \<open>\<open>compare(pos, n, s) == 0\<close>; \<open>tolower\<close> of the C library depends on the locale and is an argument.\<close>

definition StartsWithT :: "('a \<Rightarrow> 'b) \<Rightarrow> 'a list \<Rightarrow> 'a list \<Rightarrow> bool \<Rightarrow> bool" where
  "StartsWithT tolower str search case_sensitive =
     (if case_sensitive then take (length search) str = search
      else if length str < length search then False
      else list_all2 (\<lambda>x y. tolower x = tolower y) search (take (length search) str))"

definition EndsWithT :: "('a \<Rightarrow> 'b) \<Rightarrow> 'a list \<Rightarrow> 'a list \<Rightarrow> bool \<Rightarrow> bool" where
  "EndsWithT tolower str search case_sensitive =
     (if length str < length search then False
      else if case_sensitive then take (length search) (drop (length str - length search) str) = search
      else list_all2 (\<lambda>x y. tolower x = tolower y) search (drop (length str - length search) str))"

section \<open>Replacing substrings\<close>

text \<open>The loop does not end when an empty string is to be replaced everywhere; \<open>None\<close> is then the
  value.  \<open>offs\<close> is the position of the next search.\<close>

partial_function (option) replace_sub_loop ::
    "'a list \<Rightarrow> 'a list \<Rightarrow> bool \<Rightarrow> nat \<Rightarrow> 'a list \<Rightarrow> 'a list option" where
  "replace_sub_loop find_this replace_with replace_all offs str =
     (case find_sub find_this offs str of
        None \<Rightarrow> Some str
      | Some i \<Rightarrow>
          let str' = take i str @ replace_with @ drop (i + length find_this) str
          in if \<not> replace_all then Some str'
             else replace_sub_loop find_this replace_with replace_all (i + length replace_with) str')"

definition DoReplaceSubstringsAfterOffset ::
    "'a list \<Rightarrow> nat \<Rightarrow> 'a list \<Rightarrow> 'a list \<Rightarrow> bool \<Rightarrow> 'a list option" where
  "DoReplaceSubstringsAfterOffset str start_offset find_this replace_with replace_all =
     (if length str \<le> start_offset then Some str
      else replace_sub_loop find_this replace_with replace_all start_offset str)"

definition ReplaceFirstSubstringAfterOffset :: "'a list \<Rightarrow> nat \<Rightarrow> 'a list \<Rightarrow> 'a list \<Rightarrow> 'a list option" where
  "ReplaceFirstSubstringAfterOffset str off find_this replace_with =
     DoReplaceSubstringsAfterOffset str off find_this replace_with False"

definition ReplaceSubstringsAfterOffset :: "'a list \<Rightarrow> nat \<Rightarrow> 'a list \<Rightarrow> 'a list \<Rightarrow> 'a list option" where
  "ReplaceSubstringsAfterOffset str off find_this replace_with =
     DoReplaceSubstringsAfterOffset str off find_this replace_with True"

section \<open>Tokens, joining and splitting\<close>

text \<open>The loop of \<open>TokenizeT\<close> at the start of a token.\<close>

function tokenize_loop :: "'a list \<Rightarrow> 'a list \<Rightarrow> nat option \<Rightarrow> 'a list list" where
  "tokenize_loop str delimiters None = []"
| "tokenize_loop str delimiters (Some start) =
     (case find_if (\<lambda>c. c \<in> set delimiters) (start + 1) str of
        None \<Rightarrow> [drop start str]
      | Some e \<Rightarrow>
          take (e - start) (drop start str) #
            tokenize_loop str delimiters (find_if (\<lambda>c. c \<notin> set delimiters) (e + 1) str))"
  by pat_completeness auto
termination
  by (relation "measure (\<lambda>(str, _, s). case s of None \<Rightarrow> 0 | Some i \<Rightarrow> Suc (length str - i))")
    (auto dest!: find_if_bounds split: option.splits)

definition TokenizeT :: "'a list \<Rightarrow> 'a list \<Rightarrow> nat \<times> 'a list list" where
  "TokenizeT str delimiters =
     (let tokens = tokenize_loop str delimiters (find_if (\<lambda>c. c \<notin> set delimiters) 0 str)
      in (length tokens, tokens))"

definition JoinStringT :: "'a list list \<Rightarrow> 'a list \<Rightarrow> 'a list" where
  "JoinStringT parts sep =
     (case parts of [] \<Rightarrow> [] | p # ps \<Rightarrow> fold (\<lambda>part result. result @ sep @ part) ps p)"

text \<open>The loop of \<open>SplitStringT\<close>: \<open>trim\<close> is the trimming asked for, \<open>rest\<close> is \<open>str[i..]\<close> and \<open>cur\<close> is
  \<open>str[last..i)\<close>.\<close>

fun split_loop :: "('a list \<Rightarrow> 'a list) \<Rightarrow> 'a \<Rightarrow> 'a list \<Rightarrow> 'a list \<Rightarrow> 'a list list \<Rightarrow> 'a list list" where
  "split_loop trim s cur [] r =
     (let tmp = trim cur in if r \<noteq> [] \<or> tmp \<noteq> [] then r @ [tmp] else r)"
| "split_loop trim s cur (x # rest) r =
     (if x = s then split_loop trim s [] rest (r @ [trim cur])
      else split_loop trim s (cur @ [x]) rest r)"

definition SplitStringT :: "('a list \<Rightarrow> 'a list) \<Rightarrow> 'a list \<Rightarrow> 'a \<Rightarrow> 'a list list" where
  "SplitStringT trim str s = split_loop trim s [] str []"

definition SplitString16 :: "u16 list \<Rightarrow> u16 \<Rightarrow> u16 list list" where
  "SplitString16 = SplitStringT (\<lambda>t. snd (TrimWhitespace t TRIM_ALL))"

definition SplitString :: "bytes \<Rightarrow> u8 \<Rightarrow> bytes list" where
  "SplitString = SplitStringT (\<lambda>t. snd (TrimWhitespaceASCII t TRIM_ALL))"

definition SplitStringDontTrim :: "'a list \<Rightarrow> 'a \<Rightarrow> 'a list list" where
  "SplitStringDontTrim = SplitStringT (\<lambda>t. t)"

text \<open>The key and the values are set also where the result is \<open>false\<close>.\<close>

definition SplitStringIntoKeyValues :: "bytes \<Rightarrow> u8 \<Rightarrow> bool \<times> bytes \<times> bytes list" where
  "SplitStringIntoKeyValues line delim =
     (case find_idx (\<lambda>c. c = delim) line of
        None \<Rightarrow> (False, [], [])
      | Some end_key_pos \<Rightarrow>
          let key = take end_key_pos line; remains = drop end_key_pos line
          in case find_idx (\<lambda>c. c \<noteq> delim) remains of
               None \<Rightarrow> (False, key, [])
             | Some begin_values_pos \<Rightarrow> (True, key, [drop begin_values_pos remains]))"

fun key_value_pairs :: "u8 \<Rightarrow> bytes list \<Rightarrow> bool \<times> (bytes \<times> bytes) list" where
  "key_value_pairs delim [] = (True, [])"
| "key_value_pairs delim (p # ps) =
     (let (success, kvs) = key_value_pairs delim ps
      in if p = [] then (success, kvs)
         else let (ok, key, value) = SplitStringIntoKeyValues p delim
              in (ok \<and> success, (key, if value = [] then [] else hd value) # kvs))"

definition SplitStringIntoKeyValuePairs :: "bytes \<Rightarrow> u8 \<Rightarrow> u8 \<Rightarrow> bool \<times> (bytes \<times> bytes) list" where
  "SplitStringIntoKeyValuePairs line key_value_delimiter pair_delimiter =
     key_value_pairs key_value_delimiter (SplitString line pair_delimiter)"

text \<open>The loop does not end for an empty separator.\<close>

partial_function (option) split_substr_loop ::
    "('a list \<Rightarrow> 'a list) \<Rightarrow> 'a list \<Rightarrow> 'a list \<Rightarrow> nat \<Rightarrow> 'a list list \<Rightarrow> 'a list list option" where
  "split_substr_loop trim str s begin_index r =
     (case find_sub s begin_index str of
        None \<Rightarrow> Some (r @ [trim (drop begin_index str)])
      | Some end_index \<Rightarrow>
          split_substr_loop trim str s (end_index + length s)
            (r @ [trim (take (end_index - begin_index) (drop begin_index str))]))"

definition SplitStringUsingSubstrT :: "('a list \<Rightarrow> 'a list) \<Rightarrow> 'a list \<Rightarrow> 'a list \<Rightarrow> 'a list list option" where
  "SplitStringUsingSubstrT trim str s = split_substr_loop trim str s 0 []"

definition is_html_space :: "'c::len word \<Rightarrow> bool" where
  "is_html_space c = (c \<in> {32, 9, 10, 11, 12, 13})"

text \<open>The loop of \<open>SplitStringAlongWhitespaceT\<close> over \<open>i\<close>: \<open>first\<close> is \<open>i = 0\<close>, \<open>cur\<close> is
  \<open>str[last_non_ws_start..i)\<close> while the last character was no space.\<close>

fun along_ws_loop ::
    "bool \<Rightarrow> bool \<Rightarrow> 'c::len word list \<Rightarrow> 'c word list \<Rightarrow> 'c word list list \<Rightarrow> 'c word list list" where
  "along_ws_loop first last_was_ws cur [] result = (if \<not> last_was_ws then result @ [cur] else result)"
| "along_ws_loop first last_was_ws cur (c # cs) result =
     (if is_html_space c
      then if \<not> last_was_ws
           then along_ws_loop False True [] cs (if \<not> first then result @ [cur] else result)
           else along_ws_loop False True cur cs result
      else along_ws_loop False False (if last_was_ws then [c] else cur @ [c]) cs result)"

definition SplitStringAlongWhitespaceT :: "'c::len word list \<Rightarrow> 'c word list list" where
  "SplitStringAlongWhitespaceT str = (if str = [] then [] else along_ws_loop True False [] str [])"

section \<open>Placeholders\<close>

fun insert_offset :: "u32 \<times> u32 \<Rightarrow> (u32 \<times> u32) list \<Rightarrow> (u32 \<times> u32) list" where
  "insert_offset r [] = [r]"
| "insert_offset r (x # xs) = (if fst x < fst r then x # insert_offset r xs else r # x # xs)"

text \<open>\<open>index\<close> is a \<open>uintptr_t\<close>: it wraps, also below 0 when there is no digit.\<close>

definition placeholder_index :: "'c::len word list \<Rightarrow> u32" where
  "placeholder_index ds = fold (\<lambda>d index. index * 10 + (ucast d - 48)) ds 0 - 1"

function placeholders_loop ::
    "'c::len word list list \<Rightarrow> 'c word list \<Rightarrow> 'c word list \<Rightarrow> (u32 \<times> u32) list \<Rightarrow> 'c word list \<times> (u32 \<times> u32) list" where
  "placeholders_loop subst formatted [] r_offsets = (formatted, r_offsets)" |
  "placeholders_loop subst formatted (c # cs) r_offsets =
     (if c = 36
      then case cs of
             [] \<Rightarrow> (formatted, r_offsets)
           | d # _ \<Rightarrow>
               if d = 36
               then placeholders_loop subst (formatted @ takeWhile (\<lambda>x. x = 36) cs) (dropWhile (\<lambda>x. x = 36) cs) r_offsets
               else let index = placeholder_index (takeWhile IsAsciiDigit cs);
                        r' = insert_offset (index, of_nat (length formatted)) r_offsets
                    in placeholders_loop subst
                         (if unat index < length subst then formatted @ subst ! unat index else formatted)
                         (dropWhile IsAsciiDigit cs) r'
      else placeholders_loop subst (formatted @ [c]) cs r_offsets)"
  by pat_completeness auto
termination
  by (relation "measure (\<lambda>(_, _, s, _). length s)") (auto simp: less_Suc_eq_le intro!: le_SucI length_dropWhile_le)

definition DoReplaceStringPlaceholders ::
    "'c::len word list \<Rightarrow> 'c word list list \<Rightarrow> 'c word list \<times> u32 list" where
  "DoReplaceStringPlaceholders format_string subst =
     (let (formatted, r_offsets) = placeholders_loop subst [] format_string []
      in (formatted, map snd r_offsets))"

section \<open>Bounded copies and wide formats\<close>

text \<open>\<open>src\<close> is a null-terminated string, the list of its characters before the null.\<close>

function lcpy_loop :: "'c::len word list \<Rightarrow> 'c word list \<Rightarrow> nat \<Rightarrow> nat \<Rightarrow> 'c word list \<times> nat option" where
  "lcpy_loop dst src dst_size i =
     (if i < dst_size
      then let c = (if i < length src then src ! i else 0); dst' = dst[i := c]
           in if c = 0 then (dst', Some i) else lcpy_loop dst' src dst_size (i + 1)
      else (dst, None))"
  by pat_completeness auto
termination by (relation "measure (\<lambda>(_, _, n, i). n - i)") auto

declare lcpy_loop.simps [simp del]

definition lcpyT :: "'c::len word list \<Rightarrow> 'c word list \<Rightarrow> nat \<Rightarrow> nat \<times> 'c word list" where
  "lcpyT dst src dst_size =
     (case lcpy_loop dst src dst_size 0 of
        (dst', Some i) \<Rightarrow> (i, dst')
      | (dst', None) \<Rightarrow>
          (length src, if dst_size \<noteq> 0 then dst'[dst_size - 1 := 0] else dst'))"

text \<open>\<open>IsWprintfFormatPortable\<close>: outside and inside a specification.\<close>

definition portable_specifiers :: "u16 list" where
  "portable_specifiers =
     [100, 105, 111, 117, 120, 88, 101, 69, 102, 103, 71, 97, 65, 99, 115, 112, 110, 37]"

fun IsWprintfFormatPortable :: "u16 list \<Rightarrow> bool"
  and in_specification :: "bool \<Rightarrow> u16 list \<Rightarrow> bool" where
  "IsWprintfFormatPortable [] = True"
| "IsWprintfFormatPortable (c # cs) = (if c = 37 then in_specification False cs else IsWprintfFormatPortable cs)"
| "in_specification modifier_l [] = True"
| "in_specification modifier_l (c # cs) =
     (if c \<noteq> 108 \<and> ((c = 115 \<or> c = 99) \<and> \<not> modifier_l \<or> c \<in> {83, 67, 70, 68, 79, 85}) then False
      else if c \<in> set portable_specifiers then IsWprintfFormatPortable cs
      else in_specification (modifier_l \<or> c = 108) cs)"

section \<open>Patterns\<close>

text \<open>\<open>trail p\<close> is the template argument \<open>NEXT\<close>: the code point at the start of the non-empty
  \<open>p\<close> and the number of units it takes after the first.  A pointer into a string is the rest of the
  string.\<close>

type_synonym 'c next_char = "'c word list \<Rightarrow> int \<times> nat"

definition CBU_SENTINEL :: int where "CBU_SENTINEL = -1"

definition advance :: "'c::len next_char \<Rightarrow> 'c word list \<Rightarrow> 'c word list" where
  "advance trail p = drop (Suc (snd (trail p))) p"

definition IsWildcard :: "'c::len word \<Rightarrow> bool" where
  "IsWildcard c = (c = 42 \<or> c = 63)"

function EatSameChars ::
    "'c::len next_char \<Rightarrow> 'c word list \<Rightarrow> 'c word list \<Rightarrow> 'c word list option \<Rightarrow> 'c word list \<times> 'c word list" where
  "EatSameChars trail pattern string escape =
     (if pattern = [] \<or> string = [] then (pattern, string)
      else if escape = None \<and> IsWildcard (hd pattern) then (pattern, string)
      else if escape = None \<and> hd pattern = 92
      then EatSameChars trail (advance trail pattern) string (Some pattern)
      else if fst (trail pattern) = fst (trail string) \<and> fst (trail pattern) \<noteq> CBU_SENTINEL
      then EatSameChars trail (advance trail pattern) (advance trail string) None
      else (case escape of Some e \<Rightarrow> e | None \<Rightarrow> pattern, string))"
  by pat_completeness auto
termination
  by (relation "measure (\<lambda>(_, p, _, _). length p)") (auto simp: advance_def)

declare EatSameChars.simps [simp del]

function EatWildcard :: "'c::len next_char \<Rightarrow> 'c word list \<Rightarrow> 'c word list" where
  "EatWildcard trail pattern =
     (if pattern = [] then pattern
      else if \<not> IsWildcard (hd pattern) then pattern
      else EatWildcard trail (advance trail pattern))"
  by pat_completeness auto
termination
  by (relation "measure (\<lambda>(_, p). length p)") (auto simp: advance_def)

declare EatWildcard.simps [simp del]

fun nonempty_tails :: "'a list \<Rightarrow> 'a list list" where
  "nonempty_tails [] = []"
| "nonempty_tails (x # xs) = (x # xs) # nonempty_tails xs"

text \<open>The first argument is the number of levels left, \<open>kMaxDepth + 1 - depth\<close>.\<close>

fun MatchPatternT :: "nat \<Rightarrow> 'c::len next_char \<Rightarrow> 'c word list \<Rightarrow> 'c word list \<Rightarrow> bool" where
  "MatchPatternT 0 trail eval0 pattern0 = False"
| "MatchPatternT (Suc n) trail eval0 pattern0 =
     (let (pattern, eval) = EatSameChars trail pattern0 eval0 None
      in if eval = [] then EatWildcard trail pattern = []
         else if pattern = [] then False
         else let next_pattern = advance trail pattern
              in if hd pattern = 63
                 then MatchPatternT n trail eval next_pattern \<or> MatchPatternT n trail (advance trail eval) next_pattern
                 else if hd pattern = 42
                 then list_ex (\<lambda>e. MatchPatternT n trail e (EatWildcard trail next_pattern)) (nonempty_tails eval) \<or>
                      EatWildcard trail pattern = []
                 else False)"

definition kMaxDepth :: nat where "kMaxDepth = 16"

text \<open>\<open>NextCharUTF8\<close> and \<open>NextCharUTF16\<close> are \<open>CBU8_NEXT\<close> and \<open>CBU16_NEXT\<close>.\<close>

definition MatchPattern :: "bytes \<Rightarrow> bytes \<Rightarrow> bool" where
  "MatchPattern eval pattern = MatchPatternT (kMaxDepth + 1) CBU8_NEXT eval pattern"

definition MatchPattern16 :: "u16 list \<Rightarrow> u16 list \<Rightarrow> bool" where
  "MatchPattern16 eval pattern = MatchPatternT (kMaxDepth + 1) CBU16_NEXT eval pattern"

section \<open>UTF-8 strings\<close>

function IsStringUTF8 :: "bytes \<Rightarrow> bool" where
  "IsStringUTF8 str =
     (if str = [] then True
      else let (code_point, n) = CBU8_NEXT str
           in if \<not> IsValidCharacter (nat (code_point mod 2 ^ 32)) then False else IsStringUTF8 (drop (Suc n) str))"
  by pat_completeness auto
termination by (relation "measure length") auto

declare IsStringUTF8.simps [simp del]

text \<open>The loop of \<open>TruncateUTF8ToByteSize\<close> with \<open>char_index + 1\<close>; the result is \<open>char_index\<close> behind the
  character found.\<close>

fun truncate_loop :: "bytes \<Rightarrow> nat \<Rightarrow> nat option" where
  "truncate_loop data 0 = None"
| "truncate_loop data (Suc prev) =
     (let (code_point, n) = CBU8_NEXT (drop prev data); cp = nat (code_point mod 2 ^ 32)
      in if \<not> IsValidCharacter cp \<or> \<not> IsValidCodepoint cp then truncate_loop data prev
         else Some (prev + Suc n))"

definition TruncateUTF8ToByteSize :: "bytes \<Rightarrow> nat \<Rightarrow> bytes" where
  "TruncateUTF8ToByteSize input byte_size =
     (if length input < byte_size then input
      else case truncate_loop (take byte_size input) byte_size of
             Some char_index \<Rightarrow> take char_index input
           | None \<Rightarrow> [])"

end
