(* ===== verification/StringUtils_Props.thy ===== *)
theory StringUtils_Props
  imports StringUtils
begin

text \<open>
  What the string routines compute, against reference definitions: the fields of a string for the
  splitting, joining and token routines, left-to-right replacement for \<open>DoReplaceSubstringsAfterOffset\<close>,
  glob patterns for \<open>MatchPattern\<close>.
\<close>

section \<open>Fields\<close>

text \<open>The fields between the separators: one more than there are separators.\<close>

fun fields_by :: "('a \<Rightarrow> bool) \<Rightarrow> 'a list \<Rightarrow> 'a list list" where
  "fields_by P [] = [[]]"
| "fields_by P (x # xs) = (if P x then [] # fields_by P xs else (x # hd (fields_by P xs)) # tl (fields_by P xs))"

lemma fields_by_not_Nil [simp]: "fields_by P xs \<noteq> []"
  by (induction xs) auto

lemma fields_by_sep:
  "\<forall>x\<in>set w. \<not> P x \<Longrightarrow> P c \<Longrightarrow> fields_by P (w @ c # xs) = w # fields_by P xs"
  by (induction w) auto

lemma fields_by_last: "\<forall>x\<in>set w. \<not> P x \<Longrightarrow> fields_by P w = [w]"
  by (induction w) auto

lemma JoinStringT_Cons: "JoinStringT (p # ps) sep = p @ concat (map (\<lambda>q. sep @ q) ps)"
proof -
  have "fold (\<lambda>part result. result @ sep @ part) ps p = p @ concat (map (\<lambda>q. sep @ q) ps)"
    by (induction ps arbitrary: p) auto
  then show ?thesis by (simp add: JoinStringT_def)
qed

lemma JoinStringT_Nil [simp]: "JoinStringT [] sep = []"
  by (simp add: JoinStringT_def)

lemma join_fields: "JoinStringT (fields_by (\<lambda>x. x = s) xs) [s] = xs"
proof (induction xs)
  case Nil
  then show ?case by (simp add: JoinStringT_Cons)
next
  case (Cons x xs)
  then show ?case by (cases "fields_by (\<lambda>x. x = s) xs") (auto simp: JoinStringT_Cons)
qed

lemma fields_join:
  "\<forall>p\<in>set (p # ps). s \<notin> set p \<Longrightarrow> fields_by (\<lambda>x. x = s) (JoinStringT (p # ps) [s]) = p # ps"
proof (induction ps arbitrary: p)
  case Nil
  then have "fields_by (\<lambda>x. x = s) p = [p]" by (intro fields_by_last) auto
  then show ?case by (simp add: JoinStringT_Cons)
next
  case (Cons q ps)
  have "JoinStringT (p # q # ps) [s] = p @ s # JoinStringT (q # ps) [s]" by (simp add: JoinStringT_Cons)
  moreover have "\<forall>x\<in>set p. x \<noteq> s" using Cons.prems by auto
  ultimately show ?case using Cons fields_by_sep [of p "\<lambda>x. x = s" s] by simp
qed

lemma split_loop_eq:
  "split_loop trim s cur rest r =
     (let fs = map trim ((cur @ hd (fields_by (\<lambda>x. x = s) rest)) # tl (fields_by (\<lambda>x. x = s) rest))
      in if r = [] \<and> fs = [[]] then [] else r @ fs)"
proof (induction trim s cur rest r rule: split_loop.induct)
  case (1 trim s cur r)
  then show ?case by auto
next
  case (2 trim s cur x rest r)
  then show ?case by (cases "fields_by (\<lambda>x. x = s) rest") (auto simp: Let_def)
qed

lemma SplitStringT_eq:
  "SplitStringT trim str s =
     (let fs = map trim (fields_by (\<lambda>x. x = s) str) in if fs = [[]] then [] else fs)"
  by (cases "fields_by (\<lambda>x. x = s) str") (auto simp: SplitStringT_def split_loop_eq Let_def)

lemma SplitStringDontTrim_eq:
  "SplitStringDontTrim str s = (if str = [] then [] else fields_by (\<lambda>x. x = s) str)"
proof -
  have "fields_by (\<lambda>x. x = s) str = [[]] \<longleftrightarrow> str = []" by (cases str) auto
  then show ?thesis by (simp add: SplitStringDontTrim_def SplitStringT_eq)
qed

lemma split_of_join:
  assumes "list_all (\<lambda>p. s \<notin> set p) parts"
  shows "SplitStringDontTrim (JoinStringT parts [s]) s = (if parts = [[]] then [] else parts)"
proof (cases parts)
  case Nil
  then show ?thesis by (simp add: SplitStringDontTrim_eq)
next
  case (Cons p ps)
  have f: "fields_by (\<lambda>x. x = s) (JoinStringT parts [s]) = parts"
    unfolding Cons by (rule fields_join) (use assms Cons in \<open>auto simp: list_all_iff\<close>)
  have "JoinStringT parts [s] = [] \<longleftrightarrow> parts = [[]]"
    unfolding Cons by (auto simp: JoinStringT_Cons)
  then show ?thesis using f by (auto simp: SplitStringDontTrim_eq)
qed

text \<open>\<open>JoinString\<close> undoes \<open>SplitStringDontTrim\<close> on every string, and \<open>SplitStringDontTrim\<close> undoes
  \<open>JoinString\<close> on every list of parts without the separator, except that the list of one empty part
  is split like the empty list.\<close>

theorem split_join_inverse:
  "JoinStringT (SplitStringDontTrim str s) [s] = str \<and>
   (list_all (\<lambda>p. s \<notin> set p) parts \<longrightarrow>
      SplitStringDontTrim (JoinStringT parts [s]) s = (if parts = [[]] then [] else parts))"
  using split_of_join [of s parts] by (auto simp: SplitStringDontTrim_eq join_fields)

section \<open>Tokens\<close>

lemma filter_fields_skip:
  "\<forall>x\<in>set xs. P x \<Longrightarrow> filter (\<lambda>f. f \<noteq> []) (fields_by P (xs @ ys)) = filter (\<lambda>f. f \<noteq> []) (fields_by P ys)"
  by (induction xs) auto

lemma find_if_split:
  assumes "find_if P pos s = Some i"
  shows "drop pos s = take (i - pos) (drop pos s) @ s ! i # drop (i + 1) s"
    "\<forall>x\<in>set (take (i - pos) (drop pos s)). \<not> P x" "P (s ! i)" "pos \<le> i" "i < length s"
proof -
  note b = find_if_bounds [OF assms]
  obtain k where k: "find_idx P (drop pos s) = Some k" "i = pos + k" using assms by (auto simp: find_if_def)
  show "pos \<le> i" "i < length s" "P (s ! i)" using b by auto
  show "\<forall>x\<in>set (take (i - pos) (drop pos s)). \<not> P x" using find_idx_SomeD [OF k(1)] k(2) by simp
  have "drop pos s = take k (drop pos s) @ drop pos s ! k # drop (Suc k) (drop pos s)"
    using b k(2) by (intro id_take_nth_drop) auto
  then show "drop pos s = take (i - pos) (drop pos s) @ s ! i # drop (i + 1) s"
    using k(2) b by (simp add: add.commute)
qed

lemma find_if_None: "find_if P pos s = None \<longleftrightarrow> (\<forall>x\<in>set (drop pos s). \<not> P x)"
  by (simp add: find_if_def)

lemma tokenize_loop_eq:
  "tokenize_loop str d (find_if (\<lambda>c. c \<notin> set d) start str) =
     filter (\<lambda>f. f \<noteq> []) (fields_by (\<lambda>c. c \<in> set d) (drop start str))"
proof (induction "length str - start" arbitrary: start rule: less_induct)
  case less
  let ?P = "\<lambda>c. c \<in> set d"
  show ?case
  proof (cases "find_if (\<lambda>c. c \<notin> set d) start str")
    case None
    then have "\<forall>x\<in>set (drop start str). x \<in> set d" by (simp add: find_if_None)
    then show ?thesis using None filter_fields_skip [of "drop start str" ?P "[]"] by simp
  next
    case (Some i)
    note i = find_if_split [OF Some]
    have skip: "filter (\<lambda>f. f \<noteq> []) (fields_by ?P (drop start str)) = filter (\<lambda>f. f \<noteq> []) (fields_by ?P (drop i str))"
      by (subst i(1), subst filter_fields_skip) (use i in \<open>auto simp: Cons_nth_drop_Suc\<close>)
    show ?thesis
    proof (cases "find_if ?P (i + 1) str")
      case None
      have "fields_by ?P (drop i str) = [drop i str]"
        by (rule fields_by_last) (use None i(3,5) in \<open>auto simp: find_if_None Cons_nth_drop_Suc [symmetric]\<close>)
      then show ?thesis using Some None skip i(5) by simp
    next
      case e: (Some e)
      note e' = find_if_split [OF e]
      have "drop i str = (str ! i # take (e - (i + 1)) (drop (i + 1) str)) @ str ! e # drop (e + 1) str"
        using e'(1) i(5) by (metis Cons_nth_drop_Suc Suc_eq_plus1 append_Cons)
      moreover have "str ! i # take (e - (i + 1)) (drop (i + 1) str) = take (e - i) (drop i str)"
        using e'(4) i(5) by (simp add: Cons_nth_drop_Suc [symmetric] Suc_diff_le [symmetric] take_Cons')
      ultimately have d: "drop i str = take (e - i) (drop i str) @ str ! e # drop (e + 1) str" by simp
      have nd: "\<forall>x\<in>set (take (e - i) (drop i str)). \<not> ?P x" "take (e - i) (drop i str) \<noteq> []"
        using e'(2) i(3) \<open>str ! i # _ = take (e - i) (drop i str)\<close> [symmetric] by auto
      have "fields_by ?P (drop i str) = take (e - i) (drop i str) # fields_by ?P (drop (e + 1) str)"
        by (subst d, rule fields_by_sep) (use nd e'(3) in auto)
      moreover have "tokenize_loop str d (find_if (\<lambda>c. c \<notin> set d) (e + 1) str) =
          filter (\<lambda>f. f \<noteq> []) (fields_by ?P (drop (e + 1) str))"
        by (rule less) (use i(4,5) e'(4,5) in auto)
      ultimately show ?thesis using Some e skip nd(2) by simp
    qed
  qed
qed

text \<open>\<open>Tokenize\<close> gives the non-empty fields.\<close>

lemma TokenizeT_eq:
  "TokenizeT str d = (let ts = filter (\<lambda>f. f \<noteq> []) (fields_by (\<lambda>c. c \<in> set d) str) in (length ts, ts))"
  using tokenize_loop_eq [of str d 0] by (simp add: TokenizeT_def)

section \<open>Whitespace\<close>

lemma collapse_False_cases:
  fixes ws cs
  defines "fin \<equiv> \<lambda>(in_ws, trimmed, out). if in_ws \<and> \<not> trimmed then butlast out else out"
  shows
    "fin (collapse_loop ws False False False out cs) =
       out @ hd (fields_by ws cs) @ concat (map (\<lambda>q. 32 # q) (filter (\<lambda>f. f \<noteq> []) (tl (fields_by ws cs))))"
    "fin (collapse_loop ws False True False (out @ [32]) cs) =
       out @ concat (map (\<lambda>q. 32 # q) (filter (\<lambda>f. f \<noteq> []) (fields_by ws cs)))"
proof (induction cs arbitrary: out)
  case Nil
  { case 1 show ?case by (simp add: fin_def) }
  { case 2 show ?case by (simp add: fin_def) }
next
  case (Cons c cs)
  { case 1 show ?case using Cons.IH(1) [of "out @ [c]"] Cons.IH(2) [of out] by (simp add: Let_def) }
  { case 2 show ?case
    proof (cases "ws c")
      case True
      then show ?thesis using Cons.IH(2) [of out] by (simp add: Let_def)
    next
      case False
      then show ?thesis using Cons.IH(1) [of "out @ [32, c]"] by simp
    qed }
qed

text \<open>\<open>CollapseWhitespace\<close> without the treatment of line breaks puts single spaces between the words.\<close>

lemma CollapseWhitespaceT_words:
  "CollapseWhitespaceT ws s False = JoinStringT (filter (\<lambda>f. f \<noteq> []) (fields_by ws s)) [32]"
proof (induction s)
  case Nil
  then show ?case by (simp add: CollapseWhitespaceT_def)
next
  case (Cons c s)
  show ?case
  proof (cases "ws c")
    case True
    then show ?thesis using Cons by (simp add: CollapseWhitespaceT_def)
  next
    case False
    then show ?thesis using collapse_False_cases(1) [of ws "[c]" s]
      by (auto simp: CollapseWhitespaceT_def JoinStringT_Cons split: prod.splits)
  qed
qed

text \<open>A null character counts as whitespace here, though not for \<open>TrimWhitespace\<close>.\<close>

lemma CollapseWhitespace_null:
  "CollapseWhitespace [97, 0, 98] False = [97, 32, 98]" "TrimWhitespace [0] TRIM_ALL = (TRIM_NONE, [0])"
  by (simp_all add: CollapseWhitespace_def CollapseWhitespaceT_def IsWhitespace_def kWhitespaceWide_def
      TrimWhitespace_def TrimStringT_def trim_defs find_if_def find_last_if_def)

section \<open>Replacing substrings\<close>

function replace_spec :: "'a list \<Rightarrow> 'a list \<Rightarrow> 'a list \<Rightarrow> 'a list" where
  "replace_spec f w s =
     (if f = [] \<or> s = [] then s
      else if take (length f) s = f then w @ replace_spec f w (drop (length f) s)
      else hd s # replace_spec f w (tl s))"
  by pat_completeness auto
termination by (relation "measure (\<lambda>(_, _, s). length s)") auto

declare replace_spec.simps [simp del]

lemma replace_spec_find:
  "f \<noteq> [] \<Longrightarrow> replace_spec f w s =
     (case find_sub_idx f s of None \<Rightarrow> s | Some i \<Rightarrow> take i s @ w @ replace_spec f w (drop (i + length f) s))"
proof (induction s)
  case Nil
  then show ?case by (simp add: replace_spec.simps)
next
  case (Cons x s)
  then show ?case
    by (subst replace_spec.simps) (auto split: option.splits)
qed

lemma find_sub_at: "find_sub f (length pre) (pre @ rest) = map_option (\<lambda>i. length pre + i) (find_sub_idx f rest)"
  by (simp add: find_sub_def)

lemma replace_sub_loop_all:
  "f \<noteq> [] \<Longrightarrow> replace_sub_loop f w True (length pre) (pre @ rest) = Some (pre @ replace_spec f w rest)"
proof (induction "length rest" arbitrary: pre rest rule: less_induct)
  case less
  show ?case
  proof (cases "find_sub_idx f rest")
    case None
    then show ?thesis using less.prems
      by (simp add: replace_sub_loop.simps [of f w True "length pre"] find_sub_at replace_spec_find)
  next
    case (Some i)
    have i: "i + length f \<le> length rest" using find_sub_idx_SomeD [OF Some] by simp
    have "replace_sub_loop f w True (length (pre @ take i rest @ w)) ((pre @ take i rest @ w) @ drop (i + length f) rest) =
        Some ((pre @ take i rest @ w) @ replace_spec f w (drop (i + length f) rest))"
      by (rule less.hyps) (use i less.prems in \<open>(cases f; auto)+\<close>)
    moreover have "min (length rest) i = i" using i by simp
    ultimately show ?thesis using Some less.prems i
      by (simp add: replace_sub_loop.simps [of f w True "length pre"] find_sub_at replace_spec_find Let_def add.assoc)
  qed
qed

text \<open>Every occurrence after the offset is replaced, from the left, replaced text is not searched again,
  and the routine returns for every non-empty string to be replaced.\<close>

lemma ReplaceSubstringsAfterOffset_eq:
  assumes "find_this \<noteq> []"
  shows "ReplaceSubstringsAfterOffset str off find_this w =
    Some (take off str @ replace_spec find_this w (drop off str))"
proof (cases "length str \<le> off")
  case True
  then show ?thesis using assms
    by (simp add: ReplaceSubstringsAfterOffset_def DoReplaceSubstringsAfterOffset_def replace_spec.simps)
next
  case False
  then show ?thesis using replace_sub_loop_all [OF assms, of w "take off str" "drop off str"]
    by (simp add: ReplaceSubstringsAfterOffset_def DoReplaceSubstringsAfterOffset_def)
qed

lemma ReplaceFirstSubstringAfterOffset_eq:
  assumes "off < length str"
  shows "ReplaceFirstSubstringAfterOffset str off f w =
    Some (case find_sub f off str of None \<Rightarrow> str | Some i \<Rightarrow> take i str @ w @ drop (i + length f) str)"
  using assms
  by (simp add: ReplaceFirstSubstringAfterOffset_def DoReplaceSubstringsAfterOffset_def
      replace_sub_loop.simps [of f w False] Let_def split: option.split)

text \<open>Replacing the empty string everywhere never returns.\<close>

lemma replace_empty_diverges:
  assumes "off \<le> length str"
  shows "replace_sub_loop [] w True off str = None"
proof -
  have *: "f = [] \<and> all \<longrightarrow> \<not> off \<le> length str"
    if "replace_sub_loop f w all off str = Some y" for f w :: "'a list" and all off str y
  proof (rule replace_sub_loop.raw_induct
      [where P = "\<lambda>f w all off str y. f = [] \<and> all \<longrightarrow> \<not> off \<le> length str", OF _ that])
    fix rec and f w :: "'a list" and all off str y
    assume ih: "\<And>f w all off str y. rec f w all off str = Some y \<Longrightarrow> f = [] \<and> all \<longrightarrow> \<not> off \<le> length str"
      and eq: "(case find_sub f off str of None \<Rightarrow> Some str
        | Some i \<Rightarrow> let str' = take i str @ w @ drop (i + length f) str
            in if \<not> all then Some str' else rec f w all (i + length w) str') = Some y"
    show "f = [] \<and> all \<longrightarrow> \<not> off \<le> length str"
    proof clarify
      assume a: "f = []" "all" "off \<le> length str"
      then have "find_sub f off str = Some off" by (cases "drop off str") (auto simp: find_sub_def)
      then have "rec f w all (off + length w) (take off str @ w @ drop off str) = Some y"
        using eq a by (simp add: Let_def)
      from ih [OF this] show False using a by simp
    qed
  qed
  then show ?thesis using assms by (cases "replace_sub_loop [] w True off str") auto
qed

section \<open>Bounded copies\<close>

lemma lcpy_loop_eq:
  assumes "0 \<notin> set src" "i \<le> length src" "take i dst = take i src" "n \<le> length dst" "i \<le> n"
  shows "lcpy_loop dst src n i =
     (if length src < n then (src @ 0 # drop (Suc (length src)) dst, Some (length src))
      else (take n src @ drop n dst, None))"
  using assms
proof (induction "n - i" arbitrary: i dst)
  case 0
  then have "i = n" by simp
  then show ?case using 0 by (simp add: lcpy_loop.simps) (metis append_take_drop_id)
next
  case (Suc k)
  then have lt: "i < n" by simp
  show ?case
  proof (cases "i < length src")
    case True
    then have nz: "src ! i \<noteq> 0" using Suc.prems(1) by (metis nth_mem)
    have "take (Suc i) (dst[i := src ! i]) = take (Suc i) src"
      using Suc.prems lt True by (simp add: take_Suc_conv_app_nth)
    then have "lcpy_loop (dst[i := src ! i]) src n (Suc i) =
       (if length src < n then (src @ 0 # drop (Suc (length src)) (dst[i := src ! i]), Some (length src))
        else (take n src @ drop n (dst[i := src ! i]), None))"
      by (intro Suc.hyps(1)) (use Suc lt True in auto)
    then show ?thesis using lt True nz by (subst lcpy_loop.simps) simp
  next
    case False
    then have "i = length src" using Suc.prems by simp
    then show ?thesis using lt Suc.prems
      by (subst lcpy_loop.simps) (simp add: upd_conv_take_nth_drop)
  qed
qed

text \<open>\<open>strlcpy\<close>: the length of the source is returned, the destination is always terminated, and nothing
  beyond its size is written.\<close>

lemma lcpyT_eq:
  assumes "0 \<notin> set src" "0 < n" "n \<le> length dst"
  shows "lcpyT dst src n =
    (length src, take (n - 1) src @ 0 # drop (min n (Suc (length src))) dst)"
proof (cases "length src < n")
  case True
  then have "min n (Suc (length src)) = Suc (length src)" by simp
  then show ?thesis using lcpy_loop_eq [of src 0 dst n] assms True by (simp add: lcpyT_def)
next
  case False
  have "take n src = take (n - 1) src @ [src ! (n - 1)]"
    using take_Suc_conv_app_nth [of "n - 1" src] assms(2) False by simp
  then have "(take n src @ drop n dst)[n - 1 := 0] = take (n - 1) src @ 0 # drop n dst"
    using assms(2) False by (simp add: list_update_append)
  then show ?thesis using lcpy_loop_eq [of src 0 dst n] assms False by (simp add: lcpyT_def min_def)
qed

section \<open>Patterns\<close>

text \<open>Reference: \<open>*\<close> matches any string, \<open>?\<close> at most one character, a backslash quotes the next one.\<close>

function glob :: "'c::len word list \<Rightarrow> 'c word list \<Rightarrow> bool" where
  "glob [] s = (s = [])"
| "glob (c # p) s =
     (if c = 42 then (if glob p s then True else if s = [] then False else glob (c # p) (tl s))
      else if c = 63 then (if glob p s then True else if s = [] then False else glob p (tl s))
      else if s = [] then False
      else if c = 92 then (if p = [] then False else if hd p = hd s then glob (tl p) (tl s) else False)
      else if c = hd s then glob p (tl s) else False)"
  by pat_completeness auto
termination by (relation "measure (\<lambda>(p, s). length p + length s)") auto

declare glob.simps(2) [simp del]

text \<open>The number of \<open>*\<close> and \<open>?\<close> that are not quoted.\<close>

function wildcards :: "'c::len word list \<Rightarrow> nat" where
  "wildcards [] = 0"
| "wildcards (c # p) = (if c = 92 then wildcards (tl p) else (if IsWildcard c then 1 else 0) + wildcards p)"
  by pat_completeness auto
termination by (relation "measure length") auto

text \<open>Text in which every unit is a code point: \<open>trail\<close> decodes its units one by one.\<close>

fun plain :: "'c::len next_char \<Rightarrow> 'c word list \<Rightarrow> bool" where
  "plain trail [] = True"
| "plain trail (c # p) = (trail (c # p) = (uint c, 0) \<and> plain trail p)"

lemma plain_tl [simp]: "plain trail p \<Longrightarrow> plain trail (tl p)"
  by (cases p) auto

lemma plain_advance [simp]: "plain trail p \<Longrightarrow> p \<noteq> [] \<Longrightarrow> advance trail p = tl p"
  by (cases p) (auto simp: advance_def)

lemma plain_fst [simp]: "plain trail p \<Longrightarrow> p \<noteq> [] \<Longrightarrow> fst (trail p) = uint (hd p)"
  by (cases p) auto

lemma plain_ascii:
  "(\<And>c p. uint c < 128 \<Longrightarrow> trail (c # p) = (uint c, 0)) \<Longrightarrow> IsStringASCII s \<Longrightarrow> plain trail s"
  by (induction s) (auto simp: IsStringASCII_def)

lemma EatWildcard_eq: "plain trail p \<Longrightarrow> EatWildcard trail p = dropWhile IsWildcard p"
proof (induction p)
  case Nil
  then show ?case by (simp add: EatWildcard.simps)
next
  case (Cons c p)
  then show ?case by (subst EatWildcard.simps) simp
qed

lemma glob_empty: "glob p [] \<longleftrightarrow> dropWhile IsWildcard p = []"
  by (induction p) (auto simp: IsWildcard_def glob.simps(2))

lemma EatSameChars_end:
  "EatSameChars trail [] s e = ([], s)" "EatSameChars trail p [] e = (p, [])"
  by (simp_all add: EatSameChars.simps)

lemma EatSameChars_wildcard: "IsWildcard c \<Longrightarrow> EatSameChars trail (c # p) (d # s) None = (c # p, d # s)"
  by (simp add: EatSameChars.simps)

lemma uint_not_sentinel: "uint (c::'c::len word) \<noteq> CBU_SENTINEL"
  using uint_ge_0 [of c] unfolding CBU_SENTINEL_def by linarith

lemma EatSameChars_step:
  assumes "plain trail (c # p)" "plain trail (d # s)"
  shows "\<not> IsWildcard c \<Longrightarrow> EatSameChars trail (c # p) (d # s) None =
      (if c = 92 then EatSameChars trail p (d # s) (Some (c # p))
       else if uint c = uint d then EatSameChars trail p s None else (c # p, d # s))"
    "EatSameChars trail (c # p) (d # s) (Some e) =
      (if uint c = uint d then EatSameChars trail p s None else (e, d # s))"
proof -
  have a: "advance trail (c # p) = p" "advance trail (d # s) = s" "fst (trail (c # p)) = uint c"
    "fst (trail (d # s)) = uint d"
    using assms by simp_all
  show "\<not> IsWildcard c \<Longrightarrow> EatSameChars trail (c # p) (d # s) None =
      (if c = 92 then EatSameChars trail p (d # s) (Some (c # p))
       else if uint c = uint d then EatSameChars trail p s None else (c # p, d # s))"
    by (subst EatSameChars.simps) (simp only: a uint_not_sentinel list.distinct list.sel option.distinct
        option.case simp_thms if_True if_False)
  show "EatSameChars trail (c # p) (d # s) (Some e) =
      (if uint c = uint d then EatSameChars trail p s None else (e, d # s))"
    by (subst EatSameChars.simps) (simp only: a uint_not_sentinel list.distinct list.sel option.distinct
        option.case simp_thms if_True if_False)
qed

lemma glob_char:
  "\<not> IsWildcard c \<Longrightarrow> c \<noteq> 92 \<Longrightarrow> glob (c # p) s \<longleftrightarrow> s \<noteq> [] \<and> c = hd s \<and> glob p (tl s)"
  "\<not> IsWildcard (92 :: 'c word) \<Longrightarrow>
     glob ((92 :: 'c::len word) # p) s \<longleftrightarrow> p \<noteq> [] \<and> s \<noteq> [] \<and> hd p = hd s \<and> glob (tl p) (tl s)"
  by (subst glob.simps(2), simp add: IsWildcard_def)+

lemma EatSameChars_glob:
  fixes pattern string :: "'c::len word list"
  assumes esc: "\<not> IsWildcard (92 :: 'c word)"
    and "plain trail pattern" "plain trail string" "EatSameChars trail pattern string escape = (p', s')"
    "case escape of None \<Rightarrow> q = pattern | Some e \<Rightarrow> e = q \<and> q = 92 # pattern \<and> string \<noteq> [] \<and> plain trail q"
  shows "glob q string = glob p' s' \<and> wildcards p' \<le> wildcards q \<and> plain trail p' \<and> plain trail s' \<and>
    (p' \<noteq> [] \<longrightarrow> s' \<noteq> [] \<longrightarrow> IsWildcard (hd p') \<or> \<not> glob p' s')"
  using assms(2-)
proof (induction trail pattern string escape arbitrary: q rule: EatSameChars.induct)
  case (1 trail pattern string escape)
  note prems = "1.prems"
  note hyps = "1.IH"
  show ?case
  proof (cases "pattern = [] \<or> string = []")
    case True
    then show ?thesis using prems by (auto simp: EatSameChars_end glob_char esc split: option.splits)
  next
    case ne: False
    then obtain c p d s where ps: "pattern = c # p" "string = d # s" by (meson neq_Nil_conv)
    have pl: "plain trail p" "plain trail s" "plain trail (c # p)" "plain trail (d # s)" using prems(1,2) ps by simp_all
    show ?thesis
    proof (cases escape)
      case None
      then have q: "q = c # p" using prems(4) ps by simp
      consider "IsWildcard c" | "\<not> IsWildcard c" "c = 92" | "\<not> IsWildcard c" "c \<noteq> 92" by blast
      then show ?thesis
      proof cases
        case 1
        then show ?thesis using prems(3) None q ps pl by (auto simp: EatSameChars_wildcard)
      next
        case 2
        then have "EatSameChars trail p (d # s) (Some (c # p)) = (p', s')"
          using prems(3) None ps pl by (simp add: EatSameChars_step)
        then show ?thesis using hyps(1) [of q] ne None 2 ps pl q by simp
      next
        case 3
        show ?thesis
        proof (cases "c = d")
          case True
          then have "EatSameChars trail p s None = (p', s')"
            using prems(3) None ps pl 3 by (simp add: EatSameChars_step)
          then show ?thesis using hyps(2) [of p] ne None 3 ps pl q True
            by (auto simp: glob_char esc uint_not_sentinel)
        next
          case False
          then have "uint c \<noteq> uint d" by (simp add: word_uint_eq_iff)
          then have "(p', s') = (c # p, d # s)"
            using prems(3) None ps pl 3 by (simp add: EatSameChars_step)
          then show ?thesis using False 3 q ps pl by (auto simp: glob_char esc uint_not_sentinel)
        qed
      qed
    next
      case (Some e)
      then have q: "q = 92 # c # p" "e = 92 # c # p" "plain trail q" using prems(4) ps by auto
      show ?thesis
      proof (cases "c = d")
        case True
        then have "EatSameChars trail p s None = (p', s')"
          using prems(3) Some ps pl by (simp add: EatSameChars_step)
        then show ?thesis using hyps(2) [of p] ne Some ps pl q True
          by (auto simp: glob_char esc uint_not_sentinel)
      next
        case False
        then have "uint c \<noteq> uint d" by (simp add: word_uint_eq_iff)
        then have "(p', s') = (q, d # s)"
          using prems(3) Some ps pl q by (simp add: EatSameChars_step)
        then show ?thesis using False q ps pl by (auto simp: glob_char esc uint_not_sentinel)
      qed
    qed
  qed
qed

lemma glob_question: "(63 :: 'c::len word) \<noteq> 42 \<Longrightarrow> glob ((63 :: 'c word) # p) s \<longleftrightarrow> glob p s \<or> s \<noteq> [] \<and> glob p (tl s)"
  by (subst glob.simps(2)) simp

text \<open>\<open>*\<close> matches a prefix, the rest of the pattern what is left.\<close>

lemma glob_star: "glob (42 # p) s \<longleftrightarrow> glob p [] \<or> (\<exists>e\<in>set (nonempty_tails s). glob p e)"
proof (induction s)
  case Nil
  then show ?case by (subst glob.simps(2)) simp
next
  case (Cons d s)
  then show ?case by (subst glob.simps(2)) auto
qed

lemma nonempty_tails_trans:
  "e \<in> set (nonempty_tails s) \<Longrightarrow> f \<in> set (nonempty_tails e) \<Longrightarrow> f \<in> set (nonempty_tails s)"
  by (induction s) auto

lemma nonempty_tails_self: "s \<noteq> [] \<Longrightarrow> s \<in> set (nonempty_tails s)"
  by (cases s) auto

lemma nonempty_tails_tl: "e \<in> set (nonempty_tails s) \<Longrightarrow> tl e = [] \<or> tl e \<in> set (nonempty_tails s)"
  by (induction s) (auto simp: nonempty_tails_self)

lemma plain_tails: "plain trail s \<Longrightarrow> e \<in> set (nonempty_tails s) \<Longrightarrow> plain trail e \<and> e \<noteq> []"
  by (induction s) auto

text \<open>Wildcards after a \<open>*\<close> add nothing to it.\<close>

lemma glob_star_wildcards:
  assumes "(63 :: 'c::len word) \<noteq> 42"
  shows "glob (42 # (p :: 'c word list)) s \<longleftrightarrow> glob (42 # dropWhile IsWildcard p) s"
proof (induction p)
  case Nil
  then show ?case by simp
next
  case (Cons c p)
  show ?case
  proof (cases "IsWildcard c")
    case True
    have "glob (42 # c # p) s \<longleftrightarrow> glob (42 # p) s"
    proof -
      consider "c = 42" | "c = 63" using True by (auto simp: IsWildcard_def)
      then show ?thesis
      proof cases
        case 1
        have "glob (42 # p) [] \<longleftrightarrow> glob p []" by (simp add: glob_star)
        moreover have "glob (42 # p) e \<longrightarrow> glob (42 # p) s" if "e \<in> set (nonempty_tails s)" for e
          using glob_star [of p e] glob_star [of p s] nonempty_tails_trans [OF that] by blast
        moreover have "s = [] \<or> s \<in> set (nonempty_tails s)" using nonempty_tails_self by blast
        ultimately show ?thesis unfolding 1 glob_star [of "42 # p" s] using glob_star [of p s] by metis
      next
        case 2
        have "glob (63 # p) [] \<longleftrightarrow> glob p []" by (simp add: glob_question [OF assms])
        moreover have "glob (63 # p) e \<longrightarrow> glob (42 # p) s" if "e \<in> set (nonempty_tails s)" for e
          using glob_question [OF assms, of p e] glob_star [of p s] nonempty_tails_tl [OF that] that by metis
        moreover have "glob p e \<longrightarrow> glob (63 # p) e" for e using glob_question [OF assms, of p e] by blast
        ultimately show ?thesis unfolding 2 glob_star [of "63 # p" s] using glob_star [of p s] by blast
      qed
    qed
    then show ?thesis using True Cons by simp
  next
    case False
    then show ?thesis by simp
  qed
qed

lemma wildcards_dropWhile: "\<not> IsWildcard (92 :: 'c word) \<Longrightarrow> wildcards (dropWhile IsWildcard (p :: 'c::len word list)) \<le> wildcards p"
  by (induction p) auto

lemma plain_dropWhile: "plain trail p \<Longrightarrow> plain trail (dropWhile P p)"
  by (induction p) auto

text \<open>A match is a match of the pattern; with a level for every wildcard, all matches are found.\<close>

lemma MatchPatternT_glob:
  fixes pattern eval :: "'c::len word list"
  assumes esc: "\<not> IsWildcard (92 :: 'c word)" and q: "(63 :: 'c word) \<noteq> 42"
  assumes "plain trail pattern" "plain trail eval"
  shows "(MatchPatternT n trail eval pattern \<longrightarrow> glob pattern eval) \<and>
    (wildcards pattern < n \<longrightarrow> glob pattern eval \<longrightarrow> MatchPatternT n trail eval pattern)"
  using assms(3-)
proof (induction n arbitrary: pattern eval)
  case 0
  then show ?case by simp
next
  case (Suc n)
  obtain p s where ps: "EatSameChars trail pattern eval None = (p, s)" by (cases "EatSameChars trail pattern eval None")
  have e: "glob pattern eval = glob p s" "wildcards p \<le> wildcards pattern" "plain trail p" "plain trail s"
    "p \<noteq> [] \<Longrightarrow> s \<noteq> [] \<Longrightarrow> IsWildcard (hd p) \<or> \<not> glob p s"
    using EatSameChars_glob [OF esc Suc.prems ps, of pattern] by simp_all
  show ?case
  proof (cases "s = [] \<or> p = []")
    case True
    then show ?thesis using ps e by (auto simp: EatWildcard_eq glob_empty)
  next
    case False
    then obtain c p' where p: "p = c # p'" by (cases p) auto
    have pl: "plain trail p'" "plain trail (tl s)" using e(3,4) p by simp_all
    consider "c = 63" | "c = 42" "c \<noteq> 63" | "\<not> IsWildcard c" using q by (metis IsWildcard_def)
    then show ?thesis
    proof cases
      case 1
      have w: "wildcards pattern < Suc n \<Longrightarrow> wildcards p' < n" using e(2) p 1 esc by (auto simp: IsWildcard_def)
      show ?thesis
        using False ps p 1 e(1,3,4) w Suc.IH [OF pl(1) e(4)] Suc.IH [OF pl(1,2)]
        by (auto simp: glob_question [OF q])
    next
      case 2
      let ?d = "dropWhile IsWildcard p'"
      have w: "wildcards pattern < Suc n \<Longrightarrow> wildcards ?d < n"
        using e(2) p 2 esc wildcards_dropWhile [OF esc, of p'] by (auto simp: IsWildcard_def)
      have g: "glob p s \<longleftrightarrow> ?d = [] \<or> (\<exists>e\<in>set (nonempty_tails s). glob ?d e)"
        using glob_star_wildcards [OF q, of p' s] glob_star [of ?d s] glob_empty [of ?d] p 2 by simp
      have "MatchPatternT (Suc n) trail eval pattern \<longleftrightarrow>
          (\<exists>e\<in>set (nonempty_tails s). MatchPatternT n trail e ?d) \<or> ?d = []"
        using False ps p 2 e(3) pl by (simp add: EatWildcard_eq list_ex_iff IsWildcard_def)
      moreover have "e \<in> set (nonempty_tails s) \<Longrightarrow> (MatchPatternT n trail e ?d \<longrightarrow> glob ?d e) \<and>
          (wildcards ?d < n \<longrightarrow> glob ?d e \<longrightarrow> MatchPatternT n trail e ?d)" for e
        by (rule Suc.IH) (use plain_dropWhile [OF pl(1)] plain_tails [OF e(4)] in auto)
      ultimately show ?thesis using g w e(1) by blast
    next
      case 3
      then show ?thesis using False ps p e by (auto simp: IsWildcard_def)
    qed
  qed
qed

lemma plain_CBU8: "IsStringASCII s \<Longrightarrow> plain CBU8_NEXT s"
  by (rule plain_ascii) (auto simp: CBU8_NEXT_def simp flip: nat_uint_eq)

text \<open>C37: On ASCII text, \<open>MatchPattern\<close> decides the glob pattern when it has at most 16 wildcards, and
  with more of them it still never accepts a string the pattern does not match.\<close>

theorem match_pattern_correct:
  assumes "IsStringASCII eval" "IsStringASCII pattern"
  shows "(MatchPattern eval pattern \<longrightarrow> glob pattern eval) \<and>
    (wildcards pattern \<le> 16 \<longrightarrow> (MatchPattern eval pattern \<longleftrightarrow> glob pattern eval))"
proof -
  have esc: "\<not> IsWildcard (92 :: u8)" "(63 :: u8) \<noteq> 42" by (simp_all add: IsWildcard_def)
  from MatchPatternT_glob [OF esc plain_CBU8 plain_CBU8, OF assms(2,1), of "kMaxDepth + 1"]
  show ?thesis by (auto simp: MatchPattern_def kMaxDepth_def)
qed

theorem match_pattern_correct_witness: "MatchPattern [97, 98, 99] [97, 42, 99]"
proof -
  have "glob [97, 42, 99] [97, 98, 99 :: u8]" by (simp add: glob.simps(2))
  then show ?thesis
    using match_pattern_correct [of "[97, 98, 99]" "[97, 42, 99]"]
    by (simp add: IsStringASCII_def IsWildcard_def)
qed

section \<open>UTF-8 strings\<close>

lemma valid_character_codepoint: "IsValidCharacter cp \<Longrightarrow> IsValidCodepoint cp"
  by (auto simp: IsValidCharacter_def IsValidCodepoint_def)

text \<open>A string \<open>IsStringUTF8\<close> accepts converts without error.\<close>

lemma IsStringUTF8_converts: "IsStringUTF8 s \<Longrightarrow> fst (UTF8ToWide s)"
proof -
  have "fst (ConvertUnicode ReadUnicodeCharacter8 WriteUnicodeCharacter16 s True out)" if "IsStringUTF8 s" for out
    using that
  proof (induction "length s" arbitrary: s out rule: less_induct)
    case less
    show ?case
    proof (cases "s = []")
      case True
      then show ?thesis by (simp add: ConvertUnicode.simps)
    next
      case False
      obtain c n where c: "CBU8_NEXT s = (c, n)" by (cases "CBU8_NEXT s")
      then have v: "IsValidCharacter (nat (c mod 2 ^ 32))" and r: "IsStringUTF8 (drop (Suc n) s)"
        using less.prems False by (subst (asm) IsStringUTF8.simps, simp split: if_splits)+
      have "fst (ConvertUnicode ReadUnicodeCharacter8 WriteUnicodeCharacter16 (drop (Suc n) s) True out')" for out'
        by (rule less.hyps) (use False r in auto)
      then show ?thesis using False c valid_character_codepoint [OF v]
        by (subst ConvertUnicode.simps) (simp add: ReadUnicodeCharacter8_def)
    qed
  qed
  then show "IsStringUTF8 s \<Longrightarrow> ?thesis" by (simp add: UTF8ToWide_def)
qed

lemma CBU8_NEXT_length: "s \<noteq> [] \<Longrightarrow> Suc (snd (CBU8_NEXT s)) \<le> length s"
  by (auto simp: CBU8_NEXT_def utf8_nextCharSafeBody_def Let_def length_takeWhile_le split: list.splits prod.splits
      intro: le_trans [OF length_takeWhile_le])

text \<open>Truncation keeps a prefix of at most the given size.\<close>

lemma TruncateUTF8ToByteSize_prefix:
  "\<exists>k \<le> byte_size. TruncateUTF8ToByteSize input byte_size = take k input"
proof (cases "length input < byte_size")
  case True
  then show ?thesis by (intro exI [of _ byte_size]) (simp add: TruncateUTF8ToByteSize_def)
next
  case False
  have "truncate_loop (take byte_size input) i = Some k \<Longrightarrow> i \<le> byte_size \<Longrightarrow> k \<le> byte_size" for i k
  proof (induction i)
    case (Suc i)
    have "Suc (snd (CBU8_NEXT (drop i (take byte_size input)))) \<le> length (drop i (take byte_size input))"
      using Suc.prems(2) False by (intro CBU8_NEXT_length) auto
    then show ?case using Suc False by (auto simp: Let_def split: prod.splits if_splits)
  qed simp
  then show ?thesis using False
    by (cases "truncate_loop (take byte_size input) byte_size")
      (auto simp: TruncateUTF8ToByteSize_def intro: exI [of _ 0])
qed

theorem split_join_inverse_witness:
  "SplitStringDontTrim (JoinStringT [[1], [], [2, 3]] [44]) (44 :: u8) = [[1], [], [2, 3]]"
  using split_join_inverse [of "[]" "44 :: u8" "[[1], [], [2, 3]]"] by simp

end
