(* ===== verification/CommandLine.thy ===== *)
theory CommandLine
  imports ChannelWin_Props StringUtils_Props
begin

text \<open>
  \<open>base/command_line.{h,cc}\<close> as compiled on Windows: how a program and its switches become one string
  for \<open>CreateProcess\<close> and how the new process reads them back.  The server passes the identifier of
  the channel, with its secret, to the client in this way.

  \<open>CommandLineToArgvW\<close> is a function of the system and an argument of the operations that call it;
  the result is the list of arguments.  A \<open>FilePath\<close> is its string, which its constructor cuts at the
  first null.
\<close>

section \<open>Switches\<close>

definition kSwitchTerminator :: "u16 list" where "kSwitchTerminator = [45, 45]"
definition kSwitchValueSeparator :: u16 where "kSwitchValueSeparator = 61"
definition kSwitchPrefixes :: "u16 list list" where "kSwitchPrefixes = [[45, 45], [45], [47]]"

fun prefix_length_in :: "'a list list \<Rightarrow> 'a list \<Rightarrow> nat" where
  "prefix_length_in [] string = 0"
| "prefix_length_in (prefix # ps) string =
     (if take (length prefix) string = prefix then length prefix else prefix_length_in ps string)"

definition GetSwitchPrefixLength :: "u16 list \<Rightarrow> nat" where
  "GetSwitchPrefixLength string = prefix_length_in kSwitchPrefixes string"

text \<open>The result, \<open>*switch_string\<close> and \<open>*switch_value\<close>.\<close>

definition IsSwitch :: "u16 list \<Rightarrow> bool \<times> u16 list \<times> u16 list" where
  "IsSwitch string =
     (let prefix_length = GetSwitchPrefixLength string
      in if prefix_length = 0 \<or> prefix_length = length string then (False, [], [])
         else case find_idx (\<lambda>c. c = kSwitchValueSeparator) string of
                None \<Rightarrow> (True, string, [])
              | Some equals_position \<Rightarrow> (True, take equals_position string, drop (equals_position + 1) string))"

text \<open>The loop of \<open>QuoteForCommandLineToArgvW\<close>: a run of backslashes is doubled before a quote and at
  the end.\<close>

function quote_body :: "u16 list \<Rightarrow> u16 list" where
  "quote_body [] = []"
| "quote_body (c # cs) =
     (if c = 92
      then let run = takeWhile (\<lambda>x. x = 92) (c # cs); rest = dropWhile (\<lambda>x. x = 92) (c # cs);
               backslash_count = (if rest = [] \<or> hd rest = 34 then length run * 2 else length run)
           in replicate backslash_count 92 @ quote_body rest
      else if c = 34 then [92, 34] @ quote_body cs
      else c # quote_body cs)"
  by pat_completeness auto
termination
  by (relation "measure length") (auto simp: less_Suc_eq_le length_dropWhile_le)

declare quote_body.simps(2) [simp del]

definition QuoteForCommandLineToArgvW :: "u16 list \<Rightarrow> u16 list" where
  "QuoteForCommandLineToArgvW arg =
     (if find_idx (\<lambda>c. c \<in> {32, 92, 34}) arg = None then arg else [34] @ quote_body arg @ [34])"

definition LowerASCIIOnWindows :: "bytes \<Rightarrow> bytes" where
  "LowerASCIIOnWindows = StringToLowerASCII"

section \<open>The command line\<close>

record command_line =
  cl_argv :: "u16 list list"
  cl_switches :: "bytes \<Rightarrow> u16 list option"
  cl_begin_args :: nat

definition FilePath_new :: "u16 list \<Rightarrow> u16 list" where
  "FilePath_new path = takeWhile (\<lambda>c. c \<noteq> 0) path"

definition SetProgram :: "u16 list \<Rightarrow> command_line \<Rightarrow> command_line" where
  "SetProgram program c = c\<lparr>cl_argv := (cl_argv c)[0 := snd (TrimWhitespace program TRIM_ALL)]\<rparr>"

definition GetProgram :: "command_line \<Rightarrow> u16 list" where
  "GetProgram c = FilePath_new (cl_argv c ! 0)"

definition CommandLine_NO_PROGRAM :: command_line where
  "CommandLine_NO_PROGRAM = \<lparr>cl_argv = [[]], cl_switches = Map.empty, cl_begin_args = 1\<rparr>"

definition CommandLine_new :: "u16 list \<Rightarrow> command_line" where
  "CommandLine_new program = SetProgram program CommandLine_NO_PROGRAM"

definition AppendSwitchNative :: "bytes \<Rightarrow> u16 list \<Rightarrow> command_line \<Rightarrow> command_line" where
  "AppendSwitchNative switch_string value c =
     (let switch_key = LowerASCIIOnWindows switch_string;
          combined = ASCIIToWide switch_key;
          prefix_length = GetSwitchPrefixLength combined;
          combined1 = (if prefix_length = 0 then kSwitchPrefixes ! 0 @ combined else combined);
          combined2 = (if value \<noteq> [] then combined1 @ kSwitchValueSeparator # value else combined1)
      in c\<lparr>cl_switches := (cl_switches c)(drop prefix_length switch_key \<mapsto> value),
           cl_argv := take (cl_begin_args c) (cl_argv c) @ [combined2] @ drop (cl_begin_args c) (cl_argv c),
           cl_begin_args := cl_begin_args c + 1\<rparr>)"

definition AppendSwitch :: "bytes \<Rightarrow> command_line \<Rightarrow> command_line" where
  "AppendSwitch switch_string = AppendSwitchNative switch_string []"

definition AppendSwitchPath :: "bytes \<Rightarrow> u16 list \<Rightarrow> command_line \<Rightarrow> command_line" where
  "AppendSwitchPath switch_string path = AppendSwitchNative switch_string path"

definition AppendSwitchASCII :: "bytes \<Rightarrow> bytes \<Rightarrow> command_line \<Rightarrow> command_line" where
  "AppendSwitchASCII switch_string value_string = AppendSwitchNative switch_string (ASCIIToWide value_string)"

definition AppendArgNative :: "u16 list \<Rightarrow> command_line \<Rightarrow> command_line" where
  "AppendArgNative value c = c\<lparr>cl_argv := cl_argv c @ [value]\<rparr>"

definition AppendArgPath :: "u16 list \<Rightarrow> command_line \<Rightarrow> command_line" where
  "AppendArgPath path = AppendArgNative path"

definition AppendArg :: "bytes \<Rightarrow> command_line \<Rightarrow> command_line" where
  "AppendArg value = AppendArgNative (snd (UTF8ToWide value))"

text \<open>\<open>AppendSwitchesAndArguments\<close>: the loop from index 1.\<close>

fun append_loop :: "bool \<Rightarrow> command_line \<Rightarrow> u16 list list \<Rightarrow> command_line" where
  "append_loop parse_switches c [] = c"
| "append_loop parse_switches c (a # as) =
     (let arg = snd (TrimWhitespace a TRIM_ALL);
          parse = (parse_switches \<and> arg \<noteq> kSwitchTerminator);
          (is_switch, switch_string, switch_value) = IsSwitch arg
      in if parse \<and> is_switch
         then append_loop parse (AppendSwitchNative (WideToASCII switch_string) switch_value c) as
         else append_loop parse (AppendArgNative arg c) as)"

definition AppendSwitchesAndArguments :: "command_line \<Rightarrow> u16 list list \<Rightarrow> command_line" where
  "AppendSwitchesAndArguments c argv = append_loop True c (drop 1 argv)"

text \<open>\<open>InitFromArgv\<close> does not clear the switches.\<close>

definition InitFromArgv :: "u16 list list \<Rightarrow> command_line \<Rightarrow> command_line" where
  "InitFromArgv argv c =
     (let c1 = c\<lparr>cl_argv := [[]], cl_begin_args := 1\<rparr>;
          c2 = SetProgram (if argv = [] then [] else FilePath_new (argv ! 0)) c1
      in AppendSwitchesAndArguments c2 argv)"

definition CommandLine_of_argv :: "u16 list list \<Rightarrow> command_line" where
  "CommandLine_of_argv argv = InitFromArgv argv CommandLine_NO_PROGRAM"

definition ParseFromString :: "(u16 list \<Rightarrow> u16 list list) \<Rightarrow> u16 list \<Rightarrow> command_line \<Rightarrow> command_line" where
  "ParseFromString CommandLineToArgvW str c =
     (let command_line_string = snd (TrimWhitespace str TRIM_ALL)
      in if command_line_string = [] then c else InitFromArgv (CommandLineToArgvW command_line_string) c)"

definition CommandLine_FromString :: "(u16 list \<Rightarrow> u16 list list) \<Rightarrow> u16 list \<Rightarrow> command_line" where
  "CommandLine_FromString CommandLineToArgvW str = ParseFromString CommandLineToArgvW str CommandLine_NO_PROGRAM"

text \<open>The singleton \<open>current_process_commandline_\<close>: \<open>Init\<close> with \<open>GetCommandLineW()\<close>, and \<open>Reset\<close>.\<close>

definition CommandLine_Init ::
    "(u16 list \<Rightarrow> u16 list list) \<Rightarrow> u16 list \<Rightarrow> command_line option \<Rightarrow> bool \<times> command_line option" where
  "CommandLine_Init CommandLineToArgvW line current =
     (if current \<noteq> None then (False, current)
      else (True, Some (ParseFromString CommandLineToArgvW line CommandLine_NO_PROGRAM)))"

definition CommandLine_Reset :: "command_line option \<Rightarrow> command_line option" where
  "CommandLine_Reset current = None"

text \<open>The loop of \<open>GetArgumentsString\<close>; \<open>first\<close> is \<open>i = 1\<close>.\<close>

fun arguments_loop :: "bool \<Rightarrow> bool \<Rightarrow> u16 list \<Rightarrow> u16 list list \<Rightarrow> u16 list" where
  "arguments_loop parse_switches first params [] = params"
| "arguments_loop parse_switches first params (arg # as) =
     (let parse = (parse_switches \<and> arg \<noteq> kSwitchTerminator);
          params1 = (if first then params else params @ [32]);
          (is_switch, switch_string, switch_value) = IsSwitch arg;
          params2 =
            (if parse \<and> is_switch
             then params1 @ switch_string @
               (if switch_value \<noteq> [] then kSwitchValueSeparator # QuoteForCommandLineToArgvW switch_value else [])
             else params1 @ QuoteForCommandLineToArgvW arg)
      in arguments_loop parse False params2 as)"

definition GetArgumentsString :: "command_line \<Rightarrow> u16 list" where
  "GetArgumentsString c = arguments_loop True True [] (drop 1 (cl_argv c))"

definition GetCommandLineString :: "command_line \<Rightarrow> u16 list" where
  "GetCommandLineString c =
     (let string = QuoteForCommandLineToArgvW (cl_argv c ! 0); params = GetArgumentsString c
      in if params \<noteq> [] then string @ [32] @ params else string)"

definition HasSwitch :: "bytes \<Rightarrow> command_line \<Rightarrow> bool" where
  "HasSwitch switch_string c = (cl_switches c (LowerASCIIOnWindows switch_string) \<noteq> None)"

definition GetSwitchValueNative :: "bytes \<Rightarrow> command_line \<Rightarrow> u16 list" where
  "GetSwitchValueNative switch_string c =
     (case cl_switches c (LowerASCIIOnWindows switch_string) of None \<Rightarrow> [] | Some value \<Rightarrow> value)"

definition GetSwitchValuePath :: "bytes \<Rightarrow> command_line \<Rightarrow> u16 list" where
  "GetSwitchValuePath switch_string c = FilePath_new (GetSwitchValueNative switch_string c)"

definition GetSwitchValueASCII :: "bytes \<Rightarrow> command_line \<Rightarrow> bytes" where
  "GetSwitchValueASCII switch_string c =
     (let value = GetSwitchValueNative switch_string c
      in if \<not> IsStringASCII value then [] else WideToASCII value)"

fun CopySwitchesFrom :: "command_line \<Rightarrow> bytes list \<Rightarrow> command_line \<Rightarrow> command_line" where
  "CopySwitchesFrom source [] c = c"
| "CopySwitchesFrom source (s # ss) c =
     CopySwitchesFrom source ss
       (if HasSwitch s source then AppendSwitchNative s (GetSwitchValueNative s source) c else c)"

definition GetArgs :: "command_line \<Rightarrow> u16 list list" where
  "GetArgs c = remove1 kSwitchTerminator (drop (cl_begin_args c) (cl_argv c))"

definition AppendArguments :: "command_line \<Rightarrow> bool \<Rightarrow> command_line \<Rightarrow> command_line" where
  "AppendArguments other include_program c =
     AppendSwitchesAndArguments (if include_program then SetProgram (GetProgram other) c else c) (cl_argv other)"

definition PrependWrapper :: "u16 list \<Rightarrow> command_line \<Rightarrow> command_line" where
  "PrependWrapper wrapper c =
     (if wrapper = [] then c
      else let wrapper_argv = SplitString16 wrapper 32
           in c\<lparr>cl_argv := wrapper_argv @ cl_argv c, cl_begin_args := cl_begin_args c + length wrapper_argv\<rparr>)"

section \<open>The channel's identifier on its way to the client\<close>

definition kProcessChannelID :: bytes where
  "kProcessChannelID = [99, 104, 97, 110, 110, 101, 108]"

definition client_exe_path :: "u16 list" where
  "client_exe_path =
     (let w = map (\<lambda>c. of_nat (of_char c)); bs = [92]
      in w ''C:'' @ bs @ w ''Users'' @ bs @ w ''applechang'' @ bs @ w ''Desktop'' @ bs @ w ''ipc_win_pipe'' @ bs @
         w ''ServerPort'' @ bs @ w ''Debug'' @ bs @ w ''ClientPort.exe'')"

text \<open>The command line \<open>LaunchClientProc\<close> hands to the launcher, and the identifier the constructor of
  \<open>ChildThread\<close> reads from the command line of its process.\<close>

definition client_command_line :: "bytes \<Rightarrow> command_line" where
  "client_command_line channel_id = AppendSwitchASCII kProcessChannelID channel_id (CommandLine_new client_exe_path)"

definition ChildThread_channel_name :: "command_line \<Rightarrow> bytes" where
  "ChildThread_channel_name current = GetSwitchValueASCII kProcessChannelID current"

end
