(* ===== verification/CommandLine_Props.thy ===== *)
theory CommandLine_Props
  imports CommandLine
begin

text \<open>
  The round trip of a command line through one string, for every \<open>CommandLineToArgvW\<close> that follows its
  documented rules, and with it the way of the channel's identifier from the server to the client.
\<close>

section \<open>The documented rules of CommandLineToArgvW\<close>

text \<open>\<open>arg_denotes q t v\<close>: the text \<open>t\<close>, started inside quotation marks when \<open>q\<close>, is read as the
  argument \<open>v\<close>.  Outside quotation marks a character above the space stands for itself, inside any
  but null; backslashes are literal unless a quotation mark follows them: an even number then
  stands for half as many and the mark delimits, an odd number for half as many and a literal mark.
  A closing mark directly followed by a mark is not covered.\<close>

inductive arg_denotes :: "bool \<Rightarrow> u16 list \<Rightarrow> u16 list \<Rightarrow> bool" where
  end_arg: "arg_denotes False [] []"
| plain_char: "c \<noteq> 34 \<Longrightarrow> c \<noteq> 92 \<Longrightarrow> (if q then c \<noteq> 0 else 32 < c) \<Longrightarrow> arg_denotes q t v \<Longrightarrow>
    arg_denotes q (c # t) (c # v)"
| backslashes: "0 < n \<Longrightarrow> t = [] \<or> hd t \<noteq> 34 \<and> hd t \<noteq> 92 \<Longrightarrow> arg_denotes q t v \<Longrightarrow>
    arg_denotes q (replicate n 92 @ t) (replicate n 92 @ v)"
| delimiter: "(q \<longrightarrow> t = [] \<or> hd t \<noteq> 34) \<Longrightarrow> arg_denotes (\<not> q) t v \<Longrightarrow>
    arg_denotes q (replicate (2 * n) 92 @ 34 # t) (replicate n 92 @ v)"
| literal_mark: "arg_denotes q t v \<Longrightarrow>
    arg_denotes q (replicate (2 * n + 1) 92 @ 34 # t) (replicate n 92 @ 34 # v)"

text \<open>The program's name: either quoted, up to the next mark, or without spaces and marks.\<close>

definition program_denotes :: "u16 list \<Rightarrow> u16 list \<Rightarrow> bool" where
  "program_denotes t prog =
     (0 \<notin> set prog \<and> 34 \<notin> set prog \<and>
      (t = 34 # prog @ [34] \<or> t = prog \<and> prog \<noteq> [] \<and> list_all (\<lambda>c. 32 < c) prog))"

definition argv_rules :: "(u16 list \<Rightarrow> u16 list list) \<Rightarrow> bool" where
  "argv_rules to_argv =
     (\<forall>name prog ts vs. program_denotes name prog \<longrightarrow>
        list_all2 (\<lambda>t v. t \<noteq> [] \<and> arg_denotes False t v) ts vs \<longrightarrow>
        to_argv (name @ concat (map (\<lambda>t. 32 # t) ts)) = prog # vs)"

section \<open>Quoting\<close>

lemma quote_body_run:
  assumes "0 < k" "rest = [] \<or> hd rest \<noteq> 92"
  shows "quote_body (replicate k 92 @ rest) =
    replicate (if rest = [] \<or> hd rest = 34 then 2 * k else k) 92 @ quote_body rest"
proof -
  obtain j where k: "k = Suc j" using assms(1) by (cases k) auto
  have "takeWhile (\<lambda>x. x = 92) (replicate k 92 @ rest) = replicate k 92"
    "dropWhile (\<lambda>x. x = 92) (replicate k 92 @ rest) = rest"
    using assms(2) by (cases rest; simp add: takeWhile_append dropWhile_append)+
  then show ?thesis unfolding k
    by (simp add: quote_body.simps(2) Let_def mult.commute)
qed

lemma backslash_run:
  "s \<noteq> [] \<Longrightarrow> hd s = 92 \<Longrightarrow> \<exists>k rest. 0 < k \<and> s = replicate k (92::u16) @ rest \<and> (rest = [] \<or> hd rest \<noteq> 92)"
proof -
  assume s: "s \<noteq> []" "hd s = 92"
  have "takeWhile (\<lambda>x. x = 92) s = replicate (length (takeWhile (\<lambda>x. x = 92) s)) 92"
    by (rule replicate_eqI [symmetric, THEN sym]) (auto dest: set_takeWhileD)
  moreover have "0 < length (takeWhile (\<lambda>x. x = 92) s)" using s by (cases s) auto
  moreover have "dropWhile (\<lambda>x. x = 92) s = [] \<or> hd (dropWhile (\<lambda>x. x = 92) s) \<noteq> 92"
    using hd_dropWhile [of "\<lambda>x. x = 92" s] by blast
  ultimately show ?thesis by (metis takeWhile_dropWhile_id)
qed

lemma quote_body_denotes: "0 \<notin> set arg \<Longrightarrow> arg_denotes True (quote_body arg @ [34]) arg"
proof (induction "length arg" arbitrary: arg rule: less_induct)
  case less
  show ?case
  proof (cases arg)
    case Nil
    then show ?thesis using delimiter [of True "[]" "[]" 0] end_arg by simp
  next
    case (Cons c cs)
    show ?thesis
    proof (cases "c = 92")
      case True
      then obtain k rest where k: "0 < k" "arg = replicate k 92 @ rest" "rest = [] \<or> hd rest \<noteq> 92"
        using backslash_run [of arg] Cons by auto
      have ih: "arg_denotes True (quote_body r @ [34]) r" if "length r < length arg" "0 \<notin> set r" for r
        using less that by blast
      consider "rest = []" | r where "rest = 34 # r" | d r where "rest = d # r" "d \<noteq> 34" "d \<noteq> 92"
        using k(3) by (cases rest) auto
      then show ?thesis
      proof cases
        case 1
        then show ?thesis using delimiter [of True "[]" "[]" k] end_arg quote_body_run [OF k(1,3)] k(2) by simp
      next
        case 2
        then have "arg_denotes True (quote_body r @ [34]) r" using k less.prems by (intro ih) auto
        from literal_mark [OF this, of k] show ?thesis
          using quote_body_run [OF k(1,3)] k(2) 2 by (simp add: quote_body.simps(2) replicate_append_same [symmetric])
      next
        case 3
        then have "arg_denotes True (quote_body rest @ [34]) rest" using k less.prems by (intro ih) auto
        moreover have "hd (quote_body rest @ [34]) = d" using 3 by (simp add: quote_body.simps(2))
        ultimately show ?thesis
          using backslashes [of k "quote_body rest @ [34]" True rest] quote_body_run [OF k(1,3)] k(1,2) 3 by simp
      qed
    next
      case False
      have ih: "arg_denotes True (quote_body cs @ [34]) cs" using less Cons by simp
      show ?thesis
      proof (cases "c = 34")
        case True
        then show ?thesis using literal_mark [OF ih, of 0] Cons by (simp add: quote_body.simps(2))
      next
        case ne: False
        then show ?thesis using plain_char [OF ne False _ ih] Cons False less.prems
          by (simp add: quote_body.simps(2))
      qed
    qed
  qed
qed

text \<open>Text that survives: without nulls, and without other separators than the space unless a space, a
  quotation mark or a backslash makes the routine quote it.\<close>

definition quotable :: "u16 list \<Rightarrow> bool" where
  "quotable v = (0 \<notin> set v \<and> v \<noteq> [] \<and>
     (list_ex (\<lambda>c. c \<in> {32, 92, 34}) v \<or> list_all (\<lambda>c. 32 < c) v))"

lemma plain_denotes: "list_all (\<lambda>c. 32 < c \<and> c \<noteq> 34 \<and> c \<noteq> 92) v \<Longrightarrow> arg_denotes False t w \<Longrightarrow>
    arg_denotes False (v @ t) (v @ w)"
  by (induction v) (auto intro: plain_char)

lemma quote_denotes:
  assumes "quotable v"
  shows "arg_denotes False (QuoteForCommandLineToArgvW v) v"
proof (cases "list_ex (\<lambda>c. c \<in> {32, 92, 34}) v")
  case True
  then have "QuoteForCommandLineToArgvW v = 34 # quote_body v @ [34]"
    by (auto simp: QuoteForCommandLineToArgvW_def list_ex_iff)
  moreover have "arg_denotes True (quote_body v @ [34]) v" using assms by (intro quote_body_denotes) (simp add: quotable_def)
  ultimately show ?thesis using delimiter [of False "quote_body v @ [34]" v 0] by simp
next
  case False
  then have q: "QuoteForCommandLineToArgvW v = v"
    by (auto simp: QuoteForCommandLineToArgvW_def list_ex_iff)
  have "list_all (\<lambda>c. 32 < c \<and> c \<noteq> 34 \<and> c \<noteq> 92) v" using assms False
    by (auto simp: quotable_def list_all_iff list_ex_iff)
  then show ?thesis using plain_denotes [OF _ end_arg, of v] q by simp
qed

text \<open>An empty argument is not quoted and disappears; one with a tab is not quoted either.\<close>

lemma not_quoted: "QuoteForCommandLineToArgvW [] = []" "QuoteForCommandLineToArgvW [97, 9, 98] = [97, 9, 98]"
  by (simp_all add: QuoteForCommandLineToArgvW_def)

section \<open>Switches and arguments that survive\<close>

definition trimmed :: "u16 list \<Rightarrow> bool" where
  "trimmed v = (v \<noteq> [] \<and> hd v \<notin> set kWhitespaceWide \<and> last v \<notin> set kWhitespaceWide)"

text \<open>A name of visible ASCII characters without prefix, and a value that can be quoted and is not
  trimmed.\<close>

definition good_name :: "bytes \<Rightarrow> bool" where
  "good_name k = (k \<noteq> [] \<and> list_all (\<lambda>c. 32 < uint c \<and> uint c < 128 \<and> uint c \<notin> {34, 61, 92}) k \<and>
     GetSwitchPrefixLength (ASCIIToWide (LowerASCIIOnWindows k)) = 0)"

definition good_value :: "u16 list \<Rightarrow> bool" where
  "good_value v = (v = [] \<or> quotable v \<and> last v \<notin> set kWhitespaceWide)"

fun args_ok :: "bool \<Rightarrow> u16 list list \<Rightarrow> bool" where
  "args_ok parse [] = True"
| "args_ok parse (a # as) =
     (trimmed a \<and> quotable a \<and> (let p = parse \<and> a \<noteq> kSwitchTerminator in (p \<longrightarrow> \<not> fst (IsSwitch a)) \<and> args_ok p as))"

definition good_program :: "u16 list \<Rightarrow> bool" where
  "good_program prog = (trimmed prog \<and> quotable prog \<and> 34 \<notin> set prog \<and> last prog \<noteq> 92)"

text \<open>The member of \<open>argv_\<close> of a switch, and its text in the string.\<close>

definition switch_name :: "bytes \<Rightarrow> u16 list" where
  "switch_name k = [45, 45] @ ASCIIToWide (LowerASCIIOnWindows k)"

definition entry :: "bytes \<times> u16 list \<Rightarrow> u16 list" where
  "entry s = switch_name (fst s) @ (if snd s \<noteq> [] then kSwitchValueSeparator # snd s else [])"

definition entry_text :: "bytes \<times> u16 list \<Rightarrow> u16 list" where
  "entry_text s = switch_name (fst s) @
     (if snd s \<noteq> [] then kSwitchValueSeparator # QuoteForCommandLineToArgvW (snd s) else [])"

lemma lower_char:
  assumes "32 < uint c" "uint c < 128" "uint c \<notin> {34, 61, 92}"
  shows "32 < uint (ToLowerASCII c) \<and> uint (ToLowerASCII c) < 128 \<and> uint (ToLowerASCII c) \<notin> {34, 61, 92} \<and>
    ToLowerASCII (ToLowerASCII c) = (ToLowerASCII c :: u8)"
proof (cases "65 \<le> uint c \<and> uint c \<le> 90")
  case True
  then have "uint (c + 32) = uint c + 32" by (simp add: uint_word_ariths)
  then show ?thesis using True by (simp add: ToLowerASCII_def)
next
  case False
  then show ?thesis using assms by (auto simp: ToLowerASCII_def)
qed

lemma wide_char: "uint (c :: u8) < 128 \<Longrightarrow> uint (scast c :: u16) = uint c"
proof -
  assume c: "uint c < 128"
  then have "signed_take_bit 7 (uint c) = uint c"
    by (intro signed_take_bit_int_eq_self order_trans [OF _ uint_ge_0]) simp_all
  then have "sint c = uint c" by (simp add: sint_uint)
  then have "uint (word_of_int (sint c) :: u16) = uint c" using c by (simp add: unsigned_ucast_eq take_bit_eq_mod)
  then show ?thesis by simp
qed

lemma WideToASCII_ASCIIToWide: "list_all (\<lambda>c. uint c < 128) s \<Longrightarrow> WideToASCII (ASCIIToWide s) = s"
proof (induction s)
  case (Cons c s)
  then have "uint (ucast (scast c :: u16) :: u8) = uint c"
    by (simp add: unsigned_ucast_eq wide_char take_bit_eq_mod)
  then have "(ucast (scast c :: u16) :: u8) = c" by (simp only: word_uint_eq_iff)
  then show ?case using Cons by (simp add: WideToASCII_def ASCIIToWide_def)
qed (simp add: WideToASCII_def ASCIIToWide_def)

definition name_char :: "u16 \<Rightarrow> bool" where
  "name_char c = (32 < uint c \<and> uint c < 128 \<and> uint c \<notin> {34, 61, 92})"

lemma good_name_lower:
  assumes "good_name k"
  shows "list_all (\<lambda>c. 32 < uint c \<and> uint c < 128 \<and> uint c \<notin> {34, 61, 92}) (LowerASCIIOnWindows k)"
    "LowerASCIIOnWindows (LowerASCIIOnWindows k) = LowerASCIIOnWindows k"
    "list_all name_char (ASCIIToWide (LowerASCIIOnWindows k))" "LowerASCIIOnWindows k \<noteq> []"
proof -
  show l: "list_all (\<lambda>c. 32 < uint c \<and> uint c < 128 \<and> uint c \<notin> {34, 61, 92}) (LowerASCIIOnWindows k)"
    using assms lower_char by (auto simp: good_name_def LowerASCIIOnWindows_def StringToLowerASCII_def list_all_iff)
  show "LowerASCIIOnWindows (LowerASCIIOnWindows k) = LowerASCIIOnWindows k"
    using assms lower_char by (auto simp: good_name_def LowerASCIIOnWindows_def StringToLowerASCII_def list_all_iff)
  show "list_all name_char (ASCIIToWide (LowerASCIIOnWindows k))"
    using l by (auto simp: list_all_iff ASCIIToWide_def name_char_def wide_char)
  show "LowerASCIIOnWindows k \<noteq> []" using assms by (simp add: good_name_def LowerASCIIOnWindows_def StringToLowerASCII_def)
qed

lemma name_char_facts:
  assumes "name_char c"
  shows "c \<notin> set kWhitespaceWide" "c \<noteq> 61" "c \<noteq> 34" "c \<noteq> 92" "32 < c" "c \<noteq> 0"
proof -
  have u: "32 < uint c" "uint c < 128" "uint c \<noteq> 34" "uint c \<noteq> 61" "uint c \<noteq> 92"
    using assms by (auto simp: name_char_def)
  show "c \<notin> set kWhitespaceWide" using u(1,2) by (auto simp: kWhitespaceWide_def)
  show "c \<noteq> 61" "c \<noteq> 34" "c \<noteq> 92" "c \<noteq> 0" using u by auto
  show "32 < c" using u by (simp add: word_less_def)
qed

lemma switch_name_chars: "good_name k \<Longrightarrow> list_all name_char (switch_name k)"
  using good_name_lower(3) [of k] by (simp add: switch_name_def name_char_def)

lemma find_idx_append_None: "\<forall>x\<in>set xs. \<not> P x \<Longrightarrow> find_idx P (xs @ ys) = map_option (\<lambda>i. length xs + i) (find_idx P ys)"
  by (cases "find_idx P ys"; induction xs; simp del: find_idx_None)

lemma entry_is_switch:
  assumes "good_name k"
  shows "IsSwitch (entry (k, v)) = (True, switch_name k, v)"
proof -
  have p: "GetSwitchPrefixLength (entry (k, v)) = 2" "length (entry (k, v)) > 2"
    using good_name_lower(4) [OF assms]
    by (auto simp: GetSwitchPrefixLength_def kSwitchPrefixes_def entry_def switch_name_def ASCIIToWide_def)
  have "\<forall>x\<in>set (switch_name k). x \<noteq> kSwitchValueSeparator"
    using switch_name_chars [OF assms] name_char_facts(2) by (auto simp: list_all_iff kSwitchValueSeparator_def)
  then have f: "find_idx (\<lambda>c. c = kSwitchValueSeparator) (entry (k, v)) =
      (if v = [] then None else Some (length (switch_name k)))"
    using find_idx_append_None [of "switch_name k" "\<lambda>c. c = kSwitchValueSeparator"] by (simp add: entry_def)
  show ?thesis using p f by (simp add: IsSwitch_def Let_def entry_def)
qed

lemma last_in: "list_all P xs \<Longrightarrow> xs \<noteq> [] \<Longrightarrow> P (last xs)"
  by (simp add: list_all_iff)

lemma entry_trimmed:
  assumes "good_name k" "good_value v"
  shows "trimmed (entry (k, v))"
proof -
  have sn: "switch_name k \<noteq> []" "hd (switch_name k) = 45" by (simp_all add: switch_name_def)
  have "last (switch_name k) \<notin> set kWhitespaceWide"
    using last_in [OF switch_name_chars [OF assms(1)] sn(1)] name_char_facts(1) by blast
  moreover have "(45 :: u16) \<notin> set kWhitespaceWide" by (simp add: kWhitespaceWide_def)
  ultimately show ?thesis using assms(2) sn
    by (auto simp: trimmed_def entry_def good_value_def quotable_def hd_append)
qed

lemma entry_not_terminator: "good_name k \<Longrightarrow> entry (k, v) \<noteq> kSwitchTerminator"
  using good_name_lower(4) [of k] by (auto simp: entry_def switch_name_def kSwitchTerminator_def ASCIIToWide_def)

lemma append_entry:
  assumes "good_name k"
  shows "AppendSwitchNative (WideToASCII (switch_name k)) v c = AppendSwitchNative k v c"
proof -
  have w: "WideToASCII (switch_name k) = 45 # 45 # LowerASCIIOnWindows k"
    using WideToASCII_ASCIIToWide [of "LowerASCIIOnWindows k"] good_name_lower(1) [OF assms]
    by (auto simp: switch_name_def WideToASCII_def list_all_iff)
  have lw: "LowerASCIIOnWindows (45 # 45 # LowerASCIIOnWindows k) = 45 # 45 # LowerASCIIOnWindows k"
    using good_name_lower(2) [OF assms] by (simp add: LowerASCIIOnWindows_def StringToLowerASCII_def ToLowerASCII_def)
  have aw: "ASCIIToWide (45 # 45 # LowerASCIIOnWindows k) = switch_name k"
    by (simp add: switch_name_def ASCIIToWide_def)
  have p: "GetSwitchPrefixLength (switch_name k) = 2"
    by (simp add: GetSwitchPrefixLength_def kSwitchPrefixes_def switch_name_def)
  show ?thesis using assms
    by (simp add: AppendSwitchNative_def w lw aw p Let_def good_name_def)
      (simp add: switch_name_def kSwitchPrefixes_def)
qed

section \<open>The round trip\<close>

text \<open>A command line built from a program, switches and arguments.\<close>

definition build :: "u16 list \<Rightarrow> (bytes \<times> u16 list) list \<Rightarrow> u16 list list \<Rightarrow> command_line" where
  "build prog sws as =
     fold AppendArgNative as (fold (\<lambda>s. AppendSwitchNative (fst s) (snd s)) sws (CommandLine_new prog))"

lemma append_loop_switches:
  "list_all (\<lambda>s. good_name (fst s) \<and> good_value (snd s)) sws \<Longrightarrow>
     append_loop True c (map entry sws @ as) =
       append_loop True (fold (\<lambda>s. AppendSwitchNative (fst s) (snd s)) sws c) as"
proof (induction sws arbitrary: c)
  case (Cons s sws)
  obtain k v where s: "s = (k, v)" by (cases s)
  then have g: "good_name k" "good_value v" using Cons.prems by simp_all
  have "snd (TrimWhitespace (entry (k, v)) TRIM_ALL) = entry (k, v)"
    using entry_trimmed [OF g] by (intro TrimWhitespace_id) (simp add: trimmed_def)
  then show ?case
    using Cons entry_is_switch [OF g(1)] entry_not_terminator [OF g(1)] append_entry [OF g(1)] s
    by (simp add: Let_def)
qed simp

lemma append_loop_args:
  "args_ok p as \<Longrightarrow> append_loop p c as = fold AppendArgNative as c"
proof (induction as arbitrary: p c)
  case (Cons a as)
  then have "snd (TrimWhitespace a TRIM_ALL) = a" by (intro TrimWhitespace_id) (simp add: trimmed_def)
  then show ?case using Cons by (auto simp: Let_def split: prod.splits)
qed simp

text \<open>The members of \<open>argv_\<close>.\<close>

lemma fold_switches_argv:
  assumes "list_all (\<lambda>s. good_name (fst s)) sws" "cl_begin_args c = length (cl_argv c)"
  shows "cl_argv (fold (\<lambda>s. AppendSwitchNative (fst s) (snd s)) sws c) = cl_argv c @ map entry sws"
  using assms
proof (induction sws arbitrary: c)
  case (Cons s sws)
  have "cl_argv (AppendSwitchNative (fst s) (snd s) c) = cl_argv c @ [entry s]"
    using Cons.prems by (simp add: AppendSwitchNative_def Let_def good_name_def entry_def switch_name_def kSwitchPrefixes_def)
  moreover have "cl_begin_args (AppendSwitchNative (fst s) (snd s) c) = Suc (cl_begin_args c)"
    by (simp add: AppendSwitchNative_def Let_def)
  ultimately show ?case using Cons by simp
qed simp

lemma fold_args_argv: "cl_argv (fold AppendArgNative as c) = cl_argv c @ as"
  by (induction as arbitrary: c) (simp_all add: AppendArgNative_def)

lemma build_argv:
  assumes "trimmed prog" "list_all (\<lambda>s. good_name (fst s)) sws"
  shows "cl_argv (build prog sws as) = prog # map entry sws @ as"
proof -
  have "cl_argv (CommandLine_new prog) = [prog] \<and> cl_begin_args (CommandLine_new prog) = 1"
    using assms(1) TrimWhitespace_id [of prog]
    by (simp add: CommandLine_new_def SetProgram_def CommandLine_NO_PROGRAM_def trimmed_def)
  then show ?thesis using fold_switches_argv [OF assms(2), of "CommandLine_new prog"]
    by (simp add: build_def fold_args_argv)
qed

text \<open>The string.\<close>

lemma arguments_loop_switches:
  "list_all (\<lambda>s. good_name (fst s)) sws \<Longrightarrow>
     arguments_loop True False params (map entry sws @ as) =
       arguments_loop True False (params @ concat (map (\<lambda>t. 32 # t) (map entry_text sws))) as"
proof (induction sws arbitrary: params)
  case (Cons s sws)
  obtain k v where s: "s = (k, v)" by (cases s)
  then have g: "good_name k" using Cons.prems by simp
  show ?case
    using Cons entry_is_switch [OF g, of v] entry_not_terminator [OF g, of v] s
    by (simp add: Let_def entry_text_def)
qed simp

lemma arguments_loop_args:
  "args_ok p as \<Longrightarrow> arguments_loop p False params as =
     params @ concat (map (\<lambda>t. 32 # t) (map QuoteForCommandLineToArgvW as))"
  by (induction as arbitrary: p params) (auto simp: Let_def split: prod.splits)

lemma arguments_loop_prefix: "arguments_loop p f (xs @ params) as = xs @ arguments_loop p f params as"
proof (induction as arbitrary: p f params)
  case (Cons a as)
  obtain b sw v where "IsSwitch a = (b, sw, v)" by (cases "IsSwitch a")
  then show ?case using Cons.IH by (simp add: Let_def)
qed simp

lemma arguments_loop_first: "as \<noteq> [] \<Longrightarrow> 32 # arguments_loop p True [] as = arguments_loop p False [] as"
  using arguments_loop_prefix [of p True "[32]" "[]" as] by (cases as) (simp_all add: Let_def split: prod.splits)

definition texts :: "(bytes \<times> u16 list) list \<Rightarrow> u16 list list \<Rightarrow> u16 list list" where
  "texts sws as = map entry_text sws @ map QuoteForCommandLineToArgvW as"

lemma build_string:
  assumes "trimmed prog" "list_all (\<lambda>s. good_name (fst s)) sws" "args_ok True as"
    "list_all (\<lambda>t. t \<noteq> []) (texts sws as)"
  shows "GetCommandLineString (build prog sws as) =
    QuoteForCommandLineToArgvW prog @ concat (map (\<lambda>t. 32 # t) (texts sws as))"
proof (cases "map entry sws @ as = []")
  case True
  then show ?thesis using build_argv [OF assms(1), of "[]" "[]"]
    by (simp add: GetCommandLineString_def GetArgumentsString_def texts_def Let_def)
next
  case False
  have "arguments_loop True False [] (map entry sws @ as) = concat (map (\<lambda>t. 32 # t) (texts sws as))"
    using arguments_loop_switches [OF assms(2), of "[]"] arguments_loop_args [OF assms(3)] by (simp add: texts_def)
  then have e: "32 # GetArgumentsString (build prog sws as) = concat (map (\<lambda>t. 32 # t) (texts sws as))"
    using arguments_loop_first [OF False, of True] by (simp add: GetArgumentsString_def build_argv [OF assms(1,2)])
  obtain t ts where ts: "texts sws as = t # ts"
    using False by (cases "texts sws as") (auto simp: texts_def)
  then have "t \<noteq> []" using assms(4) by simp
  with ts have "GetArgumentsString (build prog sws as) \<noteq> []" using e by auto
  then show ?thesis using e
    by (simp add: GetCommandLineString_def Let_def build_argv [OF assms(1,2)])
qed

text \<open>The texts are read back as the members of \<open>argv_\<close>.\<close>

lemma entry_text_denotes:
  assumes "good_name k" "good_value v"
  shows "arg_denotes False (entry_text (k, v)) (entry (k, v))"
proof -
  have c: "list_all (\<lambda>c. 32 < c \<and> c \<noteq> 34 \<and> c \<noteq> 92) (switch_name k)"
    using switch_name_chars [OF assms(1)] name_char_facts by (auto simp: list_all_iff)
  show ?thesis
  proof (cases "v = []")
    case True
    then show ?thesis using plain_denotes [OF c end_arg] by (simp add: entry_text_def entry_def)
  next
    case False
    then have "arg_denotes False (QuoteForCommandLineToArgvW v) v"
      using assms(2) by (intro quote_denotes) (simp add: good_value_def)
    then have "arg_denotes False (61 # QuoteForCommandLineToArgvW v) (61 # v)" by (intro plain_char) simp_all
    from plain_denotes [OF c this] show ?thesis using False
      by (simp add: entry_text_def entry_def kSwitchValueSeparator_def)
  qed
qed

lemma entry_text_not_Nil: "entry_text s \<noteq> []"
  by (simp add: entry_text_def switch_name_def)

lemma quote_not_Nil: "v \<noteq> [] \<Longrightarrow> QuoteForCommandLineToArgvW v \<noteq> []"
  by (simp add: QuoteForCommandLineToArgvW_def)

lemma args_ok_all: "args_ok p as \<Longrightarrow> list_all (\<lambda>a. trimmed a \<and> quotable a) as"
  by (induction p as rule: args_ok.induct) (auto simp: Let_def)

lemma texts_denote:
  assumes "list_all (\<lambda>s. good_name (fst s) \<and> good_value (snd s)) sws" "args_ok True as"
  shows "list_all2 (\<lambda>t v. t \<noteq> [] \<and> arg_denotes False t v) (texts sws as) (map entry sws @ as)"
proof -
  have "list_all2 (\<lambda>t v. t \<noteq> [] \<and> arg_denotes False t v) (map entry_text sws) (map entry sws)"
    using assms(1) by (induction sws) (auto simp: entry_text_denotes entry_text_not_Nil)
  moreover have "list_all2 (\<lambda>t v. t \<noteq> [] \<and> arg_denotes False t v) (map QuoteForCommandLineToArgvW as) as"
    using args_ok_all [OF assms(2)]
    by (induction as) (auto simp: quote_denotes quote_not_Nil trimmed_def)
  ultimately show ?thesis by (simp add: texts_def list_all2_appendI)
qed

lemma quote_body_plain: "34 \<notin> set s \<Longrightarrow> (s = [] \<or> last s \<noteq> 92) \<Longrightarrow> quote_body s = s"
proof (induction "length s" arbitrary: s rule: less_induct)
  case less
  show ?case
  proof (cases s)
    case (Cons c cs)
    show ?thesis
    proof (cases "c = 92")
      case True
      then obtain k rest where k: "0 < k" "s = replicate k 92 @ rest" "rest = [] \<or> hd rest \<noteq> 92"
        using backslash_run [of s] Cons by auto
      have r: "rest \<noteq> []" using less.prems(2) k by auto
      then have "quote_body rest = rest" using less.prems k by (intro less.hyps) auto
      moreover have "hd rest \<noteq> 34" using less.prems(1) k r by (cases rest) auto
      ultimately show ?thesis using quote_body_run [OF k(1,3)] k r by simp
    next
      case False
      have "quote_body cs = cs" using less Cons by (intro less.hyps) (auto split: if_splits)
      then show ?thesis using False less.prems Cons by (simp add: quote_body.simps(2))
    qed
  qed simp
qed

lemma program_denotes_quote:
  assumes "good_program prog"
  shows "program_denotes (QuoteForCommandLineToArgvW prog) prog"
proof (cases "list_ex (\<lambda>c. c \<in> {32, 92, 34}) prog")
  case True
  then have "QuoteForCommandLineToArgvW prog = 34 # quote_body prog @ [34]"
    by (auto simp: QuoteForCommandLineToArgvW_def list_ex_iff)
  then show ?thesis using assms quote_body_plain [of prog]
    by (simp add: program_denotes_def good_program_def quotable_def)
next
  case False
  then have "QuoteForCommandLineToArgvW prog = prog" by (auto simp: QuoteForCommandLineToArgvW_def list_ex_iff)
  then show ?thesis using assms False
    by (auto simp: program_denotes_def good_program_def quotable_def)
qed

text \<open>Trimming does not change the string.\<close>

lemma quote_ends:
  assumes "v \<noteq> []" "last v \<notin> set kWhitespaceWide"
  shows "last (QuoteForCommandLineToArgvW v) \<notin> set kWhitespaceWide"
    "hd v \<notin> set kWhitespaceWide \<Longrightarrow> hd (QuoteForCommandLineToArgvW v) \<notin> set kWhitespaceWide"
proof -
  have "(34 :: u16) \<notin> set kWhitespaceWide" by (simp add: kWhitespaceWide_def)
  then show "last (QuoteForCommandLineToArgvW v) \<notin> set kWhitespaceWide"
    "hd v \<notin> set kWhitespaceWide \<Longrightarrow> hd (QuoteForCommandLineToArgvW v) \<notin> set kWhitespaceWide"
    using assms by (simp_all add: QuoteForCommandLineToArgvW_def)
qed

lemma entry_text_last:
  assumes "good_name k" "good_value v"
  shows "last (entry_text (k, v)) \<notin> set kWhitespaceWide"
proof (cases "v = []")
  case True
  have "last (switch_name k) \<notin> set kWhitespaceWide"
    using last_in [OF switch_name_chars [OF assms(1)]] name_char_facts(1) by (simp add: switch_name_def)
  then show ?thesis using True by (simp add: entry_text_def)
next
  case False
  then have "QuoteForCommandLineToArgvW v \<noteq> []" "last (QuoteForCommandLineToArgvW v) \<notin> set kWhitespaceWide"
    using assms(2) quote_not_Nil quote_ends(1) by (auto simp: good_value_def)
  then show ?thesis using False by (simp add: entry_text_def)
qed

lemma last_concat_texts:
  "list_all (\<lambda>t. t \<noteq> [] \<and> last t \<notin> W) ts \<Longrightarrow> x \<noteq> [] \<Longrightarrow> last x \<notin> W \<Longrightarrow>
     last (x @ concat (map (\<lambda>t. 32 # t) ts)) \<notin> W"
proof (induction ts arbitrary: x)
  case (Cons t ts)
  then show ?case using Cons.IH [of "x @ 32 # t"] by simp
qed simp

lemma build_string_trimmed:
  assumes "good_program prog" "list_all (\<lambda>s. good_name (fst s) \<and> good_value (snd s)) sws" "args_ok True as"
  defines "line \<equiv> QuoteForCommandLineToArgvW prog @ concat (map (\<lambda>t. 32 # t) (texts sws as))"
  shows "snd (TrimWhitespace line TRIM_ALL) = line" "line \<noteq> []"
proof -
  have p: "prog \<noteq> []" "hd prog \<notin> set kWhitespaceWide" "last prog \<notin> set kWhitespaceWide"
    using assms(1) by (auto simp: good_program_def trimmed_def)
  then have q: "QuoteForCommandLineToArgvW prog \<noteq> []" by (simp add: quote_not_Nil)
  then show "line \<noteq> []" by (simp add: line_def)
  have "list_all (\<lambda>t. t \<noteq> [] \<and> last t \<notin> set kWhitespaceWide) (map entry_text sws)"
    using assms(2) by (auto simp: list_all_iff entry_text_not_Nil entry_text_last)
  moreover have "list_all (\<lambda>t. t \<noteq> [] \<and> last t \<notin> set kWhitespaceWide) (map QuoteForCommandLineToArgvW as)"
    using args_ok_all [OF assms(3)] by (auto simp: list_all_iff quote_not_Nil quote_ends(1) trimmed_def)
  ultimately have "list_all (\<lambda>t. t \<noteq> [] \<and> last t \<notin> set kWhitespaceWide) (texts sws as)" by (simp add: texts_def)
  then have "last line \<notin> set kWhitespaceWide"
    unfolding line_def by (rule last_concat_texts [OF _ q quote_ends(1) [OF p(1,3)]])
  moreover have "hd line \<notin> set kWhitespaceWide" using quote_ends(2) [OF p(1,3,2)] q by (simp add: line_def)
  ultimately show "snd (TrimWhitespace line TRIM_ALL) = line" by (intro TrimWhitespace_id) simp
qed

lemma InitFromArgv_build:
  assumes "good_program prog" "list_all (\<lambda>s. good_name (fst s) \<and> good_value (snd s)) sws" "args_ok True as"
  shows "InitFromArgv (prog # map entry sws @ as) CommandLine_NO_PROGRAM = build prog sws as"
proof -
  have "FilePath_new prog = prog" using assms(1)
    by (auto simp: FilePath_new_def good_program_def quotable_def takeWhile_eq_all_conv)
  moreover have "CommandLine_NO_PROGRAM\<lparr>cl_argv := [[]], cl_begin_args := 1\<rparr> = CommandLine_NO_PROGRAM"
    by (simp add: CommandLine_NO_PROGRAM_def)
  ultimately show ?thesis
    by (simp add: InitFromArgv_def Let_def AppendSwitchesAndArguments_def append_loop_switches [OF assms(2)]
        append_loop_args [OF assms(3)] build_def CommandLine_new_def)
qed

text \<open>C34: A command line of a program, switches and arguments, turned into a string, comes back the same in
  the process that parses it, whatever \<open>CommandLineToArgvW\<close> is, as long as it follows its documented rules,
  under these conditions (others are lost, \<open>not_quoted\<close>).  No text has a null in it, and one with a tab or
  another control character has a space, a backslash or a quotation mark too (\<open>quotable\<close>).  The program is not empty, neither begins nor ends with white space, has no quotation mark
  and does not end with a backslash.  A switch name is printable ASCII without space, quotation mark, equals
  sign and backslash, and has no switch prefix of its own.  A value is empty or does not end with white
  space.  An argument is not empty, neither begins nor ends with white space and, unless it comes after the
  switch terminator, does not look like a switch.\<close>

theorem command_line_roundtrip:
  assumes "argv_rules to_argv" "good_program prog"
    "list_all (\<lambda>s. good_name (fst s) \<and> good_value (snd s)) sws" "args_ok True as"
  shows "CommandLine_FromString to_argv (GetCommandLineString (build prog sws as)) = build prog sws as"
proof -
  have n: "list_all (\<lambda>s. good_name (fst s)) sws" using assms(3) by (auto simp: list_all_iff)
  have d: "list_all2 (\<lambda>t v. t \<noteq> [] \<and> arg_denotes False t v) (texts sws as) (map entry sws @ as)"
    by (rule texts_denote [OF assms(3,4)])
  have ne: "list_all (\<lambda>t. t \<noteq> []) (texts sws as)"
    using d by (auto simp: list_all2_conv_all_nth list_all_length)
  have s: "GetCommandLineString (build prog sws as) =
      QuoteForCommandLineToArgvW prog @ concat (map (\<lambda>t. 32 # t) (texts sws as))"
    using assms(2) by (intro build_string n assms(4) ne) (simp add: good_program_def)
  have "to_argv (GetCommandLineString (build prog sws as)) = prog # map entry sws @ as"
    unfolding s using assms(1) program_denotes_quote [OF assms(2)] d unfolding argv_rules_def by blast
  moreover have "snd (TrimWhitespace (GetCommandLineString (build prog sws as)) TRIM_ALL) =
      GetCommandLineString (build prog sws as)" "GetCommandLineString (build prog sws as) \<noteq> []"
    unfolding s by (rule build_string_trimmed [OF assms(2-4)])+
  ultimately show ?thesis
    by (simp add: CommandLine_FromString_def ParseFromString_def Let_def InitFromArgv_build [OF assms(2-4)])
qed

section \<open>A parser that follows the rules\<close>

text \<open>For the witnesses: the rules have a model.  \<open>n\<close> counts the backslashes just read.\<close>

fun scan_arg :: "bool \<Rightarrow> nat \<Rightarrow> u16 list \<Rightarrow> u16 list \<times> u16 list" where
  "scan_arg q n [] = (replicate n 92, [])"
| "scan_arg q n (c # cs) =
     (if c = 92 then scan_arg q (Suc n) cs
      else if c = 34
      then if even n then let (v, r) = scan_arg (\<not> q) 0 cs in (replicate (n div 2) 92 @ v, r)
           else let (v, r) = scan_arg q 0 cs in (replicate (n div 2) 92 @ 34 # v, r)
      else if \<not> q \<and> (c = 32 \<or> c = 9) then (replicate n 92, c # cs)
      else let (v, r) = scan_arg q 0 cs in (replicate n 92 @ c # v, r))"

fun scan_args :: "nat \<Rightarrow> u16 list \<Rightarrow> u16 list list" where
  "scan_args 0 s = []"
| "scan_args (Suc n) s =
     (let s' = dropWhile (\<lambda>c. c = 32 \<or> c = 9) s
      in if s' = [] then [] else let (v, r) = scan_arg False 0 s' in v # scan_args n r)"

definition scan_argv :: "u16 list \<Rightarrow> u16 list list" where
  "scan_argv s =
     (if s \<noteq> [] \<and> hd s = 34
      then takeWhile (\<lambda>c. c \<noteq> 34) (tl s) # scan_args (length s) (tl (dropWhile (\<lambda>c. c \<noteq> 34) (tl s)))
      else takeWhile (\<lambda>c. 32 < c) s # scan_args (length s) (dropWhile (\<lambda>c. 32 < c) s))"

lemma scan_run: "scan_arg q m (replicate n 92 @ s) = scan_arg q (m + n) s"
  by (induction n arbitrary: m) simp_all

lemma scan_slashes:
  "s = [] \<or> hd s \<noteq> 34 \<and> hd s \<noteq> 92 \<Longrightarrow> scan_arg q 0 s = (v, r) \<Longrightarrow> scan_arg q n s = (replicate n 92 @ v, r)"
  by (cases s) (auto simp: Let_def split: prod.splits if_splits)

lemma scan_denotes:
  "arg_denotes q t v \<Longrightarrow> rest = [] \<or> hd rest = 32 \<Longrightarrow> scan_arg q 0 (t @ rest) = (v, rest)"
proof (induction rule: arg_denotes.induct)
  case end_arg
  then show ?case by (cases rest) auto
next
  case (plain_char c q t v)
  then show ?case by (auto split: if_splits)
next
  case (backslashes n t q v)
  then show ?case using scan_slashes [of "t @ rest" q v rest n] by (auto simp: scan_run hd_append)
next
  case (delimiter q t v n)
  then show ?case by (simp add: scan_run)
next
  case (literal_mark q t v n)
  then show ?case using scan_run [of q 0 "2 * n + 1" "34 # t @ rest"] by simp
qed

lemma denotes_hd: "arg_denotes q t v \<Longrightarrow> \<not> q \<Longrightarrow> t \<noteq> [] \<Longrightarrow> hd t \<noteq> 32 \<and> hd t \<noteq> 9"
proof (induction rule: arg_denotes.induct)
  case (backslashes n t q v)
  then show ?case by (cases n) auto
next
  case (delimiter q t v n)
  then show ?case by (cases n) auto
qed auto

lemma scan_args_denotes:
  "list_all2 (\<lambda>t v. t \<noteq> [] \<and> arg_denotes False t v) ts vs \<Longrightarrow> length ts \<le> n \<Longrightarrow>
     scan_args n (concat (map (\<lambda>t. 32 # t) ts)) = vs"
proof (induction ts vs arbitrary: n rule: list_all2_induct)
  case Nil
  then show ?case by (cases n) simp_all
next
  case (Cons t ts v vs)
  obtain m where n: "n = Suc m" using Cons.prems by (cases n) auto
  let ?rest = "concat (map (\<lambda>t. 32 # t) ts)"
  have "dropWhile (\<lambda>c. c = 32 \<or> c = 9) (t @ ?rest) = t @ ?rest"
    using denotes_hd [of False t v] Cons.hyps(1) by (cases t) auto
  moreover have "scan_arg False 0 (t @ ?rest) = (v, ?rest)"
    using Cons.hyps(1) by (intro scan_denotes) (cases ts; auto)+
  ultimately show ?case using Cons n by simp
qed

lemma scan_argv_rules: "argv_rules scan_argv"
  unfolding argv_rules_def
proof (intro allI impI)
  fix name prog :: "u16 list" and ts vs
  assume p: "program_denotes name prog" and a: "list_all2 (\<lambda>t v. t \<noteq> [] \<and> arg_denotes False t v) ts vs"
  let ?rest = "concat (map (\<lambda>t. 32 # t) ts)"
  have "length ts \<le> length ?rest" by (induction ts) auto
  then have r: "scan_args (length (name @ ?rest)) ?rest = vs" by (intro scan_args_denotes a) simp
  show "scan_argv (name @ ?rest) = prog # vs"
  proof (cases "name = 34 # prog @ [34]")
    case True
    have "takeWhile (\<lambda>c. c \<noteq> 34) (prog @ 34 # ?rest) = prog" "dropWhile (\<lambda>c. c \<noteq> 34) (prog @ 34 # ?rest) = 34 # ?rest"
      using p by (auto simp: program_denotes_def takeWhile_append dropWhile_append)
    then show ?thesis using r True by (simp add: scan_argv_def)
  next
    case False
    then have n: "name = prog" "prog \<noteq> []" "\<forall>c\<in>set prog. 32 < c" "34 \<notin> set prog"
      using p by (auto simp: program_denotes_def list_all_iff)
    have "takeWhile (\<lambda>c. 32 < c) (prog @ ?rest) = prog" "dropWhile (\<lambda>c. 32 < c) (prog @ ?rest) = ?rest"
      using n(3) by (cases ts; simp add: takeWhile_append dropWhile_append)+
    moreover have "hd prog \<noteq> 34" using n(2,4) by (cases prog) auto
    ultimately show ?thesis using r n(1,2) by (simp add: scan_argv_def)
  qed
qed

definition sample_program :: "u16 list" where "sample_program = [67, 58, 92, 97, 32, 98, 46, 101, 120, 101]"

definition sample_switches :: "(bytes \<times> u16 list) list" where
  "sample_switches = [([86, 101, 114], []), ([112], [97, 32, 34, 98, 92, 34, 92])]"

definition sample_args :: "u16 list list" where "sample_args = [[47], [45, 45], [45, 120], [92, 92, 99]]"

lemma sample_good:
  "good_program sample_program" "list_all (\<lambda>s. good_name (fst s) \<and> good_value (snd s)) sample_switches"
  "args_ok True sample_args"
  by code_simp+

theorem command_line_roundtrip_witness:
  "CommandLine_FromString scan_argv (GetCommandLineString (build sample_program sample_switches sample_args)) =
     build sample_program sample_switches sample_args"
  by (rule command_line_roundtrip [OF scan_argv_rules sample_good])

section \<open>The identifier of the channel\<close>

definition id_char :: "u8 \<Rightarrow> bool" where
  "id_char c = (45 \<le> uint c \<and> uint c \<le> 57 \<or> c = 92)"

lemma digit_loop_id_chars: "list_all id_char acc \<Longrightarrow> list_all id_char (digit_loop n acc)"
proof -
  assume a: "list_all id_char acc"
  obtain ds where d: "list_all (\<lambda>d. d < 10) ds" "digit_loop n acc = map digit_char ds @ acc"
    using digit_loop_digits [of n acc] by blast
  have "id_char (digit_char k)" if "k < 10" for k
  proof -
    have "uint (digit_char k) = int (k + 48)" using unat_digit_char [of k] that by (simp add: uint_nat)
    then show ?thesis using that by (simp add: id_char_def)
  qed
  then show ?thesis using a d by (auto simp: list_all_iff)
qed

lemma IntToString_id_chars: "list_all id_char (IntToString v)"
  using digit_loop_id_chars [of "[]"] by (simp add: IntToString_def Let_def) (simp add: id_char_def)

lemma UintToString_id_chars: "list_all id_char (UintToString v)"
  using digit_loop_id_chars [of "[]"] by (simp add: UintToString_def)

lemma id_char_wide:
  assumes "id_char c"
  shows "(scast c :: u16) \<noteq> 0" "(scast c :: u16) \<notin> set kWhitespaceWide" "uint c < 128"
proof -
  have u: "45 \<le> uint c" "uint c \<le> 92" using assms by (auto simp: id_char_def)
  then show "uint c < 128" by simp
  then have "45 \<le> uint (scast c :: u16)" "uint (scast c :: u16) \<le> 92" using u wide_char [of c] by simp_all
  then show "(scast c :: u16) \<noteq> 0" "(scast c :: u16) \<notin> set kWhitespaceWide" by (auto simp: kWhitespaceWide_def)
qed

lemma channel_id_value:
  assumes "GenerateVerifiedChannelID [] pid g draws rand = Some (channel_id, g')"
  shows "good_value (ASCIIToWide channel_id)" "list_all (\<lambda>c. uint c < 128) channel_id"
proof -
  obtain secret where c: "channel_id = fst (GenerateUniqueRandomChannelID pid g rand) @ [backslash] @ IntToString secret"
    using assms by (auto simp: GenerateVerifiedChannelID_def split: option.splits prod.splits)
  have "id_char backslash" "id_char 46" by (simp_all add: id_char_def backslash_def)
  then have a: "list_all id_char channel_id"
    using IntToString_id_chars UintToString_id_chars
    by (simp add: c GenerateUniqueRandomChannelID_def Let_def split_def)
  then show "list_all (\<lambda>c. uint c < 128) channel_id" using id_char_wide(3) by (auto simp: list_all_iff)
  have ne: "channel_id \<noteq> []" by (simp add: c)
  have "(92 :: u16) \<in> set (ASCIIToWide channel_id)" by (auto simp: c ASCIIToWide_def backslash_def)
  then have "list_ex (\<lambda>c. c \<in> {32, 92, 34}) (ASCIIToWide channel_id)" by (auto simp: list_ex_iff)
  moreover have "0 \<notin> set (ASCIIToWide channel_id)" using a id_char_wide(1) by (auto simp: ASCIIToWide_def list_all_iff)
  moreover have "last (ASCIIToWide channel_id) \<notin> set kWhitespaceWide"
    using last_in [OF a ne] id_char_wide(2) ne by (simp add: ASCIIToWide_def last_map)
  ultimately show "good_value (ASCIIToWide channel_id)" using ne
    by (simp add: good_value_def quotable_def)
qed

lemma client_good: "good_program client_exe_path" "good_name kProcessChannelID"
  by code_simp+

text \<open>C14: The client reads exactly the channel identifier that the server generated for it: the identifier, with its
  backslash and secret, survives the switch, the quoting of the command line string, the parsing in the
  client's process and the lookup, whatever random numbers were drawn and whatever \<open>CommandLineToArgvW\<close> is, as
  long as it follows its documented rules.\<close>

theorem channel_id_delivered:
  assumes "argv_rules to_argv" "GenerateVerifiedChannelID [] pid g draws rand = Some (channel_id, g')"
  shows "ChildThread_channel_name
    (CommandLine_FromString to_argv (GetCommandLineString (client_command_line channel_id))) = channel_id"
proof -
  have b: "client_command_line channel_id = build client_exe_path [(kProcessChannelID, ASCIIToWide channel_id)] []"
    by (simp add: client_command_line_def build_def AppendSwitchASCII_def)
  have r: "CommandLine_FromString to_argv (GetCommandLineString (client_command_line channel_id)) =
      client_command_line channel_id"
    unfolding b using client_good channel_id_value(1) [OF assms(2)] assms(1) by (intro command_line_roundtrip) simp_all
  have "cl_switches (client_command_line channel_id) (LowerASCIIOnWindows kProcessChannelID) =
      Some (ASCIIToWide channel_id)"
    using client_good(2)
    by (simp add: client_command_line_def AppendSwitchASCII_def AppendSwitchNative_def Let_def good_name_def)
  moreover have "IsStringASCII (ASCIIToWide channel_id)"
    using channel_id_value(2) [OF assms(2)] by (auto simp: IsStringASCII_def ASCIIToWide_def list_all_iff wide_char)
  ultimately show ?thesis unfolding r using WideToASCII_ASCIIToWide [OF channel_id_value(2) [OF assms(2)]]
    by (simp add: ChildThread_channel_name_def GetSwitchValueASCII_def GetSwitchValueNative_def Let_def)
qed

theorem channel_id_delivered_witness:
  "ChildThread_channel_name (CommandLine_FromString scan_argv (GetCommandLineString (client_command_line
     (fst (the (GenerateVerifiedChannelID [] 4711 0 [0, 77] (-5))))))) =
   fst (the (GenerateVerifiedChannelID [] 4711 0 [0, 77] (-5)))"
proof -
  obtain i g' where "GenerateVerifiedChannelID [] 4711 0 [0, 77] (-5) = Some (i, g')"
    by (cases "GenerateVerifiedChannelID [] 4711 0 [0, 77] (-5)") (simp add: GenerateVerifiedChannelID_def split_def Let_def, auto)
  then show ?thesis using channel_id_delivered [OF scan_argv_rules, of 4711 0 "[0, 77]" "-5" i g'] by simp
qed

text \<open>Parsing another command line into an object keeps the switches of the one before.\<close>

lemma stale_switches:
  "HasSwitch s c \<Longrightarrow> HasSwitch s (InitFromArgv [] c)"
  by (simp add: InitFromArgv_def Let_def AppendSwitchesAndArguments_def SetProgram_def HasSwitch_def)

end
