(* ===== verification/Values.thy ===== *)
theory Values
  imports Params_Calls StringUtils_Props
begin

text \<open>
  \<open>base/values.{h,cc}\<close>: the trees of values that the IPC layer sends as parameters, with every
  operation of \<open>Value\<close>, \<open>DictionaryValue\<close> and \<open>ListValue\<close>.

  A container owns its children, so a tree is a value of \<^typ>\<open>base_value\<close>; a pointer into a tree that the
  code writes through is the rebuilt tree.  A result \<open>bool\<close> with an output pointer is an option.
\<close>

type_synonym dictionary = "(bytes \<times> base_value) list"

section \<open>Values\<close>

text \<open>The conversion of an \<open>int\<close> to a \<open>double\<close>, which is exact: the bits of the IEEE format.\<close>

fun floor_log2 :: "nat \<Rightarrow> nat" where
  "floor_log2 n = (if n \<le> 1 then 0 else Suc (floor_log2 (n div 2)))"

declare floor_log2.simps [simp del]

definition double_of_int :: "i32 \<Rightarrow> u64" where
  "double_of_int i =
     (let a = nat \<bar>sint i\<bar>; e = floor_log2 a; sign = (if sint i < 0 then 2 ^ 63 else 0)
      in if a = 0 then 0 else of_nat (sign + (1023 + e) * 2 ^ 52 + (a - 2 ^ e) * 2 ^ (52 - e)))"

text \<open>\<open>==\<close> on doubles: a NaN equals nothing, the two zeros are equal.\<close>

definition IsNaN :: "u64 \<Rightarrow> bool" where
  "IsNaN d = (\<not> IsFinite d \<and> take_bit 52 d \<noteq> 0)"

definition double_eq :: "u64 \<Rightarrow> u64 \<Rightarrow> bool" where
  "double_eq a b = (\<not> IsNaN a \<and> \<not> IsNaN b \<and> (a = b \<or> take_bit 63 a = 0 \<and> take_bit 63 b = 0))"

definition StringValue_of_string16 :: "u16 list \<Rightarrow> base_value" where
  "StringValue_of_string16 in_value = VString (snd (UTF16ToUTF8 in_value))"

fun GetAsBoolean :: "base_value \<Rightarrow> bool option" where
  "GetAsBoolean (VBoolean b) = Some b"
| "GetAsBoolean v = None"

fun GetAsInteger :: "base_value \<Rightarrow> i32 option" where
  "GetAsInteger (VInteger i) = Some i"
| "GetAsInteger v = None"

fun GetAsDouble :: "base_value \<Rightarrow> u64 option" where
  "GetAsDouble (VDouble d) = Some d"
| "GetAsDouble (VInteger i) = Some (double_of_int i)"
| "GetAsDouble v = None"

fun GetAsString :: "base_value \<Rightarrow> bytes option" where
  "GetAsString (VString s) = Some s"
| "GetAsString v = None"

definition GetAsString16 :: "base_value \<Rightarrow> u16 list option" where
  "GetAsString16 v = map_option (\<lambda>s. snd (UTF8ToUTF16 s)) (GetAsString v)"

fun GetAsList :: "base_value \<Rightarrow> base_value list option" where
  "GetAsList (VList l) = Some l"
| "GetAsList v = None"

fun GetAsDictionary :: "base_value \<Rightarrow> dictionary option" where
  "GetAsDictionary (VDictionary d) = Some d"
| "GetAsDictionary v = None"

definition GetAsBinary :: "base_value \<Rightarrow> bytes option" where
  "GetAsBinary v = (case v of VBinary b \<Rightarrow> Some b | _ \<Rightarrow> None)"

text \<open>\<open>DeepCopy\<close>; the copy of a dictionary is filled entry by entry.\<close>

fun DeepCopy :: "base_value \<Rightarrow> base_value" and copy_entries :: "dictionary \<Rightarrow> dictionary \<Rightarrow> dictionary" where
  "DeepCopy VNull = VNull"
| "DeepCopy (VBoolean b) = VBoolean b"
| "DeepCopy (VInteger i) = VInteger i"
| "DeepCopy (VDouble d) = FundamentalValue_double d"
| "DeepCopy (VString s) = VString s"
| "DeepCopy (VBinary b) = VBinary b"
| "DeepCopy (VDictionary es) = VDictionary (copy_entries es [])"
| "DeepCopy (VList vs) = VList (map DeepCopy vs)"
| "copy_entries [] result = result"
| "copy_entries (e # es) result = copy_entries es (map_put (fst e) (DeepCopy (snd e)) result)"

text \<open>\<open>Equals\<close>; the dictionaries and lists are compared in parallel.\<close>

fun Value_Equals :: "base_value \<Rightarrow> base_value \<Rightarrow> bool"
  and equal_entries :: "dictionary \<Rightarrow> dictionary \<Rightarrow> bool"
  and equal_items :: "base_value list \<Rightarrow> base_value list \<Rightarrow> bool" where
  "Value_Equals VNull other = (GetType other = GetType VNull)"
| "Value_Equals (VBoolean b) other = (case other of VBoolean c \<Rightarrow> b = c | _ \<Rightarrow> False)"
| "Value_Equals (VInteger i) other = (case other of VInteger j \<Rightarrow> i = j | _ \<Rightarrow> False)"
| "Value_Equals (VDouble d) other = (case other of VDouble e \<Rightarrow> double_eq d e | _ \<Rightarrow> False)"
| "Value_Equals (VString s) other = (case other of VString t \<Rightarrow> s = t | _ \<Rightarrow> False)"
| "Value_Equals (VBinary s) other = (case other of VBinary t \<Rightarrow> length s = length t \<and> s = t | _ \<Rightarrow> False)"
| "Value_Equals (VDictionary d) other = (case other of VDictionary e \<Rightarrow> equal_entries d e | _ \<Rightarrow> False)"
| "Value_Equals (VList l) other = (case other of VList m \<Rightarrow> equal_items l m | _ \<Rightarrow> False)"
| "equal_entries (l # ls) (r # rs) =
     (if fst l \<noteq> fst r \<or> \<not> Value_Equals (snd l) (snd r) then False else equal_entries ls rs)"
| "equal_entries ls rs = (ls = [] \<and> rs = [])"
| "equal_items (l # ls) (r # rs) = (if \<not> Value_Equals l r then False else equal_items ls rs)"
| "equal_items ls rs = (ls = [] \<and> rs = [])"

definition Value_Equals_ptr :: "base_value option \<Rightarrow> base_value option \<Rightarrow> bool" where
  "Value_Equals_ptr a b =
     (case (a, b) of (None, None) \<Rightarrow> True | (Some x, Some y) \<Rightarrow> Value_Equals x y | _ \<Rightarrow> False)"

text \<open>\<open>CopyWithoutEmptyChildren\<close>; \<open>None\<close> is the null pointer.\<close>

fun CopyWithoutEmptyChildren :: "base_value \<Rightarrow> base_value option"
  and copy_nonempty_entries :: "dictionary \<Rightarrow> dictionary \<Rightarrow> dictionary"
  and copy_nonempty_items :: "base_value list \<Rightarrow> base_value list \<Rightarrow> base_value list" where
  "CopyWithoutEmptyChildren (VList l) =
     (let copy = copy_nonempty_items l [] in if copy \<noteq> [] then Some (VList copy) else None)"
| "CopyWithoutEmptyChildren (VDictionary d) =
     (let copy = copy_nonempty_entries d [] in if copy \<noteq> [] then Some (VDictionary copy) else None)"
| "CopyWithoutEmptyChildren v = Some (DeepCopy v)"
| "copy_nonempty_entries [] copy = copy"
| "copy_nonempty_entries (e # es) copy =
     copy_nonempty_entries es
       (case CopyWithoutEmptyChildren (snd e) of None \<Rightarrow> copy | Some child \<Rightarrow> map_put (fst e) child copy)"
| "copy_nonempty_items [] copy = copy"
| "copy_nonempty_items (v # vs) copy =
     copy_nonempty_items vs
       (case CopyWithoutEmptyChildren v of None \<Rightarrow> copy | Some child \<Rightarrow> copy @ [child])"

section \<open>Dictionaries without path expansion\<close>

definition HasKey :: "bytes \<Rightarrow> dictionary \<Rightarrow> bool" where
  "HasKey key d = (map_of d key \<noteq> None)"

definition GetWithoutPathExpansion :: "bytes \<Rightarrow> dictionary \<Rightarrow> base_value option" where
  "GetWithoutPathExpansion key d = map_of d key"

definition SetWithoutPathExpansion :: "bytes \<Rightarrow> base_value \<Rightarrow> dictionary \<Rightarrow> dictionary" where
  "SetWithoutPathExpansion key in_value d = map_put key in_value d"

definition SetBooleanWithoutPathExpansion :: "bytes \<Rightarrow> bool \<Rightarrow> dictionary \<Rightarrow> dictionary" where
  "SetBooleanWithoutPathExpansion key in_value = SetWithoutPathExpansion key (VBoolean in_value)"

definition SetIntegerWithoutPathExpansion :: "bytes \<Rightarrow> i32 \<Rightarrow> dictionary \<Rightarrow> dictionary" where
  "SetIntegerWithoutPathExpansion key in_value = SetWithoutPathExpansion key (VInteger in_value)"

definition SetDoubleWithoutPathExpansion :: "bytes \<Rightarrow> u64 \<Rightarrow> dictionary \<Rightarrow> dictionary" where
  "SetDoubleWithoutPathExpansion key in_value = SetWithoutPathExpansion key (FundamentalValue_double in_value)"

definition SetStringWithoutPathExpansion :: "bytes \<Rightarrow> bytes \<Rightarrow> dictionary \<Rightarrow> dictionary" where
  "SetStringWithoutPathExpansion key in_value = SetWithoutPathExpansion key (VString in_value)"

definition SetString16WithoutPathExpansion :: "bytes \<Rightarrow> u16 list \<Rightarrow> dictionary \<Rightarrow> dictionary" where
  "SetString16WithoutPathExpansion key in_value = SetWithoutPathExpansion key (StringValue_of_string16 in_value)"

definition GetBooleanWithoutPathExpansion :: "bytes \<Rightarrow> dictionary \<Rightarrow> bool option" where
  "GetBooleanWithoutPathExpansion key d = Option.bind (GetWithoutPathExpansion key d) GetAsBoolean"

definition GetIntegerWithoutPathExpansion :: "bytes \<Rightarrow> dictionary \<Rightarrow> i32 option" where
  "GetIntegerWithoutPathExpansion key d = Option.bind (GetWithoutPathExpansion key d) GetAsInteger"

definition GetDoubleWithoutPathExpansion :: "bytes \<Rightarrow> dictionary \<Rightarrow> u64 option" where
  "GetDoubleWithoutPathExpansion key d = Option.bind (GetWithoutPathExpansion key d) GetAsDouble"

definition GetStringWithoutPathExpansion :: "bytes \<Rightarrow> dictionary \<Rightarrow> bytes option" where
  "GetStringWithoutPathExpansion key d = Option.bind (GetWithoutPathExpansion key d) GetAsString"

definition GetString16WithoutPathExpansion :: "bytes \<Rightarrow> dictionary \<Rightarrow> u16 list option" where
  "GetString16WithoutPathExpansion key d = Option.bind (GetWithoutPathExpansion key d) GetAsString16"

definition GetDictionaryWithoutPathExpansion :: "bytes \<Rightarrow> dictionary \<Rightarrow> dictionary option" where
  "GetDictionaryWithoutPathExpansion key d = Option.bind (GetWithoutPathExpansion key d) GetAsDictionary"

definition GetListWithoutPathExpansion :: "bytes \<Rightarrow> dictionary \<Rightarrow> base_value list option" where
  "GetListWithoutPathExpansion key d = Option.bind (GetWithoutPathExpansion key d) GetAsList"

text \<open>The value removed and the dictionary without it.\<close>

definition RemoveWithoutPathExpansion :: "bytes \<Rightarrow> dictionary \<Rightarrow> (base_value \<times> dictionary) option" where
  "RemoveWithoutPathExpansion key d =
     (case map_of d key of None \<Rightarrow> None | Some entry \<Rightarrow> Some (entry, filter (\<lambda>e. fst e \<noteq> key) d))"

section \<open>Dictionaries with paths\<close>

text \<open>A key before a dot has no dot itself, so \<open>GetDictionary\<close> of it looks up one key.\<close>

function Dictionary_Get :: "bytes \<Rightarrow> dictionary \<Rightarrow> base_value option" where
  "Dictionary_Get path d =
     (case find_idx (\<lambda>c. c = 46) path of
        None \<Rightarrow> GetWithoutPathExpansion path d
      | Some delimiter_position \<Rightarrow>
          (case GetDictionaryWithoutPathExpansion (take delimiter_position path) d of
             None \<Rightarrow> None
           | Some child_dictionary \<Rightarrow> Dictionary_Get (drop (delimiter_position + 1) path) child_dictionary))"
  by auto
termination by (relation "measure (length o fst)") (auto dest: find_idx_SomeD)

declare Dictionary_Get.simps [simp del]

function Dictionary_Set :: "bytes \<Rightarrow> base_value \<Rightarrow> dictionary \<Rightarrow> dictionary" where
  "Dictionary_Set path in_value d =
     (case find_idx (\<lambda>c. c = 46) path of
        None \<Rightarrow> SetWithoutPathExpansion path in_value d
      | Some delimiter_position \<Rightarrow>
          (let key = take delimiter_position path;
               child_dictionary =
                 (case GetDictionaryWithoutPathExpansion key d of None \<Rightarrow> [] | Some child \<Rightarrow> child)
           in SetWithoutPathExpansion key
                (VDictionary (Dictionary_Set (drop (delimiter_position + 1) path) in_value child_dictionary)) d))"
  by auto
termination by (relation "measure (length o fst)") (auto dest: find_idx_SomeD)

declare Dictionary_Set.simps [simp del]

definition SetBoolean :: "bytes \<Rightarrow> bool \<Rightarrow> dictionary \<Rightarrow> dictionary" where
  "SetBoolean path in_value = Dictionary_Set path (VBoolean in_value)"

definition SetInteger :: "bytes \<Rightarrow> i32 \<Rightarrow> dictionary \<Rightarrow> dictionary" where
  "SetInteger path in_value = Dictionary_Set path (VInteger in_value)"

definition SetDouble :: "bytes \<Rightarrow> u64 \<Rightarrow> dictionary \<Rightarrow> dictionary" where
  "SetDouble path in_value = Dictionary_Set path (FundamentalValue_double in_value)"

definition SetString :: "bytes \<Rightarrow> bytes \<Rightarrow> dictionary \<Rightarrow> dictionary" where
  "SetString path in_value = Dictionary_Set path (VString in_value)"

definition SetString16 :: "bytes \<Rightarrow> u16 list \<Rightarrow> dictionary \<Rightarrow> dictionary" where
  "SetString16 path in_value = Dictionary_Set path (StringValue_of_string16 in_value)"

definition GetBoolean :: "bytes \<Rightarrow> dictionary \<Rightarrow> bool option" where
  "GetBoolean path d = Option.bind (Dictionary_Get path d) GetAsBoolean"

definition GetInteger :: "bytes \<Rightarrow> dictionary \<Rightarrow> i32 option" where
  "GetInteger path d = Option.bind (Dictionary_Get path d) GetAsInteger"

definition GetDouble :: "bytes \<Rightarrow> dictionary \<Rightarrow> u64 option" where
  "GetDouble path d = Option.bind (Dictionary_Get path d) GetAsDouble"

definition GetString :: "bytes \<Rightarrow> dictionary \<Rightarrow> bytes option" where
  "GetString path d = Option.bind (Dictionary_Get path d) GetAsString"

definition GetString16 :: "bytes \<Rightarrow> dictionary \<Rightarrow> u16 list option" where
  "GetString16 path d = Option.bind (Dictionary_Get path d) GetAsString16"

definition GetStringASCII :: "bytes \<Rightarrow> dictionary \<Rightarrow> bytes option" where
  "GetStringASCII path d =
     Option.bind (GetString path d) (\<lambda>out. if \<not> IsStringASCII out then None else Some out)"

definition GetBinary :: "bytes \<Rightarrow> dictionary \<Rightarrow> bytes option" where
  "GetBinary path d = Option.bind (Dictionary_Get path d) GetAsBinary"

definition GetDictionary :: "bytes \<Rightarrow> dictionary \<Rightarrow> dictionary option" where
  "GetDictionary path d = Option.bind (Dictionary_Get path d) GetAsDictionary"

definition GetList :: "bytes \<Rightarrow> dictionary \<Rightarrow> base_value list option" where
  "GetList path d = Option.bind (Dictionary_Get path d) GetAsList"

text \<open>\<open>Remove\<close> erases in the dictionary found at the path before the last dot, which is put back in
  its place.\<close>

definition Dictionary_Remove :: "bytes \<Rightarrow> dictionary \<Rightarrow> (base_value \<times> dictionary) option" where
  "Dictionary_Remove path d =
     (case find_last_if (\<lambda>c. c = 46) path of
        None \<Rightarrow> RemoveWithoutPathExpansion path d
      | Some delimiter_position \<Rightarrow>
          (case GetDictionary (take delimiter_position path) d of
             None \<Rightarrow> None
           | Some current_dictionary \<Rightarrow>
               (case RemoveWithoutPathExpansion (drop (delimiter_position + 1) path) current_dictionary of
                  None \<Rightarrow> None
                | Some (entry, rest) \<Rightarrow>
                    Some (entry, Dictionary_Set (take delimiter_position path) (VDictionary rest) d))))"

definition DeepCopyWithoutEmptyChildren :: "dictionary \<Rightarrow> dictionary" where
  "DeepCopyWithoutEmptyChildren d =
     (case CopyWithoutEmptyChildren (VDictionary d) of Some (VDictionary copy) \<Rightarrow> copy | _ \<Rightarrow> [])"

function MergeDictionary :: "dictionary \<Rightarrow> dictionary \<Rightarrow> dictionary" where
  "MergeDictionary [] d = d"
| "MergeDictionary ((key, merge_value) # es) d =
     MergeDictionary es
       (case (merge_value, GetDictionaryWithoutPathExpansion key d) of
          (VDictionary merge_dict, Some sub_dict) \<Rightarrow>
            SetWithoutPathExpansion key (VDictionary (MergeDictionary merge_dict sub_dict)) d
        | _ \<Rightarrow> SetWithoutPathExpansion key (DeepCopy merge_value) d)"
  by pat_completeness auto
termination
  by (relation "measure (size_list (size_prod (\<lambda>x. 0) size) o fst)") (auto simp: comp_def)

definition Dictionary_Swap :: "dictionary \<times> dictionary \<Rightarrow> dictionary \<times> dictionary" where
  "Dictionary_Swap p = (snd p, fst p)"

section \<open>Lists\<close>

definition List_Get :: "nat \<Rightarrow> base_value list \<Rightarrow> base_value option" where
  "List_Get index l = (if length l \<le> index then None else Some (l ! index))"

definition List_GetBoolean :: "nat \<Rightarrow> base_value list \<Rightarrow> bool option" where
  "List_GetBoolean index l = Option.bind (List_Get index l) GetAsBoolean"

definition List_GetInteger :: "nat \<Rightarrow> base_value list \<Rightarrow> i32 option" where
  "List_GetInteger index l = Option.bind (List_Get index l) GetAsInteger"

definition List_GetDouble :: "nat \<Rightarrow> base_value list \<Rightarrow> u64 option" where
  "List_GetDouble index l = Option.bind (List_Get index l) GetAsDouble"

definition List_GetString :: "nat \<Rightarrow> base_value list \<Rightarrow> bytes option" where
  "List_GetString index l = Option.bind (List_Get index l) GetAsString"

definition List_GetString16 :: "nat \<Rightarrow> base_value list \<Rightarrow> u16 list option" where
  "List_GetString16 index l = Option.bind (List_Get index l) GetAsString16"

definition List_GetBinary :: "nat \<Rightarrow> base_value list \<Rightarrow> bytes option" where
  "List_GetBinary index l = Option.bind (List_Get index l) GetAsBinary"

definition List_GetDictionary :: "nat \<Rightarrow> base_value list \<Rightarrow> dictionary option" where
  "List_GetDictionary index l = Option.bind (List_Get index l) GetAsDictionary"

definition List_GetList :: "nat \<Rightarrow> base_value list \<Rightarrow> base_value list option" where
  "List_GetList index l = Option.bind (List_Get index l) GetAsList"

definition List_Remove :: "nat \<Rightarrow> base_value list \<Rightarrow> (base_value \<times> base_value list) option" where
  "List_Remove index l =
     (if length l \<le> index then None else Some (l ! index, take index l @ drop (index + 1) l))"

text \<open>\<open>Remove(value, &index)\<close>: the position and the list without it.\<close>

fun List_RemoveValue :: "base_value \<Rightarrow> base_value list \<Rightarrow> (nat \<times> base_value list) option" where
  "List_RemoveValue val [] = None"
| "List_RemoveValue val (v # vs) =
     (if Value_Equals v val then Some (0, vs)
      else map_option (\<lambda>(i, rest). (Suc i, v # rest)) (List_RemoveValue val vs))"

text \<open>\<open>Erase\<close> at a valid iterator: the element and the list without it.\<close>

definition List_Erase :: "nat \<Rightarrow> base_value list \<Rightarrow> base_value \<times> base_value list" where
  "List_Erase iter l = (l ! iter, take iter l @ drop (iter + 1) l)"

definition List_Append :: "base_value \<Rightarrow> base_value list \<Rightarrow> base_value list" where
  "List_Append in_value l = l @ [in_value]"

definition AppendBoolean :: "bool \<Rightarrow> base_value list \<Rightarrow> base_value list" where
  "AppendBoolean in_value = List_Append (VBoolean in_value)"

definition AppendInteger :: "i32 \<Rightarrow> base_value list \<Rightarrow> base_value list" where
  "AppendInteger in_value = List_Append (VInteger in_value)"

definition AppendDouble :: "u64 \<Rightarrow> base_value list \<Rightarrow> base_value list" where
  "AppendDouble in_value = List_Append (FundamentalValue_double in_value)"

definition AppendString :: "bytes \<Rightarrow> base_value list \<Rightarrow> base_value list" where
  "AppendString in_value = List_Append (VString in_value)"

definition AppendString16 :: "u16 list \<Rightarrow> base_value list \<Rightarrow> base_value list" where
  "AppendString16 in_value = List_Append (StringValue_of_string16 in_value)"

definition AppendStrings :: "bytes list \<Rightarrow> base_value list \<Rightarrow> base_value list" where
  "AppendStrings in_values = fold AppendString in_values"

definition AppendStrings16 :: "u16 list list \<Rightarrow> base_value list \<Rightarrow> base_value list" where
  "AppendStrings16 in_values = fold AppendString16 in_values"

definition AppendIfNotPresent :: "base_value \<Rightarrow> base_value list \<Rightarrow> bool \<times> base_value list" where
  "AppendIfNotPresent in_value l =
     (if list_ex (\<lambda>v. Value_Equals v in_value) l then (False, l) else (True, l @ [in_value]))"

definition List_Insert :: "nat \<Rightarrow> base_value \<Rightarrow> base_value list \<Rightarrow> base_value list option" where
  "List_Insert index in_value l =
     (if length l < index then None else Some (take index l @ in_value # drop index l))"

definition List_Find :: "base_value \<Rightarrow> base_value list \<Rightarrow> nat option" where
  "List_Find val l = find_idx (\<lambda>v. Value_Equals val v) l"

end
