(* ===== verification/Values_Props.thy ===== *)
theory Values_Props
  imports Values "HOL-Library.Sublist"
begin

text \<open>
  Dictionaries with paths against lookup along a list of keys, the well-formedness of values,
  comparison and copies, merging, and the copy without empty children.
\<close>

section \<open>Dictionaries as maps\<close>

lemma map_of_put [simp]: "map_of (map_put k v d) = (map_of d)(k \<mapsto> v)"
  by (induction k v d rule: map_put.induct) (auto simp: fun_eq_iff)

definition keys_sorted :: "dictionary \<Rightarrow> bool" where
  "keys_sorted d = sorted_wrt (<) (map fst d)"

lemma keys_sorted_simps [simp]:
  "keys_sorted []" "keys_sorted (e # es) \<longleftrightarrow> (\<forall>f\<in>set es. fst e < fst f) \<and> keys_sorted es"
  by (auto simp: keys_sorted_def)

lemma set_map_put_fst: "fst ` set (map_put k v d) = insert k (fst ` set d)"
  by (induction k v d rule: map_put.induct) auto

lemma map_put_sorted: "keys_sorted d \<Longrightarrow> keys_sorted (map_put k v d)"
proof (induction k v d rule: map_put.induct)
  case (2 k v k' v' xs)
  have "\<forall>f\<in>set (map_put k v xs). fst f \<in> insert k (fst ` set xs)"
    using set_map_put_fst [of k v xs] by blast
  then show ?case using 2 by (fastforce intro: less_trans)
qed simp

lemma map_put_set: "e \<in> set (map_put k v d) \<Longrightarrow> e = (k, v) \<or> e \<in> set d"
  by (induction k v d rule: map_put.induct) (auto split: if_splits)

lemma filter_sorted: "keys_sorted d \<Longrightarrow> keys_sorted (filter P d)"
  by (simp add: keys_sorted_def sorted_wrt_map sorted_wrt_filter)

lemma sorted_distinct: "keys_sorted d \<Longrightarrow> distinct (map fst d)"
  by (induction d) (auto dest: less_imp_neq)

text \<open>Two dictionaries with sorted keys are equal when they map alike.\<close>

lemma sorted_map_of_eq:
  assumes "keys_sorted d" "keys_sorted e" "map_of d = map_of e"
  shows "d = e"
proof -
  have k: "map fst d = map fst e"
    using assms by (intro strict_sorted_equal) (auto simp: keys_sorted_def dom_map_of_conv_image_fst [symmetric])
  have "c = map (\<lambda>k. (k, the (map_of c k))) (map fst c)" if "keys_sorted c" for c :: dictionary
  proof (rule nth_equalityI)
    fix i
    assume i: "i < length c"
    then have "map_of c (fst (c ! i)) = Some (snd (c ! i))"
      using sorted_distinct [OF that] by (intro map_of_is_SomeI) auto
    then show "c ! i = map (\<lambda>k. (k, the (map_of c k))) (map fst c) ! i" using i by simp
  qed simp
  then show ?thesis using assms k by metis
qed

section \<open>Lookup along keys\<close>

fun lookup_keys :: "bytes list \<Rightarrow> base_value \<Rightarrow> base_value option" where
  "lookup_keys [] v = Some v"
| "lookup_keys (k # ks) v =
     (case v of VDictionary d \<Rightarrow> Option.bind (map_of d k) (lookup_keys ks) | _ \<Rightarrow> None)"

definition children :: "base_value option \<Rightarrow> dictionary" where
  "children v = (case v of Some (VDictionary d) \<Rightarrow> d | _ \<Rightarrow> [])"

fun put_keys :: "bytes list \<Rightarrow> base_value \<Rightarrow> base_value option \<Rightarrow> base_value" where
  "put_keys [] v old = v"
| "put_keys (k # ks) v old =
     VDictionary (map_put k (put_keys ks v (map_of (children old) k)) (children old))"

definition keys_of :: "bytes \<Rightarrow> bytes list" where
  "keys_of path = fields_by (\<lambda>c. c = 46) path"

lemma keys_of_None: "find_idx (\<lambda>c. c = 46) path = None \<Longrightarrow> keys_of path = [path]"
  by (simp add: keys_of_def fields_by_last)

lemma keys_of_Some:
  assumes "find_idx (\<lambda>c. c = 46) path = Some i"
  shows "keys_of path = take i path # keys_of (drop (i + 1) path)"
proof -
  have i: "i < length path" "path ! i = 46" "\<forall>x\<in>set (take i path). x \<noteq> 46" using find_idx_SomeD [OF assms] by auto
  then have "path = take i path @ 46 # drop (i + 1) path" by (metis Suc_eq_plus1 id_take_nth_drop)
  then show ?thesis using fields_by_sep [OF i(3), of 46 "drop (i + 1) path"] by (simp add: keys_of_def)
qed

lemma GetAsDictionary_children: "GetAsDictionary v = Some d \<longleftrightarrow> v = VDictionary d"
  by (cases v) auto

lemma Get_lookup: "Dictionary_Get path d = lookup_keys (keys_of path) (VDictionary d)"
proof (induction path d rule: Dictionary_Get.induct)
  case (1 path d)
  show ?case
  proof (cases "find_idx (\<lambda>c. c = 46) path")
    case None
    then show ?thesis
      by (subst Dictionary_Get.simps)
        (simp add: keys_of_None GetWithoutPathExpansion_def del: find_idx_None split: bind_split)
  next
    case (Some i)
    have "Dictionary_Get path d = Option.bind (GetDictionaryWithoutPathExpansion (take i path) d) (Dictionary_Get (drop (i + 1) path))"
      by (subst Dictionary_Get.simps) (simp add: Some split: option.split)
    moreover have "lookup_keys (keys_of (drop (i + 1) path)) v = None" if "GetAsDictionary v = None" for v
      using that by (cases "keys_of (drop (i + 1) path)"; cases v) (auto simp: keys_of_def)
    ultimately show ?thesis using "1.IH" [OF Some] keys_of_Some [OF Some]
      by (auto simp: GetDictionaryWithoutPathExpansion_def GetWithoutPathExpansion_def GetAsDictionary_children
          split: bind_split)
  qed
qed

lemma Set_put: "VDictionary (Dictionary_Set path v d) = put_keys (keys_of path) v (Some (VDictionary d))"
proof (induction path v d rule: Dictionary_Set.induct)
  case (1 path v d)
  show ?case
  proof (cases "find_idx (\<lambda>c. c = 46) path")
    case None
    then show ?thesis
      by (subst Dictionary_Set.simps) (simp add: keys_of_None SetWithoutPathExpansion_def children_def del: find_idx_None)
  next
    case (Some i)
    let ?c = "case GetDictionaryWithoutPathExpansion (take i path) d of None \<Rightarrow> [] | Some child \<Rightarrow> child"
    have "?c = children (map_of d (take i path))"
      by (auto simp: GetDictionaryWithoutPathExpansion_def GetWithoutPathExpansion_def children_def
          split: option.splits base_value.splits bind_split)
    moreover have "put_keys (keys_of (drop (i + 1) path)) v (Some (VDictionary (children w))) =
        put_keys (keys_of (drop (i + 1) path)) v w" for w
      by (cases "keys_of (drop (i + 1) path)") (auto simp: children_def keys_of_def)
    ultimately show ?thesis using "1.IH" [OF Some refl refl] keys_of_Some [OF Some] Some
      by (subst Dictionary_Set.simps) (simp add: SetWithoutPathExpansion_def Let_def children_def)
  qed
qed

lemma lookup_put:
  "lookup_keys qs (put_keys ps v old) =
     (if prefix ps qs then lookup_keys (drop (length ps) qs) v
      else if prefix qs ps then Some (put_keys (drop (length qs) ps) v (Option.bind old (lookup_keys qs)))
      else Option.bind old (lookup_keys qs))"
proof (induction qs arbitrary: ps old)
  case Nil
  then show ?case by (cases ps; cases old) auto
next
  case (Cons q qs)
  show ?case
  proof (cases ps)
    case Nil
    then show ?thesis by simp
  next
    case (Cons p ps')
    have c: "Option.bind old (lookup_keys (q # qs)) = Option.bind (map_of (children old) q) (lookup_keys qs)"
      by (cases old) (auto simp: children_def split: base_value.splits)
    show ?thesis unfolding c using Cons.IH [of ps' "map_of (children old) p"] Cons by auto
  qed
qed

text \<open>C24: \<open>Set\<close> stores exactly one value, and every other lookup is as before: below the path one sees the
  inside of the new value, at a path above it a dictionary that leads to it (created where there was
  none), and at any other path what was there.\<close>

theorem dictionary_set_get:
  "Dictionary_Get q (Dictionary_Set p v d) =
     (if prefix (keys_of p) (keys_of q) then lookup_keys (drop (length (keys_of p)) (keys_of q)) v
      else if prefix (keys_of q) (keys_of p)
      then Some (put_keys (drop (length (keys_of q)) (keys_of p)) v (Dictionary_Get q d))
      else Dictionary_Get q d)"
  by (simp add: Get_lookup Set_put lookup_put)

section \<open>Removing\<close>

lemma fields_by_snoc: "\<forall>x\<in>set w. \<not> P x \<Longrightarrow> P c \<Longrightarrow> fields_by P (xs @ c # w) = fields_by P xs @ [w]"
proof (induction xs)
  case (Cons x xs)
  then show ?case by (cases "fields_by P xs") auto
qed (simp add: fields_by_last)

lemma keys_of_last_None: "find_last_if (\<lambda>c. c = 46) path = None \<Longrightarrow> keys_of path = [path]"
  by (simp add: find_last_if_def keys_of_def fields_by_last)

lemma keys_of_last_Some:
  assumes "find_last_if (\<lambda>c. c = 46) path = Some i"
  shows "keys_of path = keys_of (take i path) @ [drop (i + 1) path]"
proof -
  obtain j where j: "find_idx (\<lambda>c. c = 46) (rev path) = Some j" "i = length path - 1 - j"
    using assms by (auto simp: find_last_if_def)
  then have jl: "j < length path" "rev path ! j = 46" "\<forall>x\<in>set (take j (rev path)). x \<noteq> 46"
    using find_idx_SomeD [OF j(1)] by auto
  then have i: "i < length path" "path ! i = 46" using j(2) by (simp_all add: rev_nth)
  have "take j (rev path) = rev (drop (i + 1) path)" using jl(1) j(2) by (simp add: take_rev Suc_diff_Suc)
  then have "\<forall>x\<in>set (drop (i + 1) path). x \<noteq> 46" using jl(3) by simp
  moreover have "path = take i path @ 46 # drop (i + 1) path" using i by (metis Suc_eq_plus1 id_take_nth_drop)
  ultimately show ?thesis using fields_by_snoc [of "drop (i + 1) path" "\<lambda>c. c = 46" 46 "take i path"]
    by (simp add: keys_of_def)
qed

lemma lookup_append:
  "lookup_keys (ks @ ls) v = Option.bind (lookup_keys ks v) (lookup_keys ls)"
  by (induction ks arbitrary: v) (auto split: base_value.splits bind_splits)

text \<open>A value put at a place where there was one: above it, the dictionaries stay.\<close>

lemma map_of_filter_key: "map_of (filter (\<lambda>e. fst e \<noteq> k) d) = (map_of d)(k := None)"
  by (induction d) (auto simp: fun_eq_iff)

lemma removed_lookup:
  fixes k
  assumes "lookup_keys pre v = Some (VDictionary c)"
  defines "v' \<equiv> put_keys pre (VDictionary (filter (\<lambda>e. fst e \<noteq> k) c)) (Some v)"
  shows "prefix (pre @ [k]) qs \<Longrightarrow> lookup_keys qs v' = None"
    "strict_prefix qs (pre @ [k]) \<Longrightarrow> \<exists>c'. lookup_keys qs v' = Some (VDictionary c')"
    "\<not> prefix (pre @ [k]) qs \<Longrightarrow> \<not> prefix qs (pre @ [k]) \<Longrightarrow> lookup_keys qs v' = lookup_keys qs v"
proof -
  show "prefix (pre @ [k]) qs \<Longrightarrow> lookup_keys qs v' = None"
    unfolding v'_def lookup_put by (auto simp: prefix_def map_of_filter_key)
  show "\<exists>c'. lookup_keys qs v' = Some (VDictionary c')" if q: "strict_prefix qs (pre @ [k])"
  proof (cases "qs = pre")
    case True
    then show ?thesis unfolding v'_def lookup_put by simp
  next
    case False
    then have "prefix qs pre" "\<not> prefix pre qs" using q by (auto simp: strict_prefix_def prefix_order.antisym)
    then show ?thesis unfolding v'_def lookup_put
      by (cases "drop (length qs) pre") (auto simp: prefix_def)
  qed
  assume n: "\<not> prefix (pre @ [k]) qs" "\<not> prefix qs (pre @ [k])"
  then have "\<not> prefix qs pre" by auto
  moreover have "lookup_keys (drop (length pre) qs) (VDictionary (filter (\<lambda>e. fst e \<noteq> k) c)) = lookup_keys qs v"
    if pre: "prefix pre qs"
  proof -
    obtain r where r: "qs = pre @ r" using pre by (auto simp: prefix_def)
    then obtain x xs where x: "qs = pre @ x # xs" "x \<noteq> k" using n by (cases r) (auto simp: prefix_def)
    then show ?thesis using assms(1) by (simp add: lookup_append map_of_filter_key)
  qed
  ultimately show "lookup_keys qs v' = lookup_keys qs v" unfolding v'_def lookup_put by simp
qed

text \<open>\<open>Remove\<close> in these terms: the keys before the last, the last key and the dictionary it is in.\<close>

lemma Remove_cases:
  obtains pre k where "keys_of p = pre @ [k]"
    "Dictionary_Get p d = Option.bind (lookup_keys pre (VDictionary d)) (lookup_keys [k])"
    "Dictionary_Get p d = None \<Longrightarrow> Dictionary_Remove p d = None"
    "\<And>v. Dictionary_Get p d = Some v \<Longrightarrow> \<exists>c d'. lookup_keys pre (VDictionary d) = Some (VDictionary c) \<and>
       Dictionary_Remove p d = Some (v, d') \<and>
       VDictionary d' = put_keys pre (VDictionary (filter (\<lambda>e. fst e \<noteq> k) c)) (Some (VDictionary d))"
proof (cases "find_last_if (\<lambda>c. c = 46) p")
  case None
  have k: "keys_of p = [] @ [p]" using keys_of_last_None [OF None] by simp
  have "Dictionary_Get p d = map_of d p" using k by (simp add: Get_lookup split: bind_split)
  then show thesis
    by (intro that [OF k])
      (auto simp: Dictionary_Remove_def None RemoveWithoutPathExpansion_def Get_lookup k split: option.splits)
next
  case (Some i)
  let ?k = "drop (i + 1) p" and ?pre = "keys_of (take i p)"
  have k: "keys_of p = ?pre @ [?k]" by (rule keys_of_last_Some [OF Some])
  have g: "Dictionary_Get p d = Option.bind (lookup_keys ?pre (VDictionary d)) (lookup_keys [?k])"
    by (simp add: Get_lookup k lookup_append)
  show thesis
  proof (rule that [OF k g])
    have "Dictionary_Remove p d \<noteq> None \<Longrightarrow> Dictionary_Get p d \<noteq> None"
      unfolding g by (auto simp: Dictionary_Remove_def Some RemoveWithoutPathExpansion_def GetDictionary_def Get_lookup
          GetAsDictionary_children split: option.splits bind_splits)
    then show "Dictionary_Get p d = None \<Longrightarrow> Dictionary_Remove p d = None" by blast
  next
    fix v
    assume "Dictionary_Get p d = Some v"
    then obtain c where c: "lookup_keys ?pre (VDictionary d) = Some (VDictionary c)" "map_of c ?k = Some v"
      unfolding g by (auto split: bind_splits base_value.splits)
    then have "Dictionary_Remove p d = Some (v, Dictionary_Set (take i p) (VDictionary (filter (\<lambda>e. fst e \<noteq> ?k) c)) d)"
      by (simp add: Dictionary_Remove_def Some RemoveWithoutPathExpansion_def GetDictionary_def Get_lookup)
    then show "\<exists>c d'. lookup_keys ?pre (VDictionary d) = Some (VDictionary c) \<and> Dictionary_Remove p d = Some (v, d') \<and>
        VDictionary d' = put_keys ?pre (VDictionary (filter (\<lambda>e. fst e \<noteq> ?k) c)) (Some (VDictionary d))"
      using c(1) by (simp add: Set_put)
  qed
qed

text \<open>\<open>Remove\<close> fails exactly when there is no value at the path, and then changes nothing; otherwise it
  hands out that value, after it nothing is found at the path or below it, the dictionaries above it are
  still there, and every other lookup is as before.\<close>

theorem dictionary_remove:
  "(Dictionary_Remove p d = None \<longleftrightarrow> Dictionary_Get p d = None) \<and>
   (\<forall>v d'. Dictionary_Remove p d = Some (v, d') \<longrightarrow>
      Dictionary_Get p d = Some v \<and>
      (\<forall>q. prefix (keys_of p) (keys_of q) \<longrightarrow> Dictionary_Get q d' = None) \<and>
      (\<forall>q. strict_prefix (keys_of q) (keys_of p) \<longrightarrow> (\<exists>c. Dictionary_Get q d' = Some (VDictionary c))) \<and>
      (\<forall>q. \<not> prefix (keys_of p) (keys_of q) \<and> \<not> prefix (keys_of q) (keys_of p) \<longrightarrow>
         Dictionary_Get q d' = Dictionary_Get q d))"
proof (rule Remove_cases [of p d])
  fix pre k
  assume k: "keys_of p = pre @ [k]" and n: "Dictionary_Get p d = None \<Longrightarrow> Dictionary_Remove p d = None"
    and s: "\<And>v. Dictionary_Get p d = Some v \<Longrightarrow> \<exists>c d'. lookup_keys pre (VDictionary d) = Some (VDictionary c) \<and>
       Dictionary_Remove p d = Some (v, d') \<and>
       VDictionary d' = put_keys pre (VDictionary (filter (\<lambda>e. fst e \<noteq> k) c)) (Some (VDictionary d))"
  show ?thesis
  proof (cases "Dictionary_Get p d")
    case None
    then show ?thesis using n by simp
  next
    case (Some v)
    from s [OF this] obtain c d' where c: "lookup_keys pre (VDictionary d) = Some (VDictionary c)"
      "Dictionary_Remove p d = Some (v, d')"
      "VDictionary d' = put_keys pre (VDictionary (filter (\<lambda>e. fst e \<noteq> k) c)) (Some (VDictionary d))" by blast
    then show ?thesis using Some removed_lookup [OF c(1), where k = k] by (simp add: Get_lookup k)
  qed
qed

section \<open>Well-formed values\<close>

text \<open>Finite doubles, and dictionaries that are maps in the order of their keys.\<close>

fun wf_value :: "base_value \<Rightarrow> bool" where
  "wf_value (VDouble d) = IsFinite d"
| "wf_value (VDictionary es) = (keys_sorted es \<and> (\<forall>e\<in>set es. wf_value (snd e)))"
| "wf_value (VList vs) = (\<forall>v\<in>set vs. wf_value v)"
| "wf_value v = True"

abbreviation wf_dict :: "dictionary \<Rightarrow> bool" where "wf_dict d \<equiv> wf_value (VDictionary d)"

lemma wf_put: "wf_dict d \<Longrightarrow> wf_value v \<Longrightarrow> wf_dict (map_put k v d)"
  using map_put_sorted [of d k v] map_put_set [of _ k v d] by fastforce

lemma wf_map_of: "wf_dict d \<Longrightarrow> map_of d k = Some v \<Longrightarrow> wf_value v"
  by (auto dest!: map_of_SomeD)

lemma wf_lookup: "wf_value v \<Longrightarrow> lookup_keys ks v = Some w \<Longrightarrow> wf_value w"
proof (induction ks arbitrary: v)
  case (Cons k ks)
  then obtain d x where "v = VDictionary d" "map_of d k = Some x" "lookup_keys ks x = Some w"
    by (auto split: base_value.splits bind_splits)
  then show ?case using Cons wf_map_of by blast
qed simp

lemma wf_children: "(\<And>x. old = Some x \<Longrightarrow> wf_value x) \<Longrightarrow> wf_dict (children old)"
  by (fastforce simp: children_def split: option.splits base_value.splits)

lemma wf_put_keys: "wf_value v \<Longrightarrow> (\<And>x. old = Some x \<Longrightarrow> wf_value x) \<Longrightarrow> wf_value (put_keys ks v old)"
proof (induction ks arbitrary: old)
  case (Cons k ks)
  have d: "wf_dict (children old)" by (rule wf_children [OF Cons.prems(2)])
  have "wf_value (put_keys ks v (map_of (children old) k))"
    using wf_map_of [OF d] by (intro Cons.IH Cons.prems(1))
  then show ?case using wf_put [OF d] by simp
qed simp

lemma wf_Set: "wf_dict d \<Longrightarrow> wf_value v \<Longrightarrow> wf_dict (Dictionary_Set p v d)"
  unfolding Set_put by (rule wf_put_keys) auto

lemma wf_Remove:
  assumes "wf_dict d" "Dictionary_Remove p d = Some (w, d')"
  shows "wf_value w \<and> wf_dict d'"
proof (rule Remove_cases [of p d])
  fix pre k
  assume n: "Dictionary_Get p d = None \<Longrightarrow> Dictionary_Remove p d = None"
    and s: "\<And>v. Dictionary_Get p d = Some v \<Longrightarrow> \<exists>c d'. lookup_keys pre (VDictionary d) = Some (VDictionary c) \<and>
       Dictionary_Remove p d = Some (v, d') \<and>
       VDictionary d' = put_keys pre (VDictionary (filter (\<lambda>e. fst e \<noteq> k) c)) (Some (VDictionary d))"
  obtain v where v: "Dictionary_Get p d = Some v" using n assms(2) by fastforce
  with s [OF v] assms(2) obtain c where c: "lookup_keys pre (VDictionary d) = Some (VDictionary c)" "v = w"
    "VDictionary d' = put_keys pre (VDictionary (filter (\<lambda>e. fst e \<noteq> k) c)) (Some (VDictionary d))" by auto
  have "wf_dict c" using wf_lookup [OF assms(1) c(1)] .
  then have "wf_dict (filter (\<lambda>e. fst e \<noteq> k) c)" by (auto simp: filter_sorted)
  then have "wf_dict d'" unfolding c(3) by (rule wf_put_keys) (use assms(1) in auto)
  moreover have "wf_value w" using wf_lookup [OF assms(1)] v unfolding c(2) Get_lookup by blast
  ultimately show ?thesis by simp
qed

lemma DeepCopy_id:
  "wf_value v \<Longrightarrow> DeepCopy v = v"
  "(\<forall>e\<in>set es. wf_value (snd e)) \<Longrightarrow> keys_sorted (result @ es) \<Longrightarrow> copy_entries es result = result @ es"
proof (induction v and es result rule: DeepCopy_copy_entries.induct)
  case (4 d)
  then show ?case by (simp add: FundamentalValue_double_def)
next
  case (8 vs)
  then show ?case by (simp add: map_idI)
next
  case (10 e es result)
  have "\<forall>p\<in>set result. fst p < fst e" using 10(4) by (auto simp: keys_sorted_def sorted_wrt_append)
  then have "map_put (fst e) (snd e) result = result @ [e]" using map_put_last by fastforce
  then show ?case using 10 by simp
qed simp_all

lemma wf_FundamentalValue_double [simp]: "wf_value (FundamentalValue_double d)"
  by (simp add: FundamentalValue_double_def) (simp add: IsFinite_def)

lemma copy_nonempty_wf:
  "wf_value v \<Longrightarrow> CopyWithoutEmptyChildren v = Some w \<Longrightarrow> wf_value w"
  "(\<forall>e\<in>set es. wf_value (snd e)) \<Longrightarrow> wf_dict copy \<Longrightarrow> wf_dict (copy_nonempty_entries es copy)"
  "(\<forall>x\<in>set vs. wf_value x) \<Longrightarrow> (\<forall>x\<in>set items. wf_value x) \<Longrightarrow> \<forall>x\<in>set (copy_nonempty_items vs items). wf_value x"
proof (induction v and es copy and vs items arbitrary: w
    rule: CopyWithoutEmptyChildren_copy_nonempty_entries_copy_nonempty_items.induct)
  case (1 l)
  then show ?case by (auto simp: Let_def split: if_splits)
next
  case (2 d)
  then show ?case by (auto simp: Let_def split: if_splits)
next
  case (5 e es copy)
  show ?case
  proof (cases "CopyWithoutEmptyChildren (snd e)")
    case None
    then show ?thesis using 5 by simp
  next
    case (Some child)
    have "wf_value (snd e)" "\<forall>e\<in>set es. wf_value (snd e)" using 5(3) by simp_all
    from wf_put [OF 5(4) 5(1) [OF this(1) Some]] 5(2) [OF this(2)] Some
    show ?thesis by (simp only: copy_nonempty_entries.simps option.case)
  qed
next
  case (7 v vs copy)
  have w: "wf_value v" "\<forall>x\<in>set vs. wf_value x" using 7(3) by simp_all
  let ?items = "case CopyWithoutEmptyChildren v of None \<Rightarrow> copy | Some child \<Rightarrow> copy @ [child]"
  have "\<forall>x\<in>set ?items. wf_value x" using 7(1) [OF w(1)] 7(4) by (cases "CopyWithoutEmptyChildren v") auto
  from 7(2) [OF w(2) this] show ?case by (simp only: copy_nonempty_items.simps)
qed (simp_all del: wf_value.simps(3), use wf_FundamentalValue_double in blast)

section \<open>Merging\<close>

text \<open>One step of the loop, for well-formed dictionaries.\<close>

definition merged :: "base_value \<Rightarrow> base_value option \<Rightarrow> base_value" where
  "merged m old =
     (case (m, old) of (VDictionary ms, Some (VDictionary sub)) \<Rightarrow> VDictionary (MergeDictionary ms sub) | _ \<Rightarrow> m)"

lemma Merge_Cons:
  "wf_value m \<Longrightarrow> MergeDictionary ((k, m) # es) d = MergeDictionary es (map_put k (merged m (map_of d k)) d)"
  using DeepCopy_id(1) [of m]
  by (cases m; cases "map_of d k"; cases "the (map_of d k)")
    (auto simp del: DeepCopy.simps simp: merged_def SetWithoutPathExpansion_def GetDictionaryWithoutPathExpansion_def
      GetWithoutPathExpansion_def)

declare MergeDictionary.simps(2) [simp del]

lemma merge_induct [case_names Nil Cons]:
  assumes "\<And>d. P [] d"
    and "\<And>k m es d. (\<And>ms sub. m = VDictionary ms \<Longrightarrow> map_of d k = Some (VDictionary sub) \<Longrightarrow> P ms sub) \<Longrightarrow>
       (\<And>d'. P es d') \<Longrightarrow> P ((k, m) # es) d"
  shows "P s d"
proof (induction "size_list (size_prod (\<lambda>x. 0) size) s" arbitrary: s d rule: less_induct)
  case less
  show ?case
  proof (cases s)
    case Nil
    then show ?thesis using assms(1) by simp
  next
    case (Cons e es)
    obtain k m where e: "e = (k, m)" by (cases e)
    have "P ((k, m) # es) d'" for d' by (rule assms(2)) (rule less, simp add: Cons e)+
    then show ?thesis using Cons e by simp
  qed
qed

lemma wf_merged:
  assumes "wf_value m" "\<And>ms sub. m = VDictionary ms \<Longrightarrow> old = Some (VDictionary sub) \<Longrightarrow> wf_dict (MergeDictionary ms sub)"
  shows "wf_value (merged m old)"
proof (cases "\<exists>ms sub. m = VDictionary ms \<and> old = Some (VDictionary sub)")
  case True
  then obtain ms sub where x: "m = VDictionary ms" "old = Some (VDictionary sub)" by blast
  show ?thesis using assms(2) [OF x] by (simp only: merged_def x prod.case option.case base_value.case)
next
  case False
  then have "merged m old = m" by (auto simp: merged_def split: base_value.splits option.splits)
  then show ?thesis using assms(1) by simp
qed

lemma wf_Merge: "wf_dict s \<Longrightarrow> wf_dict d \<Longrightarrow> wf_dict (MergeDictionary s d)"
proof (induction s d rule: merge_induct)
  case (Cons k m es d)
  have w: "wf_value m" "wf_dict es" using Cons.prems(1) by auto
  have "wf_dict (MergeDictionary ms sub)" if "m = VDictionary ms" "map_of d k = Some (VDictionary sub)" for ms sub
    using Cons.IH(1) [OF that] w(1) wf_map_of [OF Cons.prems(2) that(2)] that(1) by blast
  then have "wf_value (merged m (map_of d k))" by (intro wf_merged w(1))
  then show ?case unfolding Merge_Cons [OF w(1)] by (intro Cons.IH(2) w(2) wf_put Cons.prems(2))
qed simp

lemma Merge_keys:
  assumes "wf_dict s"
  shows "map_of (MergeDictionary s d) k =
    (case map_of s k of None \<Rightarrow> map_of d k | Some m \<Rightarrow> Some (merged m (map_of d k)))"
  using assms
proof (induction s arbitrary: d)
  case (Cons e es)
  obtain k' m where e: "e = (k', m)" by (cases e)
  then have w: "wf_value m" "wf_dict es" "k' \<notin> fst ` set es" using Cons.prems by auto
  show ?case unfolding e Merge_Cons [OF w(1)]
    using w(3) Cons.IH [OF w(2)] by (auto simp: map_of_eq_None_iff [symmetric] split: option.split)
qed simp

lemma Merge_leaf:
  "wf_dict s \<Longrightarrow> lookup_keys ks (VDictionary s) = Some v \<Longrightarrow> GetAsDictionary v = None \<Longrightarrow>
     lookup_keys ks (VDictionary (MergeDictionary s d)) = Some v"
proof (induction ks arbitrary: s d)
  case (Cons k ks)
  then obtain m where m: "map_of s k = Some m" "lookup_keys ks m = Some v" by (auto split: bind_splits)
  have "lookup_keys ks (merged m old) = Some v" for old
  proof (cases "\<exists>ms sub. m = VDictionary ms \<and> old = Some (VDictionary sub)")
    case True
    then obtain ms sub where x: "m = VDictionary ms" "old = Some (VDictionary sub)" by blast
    have "lookup_keys ks (VDictionary (MergeDictionary ms sub)) = Some v"
      using Cons.IH wf_map_of [OF Cons.prems(1) m(1)] m(2) Cons.prems(3) unfolding x by blast
    then show ?thesis by (simp add: merged_def x)
  next
    case False
    then have "merged m old = m" by (auto simp: merged_def split: base_value.splits option.splits)
    then show ?thesis using m(2) by simp
  qed
  then show ?case using m(1) by (simp add: Merge_keys [OF Cons.prems(1)])
qed auto

lemma Merge_other:
  "wf_dict s \<Longrightarrow> lookup_keys ks (VDictionary s) = None \<Longrightarrow>
     (\<And>ls v. prefix ls ks \<Longrightarrow> lookup_keys ls (VDictionary s) = Some v \<Longrightarrow> GetAsDictionary v \<noteq> None) \<Longrightarrow>
     lookup_keys ks (VDictionary (MergeDictionary s d)) = lookup_keys ks (VDictionary d)"
proof (induction ks arbitrary: s d)
  case (Cons k ks)
  show ?case
  proof (cases "map_of s k")
    case None
    then show ?thesis by (simp add: Merge_keys [OF Cons.prems(1)])
  next
    case (Some m)
    then obtain ms where m: "m = VDictionary ms"
      using Cons.prems(3) [of "[k]" m] by (auto simp: GetAsDictionary_children)
    have n: "lookup_keys ks (VDictionary ms) = None" using Cons.prems(2) Some m by simp
    have "GetAsDictionary v \<noteq> None" if "prefix ls ks" "lookup_keys ls (VDictionary ms) = Some v" for ls v
      using Cons.prems(3) [of "k # ls" v] that Some m by simp
    then have ih: "lookup_keys ks (VDictionary (MergeDictionary ms sub)) = lookup_keys ks (VDictionary sub)" for sub
      using Cons.IH [OF _ n] wf_map_of [OF Cons.prems(1) Some] m by blast
    obtain k' ks' where ks: "ks = k' # ks'" using n by (cases ks) auto
    have "lookup_keys ks (merged m old) = Option.bind old (lookup_keys ks)" for old
      using ih n by (auto simp: merged_def m ks split: option.splits base_value.splits)
    then show ?thesis using Some by (simp add: Merge_keys [OF Cons.prems(1)])
  qed
qed simp

lemma dictionary_induct [case_names dict]:
  assumes "\<And>s. (\<And>k ms. map_of s k = Some (VDictionary ms) \<Longrightarrow> P ms) \<Longrightarrow> P s"
  shows "P (s :: dictionary)"
proof (induction "size (VDictionary s)" arbitrary: s rule: less_induct)
  case less
  show ?case
  proof (rule assms)
    fix k ms
    assume "map_of s k = Some (VDictionary ms)"
    then have "(k, VDictionary ms) \<in> set s" by (rule map_of_SomeD)
    then have "size (VDictionary ms) < size (VDictionary s)"
      using size_list_estimation [of "(k, VDictionary ms)" s "size (VDictionary ms)" "size_prod (\<lambda>x. 0) size"] by simp
    then show "P ms" by (rule less)
  qed
qed

lemma Merge_self: "wf_dict s \<Longrightarrow> MergeDictionary s s = s"
proof (induction s rule: dictionary_induct)
  case (dict s)
  have "merged m (Some m) = m" if m: "map_of s k = Some m" for k m
    using dict.IH wf_map_of [OF dict.prems m] m by (auto simp: merged_def split: base_value.splits)
  then have "map_of (MergeDictionary s s) = map_of s"
    by (auto simp: fun_eq_iff Merge_keys [OF dict.prems] split: option.split)
  then show ?case using wf_Merge [OF dict.prems dict.prems] dict.prems by (intro sorted_map_of_eq) auto
qed

lemma Merge_idem: "wf_dict s \<Longrightarrow> wf_dict d \<Longrightarrow> MergeDictionary s (MergeDictionary s d) = MergeDictionary s d"
proof (induction s arbitrary: d rule: dictionary_induct)
  case (dict s)
  have "merged m (Some (merged m (map_of d k))) = merged m (map_of d k)" if m: "map_of s k = Some m" for k m
  proof (cases "\<exists>ms sub. m = VDictionary ms \<and> map_of d k = Some (VDictionary sub)")
    case True
    then obtain ms sub where x: "m = VDictionary ms" "map_of d k = Some (VDictionary sub)" by blast
    have "MergeDictionary ms (MergeDictionary ms sub) = MergeDictionary ms sub"
      using dict.IH wf_map_of [OF dict.prems(1) m] wf_map_of [OF dict.prems(2) x(2)] m x(1) by blast
    then show ?thesis by (simp add: merged_def x)
  next
    case False
    then have "merged m (map_of d k) = m" by (auto simp: merged_def split: base_value.splits option.splits)
    moreover have "merged m (Some m) = m"
      using Merge_self wf_map_of [OF dict.prems(1) m] by (auto simp: merged_def split: base_value.splits)
    ultimately show ?thesis by simp
  qed
  then have "map_of (MergeDictionary s (MergeDictionary s d)) = map_of (MergeDictionary s d)"
    by (auto simp: fun_eq_iff Merge_keys [OF dict.prems(1)] split: option.split)
  moreover have "wf_dict (MergeDictionary s d)" by (rule wf_Merge [OF dict.prems])
  moreover have "wf_dict (MergeDictionary s (MergeDictionary s d))"
    by (rule wf_Merge [OF dict.prems(1) wf_Merge [OF dict.prems]])
  ultimately show ?case by (intro sorted_map_of_eq) simp_all
qed

text \<open>C35: \<open>MergeDictionary\<close> puts every leaf of the merged dictionary at its path, keeps what was at every path
  that the merged dictionary neither has nor cuts off by a leaf above it, and merging once more changes
  nothing.\<close>

theorem merge_dictionary:
  assumes "wf_dict s" "wf_dict d"
  shows "(\<forall>v. Dictionary_Get p s = Some v \<and> GetAsDictionary v = None \<longrightarrow>
      Dictionary_Get p (MergeDictionary s d) = Some v) \<and>
    (Dictionary_Get p s = None \<and>
       (\<forall>ks v. prefix ks (keys_of p) \<and> lookup_keys ks (VDictionary s) = Some v \<longrightarrow> GetAsDictionary v \<noteq> None) \<longrightarrow>
       Dictionary_Get p (MergeDictionary s d) = Dictionary_Get p d) \<and>
    MergeDictionary s (MergeDictionary s d) = MergeDictionary s d"
  using Merge_leaf [OF assms(1)] Merge_other [OF assms(1)] Merge_idem [OF assms]
  unfolding Get_lookup by blast

section \<open>Copies without empty children\<close>

fun no_empty :: "base_value \<Rightarrow> bool" where
  "no_empty (VDictionary es) = (es \<noteq> [] \<and> (\<forall>e\<in>set es. no_empty (snd e)))"
| "no_empty (VList vs) = (vs \<noteq> [] \<and> (\<forall>v\<in>set vs. no_empty v))"
| "no_empty v = True"

definition leaf :: "base_value \<Rightarrow> bool" where
  "leaf v = (GetAsDictionary v = None \<and> GetAsList v = None)"

lemma leaf_no_empty: "leaf v \<Longrightarrow> no_empty v"
  by (cases v) (simp_all add: leaf_def)

lemma leaf_DeepCopy: "leaf v \<Longrightarrow> leaf (DeepCopy v)"
  by (cases v) (simp_all add: leaf_def FundamentalValue_double_def)

lemma copy_nonempty_no_empty:
  "CopyWithoutEmptyChildren v = Some w \<Longrightarrow> no_empty w"
  "(\<forall>e\<in>set copy. no_empty (snd e)) \<Longrightarrow> \<forall>e\<in>set (copy_nonempty_entries es copy). no_empty (snd e)"
  "(\<forall>x\<in>set items. no_empty x) \<Longrightarrow> \<forall>x\<in>set (copy_nonempty_items vs items). no_empty x"
proof (induction v and es copy and vs items arbitrary: w
    rule: CopyWithoutEmptyChildren_copy_nonempty_entries_copy_nonempty_items.induct)
  case (1 l)
  then show ?case by (auto simp: Let_def split: if_splits)
next
  case (2 d)
  then show ?case by (auto simp: Let_def split: if_splits)
next
  case (5 e es copy)
  let ?c = "case CopyWithoutEmptyChildren (snd e) of None \<Rightarrow> copy | Some child \<Rightarrow> map_put (fst e) child copy"
  have "\<forall>e\<in>set ?c. no_empty (snd e)"
    using 5(1) 5(3) map_put_set by (cases "CopyWithoutEmptyChildren (snd e)") fastforce+
  from 5(2) [OF this] show ?case by (simp only: copy_nonempty_entries.simps)
next
  case (7 v vs copy)
  let ?items = "case CopyWithoutEmptyChildren v of None \<Rightarrow> copy | Some child \<Rightarrow> copy @ [child]"
  have "\<forall>x\<in>set ?items. no_empty x" using 7(1) 7(3) by (cases "CopyWithoutEmptyChildren v") simp_all
  from 7(2) [OF this] show ?case by (simp only: copy_nonempty_items.simps)
qed (auto simp: FundamentalValue_double_def)

lemma copy_nonempty_map:
  "distinct (map fst es) \<Longrightarrow> map_of (copy_nonempty_entries es copy) k =
     (case Option.bind (map_of es k) CopyWithoutEmptyChildren of None \<Rightarrow> map_of copy k | Some c \<Rightarrow> Some c)"
proof (induction es arbitrary: copy)
  case (Cons e es)
  have "map_of es (fst e) = None" using Cons.prems by (simp add: map_of_eq_None_iff)
  then show ?case using Cons by (cases e) (auto split: option.split)
qed simp

lemma copy_nonempty_leaf:
  "wf_value v \<Longrightarrow> leaf x \<Longrightarrow>
     Option.bind (CopyWithoutEmptyChildren v) (lookup_keys ks) = Some x \<longleftrightarrow> lookup_keys ks v = Some x"
proof (induction ks arbitrary: v)
  case Nil
  show ?case
  proof (cases "leaf v")
    case True
    then have "CopyWithoutEmptyChildren v = Some v"
      using DeepCopy_id(1) [OF Nil.prems(1)] by (cases v) (simp_all add: leaf_def)
    then show ?thesis by simp
  next
    case False
    then show ?thesis using Nil.prems(2) by (cases v) (auto simp: leaf_def Let_def)
  qed
next
  case (Cons k ks)
  show ?case
  proof (cases v)
    case (VDictionary d)
    let ?copy = "copy_nonempty_entries d []"
    have "distinct (map fst d)" using Cons.prems(1) VDictionary sorted_distinct by simp
    then have "map_of ?copy k = Option.bind (map_of d k) CopyWithoutEmptyChildren"
      by (simp add: copy_nonempty_map split: option.split)
    moreover have "Option.bind (CopyWithoutEmptyChildren w) (lookup_keys ks) = Some x \<longleftrightarrow> lookup_keys ks w = Some x"
      if "map_of d k = Some w" for w
      using Cons.IH [OF _ Cons.prems(2)] wf_map_of [of d k w] Cons.prems(1) VDictionary that by blast
    moreover have "Option.bind (CopyWithoutEmptyChildren v) (lookup_keys (k # ks)) = Option.bind (map_of ?copy k) (lookup_keys ks)"
      by (simp add: VDictionary Let_def)
    moreover have "lookup_keys (k # ks) v = Option.bind (map_of d k) (lookup_keys ks)" by (simp add: VDictionary)
    ultimately show ?thesis by (cases "map_of d k") (simp_all del: lookup_keys.simps)
  next
    case (VDouble d)
    then show ?thesis by (simp add: FundamentalValue_double_def)
  qed (simp_all add: Let_def)
qed

lemma copy_nonempty_id:
  "wf_value v \<Longrightarrow> no_empty v \<Longrightarrow> CopyWithoutEmptyChildren v = Some v"
  "(\<forall>e\<in>set es. wf_value (snd e) \<and> no_empty (snd e)) \<Longrightarrow> keys_sorted (copy @ es) \<Longrightarrow> copy_nonempty_entries es copy = copy @ es"
  "(\<forall>x\<in>set vs. wf_value x \<and> no_empty x) \<Longrightarrow> copy_nonempty_items vs items = items @ vs"
proof (induction v and es copy and vs items
    rule: CopyWithoutEmptyChildren_copy_nonempty_entries_copy_nonempty_items.induct)
  case (5 e es copy)
  have "\<forall>p\<in>set copy. fst p < fst e" using 5(4) by (auto simp: keys_sorted_def sorted_wrt_append)
  then have "map_put (fst e) (snd e) copy = copy @ [e]" using map_put_last by fastforce
  then show ?case using 5 by simp
qed (simp_all add: FundamentalValue_double_def)

text \<open>\<open>DeepCopyWithoutEmptyChildren\<close> has no empty dictionary or list inside, at any depth, has the same
  leaves at the same paths as the original, and is the original when that has no empty children.\<close>

theorem copy_without_empty_children:
  assumes "wf_dict d"
  shows "(\<forall>e\<in>set (DeepCopyWithoutEmptyChildren d). no_empty (snd e)) \<and>
    (\<forall>x. leaf x \<longrightarrow> (Dictionary_Get p (DeepCopyWithoutEmptyChildren d) = Some x \<longleftrightarrow> Dictionary_Get p d = Some x)) \<and>
    ((\<forall>e\<in>set d. no_empty (snd e)) \<longrightarrow> DeepCopyWithoutEmptyChildren d = d)"
proof (intro conjI allI impI)
  let ?copy = "copy_nonempty_entries d []"
  have c: "DeepCopyWithoutEmptyChildren d = ?copy" by (simp add: DeepCopyWithoutEmptyChildren_def Let_def)
  then show "\<forall>e\<in>set (DeepCopyWithoutEmptyChildren d). no_empty (snd e)"
    using copy_nonempty_no_empty(2) [of "[]" d] by simp
  show "Dictionary_Get p (DeepCopyWithoutEmptyChildren d) = Some x \<longleftrightarrow> Dictionary_Get p d = Some x" if x: "leaf x" for x
  proof -
    obtain k ks where k: "keys_of p = k # ks" by (cases "keys_of p") (auto simp: keys_of_def)
    have "Option.bind (CopyWithoutEmptyChildren (VDictionary d)) (lookup_keys (k # ks)) =
        lookup_keys (k # ks) (VDictionary ?copy)" by (simp add: Let_def)
    then show ?thesis using copy_nonempty_leaf [OF assms x, of "k # ks"] by (simp only: Get_lookup k c)
  qed
  show "DeepCopyWithoutEmptyChildren d = d" if "\<forall>e\<in>set d. no_empty (snd e)"
    using copy_nonempty_id(2) [of d "[]"] assms that c by simp
qed

section \<open>Comparison\<close>

text \<open>A value with the zeros of its doubles positive.\<close>

fun positive_zeros :: "base_value \<Rightarrow> base_value" where
  "positive_zeros (VDouble d) = VDouble (if take_bit 63 d = 0 then 0 else d)"
| "positive_zeros (VDictionary es) = VDictionary (map (\<lambda>e. (fst e, positive_zeros (snd e))) es)"
| "positive_zeros (VList vs) = VList (map positive_zeros vs)"
| "positive_zeros v = v"

lemma double_eq_zeros:
  "IsFinite a \<Longrightarrow> IsFinite b \<Longrightarrow>
     double_eq a b \<longleftrightarrow> (if take_bit 63 a = 0 then 0 else a) = (if take_bit 63 b = 0 then 0 else b)"
  by (auto simp: double_eq_def IsNaN_def)

lemma Equals_zeros:
  "wf_value v \<Longrightarrow> wf_value w \<Longrightarrow> Value_Equals v w \<longleftrightarrow> positive_zeros v = positive_zeros w"
  "(\<forall>e\<in>set ls. wf_value (snd e)) \<Longrightarrow> (\<forall>e\<in>set rs. wf_value (snd e)) \<Longrightarrow>
     equal_entries ls rs \<longleftrightarrow>
     map (\<lambda>e. (fst e, positive_zeros (snd e))) ls = map (\<lambda>e. (fst e, positive_zeros (snd e))) rs"
  "(\<forall>x\<in>set vs. wf_value x) \<Longrightarrow> (\<forall>x\<in>set ws. wf_value x) \<Longrightarrow>
     equal_items vs ws \<longleftrightarrow> map positive_zeros vs = map positive_zeros ws"
proof (induction v w and ls rs and vs ws rule: Value_Equals_equal_entries_equal_items.induct)
  case (4 d other)
  then show ?case by (cases other) (simp_all add: double_eq_zeros)
next
  case (1 other)
  then show ?case by (cases other) auto
qed (auto split: base_value.splits)

text \<open>On well-formed values \<open>Equals\<close> is an equivalence; it holds exactly between values that are the
  same but for the signs of zeros, and a deep copy is the value itself.\<close>

theorem equals_is_equivalence:
  assumes "wf_value a" "wf_value b" "wf_value c"
  shows "Value_Equals a a \<and> (Value_Equals a b \<longleftrightarrow> Value_Equals b a) \<and>
    (Value_Equals a b \<and> Value_Equals b c \<longrightarrow> Value_Equals a c) \<and>
    (Value_Equals a b \<longleftrightarrow> positive_zeros a = positive_zeros b) \<and> DeepCopy a = a"
  using Equals_zeros(1) assms DeepCopy_id(1) [OF assms(1)] by metis

section \<open>Lists\<close>

lemma Equals_sym: "wf_value v \<Longrightarrow> wf_value w \<Longrightarrow> Value_Equals v w \<longleftrightarrow> Value_Equals w v"
  using Equals_zeros(1) by metis

lemma RemoveValue_Find:
  "wf_value v \<Longrightarrow> \<forall>x\<in>set l. wf_value x \<Longrightarrow>
     List_RemoveValue v l = map_option (\<lambda>i. (i, take i l @ drop (Suc i) l)) (List_Find v l)"
proof (induction l)
  case (Cons x xs)
  have "Value_Equals v x \<longleftrightarrow> Value_Equals x v" using Cons.prems Equals_sym by simp
  then show ?case using Cons by (cases "find_idx (Value_Equals v) xs") (simp_all add: List_Find_def)
qed (simp add: List_Find_def)

lemma AppendIfNotPresent_Find:
  "wf_value v \<Longrightarrow> \<forall>x\<in>set l. wf_value x \<Longrightarrow>
     AppendIfNotPresent v l = (if List_Find v l = None then (True, l @ [v]) else (False, l))"
  using Equals_sym [of v] by (auto simp: AppendIfNotPresent_def List_Find_def list_ex_iff)

text \<open>The searches of a list agree: \<open>Find\<close>, \<open>Remove\<close> of a value and \<open>AppendIfNotPresent\<close> take the same
  first element that equals the value, although they compare in different directions; and \<open>Remove\<close> undoes
  \<open>Insert\<close> at every index.\<close>

theorem list_searches_agree:
  assumes "wf_value v" "\<forall>x\<in>set l. wf_value x"
  shows "List_RemoveValue v l = map_option (\<lambda>i. (i, take i l @ drop (Suc i) l)) (List_Find v l) \<and>
    AppendIfNotPresent v l = (if List_Find v l = None then (True, l @ [v]) else (False, l)) \<and>
    (\<forall>i l'. List_Insert i w l = Some l' \<longrightarrow> List_Remove i l' = Some (w, l) \<and> List_Get i l' = Some w)"
  using RemoveValue_Find [OF assms] AppendIfNotPresent_Find [OF assms]
  by (auto simp: List_Insert_def List_Remove_def List_Get_def nth_append min_def split: if_splits)

section \<open>Every operation keeps values well-formed\<close>

lemma wf_copy_without_empty: "wf_dict d \<Longrightarrow> wf_dict (DeepCopyWithoutEmptyChildren d)"
proof -
  assume d: "wf_dict d"
  have "DeepCopyWithoutEmptyChildren d = copy_nonempty_entries d []"
    by (simp add: DeepCopyWithoutEmptyChildren_def Let_def)
  then show ?thesis using copy_nonempty_wf(2) [of d "[]"] d by simp
qed

lemma wf_removed: "wf_dict d \<Longrightarrow> RemoveWithoutPathExpansion k d = Some (w, d') \<Longrightarrow> wf_value w \<and> wf_dict d'"
  using wf_map_of [of d k w]
  by (auto simp: RemoveWithoutPathExpansion_def filter_sorted split: option.splits)

lemma wf_typed_get:
  "wf_value v \<Longrightarrow> GetAsDictionary v = Some d \<Longrightarrow> wf_dict d"
  "wf_value v \<Longrightarrow> GetAsList v = Some l \<Longrightarrow> wf_value (VList l)"
  by (cases v; simp)+

lemma wf_Get: "wf_dict d \<Longrightarrow> Dictionary_Get p d = Some v \<Longrightarrow> wf_value v"
  using wf_lookup [of "VDictionary d" "keys_of p" v] by (simp add: Get_lookup)

lemma wf_List_Get: "wf_value (VList l) \<Longrightarrow> List_Get i l = Some v \<Longrightarrow> wf_value v"
  by (auto simp: List_Get_def split: if_splits)

lemma wf_append: "wf_value (VList l) \<Longrightarrow> wf_value v \<Longrightarrow> wf_value (VList (List_Append v l))"
  by (auto simp: List_Append_def)

lemma wf_string16 [simp]: "wf_value (StringValue_of_string16 s)"
  by (simp add: StringValue_of_string16_def)

lemma wf_fold_append:
  "(\<And>x. wf_value (f x)) \<Longrightarrow> wf_value (VList l) \<Longrightarrow> wf_value (VList (fold (\<lambda>x. List_Append (f x)) xs l))"
  by (induction xs arbitrary: l) (simp_all only: fold_simps comp_apply wf_append)

lemma wf_append_strings:
  "wf_value (VList l) \<Longrightarrow> wf_value (VList (AppendStrings ss l))"
  "wf_value (VList l) \<Longrightarrow> wf_value (VList (AppendStrings16 ts l))"
  unfolding AppendStrings_def AppendStrings16_def AppendString_def AppendString16_def
  by (rule wf_fold_append; simp)+

lemma wf_list_set: "wf_value (VList l) \<Longrightarrow> wf_value v \<Longrightarrow> wf_value (VList (ListValue_Set i v l))"
  using set_update_subset_insert [of l i v] by (auto simp: ListValue_Set_def)

lemma wf_list_remove: "wf_value (VList l) \<Longrightarrow> List_Remove i l = Some (w, l') \<Longrightarrow> wf_value w \<and> wf_value (VList l')"
  by (auto simp: List_Remove_def split: if_splits dest!: in_set_takeD in_set_dropD)

lemma wf_list_erase: "wf_value (VList l) \<Longrightarrow> i < length l \<Longrightarrow> List_Erase i l = (w, l') \<Longrightarrow> wf_value w \<and> wf_value (VList l')"
  by (auto simp: List_Erase_def dest!: in_set_takeD in_set_dropD)

lemma wf_list_remove_value: "wf_value (VList l) \<Longrightarrow> List_RemoveValue v l = Some (i, l') \<Longrightarrow> wf_value (VList l')"
proof (induction l arbitrary: i l')
  case (Cons x xs)
  then show ?case by (fastforce split: if_splits)
qed simp

lemma wf_list_insert: "wf_value (VList l) \<Longrightarrow> wf_value v \<Longrightarrow> List_Insert i v l = Some l' \<Longrightarrow> wf_value (VList l')"
  by (auto simp: List_Insert_def split: if_splits dest!: in_set_takeD in_set_dropD)

text \<open>What the readers of values return is well-formed, whatever bytes they read.\<close>

lemma wf_read_list:
  assumes "returns R wf_value" "wf_value (VList l)"
  shows "returns (ReadListValue R l) (\<lambda>l. wf_value (VList l))"
  unfolding ReadListValue_def
proof (rule returns_rbind, rule returns_for_loop)
  fix i acc assume acc: "wf_value (VList acc)"
  show "returns (rbind R (\<lambda>v. rret (ListValue_Set i v acc))) (\<lambda>l. wf_value (VList l))"
    by (rule returns_rbind_from [OF assms(1)]) (simp only: returns_rret wf_list_set [OF acc])
qed (rule assms(2))

lemma wf_read_dict:
  assumes "returns R wf_value" "wf_dict d"
  shows "returns (ReadDictionaryValue R d) wf_dict"
  unfolding ReadDictionaryValue_def
proof (rule returns_rbind, rule returns_for_loop)
  fix acc assume acc: "wf_dict acc"
  have "returns (rbind R (\<lambda>v. rret (map_put k v acc))) wf_dict" for k
    by (rule returns_rbind_from [OF assms(1)]) (simp only: returns_rret wf_put [OF acc])
  then show "returns (rbind StringParam_Read (\<lambda>k. rbind R (\<lambda>v. rret (map_put k v acc)))) wf_dict"
    by (rule returns_rbind)
qed (rule assms(2))

lemma wf_empty: "wf_dict []" "wf_value (VList [])"
  by simp_all

lemma wf_read_levels: "returns (ReadValue_levels n) wf_value"
proof (induction n)
  case (Suc n)
  note r = wf_read_dict [OF Suc.IH wf_empty(1)] wf_read_list [OF Suc.IH wf_empty(2)]
  show ?case
    unfolding ReadValue_levels.simps
    by (intro returns_rbind)
      (auto simp del: wf_value.simps(2,3) intro!: returns_rbind returns_rbind_from [OF r(1)]
        returns_rbind_from [OF r(2)])
qed simp

lemma wf_read: "ReadValue r it = (Some v, it') \<Longrightarrow> wf_value v"
  using wf_read_levels unfolding ReadValue_def returns_def by blast

lemma wf_read_containers:
  "wf_dict d \<Longrightarrow> DictionaryParam_Read d it = (Some d', it') \<Longrightarrow> wf_dict d'"
  "wf_value (VList l) \<Longrightarrow> ListParam_Read l it = (Some l', it') \<Longrightarrow> wf_value (VList l')"
proof -
  have r: "returns (ReadValue 1) wf_value" unfolding ReadValue_def by (rule wf_read_levels)
  assume d: "wf_dict d" "DictionaryParam_Read d it = (Some d', it')"
  have "returns (DictionaryParam_Read d) wf_dict"
    unfolding DictionaryParam_Read_def
    by (rule returns_rbind) (simp only: returns_rfail wf_read_dict [OF r d(1)] split: if_split, simp)
  then show "wf_dict d'" using d(2) unfolding returns_def by blast
next
  have r: "returns (ReadValue 1) wf_value" unfolding ReadValue_def by (rule wf_read_levels)
  assume l: "wf_value (VList l)" "ListParam_Read l it = (Some l', it')"
  have "returns (ListParam_Read l) (\<lambda>l. wf_value (VList l))"
    unfolding ListParam_Read_def
    by (rule returns_rbind) (simp only: returns_rfail wf_read_list [OF r l(1)] split: if_split, simp)
  then show "wf_value (VList l')" using l(2) unfolding returns_def by blast
qed

text \<open>The values a program can have: made by the constructors, changed and taken out by every operation
  of \<open>DictionaryValue\<close> and \<open>ListValue\<close> (the other typed setters and getters are these with the
  constructors, \<open>Clear\<close> and \<open>Swap\<close> give values that are made already), copied, or read from the bytes of
  a message.\<close>

inductive made :: "base_value \<Rightarrow> bool" where
  "made VNull"
| "made (VBoolean b)"
| "made (VInteger i)"
| made_double: "made (FundamentalValue_double x)"
| "made (VString s)"
| "made (StringValue_of_string16 s16)"
| "made (VBinary s)"
| made_dictionary: "made (VDictionary [])"
| made_list: "made (VList [])"
| "made v \<Longrightarrow> made (DeepCopy v)"
| "made v \<Longrightarrow> CopyWithoutEmptyChildren v = Some w \<Longrightarrow> made w"
| made_Set: "made (VDictionary d) \<Longrightarrow> made v \<Longrightarrow> made (VDictionary (Dictionary_Set p v d))"
| "made (VDictionary d) \<Longrightarrow> made v \<Longrightarrow> made (VDictionary (SetWithoutPathExpansion p v d))"
| made_SetDouble: "made (VDictionary d) \<Longrightarrow> made (VDictionary (SetDouble p x d))"
| "made (VDictionary d) \<Longrightarrow> made (VDictionary (SetDoubleWithoutPathExpansion p x d))"
| "made (VDictionary d) \<Longrightarrow> Dictionary_Get p d = Some v \<Longrightarrow> made v"
| "made (VDictionary d) \<Longrightarrow> GetWithoutPathExpansion p d = Some v \<Longrightarrow> made v"
| "made (VDictionary d) \<Longrightarrow> GetDictionary p d = Some d' \<Longrightarrow> made (VDictionary d')"
| "made (VDictionary d) \<Longrightarrow> GetList p d = Some l \<Longrightarrow> made (VList l)"
| "made (VDictionary d) \<Longrightarrow> Dictionary_Remove p d = Some (w, d') \<Longrightarrow> made w"
| "made (VDictionary d) \<Longrightarrow> Dictionary_Remove p d = Some (w, d') \<Longrightarrow> made (VDictionary d')"
| "made (VDictionary d) \<Longrightarrow> RemoveWithoutPathExpansion p d = Some (w, d') \<Longrightarrow> made w"
| "made (VDictionary d) \<Longrightarrow> RemoveWithoutPathExpansion p d = Some (w, d') \<Longrightarrow> made (VDictionary d')"
| made_Merge: "made (VDictionary s') \<Longrightarrow> made (VDictionary d) \<Longrightarrow> made (VDictionary (MergeDictionary s' d))"
| "made (VDictionary d) \<Longrightarrow> made (VDictionary (DeepCopyWithoutEmptyChildren d))"
| "made (VList l) \<Longrightarrow> made v \<Longrightarrow> made (VList (ListValue_Set i' v l))"
| "made (VList l) \<Longrightarrow> List_Get i' l = Some v \<Longrightarrow> made v"
| "made (VList l) \<Longrightarrow> List_Remove i' l = Some (w, l') \<Longrightarrow> made w"
| "made (VList l) \<Longrightarrow> List_Remove i' l = Some (w, l') \<Longrightarrow> made (VList l')"
| "made (VList l) \<Longrightarrow> List_RemoveValue v l = Some (i', l') \<Longrightarrow> made (VList l')"
| "made (VList l) \<Longrightarrow> i' < length l \<Longrightarrow> List_Erase i' l = (w, l') \<Longrightarrow> made w"
| "made (VList l) \<Longrightarrow> i' < length l \<Longrightarrow> List_Erase i' l = (w, l') \<Longrightarrow> made (VList l')"
| made_Append: "made (VList l) \<Longrightarrow> made v \<Longrightarrow> made (VList (List_Append v l))"
| "made (VList l) \<Longrightarrow> made (VList (AppendDouble x l))"
| "made (VList l) \<Longrightarrow> made (VList (AppendStrings ss l))"
| "made (VList l) \<Longrightarrow> made (VList (AppendStrings16 ts l))"
| "made (VList l) \<Longrightarrow> made v \<Longrightarrow> made (VList (snd (AppendIfNotPresent v l)))"
| "made (VList l) \<Longrightarrow> made v \<Longrightarrow> List_Insert i' v l = Some l' \<Longrightarrow> made (VList l')"
| made_Read: "ReadValue r it = (Some v, it') \<Longrightarrow> made v"
| "made (VDictionary d) \<Longrightarrow> DictionaryParam_Read d it = (Some d', it') \<Longrightarrow> made (VDictionary d')"
| "made (VList l) \<Longrightarrow> ListParam_Read l it = (Some l', it') \<Longrightarrow> made (VList l')"

lemma wf_copies:
  "wf_value v \<Longrightarrow> wf_value (DeepCopy v)"
  "wf_dict d \<Longrightarrow> wf_value v \<Longrightarrow> wf_dict (SetWithoutPathExpansion p v d)"
  "wf_dict d \<Longrightarrow> wf_dict (SetDouble p x d)"
  "wf_dict d \<Longrightarrow> wf_dict (SetDoubleWithoutPathExpansion p x d)"
  "wf_value (VList l) \<Longrightarrow> wf_value (VList (AppendDouble x l))"
  "wf_value (VList l) \<Longrightarrow> wf_value v \<Longrightarrow> wf_value (VList (snd (AppendIfNotPresent v l)))"
  unfolding SetWithoutPathExpansion_def SetDouble_def SetDoubleWithoutPathExpansion_def AppendDouble_def
  by (rule wf_put wf_Set wf_append wf_FundamentalValue_double
      | assumption | simp only: DeepCopy_id(1) | simp add: AppendIfNotPresent_def)+

lemma wf_gets:
  assumes "wf_dict d"
  shows "GetWithoutPathExpansion p d = Some v \<Longrightarrow> wf_value v"
    and "GetDictionary p d = Some d' \<Longrightarrow> wf_dict d'"
    and "GetList p d = Some l \<Longrightarrow> wf_value (VList l)"
proof -
  show "GetWithoutPathExpansion p d = Some v \<Longrightarrow> wf_value v"
    unfolding GetWithoutPathExpansion_def by (rule wf_map_of [OF assms])
  show "wf_dict d'" if g: "GetDictionary p d = Some d'"
  proof (cases "Dictionary_Get p d")
    case (Some x)
    then show ?thesis using wf_typed_get(1) [OF wf_Get [OF assms Some]] g by (simp only: GetDictionary_def bind.simps)
  qed (use g in \<open>simp add: GetDictionary_def\<close>)
  show "wf_value (VList l)" if g: "GetList p d = Some l"
  proof (cases "Dictionary_Get p d")
    case (Some x)
    then show ?thesis using wf_typed_get(2) [OF wf_Get [OF assms Some]] g by (simp only: GetList_def bind.simps)
  qed (use g in \<open>simp add: GetList_def\<close>)
qed

lemmas wf_operations = wf_copies wf_gets wf_Set wf_Get wf_Merge wf_append wf_append_strings wf_list_set
  wf_List_Get wf_list_remove_value wf_list_insert wf_read wf_read_containers wf_copy_without_empty
  copy_nonempty_wf(1)
  wf_Remove [THEN conjunct1] wf_Remove [THEN conjunct2]
  wf_removed [THEN conjunct1] wf_removed [THEN conjunct2]
  wf_list_remove [THEN conjunct1] wf_list_remove [THEN conjunct2]
  wf_list_erase [THEN conjunct1] wf_list_erase [THEN conjunct2]

lemma made_wf: "made v \<Longrightarrow> wf_value v"
  by (induction v rule: made.induct)
    (rule wf_operations, assumption+ | (simp; fail))+

fun finite_doubles :: "base_value \<Rightarrow> bool" where
  "finite_doubles (VDouble d) = IsFinite d"
| "finite_doubles (VDictionary es) = (\<forall>e\<in>set es. finite_doubles (snd e))"
| "finite_doubles (VList vs) = (\<forall>v\<in>set vs. finite_doubles v)"
| "finite_doubles v = True"

lemma wf_finite: "wf_value v \<Longrightarrow> finite_doubles v"
  by (induction v rule: finite_doubles.induct) auto

text \<open>C25: No value that a program builds with the operations of \<open>base/values.cc\<close> or receives in a message,
  whatever its bytes, holds a double that is a NaN or infinite, at any depth; so it equals itself and its
  deep copy, which a value with a NaN does not, and the copy has exactly its contents.\<close>

theorem values_well_formed:
  assumes "made v"
  shows "finite_doubles v \<and> Value_Equals v v \<and> Value_Equals v (DeepCopy v) \<and> DeepCopy v = v"
  using made_wf [OF assms] wf_finite DeepCopy_id(1) Equals_zeros(1) by metis

section \<open>Witnesses\<close>

definition sample_dict :: dictionary where
  "sample_dict = [([97], VDictionary [([98], VInteger 1)]), ([99], VList [VDouble 0, VNull]), ([100], VDictionary [])]"

definition sample_merge :: dictionary where
  "sample_merge = [([97], VDictionary [([120], VBoolean True)]), ([101], VString [1])]"

lemma sample_wf: "wf_dict sample_dict" "wf_dict sample_merge"
  by code_simp+

theorem merge_dictionary_witness:
  "MergeDictionary sample_merge (MergeDictionary sample_merge sample_dict) = MergeDictionary sample_merge sample_dict \<and>
   Dictionary_Get [97, 46, 120] (MergeDictionary sample_merge sample_dict) = Some (VBoolean True)"
proof -
  have "Dictionary_Get [97, 46, 120] sample_merge = Some (VBoolean True)" by code_simp
  then show ?thesis using merge_dictionary [OF sample_wf(2,1), of "[97, 46, 120]"] by simp
qed

theorem dictionary_remove_witness:
  "\<exists>d'. Dictionary_Remove [97, 46, 98] sample_dict = Some (VInteger 1, d') \<and>
     Dictionary_Get [97, 46, 98] d' = None \<and> Dictionary_Get [99] d' = Dictionary_Get [99] sample_dict"
proof -
  have g: "Dictionary_Get [97, 46, 98] sample_dict = Some (VInteger 1)"
    "keys_of [97, 46, 98] = [[97], [98]]" "keys_of [99] = [[99]]" by code_simp+
  then obtain d' where r: "Dictionary_Remove [97, 46, 98] sample_dict = Some (VInteger 1, d')"
    using dictionary_remove [of "[97, 46, 98]" sample_dict] by (metis not_None_eq old.prod.exhaust option.inject)
  have "prefix (keys_of [97, 46, 98]) (keys_of [97, 46, 98])"
    "\<not> prefix (keys_of [97, 46, 98]) (keys_of [99])" "\<not> prefix (keys_of [99]) (keys_of [97, 46, 98])"
    using g by simp_all
  then show ?thesis using dictionary_remove [of "[97, 46, 98]" sample_dict] r by blast
qed

theorem copy_without_empty_children_witness:
  "Dictionary_Get [97, 46, 98] (DeepCopyWithoutEmptyChildren sample_dict) = Some (VInteger 1)"
proof -
  have "Dictionary_Get [97, 46, 98] sample_dict = Some (VInteger 1)" by code_simp
  then show ?thesis
    using copy_without_empty_children [OF sample_wf(1), of "[97, 46, 98]"] by (simp add: leaf_def)
qed

theorem equals_is_equivalence_witness: "Value_Equals (VDouble 0) (VDouble 0x8000000000000000)"
proof -
  have "wf_value (VDouble 0)" "wf_value (VDouble 0x8000000000000000)" by code_simp+
  moreover have "positive_zeros (VDouble 0) = positive_zeros (VDouble 0x8000000000000000)" by code_simp
  ultimately show ?thesis using equals_is_equivalence by blast
qed

theorem list_searches_agree_witness:
  "AppendIfNotPresent (VDouble 0x8000000000000000) [VNull, VDouble 0] = (False, [VNull, VDouble 0])"
proof -
  have "wf_value (VDouble 0x8000000000000000)" "\<forall>x\<in>set [VNull, VDouble 0]. wf_value x"
    "List_Find (VDouble 0x8000000000000000) [VNull, VDouble 0] = Some 1" by code_simp+
  then show ?thesis using list_searches_agree by simp
qed

theorem values_well_formed_witness:
  "Value_Equals (VDictionary (SetDouble [97] 0x7FF8000000000000 []))
     (DeepCopy (VDictionary (SetDouble [97] 0x7FF8000000000000 [])))"
  using values_well_formed [OF made_SetDouble [OF made_dictionary]] by blast

end
