(* ===== verification/Timer.thy ===== *)
theory Timer
  imports MessageLoop
begin

text \<open>
  \<open>base/timer.{h,cc}\<close>: one-shot and repeating timers on the task runner of their thread.  A timer posts an
  object (\<open>BaseTimerTaskInternal\<close>) as a delayed task and keeps a pointer to it; both forget the other when
  they go.  The state is a timer (\<open>None\<close> when destroyed), the objects pending in the runner, and the readings
  of the clock: the \<open>n\<close>th call of \<open>TimeTicks::Now()\<close> gives \<open>clock n\<close>.  An operation that uses a timer that is
  gone, or runs a null closure, is \<open>None\<close>.  The history records the requests and the calls of the user's task.
\<close>

section \<open>State\<close>

record 'k base_timer =
  tm_scheduled_task :: "nat option"
  tm_delay :: i64
  tm_user_task :: "'k option"
  tm_scheduled_run_time :: i64
  tm_desired_run_time :: i64
  tm_is_repeating :: bool
  tm_retain_user_task :: bool
  tm_is_running :: bool

text \<open>A pending \<open>BaseTimerTaskInternal\<close>: its address, the run time of its task (\<open>0\<close>: at once), and whether
  its \<open>timer_\<close> is set.\<close>

record timer_task =
  tt_addr :: nat
  tt_run_time :: i64
  tt_timer :: bool

datatype 'k timer_event = Requested i64 i64 'k | Stopped | Ran i64 'k

record 'k timer_world =
  tw_timer :: "'k base_timer option"
  tw_tasks :: "timer_task list"
  tw_runner :: bool
  tw_next :: nat
  tw_reads :: nat
  tw_history :: "'k timer_event list"

definition Timer_new :: "bool \<Rightarrow> bool \<Rightarrow> 'k base_timer" where
  "Timer_new retain_user_task is_repeating =
     \<lparr>tm_scheduled_task = None, tm_delay = 0, tm_user_task = None, tm_scheduled_run_time = 0,
      tm_desired_run_time = 0, tm_is_repeating = is_repeating, tm_retain_user_task = retain_user_task,
      tm_is_running = False\<rparr>"

definition Timer_new_retained :: "i64 \<Rightarrow> 'k \<Rightarrow> bool \<Rightarrow> 'k base_timer" where
  "Timer_new_retained delay user_task is_repeating =
     \<lparr>tm_scheduled_task = None, tm_delay = delay, tm_user_task = Some user_task, tm_scheduled_run_time = 0,
      tm_desired_run_time = 0, tm_is_repeating = is_repeating, tm_retain_user_task = True,
      tm_is_running = False\<rparr>"

definition timer_world_new :: "'k base_timer \<Rightarrow> 'k timer_world" where
  "timer_world_new t =
     \<lparr>tw_timer = Some t, tw_tasks = [], tw_runner = True, tw_next = 0, tw_reads = 0, tw_history = []\<rparr>"

definition Now :: "(nat \<Rightarrow> i64) \<Rightarrow> 'k timer_world \<Rightarrow> i64 \<times> 'k timer_world" where
  "Now clock w = (clock (tw_reads w), w\<lparr>tw_reads := tw_reads w + 1\<rparr>)"

abbreviation timer_log :: "'k timer_event \<Rightarrow> 'k timer_world \<Rightarrow> 'k timer_world" where
  "timer_log e w \<equiv> w\<lparr>tw_history := tw_history w @ [e]\<rparr>"

section \<open>The timer and its task\<close>

definition Timer_Stop :: "'k base_timer \<Rightarrow> 'k base_timer" where
  "Timer_Stop t =
     t\<lparr>tm_is_running := False, tm_user_task := if tm_retain_user_task t then tm_user_task t else None\<rparr>"

definition Abandon :: "nat \<Rightarrow> timer_task list \<Rightarrow> timer_task list" where
  "Abandon a = map (\<lambda>x. if tt_addr x = a then x\<lparr>tt_timer := False\<rparr> else x)"

definition AbandonScheduledTask :: "'k base_timer \<Rightarrow> 'k timer_world \<Rightarrow> 'k timer_world" where
  "AbandonScheduledTask t w =
     (case tm_scheduled_task t of
        None \<Rightarrow> w\<lparr>tw_timer := Some t\<rparr>
      | Some a \<Rightarrow> w\<lparr>tw_timer := Some (t\<lparr>tm_scheduled_task := None\<rparr>), tw_tasks := Abandon a (tw_tasks w)\<rparr>)"

definition StopAndAbandon :: "'k base_timer \<Rightarrow> 'k timer_world \<Rightarrow> 'k timer_world" where
  "StopAndAbandon t w = AbandonScheduledTask (Timer_Stop t) w"

text \<open>The destructor of \<open>BaseTimerTaskInternal\<close>, for an object that is in no queue any more.\<close>

definition TimerTask_delete :: "timer_task \<Rightarrow> 'k timer_world \<Rightarrow> 'k timer_world option" where
  "TimerTask_delete x w =
     (if tt_timer x then map_option (\<lambda>t. timer_log Stopped (StopAndAbandon t w)) (tw_timer w) else Some w)"

text \<open>The run time a loop computes when a task is posted with a delay.  A runner that is gone refuses the
  task, and the closure deletes the object.\<close>

definition PostNewScheduledTask :: "(nat \<Rightarrow> i64) \<Rightarrow> i64 \<Rightarrow> 'k base_timer \<Rightarrow> 'k timer_world \<Rightarrow> 'k timer_world option" where
  "PostNewScheduledTask clock delay t w =
     (let a = tw_next w;
          x = \<lparr>tt_addr = a, tt_run_time = 0, tt_timer = True\<rparr>;
          w1 = w\<lparr>tw_timer := Some (t\<lparr>tm_is_running := True, tm_scheduled_task := Some a\<rparr>), tw_next := a + 1\<rparr>
      in Option.bind
           (if tw_runner w1
            then let (posted, w2) = Now clock w1
                 in Some (w2\<lparr>tw_tasks := tw_tasks w2 @ [x\<lparr>tt_run_time := if 0 <s delay then posted + delay else 0\<rparr>]\<rparr>)
            else TimerTask_delete x w1)
           (\<lambda>w3. let (n, w4) = Now clock w3
                 in map_option (\<lambda>t4. w4\<lparr>tw_timer := Some (t4\<lparr>tm_scheduled_run_time := n + delay, tm_desired_run_time := n + delay\<rparr>)\<rparr>)
                      (tw_timer w4)))"

definition Timer_Reset :: "(nat \<Rightarrow> i64) \<Rightarrow> 'k base_timer \<Rightarrow> 'k timer_world \<Rightarrow> 'k timer_world option" where
  "Timer_Reset clock t w =
     (if tm_scheduled_task t = None then PostNewScheduledTask clock (tm_delay t) t w
      else let (n, w1) = Now clock w;
               t1 = t\<lparr>tm_desired_run_time := n + tm_delay t\<rparr>
           in if tm_scheduled_run_time t1 <s tm_desired_run_time t1
              then Some (w1\<lparr>tw_timer := Some (t1\<lparr>tm_is_running := True\<rparr>)\<rparr>)
              else let w2 = AbandonScheduledTask t1 w1
                   in Option.bind (tw_timer w2) (\<lambda>t2. PostNewScheduledTask clock (tm_delay t) t2 w2))"

definition SetTaskInfo :: "i64 \<Rightarrow> 'k \<Rightarrow> 'k base_timer \<Rightarrow> 'k base_timer" where
  "SetTaskInfo delay user_task t = t\<lparr>tm_delay := delay, tm_user_task := Some user_task\<rparr>"

definition Timer_Start :: "(nat \<Rightarrow> i64) \<Rightarrow> i64 \<Rightarrow> 'k \<Rightarrow> 'k base_timer \<Rightarrow> 'k timer_world \<Rightarrow> 'k timer_world option" where
  "Timer_Start clock delay user_task t w = Timer_Reset clock (SetTaskInfo delay user_task t) w"

text \<open>\<open>task.Run()\<close>, the last thing \<open>RunScheduledTask\<close> does: what the user's task does to the timer are the next
  operations.  The time of the event is the last reading of the clock before the timer decided to run it.\<close>

definition run_user_task :: "i64 \<Rightarrow> 'k option \<Rightarrow> 'k timer_world \<Rightarrow> 'k timer_world option" where
  "run_user_task n task w = map_option (\<lambda>k. timer_log (Ran n k) w) task"

definition RunScheduledTask :: "(nat \<Rightarrow> i64) \<Rightarrow> 'k base_timer \<Rightarrow> 'k timer_world \<Rightarrow> 'k timer_world option" where
  "RunScheduledTask clock t w =
     (let fire = (\<lambda>w. let task = tm_user_task t; n = clock (tw_reads w - 1)
                      in if tm_is_repeating t
                         then Option.bind (PostNewScheduledTask clock (tm_delay t) t w) (run_user_task n task)
                         else run_user_task n task (w\<lparr>tw_timer := Some (Timer_Stop t)\<rparr>))
      in if \<not> tm_is_running t then Some w
         else if tm_scheduled_run_time t <s tm_desired_run_time t
         then let (n, w1) = Now clock w
              in if n <s tm_desired_run_time t
                 then PostNewScheduledTask clock (tm_desired_run_time t - n) t w1
                 else fire w1
         else fire w)"

text \<open>The runner takes the object out of its queue, runs it and deletes it (its \<open>timer_\<close> is null then).\<close>

definition TimerTask_Run :: "(nat \<Rightarrow> i64) \<Rightarrow> timer_task \<Rightarrow> 'k timer_world \<Rightarrow> 'k timer_world option" where
  "TimerTask_Run clock x w =
     (let w1 = w\<lparr>tw_tasks := filter (\<lambda>y. tt_addr y \<noteq> tt_addr x) (tw_tasks w)\<rparr>
      in if \<not> tt_timer x then Some w1
         else Option.bind (tw_timer w1) (\<lambda>t.
           let t1 = t\<lparr>tm_scheduled_task := None\<rparr> in RunScheduledTask clock t1 (w1\<lparr>tw_timer := Some t1\<rparr>)))"

section \<open>Runs\<close>

text \<open>The operations of the user, and what the runner does: it runs a task whose time has come, or is
  destroyed and deletes its tasks one by one.\<close>

datatype 'k timer_op =
    OpStart i64 'k | OpStop | OpReset | OpDestroy
  | RunDueTask nat | RunnerGone | DeleteTask nat

definition task_at :: "nat \<Rightarrow> 'k timer_world \<Rightarrow> timer_task option" where
  "task_at a w = find (\<lambda>x. tt_addr x = a) (tw_tasks w)"

text \<open>What the interface allows: no operation on a destroyed timer, a \<open>Reset\<close> only with a task
  (\<open>The user_task_ must be set\<close>), delays that are not negative.\<close>

definition timer_allowed :: "(nat \<Rightarrow> i64) \<Rightarrow> 'k timer_op \<Rightarrow> 'k timer_world \<Rightarrow> bool" where
  "timer_allowed clock e w =
     (case e of
        OpStart delay k \<Rightarrow> tw_timer w \<noteq> None \<and> 0 \<le> sint delay \<and> sint delay < 2 ^ 61
      | OpStop \<Rightarrow> tw_timer w \<noteq> None
      | OpReset \<Rightarrow> (case tw_timer w of None \<Rightarrow> False | Some t \<Rightarrow> tm_user_task t \<noteq> None)
      | OpDestroy \<Rightarrow> tw_timer w \<noteq> None
      | RunDueTask a \<Rightarrow> tw_runner w \<and> (case task_at a w of None \<Rightarrow> False | Some x \<Rightarrow> tt_run_time x \<le>s clock (tw_reads w))
      | RunnerGone \<Rightarrow> tw_runner w
      | DeleteTask a \<Rightarrow> \<not> tw_runner w \<and> task_at a w \<noteq> None)"

definition timer_do :: "(nat \<Rightarrow> i64) \<Rightarrow> 'k timer_op \<Rightarrow> 'k timer_world \<Rightarrow> 'k timer_world option" where
  "timer_do clock e w =
     (case e of
        OpStart delay k \<Rightarrow> Option.bind (tw_timer w) (\<lambda>t.
          Timer_Start clock delay k t (timer_log (Requested (clock (tw_reads w)) delay k) w))
      | OpStop \<Rightarrow> map_option (\<lambda>t. timer_log Stopped (w\<lparr>tw_timer := Some (Timer_Stop t)\<rparr>)) (tw_timer w)
      | OpReset \<Rightarrow> Option.bind (tw_timer w) (\<lambda>t. Option.bind (tm_user_task t) (\<lambda>k.
          Timer_Reset clock t (timer_log (Requested (clock (tw_reads w)) (tm_delay t) k) w)))
      | OpDestroy \<Rightarrow> map_option (\<lambda>t. timer_log Stopped (StopAndAbandon t w)\<lparr>tw_timer := None\<rparr>) (tw_timer w)
      | RunDueTask a \<Rightarrow> Option.bind (task_at a w) (\<lambda>x. TimerTask_Run clock x (snd (Now clock w)))
      | RunnerGone \<Rightarrow> Some (w\<lparr>tw_runner := False\<rparr>)
      | DeleteTask a \<Rightarrow> Option.bind (task_at a w) (\<lambda>x.
          TimerTask_delete x (w\<lparr>tw_tasks := filter (\<lambda>y. tt_addr y \<noteq> a) (tw_tasks w)\<rparr>)))"

inductive timer_run :: "(nat \<Rightarrow> i64) \<Rightarrow> 'k timer_world \<Rightarrow> 'k timer_world \<Rightarrow> bool" for clock w0 where
  timer_start: "timer_run clock w0 w0"
| timer_more: "timer_run clock w0 w \<Longrightarrow> timer_allowed clock e w \<Longrightarrow> timer_do clock e w = Some w' \<Longrightarrow>
    timer_run clock w0 w'"

end
