(* ===== verification/Timer_Props.thy ===== *)
theory Timer_Props
  imports Timer
begin

text \<open>
  The timer against an abstract one that is armed with the last request: the user's task never runs early,
  never after a stop, and a one-shot timer runs it once; no operation touches an object that is gone; and a
  running timer has one task pending that will run the user's task.
\<close>

section \<open>The abstract timer\<close>

text \<open>Armed with a time, a delay and a task, or not; \<open>None\<close> when the history is not the history of a timer.\<close>

fun spec_event :: "bool \<Rightarrow> (i64 \<times> i64 \<times> 'k) option \<Rightarrow> 'k timer_event \<Rightarrow> (i64 \<times> i64 \<times> 'k) option option" where
  "spec_event repeating armed (Requested t d k) = Some (Some (t, d, k))"
| "spec_event repeating armed Stopped = Some None"
| "spec_event repeating armed (Ran n k) =
     (case armed of
        None \<Rightarrow> None
      | Some (t, d, k') \<Rightarrow>
          if k = k' \<and> sint t + sint d \<le> sint n then Some (if repeating then Some (n, d, k) else None) else None)"

definition spec_run :: "bool \<Rightarrow> 'k timer_event list \<Rightarrow> (i64 \<times> i64 \<times> 'k) option option" where
  "spec_run repeating h = foldl (\<lambda>s e. Option.bind s (\<lambda>a. spec_event repeating a e)) (Some None) h"

lemma spec_run_Nil [simp]: "spec_run r [] = Some None"
  by (simp add: spec_run_def)

lemma spec_run_snoc [simp]: "spec_run r (h @ [e]) = Option.bind (spec_run r h) (\<lambda>a. spec_event r a e)"
  by (simp add: spec_run_def)

section \<open>The clock\<close>

text \<open>The clock does not go back, and is far from the ends of 64 bits.\<close>

definition clock_ok :: "(nat \<Rightarrow> i64) \<Rightarrow> bool" where
  "clock_ok clock = ((\<forall>n. 0 \<le> sint (clock n) \<and> sint (clock n) < 2 ^ 61) \<and>
     (\<forall>m n. m \<le> n \<longrightarrow> sint (clock m) \<le> sint (clock n)))"

lemma sint_plus:
  assumes "- (2 ^ 63) \<le> sint a + sint b" "sint a + sint b < 2 ^ 63"
  shows "sint (a + b :: i64) = sint a + sint b"
  using assms by (simp add: sint_word_ariths signed_take_bit_int_eq_self)

lemma sint_minus:
  assumes "- (2 ^ 63) \<le> sint a - sint b" "sint a - sint b < 2 ^ 63"
  shows "sint (a - b :: i64) = sint a - sint b"
  using assms by (simp add: sint_word_ariths signed_take_bit_int_eq_self)

section \<open>The invariant\<close>

text \<open>What is known of the times of a running timer, its pending task and the abstract one.\<close>

definition times_ok :: "(nat \<Rightarrow> i64) \<Rightarrow> 'k timer_world \<Rightarrow> 'k base_timer \<Rightarrow> timer_task \<Rightarrow> i64 \<times> i64 \<times> 'k \<Rightarrow> bool" where
  "times_ok clock w t x armed =
     (case armed of (r, d, k) \<Rightarrow>
        tm_user_task t = Some k \<and> d = tm_delay t \<and>
        sint (tm_scheduled_run_time t) \<le> sint (tm_desired_run_time t) \<and>
        sint r + sint d \<le> sint (tm_desired_run_time t) \<and>
        sint (tm_desired_run_time t) \<le> sint (clock (tw_reads w)) + 2 ^ 61 \<and>
        (sint (tm_scheduled_run_time t) = sint (tm_desired_run_time t) \<longrightarrow>
           sint r + sint d \<le> sint (tt_run_time x) \<or> sint r + sint d \<le> sint (clock (tw_reads w))))"

definition timer_inv :: "(nat \<Rightarrow> i64) \<Rightarrow> bool \<Rightarrow> 'k timer_world \<Rightarrow> bool" where
  "timer_inv clock rep w =
     ((\<forall>x\<in>set (tw_tasks w). tt_addr x < tw_next w) \<and> distinct (map tt_addr (tw_tasks w)) \<and>
      (\<exists>armed. spec_run rep (tw_history w) = Some armed \<and>
        (case tw_timer w of
           None \<Rightarrow> armed = None \<and> (\<forall>x\<in>set (tw_tasks w). \<not> tt_timer x)
         | Some t \<Rightarrow>
             tm_is_repeating t = rep \<and> 0 \<le> sint (tm_delay t) \<and> sint (tm_delay t) < 2 ^ 61 \<and>
             (tm_is_running t \<longleftrightarrow> armed \<noteq> None) \<and>
             (case tm_scheduled_task t of
                None \<Rightarrow> \<not> tm_is_running t \<and> (\<forall>x\<in>set (tw_tasks w). \<not> tt_timer x)
              | Some a \<Rightarrow> (\<forall>x\<in>set (tw_tasks w). tt_timer x \<longleftrightarrow> tt_addr x = a) \<and>
                  (\<exists>x\<in>set (tw_tasks w). tt_addr x = a \<and> sint (tt_run_time x) \<le> sint (tm_scheduled_run_time t) \<and>
                     (\<forall>p. armed = Some p \<longrightarrow> times_ok clock w t x p))))))"

text \<open>The parts of the invariant that do not depend on the timer.\<close>

definition tasks_ok :: "'k timer_world \<Rightarrow> bool" where
  "tasks_ok w = ((\<forall>x\<in>set (tw_tasks w). tt_addr x < tw_next w) \<and> distinct (map tt_addr (tw_tasks w)))"

definition detached :: "'k timer_world \<Rightarrow> bool" where
  "detached w = (\<forall>x\<in>set (tw_tasks w). \<not> tt_timer x)"

lemma clock_mono: "clock_ok clock \<Longrightarrow> m \<le> n \<Longrightarrow> sint (clock m) \<le> sint (clock n)"
  by (simp add: clock_ok_def)

lemma clock_bounds: "clock_ok clock \<Longrightarrow> 0 \<le> sint (clock n) \<and> sint (clock n) < 2 ^ 61"
  by (simp add: clock_ok_def)

lemma clock_plus:
  "clock_ok clock \<Longrightarrow> 0 \<le> sint d \<Longrightarrow> sint d \<le> 2 ^ 61 \<Longrightarrow> sint (clock n + d) = sint (clock n) + sint d"
  using clock_bounds [of clock n] by (intro sint_plus) simp_all

text \<open>Posting, while the runner is there and when it is gone.\<close>

lemma post_alive:
  assumes c: "clock_ok clock" and r: "tw_runner w" and k: "tasks_ok w" "detached w"
    and h: "spec_run rep (tw_history w) = Some (Some (r, d, k))"
    and t: "tm_is_repeating t = rep" "0 \<le> sint (tm_delay t)" "sint (tm_delay t) < 2 ^ 61" "tm_user_task t = Some k"
      "d = tm_delay t"
    and d: "0 \<le> sint delay" "sint delay \<le> 2 ^ 61" "sint r + sint d \<le> sint (clock (tw_reads w)) + sint delay"
  shows "\<exists>w'. PostNewScheduledTask clock delay t w = Some w' \<and> timer_inv clock rep w' \<and> tw_history w' = tw_history w"
proof -
  let ?n = "tw_reads w"
  let ?x = "\<lparr>tt_addr = tw_next w, tt_run_time = if 0 <s delay then clock ?n + delay else 0, tt_timer = True\<rparr>"
  let ?t = "t\<lparr>tm_is_running := True, tm_scheduled_task := Some (tw_next w),
    tm_scheduled_run_time := clock (?n + 1) + delay, tm_desired_run_time := clock (?n + 1) + delay\<rparr>"
  let ?w = "w\<lparr>tw_timer := Some ?t, tw_next := tw_next w + 1, tw_reads := ?n + 2, tw_tasks := tw_tasks w @ [?x]\<rparr>"
  have "PostNewScheduledTask clock delay t w = Some ?w"
    using r by (simp add: PostNewScheduledTask_def Let_def Now_def)
  moreover have "times_ok clock ?w ?t ?x (r, d, k)"
    using t d clock_plus [OF c d(1,2)] clock_mono [OF c, of ?n "?n + 1"] clock_mono [OF c, of "?n + 1" "?n + 2"]
    by (auto simp: times_ok_def word_sless_alt)
  moreover have "sint (tt_run_time ?x) \<le> sint (clock (?n + 1) + delay)"
    using clock_plus [OF c d(1,2)] clock_mono [OF c, of ?n "?n + 1"] clock_bounds [OF c, of "?n + 1"] d(1) by simp
  moreover have "\<forall>x\<in>set (tw_tasks ?w). tt_timer x \<longleftrightarrow> tt_addr x = tw_next w"
    using k by (auto simp: detached_def tasks_ok_def)
  moreover have "tasks_ok ?w" using k(1) by (fastforce simp: tasks_ok_def)
  ultimately show ?thesis using h t by (auto simp: timer_inv_def tasks_ok_def intro!: exI [of _ ?w])
qed

lemma Abandon_none: "\<forall>x\<in>set l. tt_addr x \<noteq> a \<Longrightarrow> Abandon a l = l"
  by (auto simp: Abandon_def intro: map_idI)

lemma post_dead:
  assumes r: "\<not> tw_runner w" and k: "tasks_ok w" "detached w" and h: "spec_run rep (tw_history w) \<noteq> None"
    and t: "tm_is_repeating t = rep" "0 \<le> sint (tm_delay t)" "sint (tm_delay t) < 2 ^ 61"
  shows "\<exists>w'. PostNewScheduledTask clock delay t w = Some w' \<and> timer_inv clock rep w'"
proof -
  have "Abandon (tw_next w) (tw_tasks w) = tw_tasks w"
    using k(1) by (intro Abandon_none) (auto simp: tasks_ok_def)
  then show ?thesis using assms
    by (auto simp: PostNewScheduledTask_def TimerTask_delete_def StopAndAbandon_def AbandonScheduledTask_def Let_def
        Now_def Timer_Stop_def timer_inv_def tasks_ok_def detached_def)
qed

text \<open>The tasks while a timer is there: only its own task refers to it.\<close>

definition attached_ok :: "'k base_timer \<Rightarrow> 'k timer_world \<Rightarrow> bool" where
  "attached_ok t w =
     (case tm_scheduled_task t of None \<Rightarrow> detached w
      | Some a \<Rightarrow> (\<forall>x\<in>set (tw_tasks w). tt_timer x \<longleftrightarrow> tt_addr x = a) \<and>
          (\<exists>x\<in>set (tw_tasks w). tt_addr x = a \<and> sint (tt_run_time x) \<le> sint (tm_scheduled_run_time t)))"

lemma Abandon_addrs [simp]: "map tt_addr (Abandon a l) = map tt_addr l"
  by (simp add: Abandon_def)

lemma Abandon_detached: "attached_ok t w \<Longrightarrow> tm_scheduled_task t = Some a \<Longrightarrow> \<forall>x\<in>set (Abandon a (tw_tasks w)). \<not> tt_timer x"
  by (auto simp: Abandon_def attached_ok_def)

lemma Abandon_below: "\<forall>x\<in>set l. tt_addr x < n \<Longrightarrow> \<forall>x\<in>set (Abandon a l). tt_addr x < n"
  by (auto simp: Abandon_def)

lemma timer_inv_attached:
  assumes "timer_inv clock rep w" "tw_timer w = Some t"
  shows "tasks_ok w" "attached_ok t w" "spec_run rep (tw_history w) \<noteq> None"
    "tm_is_repeating t = rep" "0 \<le> sint (tm_delay t)" "sint (tm_delay t) < 2 ^ 61"
    "tm_is_running t \<longleftrightarrow> (\<exists>p. spec_run rep (tw_history w) = Some (Some p))"
  using assms by (auto simp: timer_inv_def tasks_ok_def attached_ok_def detached_def split: option.splits)

lemma timer_inv_armed:
  assumes "timer_inv clock rep w" "tw_timer w = Some t"
  shows "\<exists>armed. spec_run rep (tw_history w) = Some armed \<and> (tm_is_running t \<longleftrightarrow> armed \<noteq> None) \<and>
    (\<forall>a. tm_scheduled_task t = Some a \<longrightarrow>
       (\<exists>x\<in>set (tw_tasks w). tt_addr x = a \<and> sint (tt_run_time x) \<le> sint (tm_scheduled_run_time t) \<and>
          (\<forall>p. armed = Some p \<longrightarrow> times_ok clock w t x p)))"
proof -
  obtain armed where "spec_run rep (tw_history w) = Some armed" "tm_is_running t \<longleftrightarrow> armed \<noteq> None"
    "case tm_scheduled_task t of None \<Rightarrow> True
     | Some a \<Rightarrow> \<exists>x\<in>set (tw_tasks w). tt_addr x = a \<and> sint (tt_run_time x) \<le> sint (tm_scheduled_run_time t) \<and>
         (\<forall>p. armed = Some p \<longrightarrow> times_ok clock w t x p)"
    using assms unfolding timer_inv_def by (cases "tm_scheduled_task t") auto
  then show ?thesis by (intro exI [of _ armed]) (auto split: option.splits)
qed

lemma reset_ok:
  assumes c: "clock_ok clock" and k: "tasks_ok w" "attached_ok t w"
    and h: "spec_run rep (tw_history w) = Some (Some (clock (tw_reads w), tm_delay t, k))"
    and t: "tm_is_repeating t = rep" "0 \<le> sint (tm_delay t)" "sint (tm_delay t) < 2 ^ 61" "tm_user_task t = Some k"
  shows "\<exists>w'. Timer_Reset clock t w = Some w' \<and> timer_inv clock rep w'"
proof (cases "tm_scheduled_task t")
  case None
  then have d: "detached w" using k(2) by (simp add: attached_ok_def)
  have "\<exists>w'. PostNewScheduledTask clock (tm_delay t) t w = Some w' \<and> timer_inv clock rep w'"
  proof (cases "tw_runner w")
    case True
    show ?thesis using post_alive [OF c True k(1) d h t refl, of "tm_delay t"] t(2,3) by auto
  next
    case False
    show ?thesis using post_dead [OF False k(1) d _ t(1-3)] h by simp
  qed
  then show ?thesis using None by (simp add: Timer_Reset_def)
next
  case (Some a)
  let ?n = "clock (tw_reads w)" and ?w1 = "w\<lparr>tw_reads := tw_reads w + 1\<rparr>"
  let ?t1 = "t\<lparr>tm_desired_run_time := ?n + tm_delay t\<rparr>"
  have s: "sint (?n + tm_delay t) = sint ?n + sint (tm_delay t)" using clock_plus [OF c] t(2,3) by simp
  show ?thesis
  proof (cases "tm_scheduled_run_time t <s ?n + tm_delay t")
    case True
    let ?w = "?w1\<lparr>tw_timer := Some (?t1\<lparr>tm_is_running := True\<rparr>)\<rparr>"
    have "Timer_Reset clock t w = Some ?w" using True Some by (simp add: Timer_Reset_def Let_def Now_def)
    moreover have "times_ok clock ?w (?t1\<lparr>tm_is_running := True\<rparr>) x (?n, tm_delay t, k)" for x
      using True t s clock_mono [OF c, of "tw_reads w" "tw_reads w + 1"] by (simp add: times_ok_def word_sless_alt)
    ultimately show ?thesis using k h t Some
      by (auto simp: timer_inv_def tasks_ok_def attached_ok_def)
  next
    case False
    let ?w2 = "?w1\<lparr>tw_timer := Some (?t1\<lparr>tm_scheduled_task := None\<rparr>), tw_tasks := Abandon a (tw_tasks w)\<rparr>"
    have e: "Timer_Reset clock t w = PostNewScheduledTask clock (tm_delay t) (?t1\<lparr>tm_scheduled_task := None\<rparr>) ?w2"
      using False Some by (simp add: Timer_Reset_def Let_def Now_def AbandonScheduledTask_def)
    have k2: "tasks_ok ?w2" "detached ?w2"
      using k Some Abandon_detached [of t w a] Abandon_below by (auto simp: tasks_ok_def detached_def)
    have h2: "spec_run rep (tw_history ?w2) = Some (Some (?n, tm_delay t, k))" using h by simp
    show ?thesis
    proof (cases "tw_runner w")
      case True
      have "sint ?n + sint (tm_delay t) \<le> sint (clock (tw_reads ?w2)) + sint (tm_delay t)"
        using clock_mono [OF c, of "tw_reads w" "tw_reads w + 1"] by simp
      then show ?thesis unfolding e
        using post_alive [OF c _ k2 h2, of "?t1\<lparr>tm_scheduled_task := None\<rparr>" "tm_delay t"] True t by auto
    next
      case False
      then show ?thesis unfolding e using post_dead [OF _ k2, of rep "?t1\<lparr>tm_scheduled_task := None\<rparr>"] h2 t by simp
    qed
  qed
qed

lemma times_later:
  "clock_ok clock \<Longrightarrow> times_ok clock w t x p \<Longrightarrow> tw_reads w \<le> tw_reads w' \<Longrightarrow> times_ok clock w' t x p"
  using clock_mono [of clock "tw_reads w" "tw_reads w'"] by (auto simp: times_ok_def)

lemma post_history:
  "tw_runner w \<Longrightarrow> PostNewScheduledTask clock delay t (w\<lparr>tw_history := h\<rparr>) =
     map_option (\<lambda>w'. w'\<lparr>tw_history := h\<rparr>) (PostNewScheduledTask clock delay t w)"
  by (simp add: PostNewScheduledTask_def Let_def Now_def)

text \<open>The decision to run the user's task, at the last reading \<open>n\<close>, with the tasks detached.\<close>

lemma fire_ok:
  assumes c: "clock_ok clock" and r: "tw_runner w" and k: "tasks_ok w" "detached w"
    and h: "spec_run rep (tw_history w) = Some (Some (r, tm_delay t, k))"
    and t: "tm_is_repeating t = rep" "0 \<le> sint (tm_delay t)" "sint (tm_delay t) < 2 ^ 61" "tm_user_task t = Some k"
      "tm_scheduled_task t = None"
    and d: "sint r + sint (tm_delay t) \<le> sint n" "n = clock (tw_reads w - 1)"
  shows "\<exists>w'. (if tm_is_repeating t
      then Option.bind (PostNewScheduledTask clock (tm_delay t) t w) (run_user_task n (tm_user_task t))
      else run_user_task n (tm_user_task t) (w\<lparr>tw_timer := Some (Timer_Stop t)\<rparr>)) = Some w' \<and>
    timer_inv clock rep w' \<and> tw_history w' = tw_history w @ [Ran n k]"
proof (cases rep)
  case False
  then show ?thesis using assms
    by (simp add: run_user_task_def timer_inv_def Timer_Stop_def tasks_ok_def detached_def)
next
  case True
  let ?w = "w\<lparr>tw_history := tw_history w @ [Ran n k]\<rparr>"
  have "spec_run rep (tw_history ?w) = Some (Some (n, tm_delay t, k))" using h d(1) True by simp
  moreover have "tasks_ok ?w" "detached ?w" using k by (simp_all add: tasks_ok_def detached_def)
  moreover have "sint n + sint (tm_delay t) \<le> sint (clock (tw_reads ?w)) + sint (tm_delay t)"
    using clock_mono [OF c, of "tw_reads w - 1" "tw_reads w"] d(2) by simp
  ultimately obtain w' where w': "PostNewScheduledTask clock (tm_delay t) t ?w = Some w'" "timer_inv clock rep w'"
      "tw_history w' = tw_history w @ [Ran n k]"
    using post_alive [OF c _ _ _ _ t(1-4) refl, of ?w n "tm_delay t"] r t(2,3) by auto
  then obtain w1 where "PostNewScheduledTask clock (tm_delay t) t w = Some w1"
      "w1\<lparr>tw_history := tw_history w @ [Ran n k]\<rparr> = w'"
    unfolding post_history [OF r] by auto
  moreover have "tw_history w1 = tw_history w"
    using calculation(1) r by (auto simp: PostNewScheduledTask_def Let_def Now_def)
  ultimately show ?thesis using w' True t(1,4) by (simp add: run_user_task_def)
qed

lemma run_scheduled_ok:
  assumes c: "clock_ok clock" and r: "tw_runner w" and k: "tasks_ok w" "detached w" and n: "0 < tw_reads w"
    and x: "tt_run_time x \<le>s clock (tw_reads w - 1)" and tm: "tw_timer w = Some t" "tm_scheduled_task t = None"
    and h: "spec_run rep (tw_history w) = Some armed" and run: "tm_is_running t \<longleftrightarrow> armed \<noteq> None"
    and t: "tm_is_repeating t = rep" "0 \<le> sint (tm_delay t)" "sint (tm_delay t) < 2 ^ 61"
    and times: "\<And>p. armed = Some p \<Longrightarrow> times_ok clock (w\<lparr>tw_reads := tw_reads w - 1\<rparr>) t x p"
  shows "\<exists>w'. RunScheduledTask clock t w = Some w' \<and> timer_inv clock rep w' \<and>
    (tm_is_running t \<and> tm_desired_run_time t \<le>s clock (tw_reads w - 1) \<longrightarrow>
       (\<exists>n k. tm_user_task t = Some k \<and> tw_history w' = tw_history w @ [Ran n k]))"
proof (cases armed)
  case None
  then have "RunScheduledTask clock t w = Some w" using run by (simp add: RunScheduledTask_def Let_def)
  then show ?thesis using None k h run t tm by (auto simp: timer_inv_def tasks_ok_def detached_def)
next
  case (Some p)
  obtain r0 d0 u where p: "p = (r0, d0, u)" by (cases p)
  have tt: "tm_user_task t = Some u" "d0 = tm_delay t" "sint (tm_scheduled_run_time t) \<le> sint (tm_desired_run_time t)"
    "sint r0 + sint d0 \<le> sint (tm_desired_run_time t)"
    "sint (tm_desired_run_time t) \<le> sint (clock (tw_reads w - 1)) + 2 ^ 61"
    "sint (tm_scheduled_run_time t) = sint (tm_desired_run_time t) \<Longrightarrow> sint r0 + sint d0 \<le> sint (clock (tw_reads w - 1))"
    using times [OF Some] x unfolding p times_ok_def word_sle_eq by auto
  have h': "spec_run rep (tw_history w) = Some (Some (r0, tm_delay t, u))" using h Some p tt(2) by simp
  have r': "tm_is_running t" using run Some by simp
  show ?thesis
  proof (cases "tm_scheduled_run_time t <s tm_desired_run_time t")
    case False
    then have "sint r0 + sint (tm_delay t) \<le> sint (clock (tw_reads w - 1))"
      using tt(2,3,6) by (simp add: word_sless_alt)
    from fire_ok [OF c r k h' t tt(1) tm(2) this refl] show ?thesis
      using False r' tt(1) by (cases "tm_is_repeating t") (auto simp: RunScheduledTask_def Let_def)
  next
    case later: True
    let ?n = "clock (tw_reads w)" and ?w = "w\<lparr>tw_reads := tw_reads w + 1\<rparr>"
    have k': "tasks_ok ?w" "detached ?w" using k by (simp_all add: tasks_ok_def detached_def)
    have m: "sint (clock (tw_reads w - 1)) \<le> sint ?n" "sint ?n \<le> sint (clock (tw_reads w + 1))"
      using clock_mono [OF c] by simp_all
    show ?thesis
    proof (cases "?n <s tm_desired_run_time t")
      case True
      have s: "sint (tm_desired_run_time t - ?n) = sint (tm_desired_run_time t) - sint ?n"
        using clock_bounds [OF c, of "tw_reads w"] clock_bounds [OF c, of "tw_reads w - 1"] tt(5) True
        by (intro sint_minus) (simp_all add: word_sless_alt)
      have e: "RunScheduledTask clock t w = PostNewScheduledTask clock (tm_desired_run_time t - ?n) t ?w"
        using later True r' by (simp add: RunScheduledTask_def Let_def Now_def)
      have "\<exists>w'. PostNewScheduledTask clock (tm_desired_run_time t - ?n) t ?w = Some w' \<and> timer_inv clock rep w'"
        using post_alive [OF c _ k' _ t tt(1) refl, of r0 "tm_desired_run_time t - ?n"] r h' s m tt(2,4,5) True
        by (auto simp: word_sless_alt)
      then show ?thesis using e True m(1) by (auto simp: word_sless_alt word_sle_eq)
    next
      case False
      then have due: "sint r0 + sint (tm_delay t) \<le> sint ?n" using tt(2,4) by (simp add: word_sless_alt)
      have h2: "spec_run rep (tw_history ?w) = Some (Some (r0, tm_delay t, u))" using h' by simp
      have "tw_runner ?w" "?n = clock (tw_reads ?w - 1)" using r by simp_all
      from fire_ok [OF c this(1) k' h2 t tt(1) tm(2) due this(2)] show ?thesis
        using later False r' tt(1) by (cases "tm_is_repeating t") (auto simp: RunScheduledTask_def Let_def Now_def)
    qed
  qed
qed

section \<open>Every operation\<close>

lemma task_at_in: "task_at a w = Some x \<Longrightarrow> x \<in> set (tw_tasks w) \<and> tt_addr x = a"
  by (auto simp: task_at_def find_Some_iff)

lemma removed_tasks:
  assumes "tasks_ok w" "x \<in> set (tw_tasks w)"
  defines "l \<equiv> filter (\<lambda>y. tt_addr y \<noteq> tt_addr x) (tw_tasks w)"
  shows "\<forall>y\<in>set l. tt_addr y < tw_next w" "distinct (map tt_addr l)"
    "y \<in> set l \<longleftrightarrow> y \<in> set (tw_tasks w) \<and> y \<noteq> x"
proof -
  show "\<forall>y\<in>set l. tt_addr y < tw_next w" "distinct (map tt_addr l)"
    using assms(1) by (auto simp: l_def tasks_ok_def distinct_map_filter)
  have "inj_on tt_addr (set (tw_tasks w))" using assms(1) by (simp add: tasks_ok_def distinct_map)
  then show "y \<in> set l \<longleftrightarrow> y \<in> set (tw_tasks w) \<and> y \<noteq> x"
    using assms(2) by (auto simp: l_def dest: inj_onD)
qed

lemma stop_abandon_inv:
  assumes "timer_inv clock rep w" "tw_timer w = Some t"
  shows "timer_inv clock rep (timer_log Stopped (StopAndAbandon t w))"
    "timer_inv clock rep (timer_log Stopped (StopAndAbandon t w)\<lparr>tw_timer := None\<rparr>)"
proof -
  note i = timer_inv_attached [OF assms]
  have d: "attached_ok t w \<Longrightarrow> tm_scheduled_task t = Some a \<Longrightarrow> \<forall>x\<in>set (Abandon a (tw_tasks w)). \<not> tt_timer x" for a
    by (rule Abandon_detached)
  show "timer_inv clock rep (timer_log Stopped (StopAndAbandon t w))"
    "timer_inv clock rep (timer_log Stopped (StopAndAbandon t w)\<lparr>tw_timer := None\<rparr>)"
    using i d by (cases "tm_scheduled_task t";
      auto simp: timer_inv_def StopAndAbandon_def AbandonScheduledTask_def Timer_Stop_def tasks_ok_def attached_ok_def
        detached_def Abandon_below)+
qed

lemma times_ok_same:
  "times_ok clock w t x p \<Longrightarrow> tw_reads w' = tw_reads w \<Longrightarrow> tm_user_task t' = tm_user_task t \<Longrightarrow>
     tm_delay t' = tm_delay t \<Longrightarrow> tm_scheduled_run_time t' = tm_scheduled_run_time t \<Longrightarrow>
     tm_desired_run_time t' = tm_desired_run_time t \<Longrightarrow> times_ok clock w' t' x p"
  by (simp add: times_ok_def)

lemma drop_abandoned_ok:
  assumes i: "timer_inv clock rep w" and c: "clock_ok clock" and x: "x \<in> set (tw_tasks w)" "\<not> tt_timer x"
    and n: "tw_reads w \<le> n"
  shows "timer_inv clock rep (w\<lparr>tw_reads := n, tw_tasks := filter (\<lambda>y. tt_addr y \<noteq> tt_addr x) (tw_tasks w)\<rparr>)"
    (is "timer_inv clock rep ?w")
proof -
  have k: "tasks_ok w" using i by (simp add: timer_inv_def tasks_ok_def)
  note l = removed_tasks [OF k x(1)]
  have times: "times_ok clock w t y p \<Longrightarrow> times_ok clock ?w t y p" for t y p
    by (erule times_later [OF c]) (simp add: n)
  show ?thesis
  proof (cases "tw_timer w")
    case None
    then show ?thesis using i l by (simp add: timer_inv_def)
  next
    case (Some t)
    obtain armed where h: "spec_run rep (tw_history w) = Some armed" "tm_is_running t \<longleftrightarrow> armed \<noteq> None"
      using i Some by (auto simp: timer_inv_def)
    show ?thesis
    proof (cases "tm_scheduled_task t")
      case None
      then show ?thesis using i Some l by (auto simp: timer_inv_def)
    next
      case (Some b)
      then obtain y where y: "y \<in> set (tw_tasks w)" "tt_addr y = b" "tt_timer y" "sint (tt_run_time y) \<le> sint (tm_scheduled_run_time t)"
        "\<And>p. armed = Some p \<Longrightarrow> times_ok clock w t y p"
        using i h \<open>tw_timer w = Some t\<close> by (fastforce simp: timer_inv_def)
      then have "y \<in> set (tw_tasks ?w)" using l(3) x(2) by auto
      then show ?thesis using i \<open>tw_timer w = Some t\<close> Some l y h times by (fastforce simp: timer_inv_def)
    qed
  qed
qed

lemma run_due_ok:
  assumes i: "timer_inv clock rep w" and c: "clock_ok clock"
    and a: "tw_runner w" "task_at a w = Some x" "tt_run_time x \<le>s clock (tw_reads w)"
  shows "\<exists>w'. timer_do clock (RunDueTask a) w = Some w' \<and> timer_inv clock rep w' \<and>
    (\<forall>t. tw_timer w = Some t \<and> tm_scheduled_task t = Some a \<and> tm_is_running t \<and>
         tm_desired_run_time t \<le>s clock (tw_reads w) \<longrightarrow>
       (\<exists>n k. tm_user_task t = Some k \<and> tw_history w' = tw_history w @ [Ran n k]))"
proof -
  let ?w1 = "w\<lparr>tw_reads := tw_reads w + 1, tw_tasks := filter (\<lambda>y. tt_addr y \<noteq> tt_addr x) (tw_tasks w)\<rparr>"
  have x: "x \<in> set (tw_tasks w)" "tt_addr x = a" using task_at_in [OF a(2)] by auto
  have k: "tasks_ok w" using i by (simp add: timer_inv_def tasks_ok_def)
  note l = removed_tasks [OF k x(1)]
  show ?thesis
  proof (cases "tt_timer x")
    case False
    have "\<not> (tw_timer w = Some t \<and> tm_scheduled_task t = Some a)" for t
      using i x False by (auto simp: timer_inv_def)
    moreover have "timer_do clock (RunDueTask a) w = Some ?w1"
      using False a(2) by (simp add: timer_do_def Now_def TimerTask_Run_def Let_def)
    ultimately show ?thesis using drop_abandoned_ok [OF i c x(1) False, of "tw_reads w + 1"] by auto
  next
    case True
    then obtain t where t: "tw_timer w = Some t" using i x by (auto simp: timer_inv_def split: option.splits)
    note p = timer_inv_attached [OF i t]
    have s: "tm_scheduled_task t = Some a"
      using p(2) x True by (auto simp: attached_ok_def detached_def split: option.splits)
    obtain armed where h: "spec_run rep (tw_history w) = Some armed" "tm_is_running t \<longleftrightarrow> armed \<noteq> None"
      "\<And>q. armed = Some q \<Longrightarrow> times_ok clock w t x q"
    proof -
      obtain armed y where y: "spec_run rep (tw_history w) = Some armed" "tm_is_running t \<longleftrightarrow> armed \<noteq> None"
        "y \<in> set (tw_tasks w)" "tt_addr y = a" "\<And>q. armed = Some q \<Longrightarrow> times_ok clock w t y q"
        using timer_inv_armed [OF i t] s by blast
      have "inj_on tt_addr (set (tw_tasks w))" using k by (simp add: tasks_ok_def distinct_map)
      then have "y = x" using x y(3,4) by (auto dest: inj_onD)
      then show thesis using that y by blast
    qed
    let ?t1 = "t\<lparr>tm_scheduled_task := None\<rparr>" and ?w2 = "?w1\<lparr>tw_timer := Some (t\<lparr>tm_scheduled_task := None\<rparr>)\<rparr>"
    have e: "timer_do clock (RunDueTask a) w = RunScheduledTask clock ?t1 ?w2"
      using True a(2) t by (simp add: timer_do_def Now_def TimerTask_Run_def Let_def)
    have k2: "tasks_ok ?w2" "detached ?w2"
      using l p(2) s x(2) by (auto simp: tasks_ok_def detached_def attached_ok_def)
    have "times_ok clock (?w2\<lparr>tw_reads := tw_reads ?w2 - 1\<rparr>) ?t1 x q" if "armed = Some q" for q
      using times_ok_same [OF h(3) [OF that]] by simp
    then have "\<exists>w'. RunScheduledTask clock ?t1 ?w2 = Some w' \<and> timer_inv clock rep w' \<and>
        (tm_is_running ?t1 \<and> tm_desired_run_time ?t1 \<le>s clock (tw_reads ?w2 - 1) \<longrightarrow>
          (\<exists>n k. tm_user_task ?t1 = Some k \<and> tw_history w' = tw_history ?w2 @ [Ran n k]))"
      using a h(1,2) p by (intro run_scheduled_ok [OF c _ k2, where x = x and armed = armed]) simp_all
    then show ?thesis unfolding e using t by auto
  qed
qed

lemma timer_do_ok:
  assumes i: "timer_inv clock rep w" and c: "clock_ok clock" and a: "timer_allowed clock e w"
  shows "\<exists>w'. timer_do clock e w = Some w' \<and> timer_inv clock rep w'"
proof (cases e)
  case (OpStart delay k)
  then obtain t where t: "tw_timer w = Some t" "0 \<le> sint delay" "sint delay < 2 ^ 61"
    using a by (auto simp: timer_allowed_def)
  note p = timer_inv_attached [OF i t(1)]
  let ?w = "timer_log (Requested (clock (tw_reads w)) delay k) w" and ?t = "SetTaskInfo delay k t"
  have "tasks_ok ?w" "attached_ok ?t ?w"
    using p(1,2) by (simp_all add: tasks_ok_def attached_ok_def detached_def SetTaskInfo_def split: option.splits)
  moreover have "spec_run rep (tw_history ?w) = Some (Some (clock (tw_reads ?w), tm_delay ?t, k))"
    using p(3) by (auto simp: SetTaskInfo_def)
  ultimately have "\<exists>w'. Timer_Reset clock ?t ?w = Some w' \<and> timer_inv clock rep w'"
    using t(2,3) p(4) by (intro reset_ok [OF c]) (simp_all add: SetTaskInfo_def)
  then show ?thesis using OpStart t(1) by (simp add: timer_do_def Timer_Start_def)
next
  case OpReset
  then obtain t k where t: "tw_timer w = Some t" "tm_user_task t = Some k"
    using a by (auto simp: timer_allowed_def split: option.splits)
  note p = timer_inv_attached [OF i t(1)]
  let ?w = "timer_log (Requested (clock (tw_reads w)) (tm_delay t) k) w"
  have "tasks_ok ?w" "attached_ok t ?w"
    using p(1,2) by (simp_all add: tasks_ok_def attached_ok_def detached_def split: option.splits)
  moreover have "spec_run rep (tw_history ?w) = Some (Some (clock (tw_reads ?w), tm_delay t, k))"
    using p(3) by auto
  ultimately have "\<exists>w'. Timer_Reset clock t ?w = Some w' \<and> timer_inv clock rep w'"
    using t(2) p(4-6) by (intro reset_ok [OF c])
  then show ?thesis using OpReset t by (simp add: timer_do_def)
next
  case OpStop
  then obtain t where t: "tw_timer w = Some t" using a by (auto simp: timer_allowed_def)
  show ?thesis using i t OpStop timer_inv_attached [OF i t]
    by (cases "tm_scheduled_task t") (auto simp: timer_do_def timer_inv_def Timer_Stop_def)
next
  case OpDestroy
  then obtain t where t: "tw_timer w = Some t" using a by (auto simp: timer_allowed_def)
  then show ?thesis using OpDestroy stop_abandon_inv(2) [OF i t] by (simp add: timer_do_def)
next
  case (RunDueTask b)
  then obtain x where "tw_runner w" "task_at b w = Some x" "tt_run_time x \<le>s clock (tw_reads w)"
    using a by (auto simp: timer_allowed_def split: option.splits)
  then show ?thesis using RunDueTask run_due_ok [OF i c] by blast
next
  case RunnerGone
  have e: "times_ok clock (w\<lparr>tw_runner := False\<rparr>) = times_ok clock w"
    by (intro ext) (simp add: times_ok_def)
  have "timer_inv clock rep (w\<lparr>tw_runner := False\<rparr>)"
    using i by (cases "tw_timer w"; cases "tm_scheduled_task (the (tw_timer w))"; simp add: timer_inv_def e)
  then show ?thesis using RunnerGone by (simp add: timer_do_def)
next
  case (DeleteTask b)
  then obtain x where x: "task_at b w = Some x" using a by (auto simp: timer_allowed_def)
  let ?w = "w\<lparr>tw_tasks := filter (\<lambda>y. tt_addr y \<noteq> b) (tw_tasks w)\<rparr>"
  show ?thesis
  proof (cases "tt_timer x")
    case False
    have "x \<in> set (tw_tasks w)" "tt_addr x = b" using task_at_in [OF x] by simp_all
    then show ?thesis using drop_abandoned_ok [OF i c _ False, of "tw_reads w"] DeleteTask x False
      by (auto simp: timer_do_def TimerTask_delete_def)
  next
    case True
    have k: "tasks_ok w" using i by (simp add: timer_inv_def tasks_ok_def)
    have xin: "x \<in> set (tw_tasks w)" "tt_addr x = b" using task_at_in [OF x] by simp_all
    then obtain t where t: "tw_timer w = Some t" using i True by (auto simp: timer_inv_def split: option.splits)
    note p = timer_inv_attached [OF i t]
    have s: "tm_scheduled_task t = Some b"
      using p(2) xin True by (auto simp: attached_ok_def detached_def split: option.splits)
    have d: "\<forall>y\<in>set (tw_tasks ?w). \<not> tt_timer y" using p(2) s by (auto simp: attached_ok_def)
    have "timer_do clock e w = Some (timer_log Stopped (StopAndAbandon t ?w))"
      using DeleteTask x True t by (simp add: timer_do_def TimerTask_delete_def)
    moreover have "StopAndAbandon t ?w = ?w\<lparr>tw_timer := Some ((Timer_Stop t)\<lparr>tm_scheduled_task := None\<rparr>)\<rparr>"
      using s Abandon_none [of "tw_tasks ?w" b] by (simp add: StopAndAbandon_def AbandonScheduledTask_def Timer_Stop_def)
    moreover have "tasks_ok ?w" using k by (auto simp: tasks_ok_def distinct_map_filter)
    ultimately show ?thesis using p d by (auto simp: timer_inv_def tasks_ok_def Timer_Stop_def)
  qed
qed

section \<open>Runs of a timer\<close>

text \<open>A timer as its constructors make it.\<close>

definition new_timer :: "'k base_timer \<Rightarrow> bool" where
  "new_timer t =
     ((\<exists>retain rep. t = Timer_new retain rep) \<or>
      (\<exists>delay k rep. t = Timer_new_retained delay k rep \<and> 0 \<le> sint delay \<and> sint delay < 2 ^ 61))"

lemma timer_run_inv:
  assumes "clock_ok clock" "new_timer t" "timer_run clock (timer_world_new t) w"
  shows "timer_inv clock (tm_is_repeating t) w"
  using assms(3)
proof (induction rule: timer_run.induct)
  case timer_start
  then show ?case using assms(2)
    by (auto simp: timer_inv_def timer_world_new_def new_timer_def Timer_new_def Timer_new_retained_def)
next
  case (timer_more w e w')
  then show ?case using timer_do_ok [OF timer_more.IH assms(1) timer_more.hyps(2)] by auto
qed

text \<open>C27: Whatever the user and the runner do, in any order, the history of a timer is one of the abstract timer: the
  user's task runs only while a request is in force, it is the task of the last request, at least the
  delay after that request (for a repeating timer: after the previous time), never after \<open>Stop\<close> or
  the destructor, and a one-shot timer runs it at most once per request; and no operation uses an object
  that is gone or calls a null closure.\<close>

theorem timer_refines_spec:
  assumes "clock_ok clock" "new_timer t" "timer_run clock (timer_world_new t) w"
  shows "spec_run (tm_is_repeating t) (tw_history w) \<noteq> None \<and>
    (timer_allowed clock e w \<longrightarrow> timer_do clock e w \<noteq> None)"
proof -
  have i: "timer_inv clock (tm_is_repeating t) w" by (rule timer_run_inv [OF assms])
  then show ?thesis using timer_do_ok [OF i assms(1), of e] by (auto simp: timer_inv_def)
qed

text \<open>C28: A running timer does run: as long as the runner is there, it has a task pending, and as soon as the clock has
  reached the desired run time that task is due, and running it runs the user's task, however often the timer
  was stopped, restarted and reset before.\<close>

theorem timer_fires:
  assumes "clock_ok clock" "new_timer t0" "timer_run clock (timer_world_new t0) w"
    "tw_timer w = Some t" "tm_is_running t" "tw_runner w" "tm_desired_run_time t \<le>s clock (tw_reads w)"
  shows "\<exists>a w' n k. timer_allowed clock (RunDueTask a) w \<and> timer_do clock (RunDueTask a) w = Some w' \<and>
    tm_user_task t = Some k \<and> tw_history w' = tw_history w @ [Ran n k]"
proof -
  have i: "timer_inv clock (tm_is_repeating t0) w" by (rule timer_run_inv [OF assms(1-3)])
  obtain armed where h: "armed \<noteq> None"
    "\<forall>a. tm_scheduled_task t = Some a \<longrightarrow>
       (\<exists>x\<in>set (tw_tasks w). tt_addr x = a \<and> sint (tt_run_time x) \<le> sint (tm_scheduled_run_time t) \<and>
          (\<forall>p. armed = Some p \<longrightarrow> times_ok clock w t x p))"
    using timer_inv_armed [OF i assms(4)] assms(5) by auto
  obtain a where a: "tm_scheduled_task t = Some a"
    using i assms(4,5) by (cases "tm_scheduled_task t") (auto simp: timer_inv_def)
  then obtain x where x: "x \<in> set (tw_tasks w)" "tt_addr x = a"
    "sint (tt_run_time x) \<le> sint (tm_desired_run_time t)"
    using h by (fastforce simp: times_ok_def)
  obtain y where y: "task_at a w = Some y" "y \<in> set (tw_tasks w)" "tt_addr y = a"
    using x by (cases "task_at a w") (auto simp: task_at_def find_None_iff dest: task_at_in [unfolded task_at_def])
  have "inj_on tt_addr (set (tw_tasks w))" using i by (simp add: timer_inv_def distinct_map)
  then have "y = x" using x y by (auto dest: inj_onD)
  then have due: "tt_run_time y \<le>s clock (tw_reads w)" using x(3) assms(7) by (simp add: word_sle_eq)
  then have "timer_allowed clock (RunDueTask a) w" using y(1) assms(6) by (simp add: timer_allowed_def)
  then show ?thesis using run_due_ok [OF i assms(1,6) y(1) due] assms(4,5,7) a by blast
qed

section \<open>Witnesses\<close>

definition sample_clock :: "nat \<Rightarrow> i64" where "sample_clock n = of_nat (min (10 * n) 1000)"

lemma sample_clock_ok: "clock_ok sample_clock"
proof -
  have "sint (sample_clock n) = int (min (10 * n) 1000)" for n
    unfolding sample_clock_def signed_of_nat by (subst signed_take_bit_int_eq_self) simp_all
  then show ?thesis by (auto simp: clock_ok_def min_def)
qed

text \<open>A one-shot timer started with a delay of 5 at time 0; its task is due at 15.\<close>

definition sample_world :: "nat timer_world" where
  "sample_world = the (timer_do sample_clock (OpStart 5 7) (timer_world_new (Timer_new False False)))"

lemma sample_started: "timer_run sample_clock (timer_world_new (Timer_new False False)) sample_world"
proof (rule timer_run.timer_more [OF timer_run.timer_start, of _ "OpStart 5 7"])
  show a: "timer_allowed sample_clock (OpStart 5 7) (timer_world_new (Timer_new False False :: nat base_timer))"
    by (simp add: timer_allowed_def timer_world_new_def)
  show "timer_do sample_clock (OpStart 5 7) (timer_world_new (Timer_new False False)) = Some sample_world"
    by (simp add: sample_world_def timer_do_def timer_world_new_def Timer_Start_def Timer_Reset_def SetTaskInfo_def
        Timer_new_def PostNewScheduledTask_def Let_def Now_def)
qed

lemma sample_timer:
  "\<exists>t. tw_timer sample_world = Some t \<and> tm_is_running t \<and> tm_desired_run_time t = 15 \<and> tm_user_task t = Some 7"
  "tw_runner sample_world" "tw_reads sample_world = 2" "tw_history sample_world = [Requested 0 5 7]"
  by (simp_all add: sample_world_def timer_do_def timer_world_new_def Timer_Start_def Timer_Reset_def SetTaskInfo_def
      Timer_new_def PostNewScheduledTask_def Let_def Now_def sample_clock_def)

theorem timer_refines_spec_witness:
  "spec_run False (tw_history sample_world) \<noteq> None \<and> timer_do sample_clock OpStop sample_world \<noteq> None"
proof -
  have n: "new_timer (Timer_new False False :: nat base_timer)" by (auto simp: new_timer_def)
  have "timer_allowed sample_clock OpStop sample_world" using sample_timer by (auto simp: timer_allowed_def)
  then show ?thesis using timer_refines_spec [OF sample_clock_ok n sample_started, of OpStop]
    by (simp add: Timer_new_def)
qed

theorem timer_fires_witness:
  "\<exists>a w' n. timer_do sample_clock (RunDueTask a) sample_world = Some w' \<and>
     tw_history w' = [Requested 0 5 7, Ran n 7]"
proof -
  have n: "new_timer (Timer_new False False :: nat base_timer)" by (auto simp: new_timer_def)
  obtain t where t: "tw_timer sample_world = Some t" "tm_is_running t" "tm_desired_run_time t = 15" "tm_user_task t = Some 7"
    using sample_timer(1) by blast
  have "tm_desired_run_time t \<le>s sample_clock (tw_reads sample_world)"
    by (simp add: t sample_timer sample_clock_def word_sle_eq)
  from timer_fires [OF sample_clock_ok n sample_started t(1,2) sample_timer(2) this]
  show ?thesis using t(4) sample_timer(4) by fastforce
qed

end
