(* ===== verification/Spec2Isabelle.thy ===== *)
theory Spec2Isabelle
  imports SyncChannel_Props SyncMessageFilter ServerPort StringUtils_Props CommandLine_Props Values_Props Timer_Props
begin

text \<open>
  Verification of the IPC stack of \<open>chrome_ipc_on_windows\<close> (Chromium's \<open>base\<close> and \<open>ipc\<close> libraries as built
  for 32-bit Windows, and the two programs of \<open>ServerPort\<close> that use them).

  The program.  A server process launches a client and gives it the name of a pipe on the command line.
  Each side writes messages with typed parameters into buffers (\<open>Pickle\<close>, \<open>Message\<close>, \<open>ParamTraits\<close>) and
  hands them to a proxy on its main thread (\<open>ChannelProxy\<close>, or \<open>SyncChannel\<close> for calls that wait for a
  reply); the proxy posts them to the IO thread, whose channel (\<open>Channel\<close>, \<open>ChannelReader\<close>) writes them to the
  pipe and cuts what it reads into messages again.  Threads are message loops that run posted tasks
  (\<open>MessageLoop\<close>, the pumps, \<open>Thread\<close>), found through a table (\<open>BrowserThread\<close>).

  Theories, in the order they import each other:
  \<^item> \<open>Ipc_Prelude\<close>: machine integers (\<open>int\<close>, \<open>size_t\<close> and pointers have 32 bits, \<open>wchar_t\<close> 16), bytes in
    memory, and the collections of rules the other theories share.
  \<^item> \<open>Pickle_Model\<close>, \<open>Pickle_Facts\<close>, \<open>Pickle_Chunks\<close>, \<open>Pickle_Props\<close> (\<open>base/pickle\<close>): the buffer with its
    growth, every write and read, \<open>FindNext\<close>.  Reads stay in bounds, writes append, what is written is
    read back; the contract \<open>writes\<close>/\<open>reads\<close> on which the codecs of the other theories rest.
  \<^item> \<open>Message_Model\<close>, \<open>Message_Facts\<close>, \<open>Message_Props\<close>, \<open>SyncMessage_Props\<close> (\<open>ipc/ipc_message\<close>,
    \<open>ipc/ipc_sync_message\<close>): the header, its flags, reference numbers, replies and their ids.
  \<^item> \<open>Params_Model\<close>, \<open>Params_Facts\<close>, \<open>Params_Props\<close>, \<open>Params_Calls\<close> (\<open>ipc/ipc_message_utils\<close>,
    \<open>ipc_message_macros\<close>): the traits of parameters, the schemas and the dispatchers.  The locale
    \<open>param_traits\<close> is the contract of a trait, interpreted on every modelled one; containers, tuples, calls
    and replies are proved from it.
  \<^item> \<open>NumberStrings\<close> (\<open>base/strings/string_number_conversions\<close>): the decimal and hexadecimal conversions.
  \<^item> \<open>UtfConversions\<close> (\<open>base/utf_string_conversions\<close>, \<open>base/strings/utf_string_conversion_utils\<close>, the decoder
    of \<open>base/third_party/icu\<close>): UTF-8 and UTF-16, through a locale of codecs that both encodings interpret.
  \<^item> \<open>StringUtils\<close>, \<open>StringUtils_Props\<close> (\<open>base/string_util\<close>, \<open>base/strings/string_split\<close>): case, trimming,
    splitting and joining, replacement, and the glob patterns of \<open>MatchPattern\<close> against their meaning.
  \<^item> \<open>CommandLine\<close>, \<open>CommandLine_Props\<close> (\<open>base/command_line\<close>): parsing, quoting, and what survives both.
  \<^item> \<open>Values\<close>, \<open>Values_Props\<close> (\<open>base/values\<close>): the trees of values that messages carry, with every
    operation: paths, removal, merging, copies, comparison; \<open>made\<close> are the values a program can have.
  \<^item> \<open>Timer\<close>, \<open>Timer_Props\<close> (\<open>base/timer\<close>): a timer refines an abstract timer over all sequences of events.
  \<^item> \<open>ChannelReader\<close> (\<open>ipc/ipc_channel_reader\<close>): the stream of the pipe as frames, however it is cut
    into reads; the locale \<open>channel_reader\<close> is the contract of the subclass, which \<open>ChannelWin\<close> provides.
  \<^item> \<open>ChannelWin\<close>, \<open>ChannelWin_Props\<close> (\<open>ipc/ipc_channel_win\<close>): one end of a pipe, its connection,
    validation, output queue and \<open>Close\<close>.  The system calls are the record \<open>os_calls\<close>.
  \<^item> \<open>ChannelProxy\<close>, \<open>ChannelProxy_Frames\<close>, \<open>ChannelProxy_Props\<close> (\<open>ipc/ipc_channel_proxy\<close>): the context
    on both threads; the queues of the threads are lists of tasks, a run is any interleaving (\<open>proxy_run\<close>).
  \<^item> \<open>SyncChannel\<close>, \<open>SyncChannel_Props\<close> (\<open>ipc/ipc_sync_channel\<close>), \<open>SyncMessageFilter\<close>
    (\<open>ipc/ipc_sync_message_filter\<close>): calls that block, nested to any depth over channels that share a
    thread.  A blocking function is cut at its wait; a run (\<open>sync_run\<close>) records begun and ended calls.  The
    dispatch loop of the queue takes what happens while it calls out with the lock released as an argument.
  \<^item> \<open>MessageLoop\<close>, \<open>MessageLoop_Props\<close>, \<open>MessageLoop_Idle\<close> (\<open>base/message_loop\<close>, \<open>pending_task\<close>,
    \<open>run_loop\<close>, \<open>message_pump_default\<close>, the IO pump of \<open>message_pump_win\<close>): the loop and its pumps, one call
    at a time (\<open>pump_step\<close>).  A call is a sequence of small steps (\<open>micro\<close>), on which invariants are checked.
  \<^item> \<open>BrowserThreads\<close>, \<open>Thread_Props\<close> (\<open>base/threading/thread\<close>, \<open>ipc_process/browser_thread_impl\<close>): a thread
    around a loop, \<open>Stop\<close>, and posting through the table of threads, one access to shared memory at a time
    (\<open>post_step\<close>), in every interleaving with the threads that come and go (\<open>posting\<close>).
  \<^item> \<open>ChildProcess\<close>, \<open>ServerPort\<close> (\<open>ServerPort/ipc_process\<close>, the two dialogs): the launcher, the life of
    the child, the server's dialog and its messages before and after the launch.

  Groups of properties.  Wire formats: round trips of pickles, messages, parameters, values, numbers and
  channel names; safety of readers on any bytes (they stay inside the payload, frames and values beyond
  the limits are refused, no NaN gets in).  Streams and channels: delivery, order, authentication,
  closing.  Threads: order of tasks, no lost wake-up, termination of \<open>RunUntilIdle\<close> and \<open>Stop\<close>, safety of
  posts with and without the lock, timers.  Calls: replies reach the call they answer, an error of the
  channel, its closing or the shutdown event ends every call.  Strings and values: conversions, patterns,
  lookup after update.  The programs:
  the message typed in the client is what the server shows, messages keep their order across the launch.

  Termination and fuel.  Loops of the code that always end are total functions.  The loop of
  \<open>ProcessIncomingMessages\<close> has fuel; on this platform a read never succeeds at once, so one round is
  enough (\<open>read_half\<close>).  The waits of \<open>Close\<close> and of \<open>SyncChannel\<close> are bounded by the events that can still
  come (three rounds of \<open>WaitForReply\<close>).  The pumps run step by step; that enough steps end them is proved
  (\<open>run_until_idle_returns\<close>, \<open>thread_stop_returns\<close>).  A post takes 22 steps at most
  (\<open>PostTaskHelper_alone\<close>).  \<open>flush_queue\<close> is a partial function whose result is
  proved for the calls the program makes.

  Parameters and hypotheses.  Win32 (pipes, processes, completion ports, the clock), \<open>realloc\<close> and the
  random numbers are arguments of the definitions.  \<open>realloc_ok\<close> and \<open>alloc_total\<close> state what \<open>realloc\<close>
  promises; \<open>tame_env\<close>, \<open>sound_env\<close> and \<open>quiet_env\<close> restrict what listeners, tasks and other threads do to
  what their interfaces offer, each with an instance in a witness.  In particular the theorems on the ends of
  \<open>RunUntilIdle\<close> and \<open>Stop\<close> are for tasks and I/O handlers that do not use the loop themselves
  (\<open>quiet_env\<close>), and the closure that quits is \<open>ThreadQuitHelper\<close> (\<open>with_quit\<close>).  While
  \<open>dispatch_messages\<close> calls out, other code may queue messages and remove contexts (\<open>bumps\<close>).  The
  observer of \<open>observed_vt\<close> notes what the channel hands to the context before the context acts.
  \<open>CommandLineToArgvW\<close> is any function with the documented rules (\<open>argv_rules\<close>; \<open>scan_argv\<close> is one), the
  locale's \<open>tolower\<close> and the clock of timers are parameters.

  Not modelled.  The POSIX channels and descriptors (another platform); the message log, tracing,
  histograms and debug checks (\<open>DCHECK\<close>), which only observe; the pump for user interfaces, MFC windows and
  COM; the templates behind callbacks (a closure is a value); \<open>PlatformFileInfo\<close> (its times go through
  floating-point arithmetic); \<open>FormatBytesUnlocalized\<close> (the same) and the locale-dependent
  \<open>StartsWithASCII\<close>; the \<open>Log\<close> functions of the traits; the dispatchers of delayed replies; the rest of
  \<open>base\<close> (files, metrics, JSON, preferences, worker pools), which the stack does not use; third-party code
  and tests.
\<close>

end
